(* ===== verification/OS_Prelude.thy ===== *)
theory OS_Prelude
  imports Main "HOL-Library.Word"
begin

text \<open>
  Shared vocabulary of the development: the machine integer types of the C sources, the
  32-bit byte-addressed memory, the result type of operations that may fault or not
  return, the search loop that most of the C code repeats, and fixed-width byte codecs.
\<close>

unbundle bit_operations_syntax

text \<open>Ranges with numeral bounds, such as \<open>[3..<513]\<close>, stay folded.\<close>

declare upt_rec_numeral [simp del]

subsection \<open>Machine integers and memory\<close>

type_synonym u8 = "8 word"
type_synonym u16 = "16 word"
type_synonym u32 = "32 word"
type_synonym mem = "u32 \<Rightarrow> u8"

named_theorems layout_simps
named_theorems run_simps

subsection \<open>Operations that may fault or not return\<close>

text \<open>
  An operation with an unbounded loop or an unchecked array access has the result type
  \<open>'a run\<close>: \<open>None\<close> when the C loop never ends, \<open>Some (Inl f)\<close> when the C code performs an
  access the model gives no meaning to, \<open>Some (Inr x)\<close> when it returns \<open>x\<close>.
\<close>

datatype fault = Out_Of_Bounds | Division_By_Zero | Null_Pointer | Page_Fault

type_synonym 'a run = "(fault + 'a) option"

abbreviation Ret :: "'a \<Rightarrow> 'a run" where
  "Ret x \<equiv> Some (Inr x)"

abbreviation Fault :: "fault \<Rightarrow> 'a run" where
  "Fault f \<equiv> Some (Inl f)"

definition run_bind :: "'a run \<Rightarrow> ('a \<Rightarrow> 'b run) \<Rightarrow> 'b run" where
  "run_bind r k = (case r of None \<Rightarrow> None | Some (Inl f) \<Rightarrow> Some (Inl f) | Some (Inr x) \<Rightarrow> k x)"

lemma run_bind_simps [simp, run_simps]:
  "run_bind None k = None"
  "run_bind (Fault f) k = Fault f"
  "run_bind (Ret x) k = k x"
  by (simp_all add: run_bind_def)

lemma run_bind_RetE:
  assumes "run_bind r k = Ret y"
  obtains x where "r = Ret x" and "k x = Ret y"
  using assms by (auto simp: run_bind_def split: option.splits sum.splits)

subsection \<open>Byte ranges of memory\<close>

text \<open>Addresses wrap around at \<open>2 ^ 32\<close>, as pointer arithmetic does on the target.\<close>

definition mem_read :: "mem \<Rightarrow> u32 \<Rightarrow> nat \<Rightarrow> u8 list" where
  "mem_read m p n = map (\<lambda>i. m (p + of_nat i)) [0..<n]"

definition mem_write :: "mem \<Rightarrow> u32 \<Rightarrow> u8 list \<Rightarrow> mem" where
  "mem_write m p bs = (\<lambda>a. if unat (a - p) < length bs then bs ! unat (a - p) else m a)"

lemma length_mem_read [simp, layout_simps]: "length (mem_read m p n) = n"
  by (simp add: mem_read_def)

lemma nth_mem_read [simp]: "i < n \<Longrightarrow> mem_read m p n ! i = m (p + of_nat i)"
  by (simp add: mem_read_def)

lemma mem_write_Nil [simp]: "mem_write m p [] = m"
  by (simp add: mem_write_def)

lemma unat_of_nat_u32: "i < 2 ^ 32 \<Longrightarrow> unat (of_nat i :: u32) = i"
  by (simp add: unat_of_nat)

lemma unat_u32_le [simp]: "unat (n :: u32) \<le> 4294967296"
  using unsigned_less [of n, where 'a = nat] by simp

lemma unat_add_one_less:
  assumes "(a :: u32) < b"
  shows "unat (a + 1) = unat a + 1" "a \<le> a + 1" "a + 1 \<le> b"
proof -
  show u: "unat (a + 1) = unat a + 1"
    using assms unsigned_less [of b, where 'a = nat] by (simp add: word_less_nat_alt unat_word_ariths)
  then show "a \<le> a + 1" "a + 1 \<le> b"
    using assms by (simp_all add: word_le_nat_alt word_less_nat_alt)
qed

lemma mem_read_write_same:
  assumes "length bs \<le> 2 ^ 32"
  shows "mem_read (mem_write m p bs) p (length bs) = bs"
  using assms by (intro nth_equalityI) (auto simp: mem_write_def unat_of_nat_u32)

lemma mem_write_outside: "length bs \<le> unat (a - p) \<Longrightarrow> mem_write m p bs a = m a"
  by (simp add: mem_write_def)

lemma mem_read_add:
  "mem_read m p (n + k) = mem_read m p n @ mem_read m (p + of_nat n) k"
  by (rule nth_equalityI) (auto simp: nth_append add.assoc simp flip: of_nat_add)

lemma mem_write_append:
  assumes "length xs + length ys \<le> 2 ^ 32"
  shows "mem_write (mem_write m p xs) (p + of_nat (length xs)) ys = mem_write m p (xs @ ys)"
proof
  fix a :: u32
  define d where "d = a - p"
  have a: "a = p + d" by (simp add: d_def)
  have sub: "a - (p + of_nat (length xs)) = d - of_nat (length xs)"
    by (simp add: a)
  have lo: "\<not> unat (d - of_nat (length xs)) < length ys" if "unat d < length xs"
  proof -
    have "unat (d - of_nat (length xs)) = 2 ^ 32 - (length xs - unat d)"
      using that assms
      by (cases "length xs = 2 ^ 32")
        (auto simp: unat_sub_if' unat_of_nat)
    then show ?thesis using that assms by linarith
  qed
  have hi: "unat (d - of_nat (length xs)) = unat d - length xs" if "length xs \<le> unat d"
  proof -
    have "unat d < 2 ^ 32" using unsigned_less [of d, where 'a = nat] by simp
    with that have "unat (of_nat (length xs) :: u32) = length xs"
      by (intro unat_of_nat_u32) simp
    with that show ?thesis by (simp add: unat_sub word_le_nat_alt)
  qed
  show "mem_write (mem_write m p xs) (p + of_nat (length xs)) ys a = mem_write m p (xs @ ys) a"
  proof (cases "unat d < length xs")
    case True
    then show ?thesis using lo [OF True]
      by (simp add: mem_write_def sub nth_append flip: d_def)
  next
    case False
    then show ?thesis using hi
      by (auto simp: mem_write_def sub nth_append simp flip: d_def)
  qed
qed

subsection \<open>The search loop\<close>

text \<open>
  \<^verbatim>\<open>while (i < n && P(i)) i++;\<close> -- the value of \<^verbatim>\<open>i\<close> after the loop. The sources use it
  for free clusters, directory entries, page frames, page directories and process slots.
\<close>

function scan_while :: "(nat \<Rightarrow> bool) \<Rightarrow> nat \<Rightarrow> nat \<Rightarrow> nat" where
  "scan_while P i n = (if i < n \<and> P i then scan_while P (Suc i) n else i)"
  by pat_completeness auto
termination
  by (relation "measure (\<lambda>(P, i, n). n - i)") auto

declare scan_while.simps [simp del]

lemma scan_while_bounds: "i \<le> n \<Longrightarrow> i \<le> scan_while P i n \<and> scan_while P i n \<le> n"
proof (induction P i n rule: scan_while.induct)
  case (1 P i n)
  then show ?case
    by (cases "i < n \<and> P i") (auto simp: scan_while.simps [of P i n])
qed

lemmas scan_while_ge = scan_while_bounds [THEN conjunct1]
lemmas scan_while_le = scan_while_bounds [THEN conjunct2]

lemma scan_while_skipped: "i \<le> k \<Longrightarrow> k < scan_while P i n \<Longrightarrow> P k"
proof (induction P i n rule: scan_while.induct)
  case (1 P i n)
  then show ?case
    by (cases "i < n \<and> P i"; cases "k = i") (auto simp: scan_while.simps [of P i n])
qed

lemma scan_while_stop: "scan_while P i n < n \<Longrightarrow> \<not> P (scan_while P i n)"
proof (induction P i n rule: scan_while.induct)
  case (1 P i n)
  then show ?case
    by (cases "i < n \<and> P i") (auto simp: scan_while.simps [of P i n])
qed

lemma scan_while_eqI:
  assumes "i \<le> j" "j \<le> n" "\<And>k. i \<le> k \<Longrightarrow> k < j \<Longrightarrow> P k" "j < n \<Longrightarrow> \<not> P j"
  shows "scan_while P i n = j"
proof (rule ccontr)
  assume ne: "scan_while P i n \<noteq> j"
  have b: "i \<le> scan_while P i n" "scan_while P i n \<le> n"
    using assms(1,2) scan_while_bounds [of i n P] by auto
  from ne consider "scan_while P i n < j" | "j < scan_while P i n" by linarith
  then show False
  proof cases
    case 1
    then have "P (scan_while P i n)" using assms(3) b by blast
    moreover have "scan_while P i n < n" using 1 assms(2) by simp
    ultimately show False using scan_while_stop by blast
  next
    case 2
    then have "P j" using scan_while_skipped assms(1) by blast
    with 2 b assms(4) show False by simp
  qed
qed

lemma scan_while_cong:
  assumes "i = i'" "n = n'" "\<And>k. i \<le> k \<Longrightarrow> k < n \<Longrightarrow> P k = Q k"
  shows "scan_while P i n = scan_while Q i' n'"
proof (cases "i \<le> n")
  case True
  note b = scan_while_bounds [OF True, of Q]
  have "scan_while P i n = scan_while Q i n"
    using b scan_while_skipped [of i _ Q n] scan_while_stop [of Q i n] assms(3)
    by (intro scan_while_eqI) auto
  then show ?thesis using assms(1,2) by simp
next
  case False
  then show ?thesis using assms(1,2) by (simp add: scan_while.simps [of _ i'])
qed

lemma scan_while_end_iff:
  assumes "i \<le> n"
  shows "scan_while P i n = n \<longleftrightarrow> (\<forall>k. i \<le> k \<and> k < n \<longrightarrow> P k)"
  using assms scan_while_skipped [of i _ P n] scan_while_eqI [of i n n P] by (metis le_refl less_irrefl)

lemma filter_upt_Cons: "i < n \<Longrightarrow> filter P [i..<n] = (if P i then i # filter P [Suc i..<n] else filter P [Suc i..<n])"
  by (simp add: upt_conv_Cons)

lemma filter_upt_skip:
  "i \<le> j \<Longrightarrow> j \<le> n \<Longrightarrow> (\<And>k. i \<le> k \<Longrightarrow> k < j \<Longrightarrow> \<not> P k) \<Longrightarrow> filter P [i..<n] = filter P [j..<n]"
  using upt_add_eq_append [of i j "n - j"] by (simp add: filter_empty_conv)

lemma filter_upt_scan:
  assumes "i \<le> n"
  shows "filter P [i..<n] =
    (if scan_while (\<lambda>k. \<not> P k) i n < n
     then scan_while (\<lambda>k. \<not> P k) i n # filter P [Suc (scan_while (\<lambda>k. \<not> P k) i n)..<n] else [])"
proof -
  let ?j = "scan_while (\<lambda>k. \<not> P k) i n"
  have "filter P [i..<n] = filter P [?j..<n]"
    using assms scan_while_bounds [OF assms] scan_while_skipped [of i _ "\<lambda>k. \<not> P k" n]
    by (intro filter_upt_skip) auto
  then show ?thesis
    using scan_while_stop [of "\<lambda>k. \<not> P k" i n] by (auto simp: filter_upt_Cons)
qed

lemma filter_upt_ConsD:
  assumes "filter P [i..<n] = j # js"
  shows "i \<le> j" "j < n" "P j" "js = filter P [Suc j..<n]"
proof -
  have *: "filter P [i..<n] = j # js \<Longrightarrow> i \<le> j \<and> j < n \<and> P j \<and> js = filter P [Suc j..<n]" for i
  proof (induction "n - i" arbitrary: i)
    case (Suc d)
    then have i: "i < n" "d = n - Suc i" by auto
    show ?case
    proof (cases "P i")
      case True
      with Suc.prems i show ?thesis by (auto simp: filter_upt_Cons)
    next
      case False
      with Suc.prems i Suc.hyps(1) [OF i(2)] show ?thesis by (simp add: filter_upt_Cons)
    qed
  qed simp
  show "i \<le> j" "j < n" "P j" "js = filter P [Suc j..<n]" using * [OF assms] by auto
qed

subsection \<open>Fixed-width byte codecs\<close>

definition enc_array :: "('a \<Rightarrow> u8 list) \<Rightarrow> 'a list \<Rightarrow> u8 list" where
  "enc_array enc xs = concat (map enc xs)"

primrec dec_array :: "(u8 list \<Rightarrow> 'a) \<Rightarrow> nat \<Rightarrow> nat \<Rightarrow> u8 list \<Rightarrow> 'a list" where
  "dec_array dec w 0 bs = []"
| "dec_array dec w (Suc n) bs = dec (take w bs) # dec_array dec w n (drop w bs)"

lemma length_dec_array [simp]: "length (dec_array dec w n bs) = n"
  by (induction n arbitrary: bs) auto

lemma nth_dec_array:
  "i < n \<Longrightarrow> dec_array dec w n bs ! i = dec (take w (drop (w * i) bs))"
proof (induction n arbitrary: bs i)
  case (Suc n)
  then show ?case by (cases i) (auto simp: add.commute)
qed simp

text \<open>A codec of constant width, and its laws; the laws are inherited by arrays.\<close>

locale byte_codec =
  fixes enc :: "'a \<Rightarrow> u8 list"
    and dec :: "u8 list \<Rightarrow> 'a"
    and wf :: "'a \<Rightarrow> bool"
    and width :: nat
  assumes length_enc: "wf x \<Longrightarrow> length (enc x) = width"
    and dec_enc: "wf x \<Longrightarrow> dec (enc x) = x"
    and enc_dec: "length bs = width \<Longrightarrow> enc (dec bs) = bs"
    and wf_dec: "length bs = width \<Longrightarrow> wf (dec bs)"
begin

lemma enc_inject: "wf x \<Longrightarrow> wf y \<Longrightarrow> enc x = enc y \<longleftrightarrow> x = y"
  by (metis dec_enc)

lemma length_enc_array: "\<forall>x\<in>set xs. wf x \<Longrightarrow> length (enc_array enc xs) = length xs * width"
  by (induction xs) (auto simp: enc_array_def length_enc)

lemma dec_enc_array:
  "\<forall>x\<in>set xs. wf x \<Longrightarrow> dec_array dec width (length xs) (enc_array enc xs) = xs"
  by (induction xs) (auto simp: enc_array_def length_enc dec_enc)

lemma enc_dec_array:
  "length bs = n * width \<Longrightarrow> enc_array enc (dec_array dec width n bs) = bs"
proof (induction n arbitrary: bs)
  case (Suc n)
  have "enc_array enc (dec_array dec width n (drop width bs)) = drop width bs"
    using Suc by simp
  moreover have "enc (dec (take width bs)) = take width bs"
    using Suc.prems by (intro enc_dec) simp
  ultimately show ?case by (simp add: enc_array_def)
qed (simp add: enc_array_def)

lemma wf_dec_array:
  "length bs = n * width \<Longrightarrow> \<forall>x\<in>set (dec_array dec width n bs). wf x"
proof (induction n arbitrary: bs)
  case (Suc n)
  then have "\<forall>x\<in>set (dec_array dec width n (drop width bs)). wf x" by (intro Suc.IH) simp
  moreover have "wf (dec (take width bs))" using Suc.prems by (intro wf_dec) simp
  ultimately show ?case by simp
qed simp

end

locale byte_codec_array = byte_codec enc dec wf width
  for enc :: "'a \<Rightarrow> u8 list" and dec wf width +
  fixes n :: nat

sublocale byte_codec_array \<subseteq>
  arr: byte_codec "enc_array enc" "dec_array dec width n"
    "\<lambda>xs. length xs = n \<and> (\<forall>x\<in>set xs. wf x)" "n * width"
  by unfold_locales
    (auto simp: length_enc_array dec_enc_array enc_dec_array dest: wf_dec_array)

subsection \<open>Little-endian words\<close>

definition enc_u16 :: "u16 \<Rightarrow> u8 list" where
  "enc_u16 w = [ucast w, ucast (drop_bit 8 w)]"

definition dec_u16 :: "u8 list \<Rightarrow> u16" where
  "dec_u16 bs = ucast (bs ! 0) OR push_bit 8 (ucast (bs ! 1))"

definition enc_u32 :: "u32 \<Rightarrow> u8 list" where
  "enc_u32 w = [ucast w, ucast (drop_bit 8 w), ucast (drop_bit 16 w), ucast (drop_bit 24 w)]"

definition dec_u32 :: "u8 list \<Rightarrow> u32" where
  "dec_u32 bs = ucast (bs ! 0) OR push_bit 8 (ucast (bs ! 1)) OR
     push_bit 16 (ucast (bs ! 2)) OR push_bit 24 (ucast (bs ! 3))"

lemma bit_u8_beyond: "8 \<le> n \<Longrightarrow> \<not> bit (x :: u8) n"
  by (auto dest: bit_imp_le_length)

lemma dec_enc_u16 [simp]: "dec_u16 (enc_u16 w) = w"
  by (rule bit_word_eqI) (auto simp: dec_u16_def enc_u16_def bit_simps)

lemma enc_dec_u16: "length bs = 2 \<Longrightarrow> enc_u16 (dec_u16 bs) = bs"
  by (auto simp: length_Suc_conv numeral_2_eq_2 enc_u16_def dec_u16_def)
    (rule bit_word_eqI; simp add: bit_simps bit_u8_beyond)+

lemma dec_enc_u32 [simp]: "dec_u32 (enc_u32 w) = w"
proof (rule bit_word_eqI)
  fix n assume "n < LENGTH(32)"
  then consider "n < 8" | "8 \<le> n" "n < 16" | "16 \<le> n" "n < 24" | "24 \<le> n" "n < 32"
    by fastforce
  then show "bit (dec_u32 (enc_u32 w)) n = bit w n"
    by cases (auto simp: dec_u32_def enc_u32_def bit_simps)
qed

lemma enc_dec_u32_Cons: "enc_u32 (dec_u32 [a, b, c, d]) = [a, b, c, d]"
  unfolding enc_u32_def dec_u32_def list.inject
  by (intro conjI refl) (rule bit_word_eqI; simp add: bit_simps bit_u8_beyond)+

lemma enc_dec_u32: "length bs = 4 \<Longrightarrow> enc_u32 (dec_u32 bs) = bs"
  by (auto simp: length_Suc_conv numeral_eq_Suc enc_dec_u32_Cons)

lemma length_enc_words [simp, layout_simps]: "length (enc_u16 v) = 2" "length (enc_u32 w) = 4"
  by (simp_all add: enc_u16_def enc_u32_def)

interpretation u16_codec: byte_codec enc_u16 dec_u16 "\<lambda>_. True" 2
  by unfold_locales (auto simp: enc_dec_u16)

interpretation u32_codec: byte_codec enc_u32 dec_u32 "\<lambda>_. True" 4
  by unfold_locales (auto simp: enc_dec_u32)

subsection \<open>First-fit allocators\<close>

text \<open>
  The kernel hands out clusters, page frames, page directories and process slots in the same
  way: the first slot that is not taken. The locale states the contract of such a table; its
  lemmas give the outcome of the search and the number of free slots over time.
\<close>

locale slot_allocator =
  fixes slot_count :: nat
    and wf :: "'s \<Rightarrow> bool"
    and taken :: "'s \<Rightarrow> nat \<Rightarrow> bool"
    and search :: "'s \<Rightarrow> nat"
    and acquire :: "nat \<Rightarrow> 's \<Rightarrow> 's"
    and release :: "nat \<Rightarrow> 's \<Rightarrow> 's"
  assumes search_le: "wf s \<Longrightarrow> search s \<le> slot_count"
    and search_free: "wf s \<Longrightarrow> search s < slot_count \<Longrightarrow> \<not> taken s (search s)"
    and search_least: "wf s \<Longrightarrow> i < search s \<Longrightarrow> taken s i"
    and acquire_wf: "wf s \<Longrightarrow> i < slot_count \<Longrightarrow> wf (acquire i s)"
    and acquire_taken: "wf s \<Longrightarrow> i < slot_count \<Longrightarrow> j < slot_count \<Longrightarrow> taken (acquire i s) j \<longleftrightarrow> j = i \<or> taken s j"
    and release_wf: "wf s \<Longrightarrow> i < slot_count \<Longrightarrow> wf (release i s)"
    and release_taken: "wf s \<Longrightarrow> i < slot_count \<Longrightarrow> j < slot_count \<Longrightarrow> taken (release i s) j \<longleftrightarrow> j \<noteq> i \<and> taken s j"
begin

definition free_slots :: "'s \<Rightarrow> nat set" where
  "free_slots s = {i. i < slot_count \<and> \<not> taken s i}"

lemma finite_free_slots [simp]: "finite (free_slots s)"
  by (simp add: free_slots_def)

lemma search_full_iff:
  assumes "wf s"
  shows "search s = slot_count \<longleftrightarrow> free_slots s = {}"
proof
  assume "search s = slot_count"
  then show "free_slots s = {}" using search_least [OF assms] by (auto simp: free_slots_def)
next
  assume "free_slots s = {}"
  then have "\<not> search s < slot_count" using search_free [OF assms] by (auto simp: free_slots_def)
  then show "search s = slot_count" using search_le [OF assms] by simp
qed

lemma search_found:
  assumes "wf s" "free_slots s \<noteq> {}"
  shows "search s \<in> free_slots s" "\<And>i. i \<in> free_slots s \<Longrightarrow> search s \<le> i"
proof -
  have "search s < slot_count" using assms search_full_iff [of s] search_le [of s] by force
  then show "search s \<in> free_slots s" using search_free assms(1) by (simp add: free_slots_def)
  show "\<And>i. i \<in> free_slots s \<Longrightarrow> search s \<le> i"
    using search_least [OF assms(1)] unfolding free_slots_def by (metis mem_Collect_eq not_le)
qed

lemma free_slots_acquire: "wf s \<Longrightarrow> i < slot_count \<Longrightarrow> free_slots (acquire i s) = free_slots s - {i}"
  by (auto simp: free_slots_def acquire_taken)

lemma free_slots_release: "wf s \<Longrightarrow> i < slot_count \<Longrightarrow> free_slots (release i s) = insert i (free_slots s)"
  by (auto simp: free_slots_def release_taken)

lemma card_acquire_search:
  assumes "wf s" "free_slots s \<noteq> {}"
  shows "card (free_slots (acquire (search s) s)) = card (free_slots s) - 1"
  using search_found(1) [OF assms] assms(1)
  by (subst free_slots_acquire) (auto simp: free_slots_def)

lemma card_release:
  assumes "wf s" "i < slot_count" "taken s i"
  shows "card (free_slots (release i s)) = Suc (card (free_slots s))"
  using assms by (simp add: free_slots_release) (simp add: free_slots_def)

end

subsection \<open>Transition systems with an invariant\<close>

text \<open>
  Kernel components are used as transition systems: a set of initial states and a step
  relation. The locale gives the principle by which their invariants are proved.
\<close>

inductive reachable :: "('s \<Rightarrow> bool) \<Rightarrow> ('s \<Rightarrow> 's \<Rightarrow> bool) \<Rightarrow> 's \<Rightarrow> bool"
  for init :: "'s \<Rightarrow> bool" and step :: "'s \<Rightarrow> 's \<Rightarrow> bool" where
  reachable_init: "init s \<Longrightarrow> reachable init step s"
| reachable_step: "reachable init step s \<Longrightarrow> step s s' \<Longrightarrow> reachable init step s'"

locale invariant_system =
  fixes init :: "'s \<Rightarrow> bool"
    and step :: "'s \<Rightarrow> 's \<Rightarrow> bool"
    and inv :: "'s \<Rightarrow> bool"
  assumes init_inv: "init s \<Longrightarrow> inv s"
    and step_inv: "inv s \<Longrightarrow> step s s' \<Longrightarrow> inv s'"
begin

lemma reachable_inv: "reachable init step s \<Longrightarrow> inv s"
  by (induction rule: reachable.induct) (auto intro: init_inv step_inv)

lemma steps_inv: "step\<^sup>*\<^sup>* s s' \<Longrightarrow> inv s \<Longrightarrow> inv s'"
  by (induction rule: rtranclp_induct) (auto intro: step_inv)

end

end
