(* ===== verification/Block_Device.thy ===== *)
theory Block_Device
  imports OS_Prelude
begin

text \<open>
  Block storage. The FAT32 driver is linked either with \<^verbatim>\<open>src/src/disk.c\<close> (ATA PIO, in the
  kernel) or with the block routines of \<^verbatim>\<open>src/src/external-inserter.c\<close> (a 4 MiB disk image
  in host memory). Both present the same block store: a map from logical block addresses
  to blocks of \<open>BLOCK_SIZE\<close> bytes. The locale states that contract.
\<close>

definition BLOCK_SIZE :: nat where
  [simp]: "BLOCK_SIZE = 512"

type_synonym disk = "u32 \<Rightarrow> u8 list"

subsection \<open>The block store\<close>

definition read_blocks :: "disk \<Rightarrow> u32 \<Rightarrow> u8 \<Rightarrow> u8 list" where
  "read_blocks d lba n = concat (map (\<lambda>i. d (lba + of_nat i)) [0..<unat n])"

definition write_blocks :: "disk \<Rightarrow> u32 \<Rightarrow> u8 \<Rightarrow> u8 list \<Rightarrow> disk" where
  "write_blocks d lba n bs =
     fold (\<lambda>i d. d(lba + of_nat i := take BLOCK_SIZE (drop (BLOCK_SIZE * i) bs))) [0..<unat n] d"

definition wf_disk :: "disk \<Rightarrow> bool" where
  "wf_disk d \<longleftrightarrow> (\<forall>a. length (d a) = BLOCK_SIZE)"

lemma fold_fun_upd_apply:
  "inj_on p (set is) \<Longrightarrow> distinct is \<Longrightarrow>
     fold (\<lambda>i d. d(p i := f i)) is d a = (if a \<in> p ` set is then f (the_inv_into (set is) p a) else d a)"
proof (induction "is" arbitrary: d)
  case (Cons i "is")
  then have inj: "inj_on p (set is)" by (simp add: inj_on_def)
  have "the_inv_into (set (i # is)) p a = the_inv_into (set is) p a" if "a \<in> p ` set is"
    using that Cons.prems(1) inj by (auto simp: the_inv_into_f_f)
  moreover have "the_inv_into (set (i # is)) p (p i) = i"
    using Cons.prems(1) by (intro the_inv_into_f_f) auto
  ultimately show ?case using Cons inj by (auto simp: inj_on_def)
qed simp

lemma inj_on_lba: "inj_on (\<lambda>i. lba + of_nat i :: u32) (set [0..<unat (n :: u8)])"
proof (rule inj_onI)
  fix i j
  assume "i \<in> set [0..<unat n]" "j \<in> set [0..<unat n]" "lba + of_nat i = (lba + of_nat j :: u32)"
  moreover have "unat n < 2 ^ 32" using unsigned_less [of n, where 'a = nat] by simp
  ultimately show "i = j"
    by (metis add_left_cancel atLeastLessThan_iff less_trans set_upt unat_of_nat_u32)
qed

lemma write_blocks_apply:
  "write_blocks d lba n bs a =
     (if unat (a - lba) < unat n then take BLOCK_SIZE (drop (BLOCK_SIZE * unat (a - lba)) bs) else d a)"
proof -
  let ?p = "\<lambda>i. lba + of_nat i :: u32"
  have mem: "a \<in> ?p ` set [0..<unat n] \<longleftrightarrow> unat (a - lba) < unat n"
  proof
    assume "a \<in> ?p ` set [0..<unat n]"
    then show "unat (a - lba) < unat n"
      using unsigned_less [of n, where 'a = nat] by (auto simp: unat_of_nat_u32)
  next
    assume "unat (a - lba) < unat n"
    then show "a \<in> ?p ` set [0..<unat n]"
      by (intro image_eqI [where x = "unat (a - lba)"]) auto
  qed
  have inv: "the_inv_into (set [0..<unat n]) ?p a = unat (a - lba)" if "unat (a - lba) < unat n"
    using that by (intro the_inv_into_f_eq [OF inj_on_lba]) auto
  show ?thesis
    using inv mem fold_fun_upd_apply [of ?p "[0..<unat n]"
        "\<lambda>i. take BLOCK_SIZE (drop (BLOCK_SIZE * i) bs)" d a] inj_on_lba [of lba n]
    by (auto simp: write_blocks_def)
qed

lemma length_read_blocks: "wf_disk d \<Longrightarrow> length (read_blocks d lba n) = BLOCK_SIZE * unat n"
  by (simp add: read_blocks_def length_concat comp_def wf_disk_def sum_list_triv)

lemma concat_chunks:
  "length bs = w * k \<Longrightarrow> concat (map (\<lambda>i. take w (drop (w * i) bs)) [0..<k]) = bs"
proof (induction k arbitrary: bs)
  case (Suc k)
  have "concat (map (\<lambda>i. take w (drop (w * i) bs)) [0..<Suc k]) =
    concat (map (\<lambda>i. take w (drop (w * i) (take (w * k) bs))) [0..<k]) @ take w (drop (w * k) bs)"
    by (auto simp: take_drop min_def intro!: arg_cong [where f = concat])
      (metis Suc_leI mult.commute mult_Suc mult_le_mono1)
  also have "\<dots> = take (w * k) bs @ take w (drop (w * k) bs)"
    using Suc by simp
  also have "\<dots> = bs" using Suc.prems by simp
  finally show ?case .
qed simp

lemma read_write_blocks_same:
  assumes "length bs = BLOCK_SIZE * unat n"
  shows "read_blocks (write_blocks d lba n bs) lba n = bs"
proof -
  have "unat n < 2 ^ 32" using unsigned_less [of n, where 'a = nat] by simp
  then have "map (\<lambda>i. write_blocks d lba n bs (lba + of_nat i)) [0..<unat n] =
    map (\<lambda>i. take BLOCK_SIZE (drop (BLOCK_SIZE * i) bs)) [0..<unat n]"
    by (simp add: write_blocks_apply unat_of_nat_u32)
  then show ?thesis using concat_chunks [OF assms] by (simp only: read_blocks_def)
qed

lemma read_write_blocks_other:
  assumes "\<And>i j. i < unat n' \<Longrightarrow> j < unat n \<Longrightarrow> lba' + of_nat i \<noteq> lba + of_nat j"
  shows "read_blocks (write_blocks d lba n bs) lba' n' = read_blocks d lba' n'"
proof -
  have "\<not> unat (lba' + of_nat i - lba) < unat n" if "i < unat n'" for i
    using assms [OF that, of "unat (lba' + of_nat i - lba)"] by auto
  then have "map (\<lambda>i. write_blocks d lba n bs (lba' + of_nat i)) [0..<unat n'] =
      map (\<lambda>i. d (lba' + of_nat i)) [0..<unat n']"
    by (simp add: write_blocks_apply)
  then show ?thesis by (simp only: read_blocks_def)
qed

lemma wf_write_blocks:
  assumes "wf_disk d" "length bs = BLOCK_SIZE * unat n"
  shows "wf_disk (write_blocks d lba n bs)"
proof -
  have "BLOCK_SIZE \<le> length bs - BLOCK_SIZE * k" if "k < unat n" for k
    using assms(2) that by simp
  then show ?thesis using assms(1) by (auto simp: wf_disk_def write_blocks_apply)
qed

subsection \<open>The contract of a block device\<close>

text \<open>
  What the file system relies on, for a device whose state satisfies \<open>ok\<close> and for accesses
  within its \<open>reach\<close>: a read has full length, and returns what was last written there.
\<close>

locale block_device =
  fixes rd :: "'s \<Rightarrow> u32 \<Rightarrow> u8 \<Rightarrow> u8 list"
    and wr :: "'s \<Rightarrow> u32 \<Rightarrow> u8 \<Rightarrow> u8 list \<Rightarrow> 's"
    and ok :: "'s \<Rightarrow> bool"
    and reach :: "u32 \<Rightarrow> u8 \<Rightarrow> bool"
  assumes length_rd: "ok s \<Longrightarrow> reach lba n \<Longrightarrow> length (rd s lba n) = BLOCK_SIZE * unat n"
    and ok_wr: "ok s \<Longrightarrow> reach lba n \<Longrightarrow> length bs = BLOCK_SIZE * unat n \<Longrightarrow> ok (wr s lba n bs)"
    and rd_wr_same: "ok s \<Longrightarrow> reach lba n \<Longrightarrow> length bs = BLOCK_SIZE * unat n \<Longrightarrow> rd (wr s lba n bs) lba n = bs"
    and rd_wr_other: "ok s \<Longrightarrow> reach lba n \<Longrightarrow> length bs = BLOCK_SIZE * unat n \<Longrightarrow> reach lba' n' \<Longrightarrow>
      (\<And>i j. i < unat n' \<Longrightarrow> j < unat n \<Longrightarrow> lba' + of_nat i \<noteq> lba + of_nat j) \<Longrightarrow>
      rd (wr s lba n bs) lba' n' = rd s lba' n'"
begin

lemma rd_first_of_two:
  assumes "ok s" "reach a n" "length x = BLOCK_SIZE * unat n" "reach b k" "length y = BLOCK_SIZE * unat k"
    and "\<And>i j. i < unat n \<Longrightarrow> j < unat k \<Longrightarrow> a + of_nat i \<noteq> b + of_nat j"
  shows "rd (wr (wr s a n x) b k y) a n = x"
  using rd_wr_other [OF ok_wr [OF assms(1-3)] assms(4,5,2,6)] rd_wr_same [OF assms(1-3)] by simp

lemma copy_blocks:
  assumes "ok s" "reach a n" "reach b n"
    and "\<And>i j. i < unat n \<Longrightarrow> j < unat n \<Longrightarrow> a + of_nat i \<noteq> b + of_nat j"
  shows "rd (wr s b n (rd s a n)) b n = rd (wr s b n (rd s a n)) a n"
  using rd_wr_same [OF assms(1,3) length_rd] rd_wr_other [OF assms(1,3) length_rd assms(2)] assms
  by metis

end

interpretation store: block_device read_blocks write_blocks wf_disk "\<lambda>lba n. True"
  by unfold_locales
    (auto simp: length_read_blocks wf_write_blocks read_write_blocks_same intro!: read_write_blocks_other)

end
