(* ===== verification/String_Lib.thy ===== *)
theory String_Lib
  imports OS_Prelude
begin

text \<open>
  The freestanding C library of the kernel and the user programs, \<^verbatim>\<open>src/src/string.c\<close>.
  Pointers are 32-bit addresses into \<^typ>\<open>mem\<close>; a \<^verbatim>\<open>for\<close> loop over \<^verbatim>\<open>i < n\<close> is a fold over
  \<open>[0..<n]\<close>. Each routine returns its C return value and the memory after the call.
\<close>

subsection \<open>Memory routines\<close>

definition memset :: "u32 \<Rightarrow> 32 word \<Rightarrow> u32 \<Rightarrow> mem \<Rightarrow> u32 \<times> mem" where
  "memset s c n m = (s, fold (\<lambda>i m. m(s + of_nat i := ucast c)) [0..<unat n] m)"

definition memcpy :: "u32 \<Rightarrow> u32 \<Rightarrow> u32 \<Rightarrow> mem \<Rightarrow> u32 \<times> mem" where
  "memcpy dest src n m =
     (dest, fold (\<lambda>i m. m(dest + of_nat i := m (src + of_nat i))) [0..<unat n] m)"

primrec memcmp_loop :: "mem \<Rightarrow> u32 \<Rightarrow> u32 \<Rightarrow> nat list \<Rightarrow> int" where
  "memcmp_loop m s1 s2 [] = 0"
| "memcmp_loop m s1 s2 (i # is) =
     (if m (s1 + of_nat i) < m (s2 + of_nat i) then -1
      else if m (s1 + of_nat i) > m (s2 + of_nat i) then 1
      else memcmp_loop m s1 s2 is)"

definition memcmp :: "u32 \<Rightarrow> u32 \<Rightarrow> u32 \<Rightarrow> mem \<Rightarrow> int" where
  "memcmp s1 s2 n m = memcmp_loop m s1 s2 [0..<unat n]"

definition memmove :: "u32 \<Rightarrow> u32 \<Rightarrow> u32 \<Rightarrow> mem \<Rightarrow> u32 \<times> mem" where
  "memmove dest src n m =
     (dest,
      if dest < src
      then fold (\<lambda>i m. m(dest + of_nat i := m (src + of_nat i))) [0..<unat n] m
      else fold (\<lambda>i m. m(dest + of_nat i := m (src + of_nat i))) (rev [0..<unat n]) m)"

definition strclear :: "u32 \<Rightarrow> u32 \<Rightarrow> mem \<Rightarrow> mem" where
  "strclear str n m = fold (\<lambda>i m. m(str + of_nat i := 0)) [0..<unat n] m"

text \<open>\<open>strlen\<close> has no bound: it runs until it meets a NUL byte.\<close>

partial_function (option) strlen_loop :: "mem \<Rightarrow> u32 \<Rightarrow> u32 \<Rightarrow> u32 option" where
  "strlen_loop m str i = (if m (str + i) \<noteq> 0 then strlen_loop m str (i + 1) else Some i)"

declare strlen_loop.simps [code]

definition strlen :: "u32 \<Rightarrow> mem \<Rightarrow> u32 option" where
  "strlen str m = strlen_loop m str 0"

subsection \<open>Number formatting\<close>

definition digit_chars :: "u8 list" where
  "digit_chars = map of_char ''0123456789abcdef'' @ [0]"

text \<open>
  The loop of \<^verbatim>\<open>itoa\<close> over the static 32-byte buffer: \<^verbatim>\<open>val /= base\<close> and \<^verbatim>\<open>val % base\<close> are
  the truncating division of C; reading \<^verbatim>\<open>digit_chars\<close> outside its 17 bytes is a fault.
  The second component of the result is the index of the first character.
\<close>

definition c_div :: "int \<Rightarrow> int \<Rightarrow> int" where
  "c_div a b = sgn a * sgn b * (\<bar>a\<bar> div \<bar>b\<bar>)"

definition c_mod :: "int \<Rightarrow> int \<Rightarrow> int" where
  "c_mod a b = a - c_div a b * b"

primrec itoa_loop :: "u8 list \<Rightarrow> int \<Rightarrow> int \<Rightarrow> nat \<Rightarrow> (u8 list \<times> nat) run" where
  "itoa_loop buf val base 0 = Ret (buf, 0)"
| "itoa_loop buf val base (Suc j) =
     (if val = 0 then Ret (buf, Suc j)
      else if base = 0 then Fault Division_By_Zero
      else if c_mod val base < 0 \<or> 17 \<le> c_mod val base then Fault Out_Of_Bounds
      else itoa_loop (buf[Suc j := digit_chars ! nat (c_mod val base)]) (c_div val base) base j)"

definition itoa :: "u8 list \<Rightarrow> int \<Rightarrow> int \<Rightarrow> (u8 list \<times> nat) run" where
  "itoa buf val base = run_bind (itoa_loop buf val base 30) (\<lambda>(buf', i). Ret (buf', i + 1))"

subsection \<open>Byte lists\<close>

text \<open>Fixed-size arrays of the sources are byte lists; \<open>memcmp\<close> on them is this function.\<close>

fun memcmp_bytes :: "u8 list \<Rightarrow> u8 list \<Rightarrow> int" where
  "memcmp_bytes (x # xs) (y # ys) = (if x < y then -1 else if y < x then 1 else memcmp_bytes xs ys)"
| "memcmp_bytes _ _ = 0"

lemma memcmp_bytes_eq_0 [simp]:
  "length xs = length ys \<Longrightarrow> memcmp_bytes xs ys = 0 \<longleftrightarrow> xs = ys"
  by (induction xs ys rule: memcmp_bytes.induct) auto

lemma memcmp_bytes_refl [simp]: "memcmp_bytes xs xs = 0"
  by (induction xs) auto

lemma memcmp_loop_bytes:
  "memcmp_loop m s1 s2 is =
     memcmp_bytes (map (\<lambda>i. m (s1 + of_nat i)) is) (map (\<lambda>i. m (s2 + of_nat i)) is)"
  by (induction "is") auto

lemma memcmp_bytes_mem: "memcmp s1 s2 n m = memcmp_bytes (mem_read m s1 (unat n)) (mem_read m s2 (unat n))"
  by (simp add: memcmp_def memcmp_loop_bytes mem_read_def)

subsection \<open>Stores in a loop\<close>

lemma mem_write_single: "mem_write m p [b] = m(p := b)"
  by (auto simp: mem_write_def fun_eq_iff unat_eq_0)

lemma mem_write_snoc:
  "length xs < 2 ^ 32 \<Longrightarrow>
     mem_write m p (xs @ [b]) = (mem_write m p xs)(p + of_nat (length xs) := b)"
  by (simp flip: mem_write_single mem_write_append)

lemma mem_write_upd_outside:
  "length xs \<le> unat (a - p) \<Longrightarrow> mem_write (m(a := b)) p xs = (mem_write m p xs)(a := b)"
  by (auto simp: mem_write_def fun_eq_iff)

lemma mem_read_Suc: "mem_read m p (Suc n) = mem_read m p n @ [m (p + of_nat n)]"
  by (simp add: mem_read_def)

lemma fold_store:
  "n \<le> 2 ^ 32 \<Longrightarrow>
     fold (\<lambda>i m. m(p + of_nat i := f i)) [0..<n] m = mem_write m p (map f [0..<n])"
  by (induction n) (auto simp: mem_write_snoc)

lemma fold_copy_forward:
  assumes "\<And>k. k < n \<Longrightarrow> k \<le> unat (src + of_nat k - dest)" "n \<le> 2 ^ 32"
  shows "fold (\<lambda>i m. m(dest + of_nat i := m (src + of_nat i))) [0..<n] m =
    mem_write m dest (mem_read m src n)"
  using assms
  by (induction n) (auto simp: mem_read_Suc mem_write_snoc mem_write_outside mem_read_def [of m src 0])

lemma fold_copy_backward:
  assumes "\<And>i k. i < k \<Longrightarrow> k < n \<Longrightarrow> src + of_nat i \<noteq> dest + of_nat k" "n \<le> 2 ^ 32"
  shows "fold (\<lambda>i m. m(dest + of_nat i := m (src + of_nat i))) (rev [0..<n]) m =
    mem_write m dest (mem_read m src n)"
  using assms
proof (induction n arbitrary: m)
  case 0
  then show ?case by (simp add: mem_read_def)
next
  case (Suc n)
  let ?m1 = "m(dest + of_nat n := m (src + of_nat n))"
  have same: "mem_read ?m1 src n = mem_read m src n"
    using Suc.prems(1) [of _ n] by (auto simp: mem_read_def)
  have "unat (dest + of_nat n - dest) = n"
    using Suc.prems(2) by (simp add: unat_of_nat_u32)
  then have "mem_write ?m1 dest (mem_read m src n) = mem_write m dest (mem_read m src (Suc n))"
    using Suc.prems(2) by (simp add: mem_read_Suc mem_write_snoc mem_write_upd_outside)
  moreover have "fold (\<lambda>i m. m(dest + of_nat i := m (src + of_nat i))) (rev [0..<n]) ?m1 =
      mem_write ?m1 dest (mem_read ?m1 src n)"
    using Suc.prems by (intro Suc.IH) auto
  ultimately show ?case by (simp only: same upt_Suc_append le0 rev_append fold_append) (simp add: same)
qed

lemma memset_spec: "memset s c n m = (s, mem_write m s (replicate (unat n) (ucast c)))"
  by (simp add: memset_def fold_store map_replicate_const)

lemma strclear_spec: "strclear str n m = mem_write m str (replicate (unat n) 0)"
  by (simp add: strclear_def fold_store map_replicate_const)

lemma memcpy_disjoint:
  assumes "\<And>i j. i < unat n \<Longrightarrow> j < unat n \<Longrightarrow> dest + of_nat i \<noteq> src + of_nat j"
  shows "memcpy dest src n m = (dest, mem_write m dest (mem_read m src (unat n)))"
proof -
  have "k \<le> unat (src + of_nat k - dest)" if "k < unat n" for k
  proof (rule ccontr)
    assume "\<not> ?thesis"
    then have "unat (src + of_nat k - dest) < unat n" using that by simp
    moreover have "dest + of_nat (unat (src + of_nat k - dest)) = src + of_nat k" by simp
    ultimately show False using assms that by blast
  qed
  then show ?thesis by (simp add: memcpy_def fold_copy_forward)
qed

lemma no_wrap_diff:
  assumes "dest < src" "unat src + n \<le> 2 ^ 32" "k < n"
  shows "k \<le> unat (src + of_nat k - (dest :: u32))"
proof -
  have "unat (src + of_nat k) = unat src + k"
    using assms by (simp add: unat_word_ariths unat_of_nat)
  moreover from this have "dest \<le> src + of_nat k"
    using assms(1) by (simp add: word_le_nat_alt word_less_nat_alt)
  ultimately have "unat (src + of_nat k - dest) = unat src + k - unat dest"
    by (simp add: unat_sub)
  then show ?thesis using assms(1) by (simp add: word_less_nat_alt)
qed

lemma no_wrap_above:
  assumes "\<not> dest < src" "unat (dest :: u32) + n \<le> 2 ^ 32" "i < k" "k < n"
  shows "src + of_nat i \<noteq> dest + of_nat k"
proof -
  have "unat (dest + of_nat k) = unat dest + k" "unat (src + of_nat i) = unat src + i"
    using assms by (simp_all add: unat_word_ariths unat_of_nat word_less_nat_alt)
  then show ?thesis using assms by (metis add_le_less_mono less_irrefl not_less word_less_nat_alt)
qed

text \<open>
  \<open>memmove\<close> is correct for every overlap of source and destination, as long as neither
  range wraps around the top of the address space.
\<close>

theorem memmove_correct:
  assumes "unat src + unat n \<le> 2 ^ 32" "unat dest + unat n \<le> 2 ^ 32"
  shows "memmove dest src n m = (dest, mem_write m dest (mem_read m src (unat n)))"
proof (cases "dest < src")
  case True
  then show ?thesis
    using no_wrap_diff [OF True assms(1)] by (simp add: memmove_def fold_copy_forward)
next
  case False
  then show ?thesis
    using no_wrap_above [OF False assms(2)] by (simp add: memmove_def fold_copy_backward)
qed

theorem memmove_correct_witness:
  "memmove 0x1001 0x1000 4 (\<lambda>a. ucast a) =
     (0x1001, mem_write (\<lambda>a. ucast a) 0x1001 (mem_read (\<lambda>a. ucast a) 0x1000 4))"
  using memmove_correct [of "0x1000" 4 "0x1001" "\<lambda>a. ucast a"] by simp

text \<open>\<open>memcmp\<close> decides equality, and its sign orders the first differing byte.\<close>

lemma memcmp_bytes_less:
  "length xs = length ys \<Longrightarrow> memcmp_bytes xs ys < 0 \<longleftrightarrow>
     (\<exists>i<length xs. take i xs = take i ys \<and> xs ! i < ys ! i)"
proof (induction xs ys rule: memcmp_bytes.induct)
  case (1 x xs y ys)
  show ?case
  proof (cases "x = y")
    case True
    with 1 show ?thesis by (simp add: Ex_less_Suc2)
  next
    case False
    then show ?thesis by (simp add: Ex_less_Suc2)
  qed
qed auto

text \<open>
  \<open>memcmp\<close> returns 0 exactly on equal areas and a negative number exactly when the first
  area is smaller at the first position where they differ.
\<close>

theorem memcmp_spec:
  "(memcmp s1 s2 n m = 0 \<longleftrightarrow> mem_read m s1 (unat n) = mem_read m s2 (unat n)) \<and>
   (memcmp s1 s2 n m < 0 \<longleftrightarrow> (\<exists>i<unat n. mem_read m s1 i = mem_read m s2 i \<and>
      m (s1 + of_nat i) < m (s2 + of_nat i)))"
  by (auto simp: memcmp_bytes_mem memcmp_bytes_less take_map mem_read_def)

subsection \<open>\<open>strlen\<close>\<close>

lemma strlen_loop_reaches:
  assumes "m (str + k) = 0" "\<And>j. i \<le> j \<Longrightarrow> j < k \<Longrightarrow> m (str + j) \<noteq> 0" "i \<le> k"
  shows "strlen_loop m str i = Some k"
  using assms(2,3)
proof (induction "unat (k - i)" arbitrary: i)
  case 0
  then have "i = k" by (simp add: unat_eq_0)
  then show ?case using assms(1) by (simp add: strlen_loop.simps)
next
  case (Suc d)
  then have lt: "i < k" by (metis nat.distinct(1) order_le_less right_minus_eq unat_0)
  note le = unat_add_one_less [OF lt]
  have "unat (k - i - 1) = unat (k - i) - 1"
    using lt by (intro unat_minus_one) simp
  then have "d = unat (k - (i + 1))"
    using Suc.hyps(2) by (simp add: diff_diff_eq)
  then have "strlen_loop m str (i + 1) = Some k"
    using Suc.prems(1) le by (intro Suc.hyps(1)) (auto intro: order_trans)
  then show ?case using Suc.prems(1) [of i] lt by (subst strlen_loop.simps) simp
qed

lemma strlen_loop_NUL:
  assumes "strlen_loop m str i = Some r"
  shows "m (str + r) = 0"
  by (rule strlen_loop.raw_induct [where P = "\<lambda>m str i r. m (str + r) = 0", OF _ assms])
    (auto split: if_splits)

theorem strlen_spec:
  "strlen str m = Some k \<longleftrightarrow> m (str + k) = 0 \<and> (\<forall>j<k. m (str + j) \<noteq> 0)"
proof
  assume R: "m (str + k) = 0 \<and> (\<forall>j<k. m (str + j) \<noteq> 0)"
  then show "strlen str m = Some k" by (simp add: strlen_def strlen_loop_reaches)
next
  assume L: "strlen str m = Some k"
  then have z: "m (str + k) = 0" by (auto simp: strlen_def dest: strlen_loop_NUL)
  let ?least = "LEAST j. m (str + j) = 0"
  have least: "m (str + ?least) = 0" "\<And>j. j < ?least \<Longrightarrow> m (str + j) \<noteq> 0"
    using z by (auto intro: LeastI dest: not_less_Least)
  then have "strlen str m = Some ?least" by (simp add: strlen_def strlen_loop_reaches)
  with L least show "m (str + k) = 0 \<and> (\<forall>j<k. m (str + j) \<noteq> 0)" by simp
qed

text \<open>\<open>strlen\<close> returns exactly when some byte of the address space is NUL.\<close>

lemma strlen_returns_iff: "(\<exists>k. strlen str m = Some k) \<longleftrightarrow> (\<exists>a. m a = 0)"
proof
  assume "\<exists>a. m a = 0"
  then obtain a where "m (str + (a - str)) = 0" by auto
  then have "m (str + (LEAST j. m (str + j) = 0)) = 0" by (rule LeastI)
  then show "\<exists>k. strlen str m = Some k"
    by (auto simp: strlen_spec intro!: exI [of _ "LEAST j. m (str + j) = 0"] dest: not_less_Least)
qed (auto simp: strlen_spec)

subsection \<open>\<open>itoa\<close>\<close>

text \<open>The digits of a number, most significant first, and the number they denote.\<close>

fun digits :: "nat \<Rightarrow> nat \<Rightarrow> nat list" where
  "digits b v = (if v = 0 \<or> b < 2 then [] else digits b (v div b) @ [v mod b])"

declare digits.simps [simp del]

lemma digits_0 [simp]: "digits b 0 = []"
  by (simp add: digits.simps)

lemma digits_step: "0 < v \<Longrightarrow> 2 \<le> b \<Longrightarrow> digits b v = digits b (v div b) @ [v mod b]"
  by (subst digits.simps) simp

definition digits_value :: "nat \<Rightarrow> nat list \<Rightarrow> nat" where
  "digits_value b ds = foldl (\<lambda>v d. v * b + d) 0 ds"

lemma digits_value_digits: "2 \<le> b \<Longrightarrow> digits_value b (digits b v) = v"
proof (induction b v rule: digits.induct)
  case (1 b v)
  then show ?case
    by (cases "v = 0") (auto simp: digits_value_def digits_step)
qed

lemma length_digits: "v < b ^ k \<Longrightarrow> 2 \<le> b \<Longrightarrow> length (digits b v) \<le> k"
proof (induction k arbitrary: v)
  case (Suc k)
  then show ?case
    by (cases "v = 0") (auto simp: digits_step less_mult_imp_div_less mult.commute)
qed simp

lemma c_div_mod_of_nat: "0 < b \<Longrightarrow> c_div (int v) (int b) = int (v div b) \<and> c_mod (int v) (int b) = int (v mod b)"
  by (cases "v = 0") (auto simp: c_div_def c_mod_def zdiv_int sgn_if zmod_int minus_div_mult_eq_mod)

lemma itoa_loop_digits:
  assumes "2 \<le> b" "b \<le> 16" "length (digits b v) \<le> i" "i < length buf"
  shows "itoa_loop buf (int v) (int b) i =
    Ret (take (Suc i - length (digits b v)) buf @ map (\<lambda>d. digit_chars ! d) (digits b v) @ drop (Suc i) buf,
         i - length (digits b v))"
  using assms(3,4)
proof (induction i arbitrary: v buf)
  case (Suc j)
  show ?case
  proof (cases "v = 0")
    case False
    have d: "digits b v = digits b (v div b) @ [v mod b]"
      using False assms(1) by (simp add: digits_step)
    have m: "v mod b < 17" using assms(1,2) mod_less_divisor [of b v] by linarith
    let ?buf = "buf[Suc j := digit_chars ! (v mod b)]"
    have "itoa_loop ?buf (int (v div b)) (int b) j =
      Ret (take (Suc j - length (digits b (v div b))) ?buf @
           map (\<lambda>d. digit_chars ! d) (digits b (v div b)) @ drop (Suc j) ?buf,
           j - length (digits b (v div b)))"
      using Suc.prems by (intro Suc.IH) (auto simp: d)
    moreover have "drop (Suc j) ?buf = digit_chars ! (v mod b) # drop (Suc (Suc j)) buf"
      using Suc.prems(2) by (simp add: drop_update_swap flip: Cons_nth_drop_Suc)
    ultimately show ?thesis
      using False assms(1) m c_div_mod_of_nat [of b v]
      by (simp add: d)
  qed simp
qed (simp add: assms)

text \<open>
  For \<open>0 \<le> v < base ^ 30\<close> the routine writes exactly the digits of \<open>v\<close>, right-aligned before
  the terminating byte, and returns the index of the first of them; reading the digits back
  gives \<open>v\<close>. For \<open>v = 0\<close> nothing is written: the result is the empty string.
\<close>

theorem itoa_correct:
  assumes "2 \<le> b" "b \<le> 16" "v < b ^ 30" "length buf = 32"
  shows "itoa buf (int v) (int b) =
      Ret (take (31 - length (digits b v)) buf @ map (\<lambda>d. digit_chars ! d) (digits b v) @ drop 31 buf,
           31 - length (digits b v)) \<and>
    digits_value b (digits b v) = v"
proof -
  have l: "length (digits b v) \<le> 30" using assms by (intro length_digits)
  then show ?thesis
    using itoa_loop_digits [of b v 30 buf] assms digits_value_digits [of b v]
    by (simp add: itoa_def Suc_diff_le)
qed

theorem itoa_correct_witness:
  "itoa (replicate 32 0) (int 2024) (int 10) =
     Ret (replicate 27 0 @ [0x32, 0x30, 0x32, 0x34] @ [0], 27)"
  using itoa_correct [of 10 2024 "replicate 32 0"]
  by (simp add: digits_step digit_chars_def of_char_def)

end
