(* ===== verification/FAT32_Layout.thy ===== *)
theory FAT32_Layout
  imports Block_Device String_Lib
begin

text \<open>
  The on-disk and in-memory data of the FAT32 driver, \<^verbatim>\<open>src/src/header/filesystem/fat32.h\<close>:
  constants, the packed structures as records with their byte layout, the driver state,
  and cluster access. Field names carry a prefix per structure (\<open>de_\<close> for
  \<^verbatim>\<open>FAT32DirectoryEntry\<close>, \<open>rq_\<close> for \<^verbatim>\<open>FAT32DriverRequest\<close>), since C keeps one name space per
  structure and HOL does not.
\<close>

subsection \<open>Constants\<close>

definition BOOT_SECTOR :: u32 where [simp]: "BOOT_SECTOR = 0"
definition CLUSTER_BLOCK_COUNT :: nat where [simp]: "CLUSTER_BLOCK_COUNT = 4"
definition CLUSTER_SIZE :: nat where [simp]: "CLUSTER_SIZE = BLOCK_SIZE * CLUSTER_BLOCK_COUNT"
definition CLUSTER_MAP_SIZE :: nat where [simp]: "CLUSTER_MAP_SIZE = 512"
definition CLUSTER_0_VALUE :: u32 where [simp]: "CLUSTER_0_VALUE = 0x0FFFFFF0"
definition CLUSTER_1_VALUE :: u32 where [simp]: "CLUSTER_1_VALUE = 0x0FFFFFFF"
definition FAT32_FAT_END_OF_FILE :: u32 where [simp]: "FAT32_FAT_END_OF_FILE = 0x0FFFFFFF"
definition FAT32_FAT_EMPTY_ENTRY :: u32 where [simp]: "FAT32_FAT_EMPTY_ENTRY = 0"
definition FAT_CLUSTER_NUMBER :: u32 where [simp]: "FAT_CLUSTER_NUMBER = 1"
definition ROOT_CLUSTER_NUMBER :: u32 where [simp]: "ROOT_CLUSTER_NUMBER = 2"
definition ATTR_SUBDIRECTORY :: u8 where [simp]: "ATTR_SUBDIRECTORY = 0x10"
definition UATTR_NOT_EMPTY :: u8 where [simp]: "UATTR_NOT_EMPTY = 0xAA"

text \<open>\<^verbatim>\<open>CLUSTER_SIZE / sizeof(struct FAT32DirectoryEntry)\<close>, the number of entries of a table.\<close>

definition DIR_ENTRY_SIZE :: nat where [simp]: "DIR_ENTRY_SIZE = 32"
definition DIR_ENTRY_COUNT :: nat where [simp]: "DIR_ENTRY_COUNT = CLUSTER_SIZE div DIR_ENTRY_SIZE"

subsection \<open>Structures\<close>

record FAT32DirectoryEntry =
  de_name :: "u8 list"
  de_ext :: "u8 list"
  de_attribute :: u8
  de_user_attribute :: u8
  de_undelete :: u8
  de_create_time :: u16
  de_create_date :: u16
  de_access_date :: u16
  de_cluster_high :: u16
  de_modified_time :: u16
  de_modified_date :: u16
  de_cluster_low :: u16
  de_filesize :: u32

type_synonym dir_table = "FAT32DirectoryEntry list"

record FAT32DriverState =
  fat_table :: "u32 list"
  dir_table_buf :: dir_table
  cluster_buf :: "u8 list"

record FAT32DriverRequest =
  rq_buf :: u32
  rq_name :: "u8 list"
  rq_ext :: "u8 list"
  rq_parent_cluster_number :: u32
  rq_buffer_size :: u32

definition empty_entry :: FAT32DirectoryEntry where
  "empty_entry = \<lparr>de_name = replicate 8 0, de_ext = replicate 3 0, de_attribute = 0,
     de_user_attribute = 0, de_undelete = 0, de_create_time = 0, de_create_date = 0,
     de_access_date = 0, de_cluster_high = 0, de_modified_time = 0, de_modified_date = 0,
     de_cluster_low = 0, de_filesize = 0\<rparr>"

text \<open>\<^verbatim>\<open>(dir_entry.cluster_high << 16) | dir_entry.cluster_low\<close>\<close>

definition entry_cluster :: "FAT32DirectoryEntry \<Rightarrow> u32" where
  "entry_cluster e = push_bit 16 (ucast (de_cluster_high e)) OR ucast (de_cluster_low e)"

definition wf_entry :: "FAT32DirectoryEntry \<Rightarrow> bool" where
  "wf_entry e \<longleftrightarrow> length (de_name e) = 8 \<and> length (de_ext e) = 3"

definition wf_table :: "dir_table \<Rightarrow> bool" where
  "wf_table t \<longleftrightarrow> length t = DIR_ENTRY_COUNT \<and> (\<forall>e\<in>set t. wf_entry e)"

definition wf_request :: "FAT32DriverRequest \<Rightarrow> bool" where
  "wf_request r \<longleftrightarrow> length (rq_name r) = 8 \<and> length (rq_ext r) = 3"

subsection \<open>Byte layout\<close>

definition enc_entry :: "FAT32DirectoryEntry \<Rightarrow> u8 list" where
  "enc_entry e = de_name e @ de_ext e @
     [de_attribute e, de_user_attribute e, de_undelete e] @
     enc_u16 (de_create_time e) @ enc_u16 (de_create_date e) @ enc_u16 (de_access_date e) @
     enc_u16 (de_cluster_high e) @ enc_u16 (de_modified_time e) @ enc_u16 (de_modified_date e) @
     enc_u16 (de_cluster_low e) @ enc_u32 (de_filesize e)"

definition dec_entry :: "u8 list \<Rightarrow> FAT32DirectoryEntry" where
  "dec_entry bs = \<lparr>de_name = take 8 bs, de_ext = take 3 (drop 8 bs), de_attribute = bs ! 11,
     de_user_attribute = bs ! 12, de_undelete = bs ! 13,
     de_create_time = dec_u16 (take 2 (drop 14 bs)), de_create_date = dec_u16 (take 2 (drop 16 bs)),
     de_access_date = dec_u16 (take 2 (drop 18 bs)), de_cluster_high = dec_u16 (take 2 (drop 20 bs)),
     de_modified_time = dec_u16 (take 2 (drop 22 bs)), de_modified_date = dec_u16 (take 2 (drop 24 bs)),
     de_cluster_low = dec_u16 (take 2 (drop 26 bs)), de_filesize = dec_u32 (take 4 (drop 28 bs))\<rparr>"

abbreviation enc_table :: "dir_table \<Rightarrow> u8 list" where
  "enc_table \<equiv> enc_array enc_entry"

abbreviation dec_table :: "u8 list \<Rightarrow> dir_table" where
  "dec_table \<equiv> dec_array dec_entry 32 64"

abbreviation enc_fat :: "u32 list \<Rightarrow> u8 list" where
  "enc_fat \<equiv> enc_array enc_u32"

abbreviation dec_fat :: "u8 list \<Rightarrow> u32 list" where
  "dec_fat \<equiv> dec_array dec_u32 4 512"

lemma take_drop_split:
  "n \<le> length bs \<Longrightarrow> take k (drop n bs) @ drop (n + k) bs = drop n bs"
  by (metis add.commute append_take_drop_id drop_drop)

lemma enc_dec_entry:
  assumes "length bs = 32"
  shows "enc_entry (dec_entry bs) = bs"
proof -
  have w: "enc_u16 (dec_u16 (take 2 (drop n bs))) = take 2 (drop n bs)" if "n \<le> 30" for n
    using that assms by (intro enc_dec_u16) simp
  have f: "enc_u32 (dec_u32 (drop 28 bs)) = drop 28 bs"
    using assms by (intro enc_dec_u32) simp
  have a: "[bs ! 11, bs ! 12, bs ! 13] = take 3 (drop 11 bs)"
    using assms by (intro nth_equalityI) (auto simp: less_Suc_eq numeral_3_eq_3)
  show ?thesis
    using take_drop_split [of 26 bs 2] take_drop_split [of 24 bs 2] take_drop_split [of 22 bs 2]
      take_drop_split [of 20 bs 2] take_drop_split [of 18 bs 2] take_drop_split [of 16 bs 2]
      take_drop_split [of 14 bs 2] take_drop_split [of 11 bs 3] take_drop_split [of 8 bs 3]
      take_drop_split [of 0 bs 8] assms
    by (simp add: enc_entry_def dec_entry_def w f a [symmetric] del: append_take_drop_id)
qed

lemma dec_enc_entry: "wf_entry e \<Longrightarrow> dec_entry (enc_entry e) = e"
  by (cases e) (simp add: wf_entry_def dec_entry_def enc_entry_def nth_append enc_u16_def
      flip: enc_u16_def)

lemma length_enc_entry: "wf_entry e \<Longrightarrow> length (enc_entry e) = 32"
  by (simp add: wf_entry_def enc_entry_def)

interpretation entry_codec: byte_codec enc_entry dec_entry wf_entry 32
  by unfold_locales
    (auto simp: length_enc_entry dec_enc_entry enc_dec_entry, simp add: wf_entry_def dec_entry_def)

interpretation table_codec: byte_codec_array enc_entry dec_entry wf_entry 32 64
  by unfold_locales

interpretation fat_codec: byte_codec_array enc_u32 dec_u32 "\<lambda>_. True" 4 512
  by unfold_locales

text \<open>The laws of the two table codecs, in the form the file system proofs use.\<close>

lemma wf_table_alt: "wf_table t \<longleftrightarrow> length t = 64 \<and> (\<forall>e\<in>set t. wf_entry e)"
  by (simp add: wf_table_def)

lemma length_enc_table [layout_simps]: "wf_table t \<Longrightarrow> length (enc_table t) = 2048"
  using table_codec.arr.length_enc [of t] by (simp add: wf_table_alt)

lemma dec_enc_table [layout_simps]: "wf_table t \<Longrightarrow> dec_table (enc_table t) = t"
  using table_codec.arr.dec_enc [of t] by (simp add: wf_table_alt)

lemma enc_dec_table: "length bs = 2048 \<Longrightarrow> enc_table (dec_table bs) = bs"
  using table_codec.arr.enc_dec [of bs] by simp

lemma wf_dec_table [layout_simps]: "length bs = 2048 \<Longrightarrow> wf_table (dec_table bs)"
  using table_codec.arr.wf_dec [of bs] by (simp add: wf_table_alt)

lemma length_enc_fat [layout_simps]: "length f = 512 \<Longrightarrow> length (enc_fat f) = 2048"
  using fat_codec.arr.length_enc [of f] by simp

lemma dec_enc_fat [layout_simps]: "length f = 512 \<Longrightarrow> dec_fat (enc_fat f) = f"
  using fat_codec.arr.dec_enc [of f] by simp

lemma enc_dec_fat: "length bs = 2048 \<Longrightarrow> enc_fat (dec_fat bs) = bs"
  using fat_codec.arr.enc_dec [of bs] by simp

lemma wf_empty_entry [simp]: "wf_entry empty_entry"
  by (simp add: wf_entry_def empty_entry_def)

lemma wf_table_nth [simp]: "wf_table t \<Longrightarrow> i < 64 \<Longrightarrow> wf_entry (t ! i)"
  by (simp add: wf_table_alt)

lemma wf_table_update [simp]: "wf_table t \<Longrightarrow> wf_entry e \<Longrightarrow> wf_table (t[i := e])"
  by (auto simp: wf_table_alt dest: set_update_subset_insert [THEN subsetD])

lemma wf_table_length [simp]: "wf_table t \<Longrightarrow> length t = 64"
  by (simp add: wf_table_alt)

subsection \<open>Clusters on disk\<close>

definition cluster_to_lba :: "u32 \<Rightarrow> u32" where
  "cluster_to_lba cluster = of_nat CLUSTER_BLOCK_COUNT * cluster"

definition write_clusters :: "u8 list \<Rightarrow> u32 \<Rightarrow> u8 \<Rightarrow> disk \<Rightarrow> disk" where
  "write_clusters bs cluster_number cluster_count d =
     write_blocks d (cluster_to_lba cluster_number) (cluster_count * of_nat CLUSTER_BLOCK_COUNT) bs"

definition read_clusters :: "u32 \<Rightarrow> u8 \<Rightarrow> disk \<Rightarrow> u8 list" where
  "read_clusters cluster_number cluster_count d =
     read_blocks d (cluster_to_lba cluster_number) (cluster_count * of_nat CLUSTER_BLOCK_COUNT)"

abbreviation cluster :: "disk \<Rightarrow> nat \<Rightarrow> u8 list" where
  "cluster d c \<equiv> read_clusters (of_nat c) 1 d"

lemma length_read_cluster [simp]: "wf_disk d \<Longrightarrow> length (read_clusters c 1 d) = 2048"
  by (simp add: read_clusters_def store.length_rd)

lemma read_write_cluster_same:
  "length bs = 2048 \<Longrightarrow> read_clusters c 1 (write_clusters bs c 1 d) = bs"
  by (simp add: read_clusters_def write_clusters_def read_write_blocks_same)

lemma wf_write_clusters [simp]:
  "wf_disk d \<Longrightarrow> length bs = 2048 \<Longrightarrow> wf_disk (write_clusters bs c 1 d)"
  by (simp add: write_clusters_def store.ok_wr)

lemma cluster_blocks_distinct:
  assumes "c < 2 ^ 30" "c' < 2 ^ 30" "c \<noteq> c'" "i < 4" "j < 4"
  shows "cluster_to_lba c + of_nat i \<noteq> cluster_to_lba c' + of_nat j"
proof
  have u: "unat (cluster_to_lba x + of_nat k) = 4 * unat x + k" if "x < 2 ^ 30" "k < 4" for x k
    using that by (simp add: cluster_to_lba_def unat_word_ariths word_less_nat_alt unat_of_nat)
  assume "cluster_to_lba c + of_nat i = cluster_to_lba c' + of_nat j"
  then have "4 * unat c + i = 4 * unat c' + j" using u assms by metis
  then have "unat c = unat c'" using assms(4,5) by presburger
  with assms(3) show False by (simp add: word_unat_eq_iff)
qed

lemma read_write_cluster_other:
  assumes "c < 2 ^ 30" "c' < 2 ^ 30" "c \<noteq> c'"
  shows "read_clusters c 1 (write_clusters bs c' 1 d) = read_clusters c 1 d"
  unfolding read_clusters_def write_clusters_def
  by (rule read_write_blocks_other) (use assms cluster_blocks_distinct in auto)

end
