(* ===== verification/FAT32_Ops.thy ===== *)
theory FAT32_Ops
  imports FAT32_Layout
begin

text \<open>
  The FAT32 driver, \<^verbatim>\<open>src/src/fat32.c\<close>, function by function. The state is the disk and the
  driver state; \<open>fat_read\<close> also changes the memory behind \<^verbatim>\<open>request.buf\<close>. Operations return the
  C return code (an \<^typ>\<open>int\<close>) with the new state. Where the C code can loop for ever or leave
  the driver state by an unchecked \<^verbatim>\<open>cluster_map\<close> index the result is a \<^typ>\<open>'a run\<close>.
  The C functions \<^verbatim>\<open>read\<close> and \<^verbatim>\<open>write\<close> are \<open>fat_read\<close> and \<open>fat_write\<close> here.
\<close>

record fs_state =
  fs_disk :: disk
  fs_driver :: FAT32DriverState

abbreviation fs_fat :: "fs_state \<Rightarrow> u32 list" where
  "fs_fat s \<equiv> fat_table (fs_driver s)"

abbreviation set_disk :: "disk \<Rightarrow> fs_state \<Rightarrow> fs_state" where
  "set_disk d s \<equiv> s\<lparr>fs_disk := d\<rparr>"

abbreviation set_fat :: "u32 list \<Rightarrow> fs_state \<Rightarrow> fs_state" where
  "set_fat f s \<equiv> s\<lparr>fs_driver := fs_driver s\<lparr>fat_table := f\<rparr>\<rparr>"

abbreviation write_cluster :: "u8 list \<Rightarrow> u32 \<Rightarrow> fs_state \<Rightarrow> fs_state" where
  "write_cluster bs c s \<equiv> s\<lparr>fs_disk := write_clusters bs c 1 (fs_disk s)\<rparr>"

abbreviation read_table :: "fs_state \<Rightarrow> u32 \<Rightarrow> dir_table" where
  "read_table s c \<equiv> dec_table (read_clusters c 1 (fs_disk s))"

subsection \<open>Unchecked access to \<open>cluster_map\<close>\<close>

text \<open>
  \<^verbatim>\<open>FAT32DriverState\<close> is packed: the 512 words of \<^verbatim>\<open>cluster_map\<close> are followed by the 512 words
  of \<^verbatim>\<open>dir_table_buf\<close> and the 512 words of \<^verbatim>\<open>cluster_buf\<close>. An index past the map reads or
  writes these; an index past all three leaves the object.
\<close>

definition word_at :: "u8 list \<Rightarrow> nat \<Rightarrow> u32" where
  "word_at bs i = dec_u32 (take 4 (drop (4 * i) bs))"

definition word_set :: "u8 list \<Rightarrow> nat \<Rightarrow> u32 \<Rightarrow> u8 list" where
  "word_set bs i v = take (4 * i) bs @ enc_u32 v @ drop (4 * i + 4) bs"

definition cluster_map_get :: "FAT32DriverState \<Rightarrow> u32 \<Rightarrow> u32 option" where
  "cluster_map_get st idx =
     (let i = unat idx in
      if i < 512 then Some (fat_table st ! i)
      else if i < 1024 then Some (word_at (enc_table (dir_table_buf st)) (i - 512))
      else if i < 1536 then Some (word_at (cluster_buf st) (i - 1024))
      else None)"

definition cluster_map_set :: "u32 \<Rightarrow> u32 \<Rightarrow> FAT32DriverState \<Rightarrow> FAT32DriverState option" where
  "cluster_map_set idx v st =
     (let i = unat idx in
      if i < 512 then Some (st\<lparr>fat_table := (fat_table st)[i := v]\<rparr>)
      else if i < 1024 then
        Some (st\<lparr>dir_table_buf := dec_table (word_set (enc_table (dir_table_buf st)) (i - 512) v)\<rparr>)
      else if i < 1536 then Some (st\<lparr>cluster_buf := word_set (cluster_buf st) (i - 1024) v\<rparr>)
      else None)"

definition get_map :: "fs_state \<Rightarrow> u32 \<Rightarrow> u32 run" where
  "get_map s i = (case cluster_map_get (fs_driver s) i of None \<Rightarrow> Fault Out_Of_Bounds | Some v \<Rightarrow> Ret v)"

definition set_map :: "u32 \<Rightarrow> u32 \<Rightarrow> fs_state \<Rightarrow> fs_state run" where
  "set_map i v s =
     (case cluster_map_set i v (fs_driver s) of
        None \<Rightarrow> Fault Out_Of_Bounds
      | Some st \<Rightarrow> Ret (s\<lparr>fs_driver := st\<rparr>))"

subsection \<open>Helper functions\<close>

definition init_directory_entry ::
  "FAT32DirectoryEntry \<Rightarrow> u8 list \<Rightarrow> u8 list \<Rightarrow> u8 \<Rightarrow> u32 \<Rightarrow> u32 \<Rightarrow> FAT32DirectoryEntry" where
  "init_directory_entry dest nm ex attr cluster_number fsize =
     dest\<lparr>de_name := take 8 nm, de_ext := take 3 ex, de_attribute := attr,
       de_user_attribute := UATTR_NOT_EMPTY,
       de_cluster_low := ucast (cluster_number AND 0xFFFF),
       de_cluster_high := ucast (drop_bit 16 cluster_number AND 0xFFFF),
       de_filesize := fsize\<rparr>"

definition find_empty_cluster :: "u32 list \<Rightarrow> u32" where
  "find_empty_cluster fat =
     (let idx = scan_while (\<lambda>i. fat ! i \<noteq> FAT32_FAT_EMPTY_ENTRY) 0 CLUSTER_MAP_SIZE
      in if idx < CLUSTER_MAP_SIZE then of_nat idx else -1)"

definition find_empty_dir_entry :: "dir_table \<Rightarrow> u32" where
  "find_empty_dir_entry t =
     (let idx = scan_while (\<lambda>i. de_attribute (t ! i) = UATTR_NOT_EMPTY) 0 DIR_ENTRY_COUNT
      in if idx < DIR_ENTRY_COUNT then of_nat idx else -1)"

text \<open>
  The loop increments \<^verbatim>\<open>idx\<close> before it reads the map, so it reads the indices 3 to 512; the
  last one lies outside the map, in the first word of \<^verbatim>\<open>dir_table_buf\<close>.
\<close>

function enough_empty_loop :: "FAT32DriverState \<Rightarrow> u32 \<Rightarrow> nat \<Rightarrow> u32 \<Rightarrow> u32" where
  "enough_empty_loop st required idx number =
     (if idx < CLUSTER_MAP_SIZE \<and> number < required
      then enough_empty_loop st required (Suc idx)
             (if cluster_map_get st (of_nat (Suc idx)) = Some FAT32_FAT_EMPTY_ENTRY
              then number + 1 else number)
      else number)"
  by pat_completeness auto
termination
  by (relation "measure (\<lambda>(st, required, idx, number). CLUSTER_MAP_SIZE - idx)") auto

declare enough_empty_loop.simps [simp del]

definition enough_empty_cluster :: "FAT32DriverState \<Rightarrow> u32 \<Rightarrow> bool" where
  "enough_empty_cluster st required = (enough_empty_loop st required 2 0 = required)"

definition root_name :: "u8 list" where
  "root_name = map of_char ''root'' @ [0, 0, 0, 0]"

definition nul_ext :: "u8 list" where
  "nul_ext = [0, 0, 0]"

text \<open>
  \<^verbatim>\<open>dir_table\<close> is overwritten: first with empty entries, then entries 0 and 1. When no
  cluster is free the function returns with the empty table. For a parent other than the
  root the C code copies the parent's name through a pointer to the string literal \<^verbatim>\<open>""\<close>;
  the definition takes the eight bytes as copied.
\<close>

definition init_directory_table :: "u8 list \<Rightarrow> u32 \<Rightarrow> fs_state \<Rightarrow> dir_table" where
  "init_directory_table nm parent_dir_cluster s =
     (let t = replicate DIR_ENTRY_COUNT empty_entry;
          empty_cluster_idx = find_empty_cluster (fs_fat s)
      in if empty_cluster_idx = -1 then t
         else
           let t = t[0 := init_directory_entry (t ! 0) nm nul_ext ATTR_SUBDIRECTORY empty_cluster_idx 0];
               parent_name =
                 (if parent_dir_cluster = ROOT_CLUSTER_NUMBER then root_name
                  else take 8 (read_clusters parent_dir_cluster 1 (fs_disk s)))
           in t[1 := init_directory_entry (t ! 1) parent_name nul_ext ATTR_SUBDIRECTORY
                       parent_dir_cluster 0])"

subsection \<open>Mounting and formatting\<close>

definition fs_signature :: "u8 list" where
  "fs_signature =
     map of_char (''Course          '' @ ''Designed by     '' @ ''Lab Sister ITB  '' @
                  ''Made with <3    '' @ ''-----------2024'') @ [10] @
     replicate (BLOCK_SIZE - 82) 0 @ map of_char ''Ok''"

definition is_empty_storage :: "disk \<Rightarrow> bool" where
  "is_empty_storage d = (memcmp_bytes (read_blocks d BOOT_SECTOR 1) fs_signature \<noteq> 0)"

definition initial_fat :: "u32 list" where
  "initial_fat = [CLUSTER_0_VALUE, CLUSTER_1_VALUE] @ replicate (CLUSTER_MAP_SIZE - 2) FAT32_FAT_EMPTY_ENTRY"

text \<open>
  \<^verbatim>\<open>write_clusters(fs_signature, BOOT_SECTOR, 1)\<close> writes a whole cluster from the 512-byte
  signature; \<open>after\<close> are the 1536 bytes that follow the array in the program image.
\<close>

definition create_fat32 :: "u8 list \<Rightarrow> fs_state \<Rightarrow> fs_state" where
  "create_fat32 after s =
     (let s = set_fat initial_fat s;
          root_directory_table = init_directory_table root_name ROOT_CLUSTER_NUMBER s;
          fat = initial_fat[2 := FAT32_FAT_END_OF_FILE];
          s = s\<lparr>fs_driver := (fs_driver s)\<lparr>fat_table := fat, dir_table_buf := root_directory_table\<rparr>\<rparr>;
          s = write_cluster (fs_signature @ after) BOOT_SECTOR s;
          s = write_cluster (enc_fat fat) FAT_CLUSTER_NUMBER s
      in write_cluster (enc_table root_directory_table) ROOT_CLUSTER_NUMBER s)"

definition initialize_filesystem_fat32 :: "u8 list \<Rightarrow> fs_state \<Rightarrow> fs_state" where
  "initialize_filesystem_fat32 after s =
     (if is_empty_storage (fs_disk s) then create_fat32 after s
      else set_fat (dec_fat (read_clusters FAT_CLUSTER_NUMBER 1 (fs_disk s))) s)"

subsection \<open>Searching a directory\<close>

definition name_matches :: "FAT32DirectoryEntry \<Rightarrow> FAT32DriverRequest \<Rightarrow> bool" where
  "name_matches e rq \<longleftrightarrow> memcmp_bytes (de_name e) (rq_name rq) = 0"

definition entry_matches :: "FAT32DirectoryEntry \<Rightarrow> FAT32DriverRequest \<Rightarrow> bool" where
  "entry_matches e rq \<longleftrightarrow>
     memcmp_bytes (de_name e) (rq_name rq) = 0 \<and> memcmp_bytes (de_ext e) (rq_ext rq) = 0"

text \<open>The search loop of \<open>fat_read\<close> and \<open>Delete\<close>: it starts at entry 0.\<close>

definition find_entry :: "dir_table \<Rightarrow> FAT32DriverRequest \<Rightarrow> nat" where
  "find_entry t rq = scan_while (\<lambda>i. \<not> entry_matches (t ! i) rq) 0 DIR_ENTRY_COUNT"

subsection \<open>CRUD operations\<close>

definition read_directory :: "FAT32DriverRequest \<Rightarrow> fs_state \<Rightarrow> mem \<Rightarrow> int \<times> mem" where
  "read_directory rq s m =
     (if unat (rq_buffer_size rq) < DIR_ENTRY_COUNT * DIR_ENTRY_SIZE then (-1, m)
      else
        let parent = read_table s (rq_parent_cluster_number rq) in
        if de_attribute (parent ! 0) \<noteq> ATTR_SUBDIRECTORY then (-1, m)
        else
          let idx = scan_while (\<lambda>i. \<not> name_matches (parent ! i) rq) 2 DIR_ENTRY_COUNT in
          if idx = DIR_ENTRY_COUNT then (2, m)
          else
            let dir_entry = parent ! idx in
            if de_attribute dir_entry \<noteq> ATTR_SUBDIRECTORY then (1, m)
            else (0, mem_write m (rq_buf rq) (read_clusters (entry_cluster dir_entry) 1 (fs_disk s))))"

partial_function (option) read_chain :: "fs_state \<Rightarrow> u32 \<Rightarrow> u32 \<Rightarrow> mem \<Rightarrow> mem run" where
  "read_chain s cluster_number ptr m =
     (if cluster_number = FAT32_FAT_END_OF_FILE then Ret m
      else case cluster_map_get (fs_driver s) cluster_number of
             None \<Rightarrow> Fault Out_Of_Bounds
           | Some next \<Rightarrow>
               read_chain s next (ptr + of_nat CLUSTER_SIZE)
                 (mem_write m ptr (read_clusters cluster_number 1 (fs_disk s))))"

definition fat_read :: "FAT32DriverRequest \<Rightarrow> fs_state \<Rightarrow> mem \<Rightarrow> (int \<times> mem) run" where
  "fat_read rq s m =
     (let parent = read_table s (rq_parent_cluster_number rq) in
      if de_attribute (parent ! 0) \<noteq> ATTR_SUBDIRECTORY then Ret (-1, m)
      else
        let idx = find_entry parent rq in
        if idx = DIR_ENTRY_COUNT then Ret (2, m)
        else
          let dir_entry = parent ! idx in
          if de_attribute dir_entry = ATTR_SUBDIRECTORY then Ret (1, m)
          else if rq_buffer_size rq < de_filesize dir_entry then Ret (-1, m)
          else run_bind (read_chain s (entry_cluster dir_entry) (rq_buf rq) m) (\<lambda>m'. Ret (0, m')))"

text \<open>
  The search of \<open>fat_write\<close>: entries 2 to 63, until one has the requested name, extension and
  attribute; it counts the empty entries it passes and remembers the first of them. The
  components are \<^verbatim>\<open>idx\<close>, \<^verbatim>\<open>found\<close>, \<^verbatim>\<open>empty_entry_idx\<close> and \<^verbatim>\<open>number_of_empty_entry\<close>.
\<close>

function write_scan ::
  "dir_table \<Rightarrow> FAT32DriverRequest \<Rightarrow> u8 \<Rightarrow> nat \<Rightarrow> bool \<Rightarrow> u32 \<Rightarrow> u32 \<Rightarrow> nat \<times> u32 \<times> u32" where
  "write_scan t rq attr idx found empty_entry_idx number =
     (if idx < DIR_ENTRY_COUNT \<and> \<not> (entry_matches (t ! idx) rq \<and> de_attribute (t ! idx) = attr)
      then
        if de_user_attribute (t ! idx) \<noteq> UATTR_NOT_EMPTY
        then write_scan t rq attr (Suc idx) True
               (if found then empty_entry_idx else of_nat idx) (number + 1)
        else write_scan t rq attr (Suc idx) found empty_entry_idx number
      else (idx, empty_entry_idx, number))"
  by pat_completeness auto
termination
  by (relation "measure (\<lambda>(t, rq, attr, idx, found, e, n). DIR_ENTRY_COUNT - idx)") auto

declare write_scan.simps [simp del]

text \<open>\<^verbatim>\<open>while (cluster_map[i] != FAT32_FAT_EMPTY_ENTRY) i++;\<close>, without a bound.\<close>

partial_function (option) next_empty :: "fs_state \<Rightarrow> u32 \<Rightarrow> u32 run" where
  "next_empty s i =
     (case cluster_map_get (fs_driver s) i of
        None \<Rightarrow> Fault Out_Of_Bounds
      | Some v \<Rightarrow> if v \<noteq> FAT32_FAT_EMPTY_ENTRY then next_empty s (i + 1) else Ret i)"

text \<open>The loop over all partitions but the last; the first argument counts the iterations left.\<close>

primrec write_partitions ::
  "nat \<Rightarrow> mem \<Rightarrow> u32 \<Rightarrow> u32 \<Rightarrow> u32 \<Rightarrow> fs_state \<Rightarrow> (u32 \<times> u32 \<times> fs_state) run" where
  "write_partitions 0 m buf partitions_count empty_cluster_idx s =
     Ret (partitions_count, empty_cluster_idx, s)"
| "write_partitions (Suc k) m buf partitions_count empty_cluster_idx s =
     run_bind (next_empty s (empty_cluster_idx + 1)) (\<lambda>next.
     run_bind (set_map empty_cluster_idx next s) (\<lambda>s.
     write_partitions k m buf (partitions_count + 1) next
       (write_cluster (mem_read m (buf + of_nat CLUSTER_SIZE * partitions_count) CLUSTER_SIZE)
          empty_cluster_idx s)))"

definition number_of_partition :: "u32 \<Rightarrow> u32" where
  "number_of_partition buffer_size =
     buffer_size div of_nat CLUSTER_SIZE + (if buffer_size mod of_nat CLUSTER_SIZE > 0 then 1 else 0)"

definition write_folder ::
  "FAT32DriverRequest \<Rightarrow> dir_table \<Rightarrow> u32 \<Rightarrow> fs_state \<Rightarrow> (int \<times> fs_state) run" where
  "write_folder rq parent empty_entry_idx s =
     (let empty_cluster_idx = find_empty_cluster (fs_fat s) in
      if empty_cluster_idx = -1 then Ret (-1, s)
      else
        let s = s\<lparr>fs_driver := (fs_driver s)\<lparr>dir_table_buf :=
                    init_directory_table (rq_name rq) (rq_parent_cluster_number rq) s\<rparr>\<rparr>;
            e = unat empty_entry_idx;
            parent = parent[e := init_directory_entry (parent ! e) (rq_name rq) (rq_ext rq)
                                   ATTR_SUBDIRECTORY empty_cluster_idx (rq_buffer_size rq)]
        in run_bind (set_map empty_cluster_idx FAT32_FAT_END_OF_FILE s) (\<lambda>s.
           let s = write_cluster (enc_fat (fs_fat s)) FAT_CLUSTER_NUMBER s;
               s = write_cluster (enc_table (dir_table_buf (fs_driver s))) empty_cluster_idx s;
               s = write_cluster (enc_table parent) (rq_parent_cluster_number rq) s
           in Ret (0, s)))"

definition write_file ::
  "FAT32DriverRequest \<Rightarrow> dir_table \<Rightarrow> u32 \<Rightarrow> mem \<Rightarrow> fs_state \<Rightarrow> (int \<times> fs_state) run" where
  "write_file rq parent empty_entry_idx m s =
     (let n = number_of_partition (rq_buffer_size rq) in
      if \<not> enough_empty_cluster (fs_driver s) n then Ret (-1, s)
      else
        let empty_cluster_idx = find_empty_cluster (fs_fat s) in
        if empty_cluster_idx = -1 then Ret (-1, s)
        else
          let e = unat empty_entry_idx;
              parent = parent[e := init_directory_entry (parent ! e) (rq_name rq) (rq_ext rq) 0
                                     empty_cluster_idx (rq_buffer_size rq)];
              s = write_cluster (enc_table parent) (rq_parent_cluster_number rq) s
          in run_bind (write_partitions (unat (n - 1)) m (rq_buf rq) 0 empty_cluster_idx s)
               (\<lambda>(partitions_count, last, s).
             run_bind (set_map last FAT32_FAT_END_OF_FILE s) (\<lambda>s.
             let s = write_cluster
                       (mem_read m (rq_buf rq + of_nat CLUSTER_SIZE * partitions_count) CLUSTER_SIZE) last s;
                 s = write_cluster (enc_fat (fs_fat s)) FAT_CLUSTER_NUMBER s
             in Ret (0, s))))"

definition fat_write :: "FAT32DriverRequest \<Rightarrow> mem \<Rightarrow> fs_state \<Rightarrow> (int \<times> fs_state) run" where
  "fat_write rq m s =
     (let parent = read_table s (rq_parent_cluster_number rq) in
      if de_attribute (parent ! 0) \<noteq> ATTR_SUBDIRECTORY then Ret (2, s)
      else
        let request_attribute = (if rq_buffer_size rq = 0 then ATTR_SUBDIRECTORY else 0);
            (idx, empty_entry_idx, number_of_empty_entry) =
              write_scan parent rq request_attribute 2 False (-1) 0
        in if idx < DIR_ENTRY_COUNT then Ret (1, s)
           else if number_of_empty_entry = 0 then Ret (-1, s)
           else if rq_buffer_size rq = 0 then write_folder rq parent empty_entry_idx s
           else write_file rq parent empty_entry_idx m s)"

text \<open>The loop of \<open>Delete\<close> frees every cluster of the chain but the last, which it returns.\<close>

definition empty_cluster :: "u8 list" where
  "empty_cluster = replicate CLUSTER_SIZE 0"

partial_function (option) delete_chain :: "u32 \<Rightarrow> fs_state \<Rightarrow> (u32 \<times> fs_state) run" where
  "delete_chain deleted_cluster s =
     (case cluster_map_get (fs_driver s) deleted_cluster of
        None \<Rightarrow> Fault Out_Of_Bounds
      | Some next \<Rightarrow>
          if next \<noteq> FAT32_FAT_END_OF_FILE then
            case cluster_map_set deleted_cluster FAT32_FAT_EMPTY_ENTRY (fs_driver s) of
              None \<Rightarrow> Fault Out_Of_Bounds
            | Some st \<Rightarrow>
                delete_chain next (write_cluster empty_cluster deleted_cluster (s\<lparr>fs_driver := st\<rparr>))
          else Ret (deleted_cluster, s))"

definition delete_finish ::
  "FAT32DriverRequest \<Rightarrow> dir_table \<Rightarrow> nat \<Rightarrow> u32 \<Rightarrow> fs_state \<Rightarrow> (int \<times> fs_state) run" where
  "delete_finish rq parent idx deleted_cluster s =
     (let parent = parent[idx := empty_entry];
          s = write_cluster empty_cluster deleted_cluster s
      in run_bind (set_map deleted_cluster FAT32_FAT_EMPTY_ENTRY s) (\<lambda>s.
         let s = write_cluster (enc_table parent) (rq_parent_cluster_number rq) s;
             s = write_cluster (enc_fat (fs_fat s)) FAT_CLUSTER_NUMBER s
         in Ret (0, s)))"

definition Delete :: "FAT32DriverRequest \<Rightarrow> fs_state \<Rightarrow> (int \<times> fs_state) run" where
  "Delete rq s =
     (let parent = read_table s (rq_parent_cluster_number rq) in
      if de_attribute (parent ! 0) \<noteq> ATTR_SUBDIRECTORY then Ret (-1, s)
      else
        let idx = find_entry parent rq in
        if idx = DIR_ENTRY_COUNT then Ret (1, s)
        else
          let dir_entry = parent ! idx;
              deleted_cluster = entry_cluster dir_entry
          in if de_attribute dir_entry = ATTR_SUBDIRECTORY then
               let folder = read_table s (ucast (de_cluster_low dir_entry));
                   idx2 = scan_while (\<lambda>i. de_user_attribute (folder ! i) \<noteq> UATTR_NOT_EMPTY) 2 DIR_ENTRY_COUNT
               in if idx2 < DIR_ENTRY_COUNT then Ret (2, s)
                  else delete_finish rq parent idx deleted_cluster s
             else run_bind (delete_chain deleted_cluster s)
                    (\<lambda>(last, s). delete_finish rq parent idx last s))"

declare read_chain.simps [code] next_empty.simps [code] delete_chain.simps [code]

end
