(* ===== verification/FAT32_Chain.thy ===== *)
theory FAT32_Chain
  imports FAT32_Ops
begin

text \<open>
  Cluster chains in the file allocation table and the loops that walk, extend and free them:
  \<open>read_chain\<close>, \<open>next_empty\<close>, \<open>write_partitions\<close> and \<open>delete_chain\<close>, with the free-cluster
  search and the free-space check of the driver.
\<close>

subsection \<open>Access to the map inside its bounds\<close>

lemma cluster_map_get_in [simp]:
  "unat i < 512 \<Longrightarrow> cluster_map_get st i = Some (fat_table st ! unat i)"
  by (simp add: cluster_map_get_def)

lemma cluster_map_set_in [simp]:
  "unat i < 512 \<Longrightarrow> cluster_map_set i v st = Some (st\<lparr>fat_table := (fat_table st)[unat i := v]\<rparr>)"
  by (simp add: cluster_map_set_def)

lemma set_map_in [simp]: "unat i < 512 \<Longrightarrow> set_map i v s = Ret (set_fat ((fs_fat s)[unat i := v]) s)"
  by (simp add: set_map_def)

lemma unat_small [simp]: "c < 512 \<Longrightarrow> unat (of_nat c :: u32) = c"
  by (simp add: unat_of_nat)

lemma of_nat_small_less [simp]: "c < 512 \<Longrightarrow> (of_nat c :: u32) < 0x40000000"
  by (simp add: word_less_nat_alt)

lemma of_nat_small_eq [simp]: "c < 512 \<Longrightarrow> c' < 512 \<Longrightarrow> (of_nat c :: u32) = of_nat c' \<longleftrightarrow> c = c'"
  by (metis unat_small)

lemma small_ne_eof [simp]: "c < 512 \<Longrightarrow> (of_nat c :: u32) \<noteq> 0x0FFFFFFF"
  by (simp add: word_unat_eq_iff)

subsection \<open>Chains\<close>

primrec chain :: "u32 list \<Rightarrow> u32 \<Rightarrow> nat list \<Rightarrow> bool" where
  "chain fat c [] \<longleftrightarrow> c = FAT32_FAT_END_OF_FILE"
| "chain fat c (x # xs) \<longleftrightarrow> unat c = x \<and> 2 \<le> x \<and> x < CLUSTER_MAP_SIZE \<and> chain fat (fat ! x) xs"

lemma chain_EOF [simp]: "chain fat 0x0FFFFFFF xs \<longleftrightarrow> xs = []"
  by (cases xs) auto

lemma chain_zero [simp]: "\<not> chain fat 0 xs"
  by (cases xs) auto

lemma chain_unique: "chain fat c xs \<Longrightarrow> chain fat c ys \<Longrightarrow> xs = ys"
proof (induction xs arbitrary: c ys)
  case (Cons x xs)
  then show ?case by (cases ys) auto
qed simp

lemma chain_range: "chain fat c xs \<Longrightarrow> set xs \<subseteq> {2..<512}"
  by (induction xs arbitrary: c) auto

lemma chain_append: "chain fat c (xs @ y # ys) \<Longrightarrow> chain fat (of_nat y) (y # ys)"
  by (induction xs arbitrary: c) auto

lemma chain_distinct: "chain fat c xs \<Longrightarrow> distinct xs"
proof (induction xs arbitrary: c)
  case (Cons x xs)
  have "x \<notin> set xs"
  proof
    assume "x \<in> set xs"
    then obtain us vs where xs: "xs = us @ x # vs" by (auto simp: in_set_conv_decomp)
    with Cons.prems have "chain fat (of_nat x) (x # us @ x # vs)" "chain fat (of_nat x) (x # vs)"
      using chain_append [of fat "fat ! x" us x vs] by (auto simp del: of_nat_small_eq)
    then have "x # us @ x # vs = x # vs" by (rule chain_unique)
    then show False by simp
  qed
  with Cons show ?case by auto
qed simp

lemma chain_cell_nonempty: "chain fat c xs \<Longrightarrow> x \<in> set xs \<Longrightarrow> fat ! x \<noteq> 0"
  by (induction xs arbitrary: c) auto

lemma chain_cong:
  "(\<And>x. x \<in> set xs \<Longrightarrow> fat ! x = fat' ! x) \<Longrightarrow> chain fat c xs = chain fat' c xs"
  by (induction xs arbitrary: c) auto

lemma chain_length: "chain fat c xs \<Longrightarrow> length xs \<le> 510"
  using card_mono [OF _ chain_range, of fat c xs] by (simp add: distinct_card chain_distinct)

subsection \<open>Linking a chain\<close>

fun link_open :: "u32 list \<Rightarrow> nat list \<Rightarrow> u32 list" where
  "link_open fat (x # y # ys) = link_open (fat[x := of_nat y]) (y # ys)"
| "link_open fat xs = fat"

definition link_chain :: "u32 list \<Rightarrow> nat list \<Rightarrow> u32 list" where
  "link_chain fat cs = (link_open fat cs)[last cs := FAT32_FAT_END_OF_FILE]"

lemma length_link_open [simp]: "length (link_open fat cs) = length fat"
  by (induction fat cs rule: link_open.induct) auto

lemma length_link_chain [simp]: "length (link_chain fat cs) = length fat"
  by (simp add: link_chain_def)

lemma link_open_other: "x \<notin> set cs \<Longrightarrow> link_open fat cs ! x = fat ! x"
  by (induction fat cs rule: link_open.induct) auto

lemma link_chain_other: "x \<notin> set cs \<Longrightarrow> cs \<noteq> [] \<Longrightarrow> link_chain fat cs ! x = fat ! x"
  by (metis last_in_set link_chain_def link_open_other nth_list_update_neq)

lemma link_chain_Cons2: "link_chain fat (x # y # ys) = link_chain (fat[x := of_nat y]) (y # ys)"
  by (simp add: link_chain_def)

lemma chain_link_chain:
  assumes "cs \<noteq> []" "distinct cs" "set cs \<subseteq> {2..<512}" "length fat = 512"
  shows "chain (link_chain fat cs) (of_nat (hd cs)) cs"
  using assms
proof (induction fat cs rule: link_open.induct)
  case (1 fat x y ys)
  have "link_chain fat (x # y # ys) ! x = of_nat y"
    using 1 by (simp add: link_chain_Cons2 link_chain_other)
  then show ?case using 1 by (simp add: link_chain_Cons2)
qed (auto simp: link_chain_def)

subsection \<open>Free clusters\<close>

definition free_from :: "u32 list \<Rightarrow> nat \<Rightarrow> nat list" where
  "free_from fat i = filter (\<lambda>k. fat ! k = FAT32_FAT_EMPTY_ENTRY) [i..<CLUSTER_MAP_SIZE]"

lemma free_from_distinct [simp]: "distinct (free_from fat i)"
  by (simp add: free_from_def)

lemma set_free_from: "set (free_from fat i) = {k. i \<le> k \<and> k < 512 \<and> fat ! k = 0}"
  by (auto simp: free_from_def)

lemma free_from_ConsD:
  assumes "free_from fat i = j # js"
  shows "i \<le> j" "j < 512" "fat ! j = 0" "js = free_from fat (Suc j)"
  using filter_upt_ConsD [of _ i "512" j js] assms by (auto simp: free_from_def)

lemma free_from_step: "i < 512 \<Longrightarrow> free_from fat i = (if fat ! i = 0 then i # free_from fat (Suc i) else free_from fat (Suc i))"
  by (simp add: free_from_def filter_upt_Cons)

lemma free_from_at: "free_from fat i = j # js \<Longrightarrow> free_from fat j = j # js"
  using free_from_ConsD [of fat i j js] free_from_step [of j fat] by simp

lemma free_from_upd: "k < i \<Longrightarrow> free_from (fat[k := v]) i = free_from fat i"
  by (auto simp: free_from_def intro: filter_cong)

lemma find_empty_cluster_free:
  "find_empty_cluster fat = (case free_from fat 0 of [] \<Rightarrow> -1 | j # _ \<Rightarrow> of_nat j)"
  using filter_upt_scan [of 0 512 "\<lambda>k. fat ! k = 0"]
  by (simp add: find_empty_cluster_def free_from_def Let_def)

lemma next_empty_free:
  "free_from (fs_fat s) i = j # js \<Longrightarrow> next_empty s (of_nat i) = Ret (of_nat j)"
proof (induction "512 - i" arbitrary: i)
  case 0
  then show ?case by (simp add: free_from_def)
next
  case (Suc d)
  then have i: "i < 512" by simp
  show ?case
  proof (cases "fs_fat s ! i = 0")
    case True
    with Suc.prems i show ?thesis by (simp add: next_empty.simps free_from_step)
  next
    case False
    then have "next_empty s (of_nat (Suc i)) = Ret (of_nat j)"
      using Suc i by (intro Suc.hyps(1)) (auto simp: free_from_step)
    with False i show ?thesis by (subst next_empty.simps) (simp add: add.commute)
  qed
qed

subsection \<open>The free-space check\<close>

lemma enough_empty_loop_count:
  fixes number required :: u32
  assumes "number \<le> required" "idx \<le> 512"
  shows "enough_empty_loop st required idx number =
    (let k = length (filter (\<lambda>i. cluster_map_get st (of_nat i) = Some 0) [Suc idx..<513])
     in if unat required \<le> unat number + k then required else number + of_nat k)"
  using assms unfolding Let_def
proof (induction st required idx number rule: enough_empty_loop.induct)
  case (1 st required idx number)
  let ?hit = "cluster_map_get st (of_nat (Suc idx)) = Some 0"
  let ?k = "\<lambda>i. length (filter (\<lambda>i. cluster_map_get st (of_nat i) = Some 0) [Suc i..<513])"
  show ?case
  proof (cases "idx < 512 \<and> number < required")
    case True
    define number' where "number' = (if ?hit then number + 1 else number)"
    have le: "number' \<le> required" and u: "unat number' = unat number + (if ?hit then 1 else 0)"
      using True unat_add_one_less [of number required] by (auto simp: number'_def)
    have k: "?k idx = (if ?hit then 1 else 0) + ?k (Suc idx)"
      using True by (simp add: filter_upt_Cons)
    have "enough_empty_loop st required (Suc idx) number' =
      (if unat required \<le> unat number' + ?k (Suc idx) then required else number' + of_nat (?k (Suc idx)))"
      using "1.IH" True le by (simp add: number'_def)
    then show ?thesis
      using True u k by (simp add: enough_empty_loop.simps [of st required idx number] number'_def)
  next
    case False
    then consider "idx = 512" | "number = required" using "1.prems" by fastforce
    moreover have "enough_empty_loop st required idx number = number"
      using False by (subst enough_empty_loop.simps) auto
    ultimately show ?thesis
      using "1.prems" by (cases; auto simp: word_le_nat_alt word_unat_eq_iff)
  qed
qed

lemma enough_empty_cluster_iff:
  "enough_empty_cluster st required \<longleftrightarrow>
     unat required \<le> length (filter (\<lambda>i. cluster_map_get st (of_nat i) = Some 0) [3..<513])"
proof -
  let ?k = "length (filter (\<lambda>i. cluster_map_get st (of_nat i) = Some 0) [3..<513])"
  have "?k \<le> length [3..<513]" by (rule length_filter_le)
  then have "of_nat ?k = required \<Longrightarrow> unat required = ?k" for required :: u32
    by (auto simp: unat_of_nat)
  then show ?thesis
    using enough_empty_loop_count [of 0 required 2 st]
    by (auto simp: enough_empty_cluster_def Let_def split: if_splits)
qed

text \<open>
  The check counts the free clusters from 3 on, plus one when the word after the map, the
  first word of \<open>dir_table_buf\<close>, happens to be zero.
\<close>

lemma enough_empty_cluster_free:
  "enough_empty_cluster st required \<longleftrightarrow>
     unat required \<le> length (free_from (fat_table st) 3) +
       (if word_at (enc_table (dir_table_buf st)) 0 = 0 then 1 else 0)"
proof -
  have "cluster_map_get st 512 = Some (word_at (enc_table (dir_table_buf st)) 0)"
    by (simp add: cluster_map_get_def)
  moreover have "filter (\<lambda>i. cluster_map_get st (of_nat i) = Some 0) [3..<512] = free_from (fat_table st) 3"
    by (auto simp: free_from_def intro: filter_cong)
  moreover have "[3..<513] = [3..<512] @ [512]"
    using upt_Suc_append [of 3 512] by simp
  ultimately show ?thesis by (simp add: enough_empty_cluster_iff)
qed

subsection \<open>Storing buffers along a chain\<close>

fun store_chain :: "disk \<Rightarrow> nat list \<Rightarrow> u8 list list \<Rightarrow> disk" where
  "store_chain d (c # cs) (b # bs) = store_chain (write_clusters b (of_nat c) 1 d) cs bs"
| "store_chain d _ _ = d"

definition buffers :: "mem \<Rightarrow> u32 \<Rightarrow> u32 \<Rightarrow> nat \<Rightarrow> u8 list list" where
  "buffers m buf pc n =
     map (\<lambda>k. mem_read m (buf + of_nat CLUSTER_SIZE * (pc + of_nat k)) CLUSTER_SIZE) [0..<n]"

lemma length_buffers [simp]: "length (buffers m buf pc n) = n"
  by (simp add: buffers_def)

lemma buffers_Suc:
  "buffers m buf pc (Suc n) = mem_read m (buf + of_nat CLUSTER_SIZE * pc) CLUSTER_SIZE # buffers m buf (pc + 1) n"
  by (simp add: buffers_def upt_conv_Cons map_Suc_upt [symmetric] add.assoc del: upt_Suc)

lemma buffers_snoc:
  "buffers m buf pc (Suc n) =
     buffers m buf pc n @ [mem_read m (buf + of_nat CLUSTER_SIZE * (pc + of_nat n)) CLUSTER_SIZE]"
  by (simp add: buffers_def)

lemma buffers_lengths: "b \<in> set (buffers m buf pc n) \<Longrightarrow> length b = 2048"
  by (auto simp: buffers_def)

lemma store_chain_snoc:
  "length bs = length cs \<Longrightarrow>
     store_chain d (cs @ [c]) (bs @ [b]) = write_clusters b (of_nat c) 1 (store_chain d cs bs)"
  by (induction d cs bs rule: store_chain.induct) auto

lemma cluster_write_other:
  "c < 512 \<Longrightarrow> x < 512 \<Longrightarrow> c \<noteq> x \<Longrightarrow> cluster (write_clusters b (of_nat c) 1 d) x = cluster d x"
  by (rule read_write_cluster_other) auto

lemma cluster_store_other:
  "x < 512 \<Longrightarrow> x \<notin> set cs \<Longrightarrow> set cs \<subseteq> {..<512} \<Longrightarrow> cluster (store_chain d cs bs) x = cluster d x"
  by (induction d cs bs rule: store_chain.induct) (auto simp: cluster_write_other)

lemma cluster_store_nth:
  assumes "distinct cs" "set cs \<subseteq> {..<512}" "length bs = length cs" "\<forall>b\<in>set bs. length b = 2048"
    "k < length cs"
  shows "cluster (store_chain d cs bs) (cs ! k) = bs ! k"
  using assms
proof (induction d cs bs arbitrary: k rule: store_chain.induct)
  case (1 d c cs b bs)
  then show ?case
    by (cases k) (auto simp: cluster_store_other read_write_cluster_same)
qed auto

lemma wf_store_chain:
  "wf_disk d \<Longrightarrow> \<forall>b\<in>set bs. length b = 2048 \<Longrightarrow> wf_disk (store_chain d cs bs)"
  by (induction d cs bs rule: store_chain.induct) auto

lemma write_partitions_free:
  assumes "fs_fat s ! e = 0" "e < 512" "k < length (free_from (fs_fat s) e)"
  shows "write_partitions k m buf pc (of_nat e) s =
    (let cs = take (Suc k) (free_from (fs_fat s) e)
     in Ret (pc + of_nat k, of_nat (last cs),
             set_fat (link_open (fs_fat s) cs)
               (set_disk (store_chain (fs_disk s) (butlast cs) (buffers m buf pc k)) s)))"
  using assms
proof (induction k arbitrary: e pc s)
  case 0
  then show ?case by (simp add: free_from_step buffers_def)
next
  case (Suc k)
  let ?fat = "fs_fat s"
  have f: "free_from ?fat e = e # free_from ?fat (Suc e)"
    using Suc.prems by (simp add: free_from_step)
  with Suc.prems obtain j js where j: "free_from ?fat (Suc e) = j # js"
    by (cases "free_from ?fat (Suc e)") auto
  note jD = free_from_ConsD [OF j]
  let ?s = "write_cluster (mem_read m (buf + of_nat CLUSTER_SIZE * pc) CLUSTER_SIZE) (of_nat e)
    (set_fat (?fat[e := of_nat j]) s)"
  have nx: "next_empty s (of_nat e + 1) = Ret (of_nat j)"
    using next_empty_free [OF j] by (simp add: add.commute)
  have fj: "free_from (?fat[e := of_nat j]) j = j # js"
    using jD free_from_at [OF j] by (simp add: free_from_upd)
  have "write_partitions k m buf (pc + 1) (of_nat j) ?s =
    (let cs = take (Suc k) (free_from (fs_fat ?s) j)
     in Ret (pc + 1 + of_nat k, of_nat (last cs),
             set_fat (link_open (fs_fat ?s) cs)
               (set_disk (store_chain (fs_disk ?s) (butlast cs) (buffers m buf (pc + 1) k)) ?s)))"
    using Suc.prems f j fj jD by (intro Suc.IH) auto
  then show ?case
    using Suc.prems nx f j fj by (simp add: buffers_Suc Let_def add.assoc)
qed

subsection \<open>Reading and freeing a chain\<close>

lemma chain_Cons_word: "chain fat c (x # xs) \<Longrightarrow> c = of_nat x"
  by auto

lemma read_chain_chain:
  assumes "chain (fs_fat s) c cs" "wf_disk (fs_disk s)"
  shows "read_chain s c ptr m = Ret (mem_write m ptr (concat (map (cluster (fs_disk s)) cs)))"
proof -
  have "2048 * length cs \<le> 2 ^ 32" using chain_length [OF assms(1)] by simp
  then show ?thesis using assms(1)
  proof (induction cs arbitrary: c ptr m)
    case Nil
    then show ?case by (simp add: read_chain.simps)
  next
    case (Cons x xs)
    have l: "length (concat (map (cluster (fs_disk s)) xs)) = 2048 * length xs"
      using assms(2) by (simp add: length_concat comp_def sum_list_triv)
    have "read_chain s (fs_fat s ! x) (ptr + 2048) (mem_write m ptr (cluster (fs_disk s) x)) =
      Ret (mem_write (mem_write m ptr (cluster (fs_disk s) x)) (ptr + 2048)
            (concat (map (cluster (fs_disk s)) xs)))"
      using Cons by simp
    moreover have "c = of_nat x" "unat c = x" "x < 512" using Cons.prems by auto
    ultimately show ?case
      using Cons.prems l mem_write_append [of "cluster (fs_disk s) x" "concat (map (cluster (fs_disk s)) xs)" m ptr]
        assms(2) by (subst read_chain.simps) simp
  qed
qed

definition clear_cells :: "u32 list \<Rightarrow> nat list \<Rightarrow> u32 list" where
  "clear_cells fat xs = fold (\<lambda>x f. f[x := FAT32_FAT_EMPTY_ENTRY]) xs fat"

lemma length_clear_cells [simp]: "length (clear_cells fat xs) = length fat"
  by (induction xs arbitrary: fat) (auto simp: clear_cells_def)

lemma clear_cells_Cons: "clear_cells fat (x # xs) = clear_cells (fat[x := 0]) xs"
  by (simp add: clear_cells_def)

lemma clear_cells_snoc: "clear_cells fat (xs @ [x]) = (clear_cells fat xs)[x := 0]"
  by (simp add: clear_cells_def)

lemma clear_cells_nth:
  "i < length fat \<Longrightarrow> clear_cells fat xs ! i = (if i \<in> set xs then 0 else fat ! i)"
  by (induction xs arbitrary: fat) (auto simp: clear_cells_Cons nth_list_update, simp add: clear_cells_def)

abbreviation zeros :: "nat list \<Rightarrow> u8 list list" where
  "zeros xs \<equiv> replicate (length xs) empty_cluster"

lemma length_empty_cluster [simp]: "length empty_cluster = 2048"
  by (simp add: empty_cluster_def)

lemma delete_chain_chain:
  assumes "chain (fs_fat s) c cs" "cs \<noteq> []"
  shows "delete_chain c s =
    Ret (of_nat (last cs),
         set_fat (clear_cells (fs_fat s) (butlast cs))
           (set_disk (store_chain (fs_disk s) (butlast cs) (zeros (butlast cs))) s))"
  using assms
proof (induction cs arbitrary: c s)
  case (Cons x xs)
  have x: "c = of_nat x" "unat c = x" "x < 512" using Cons.prems by auto
  show ?case
  proof (cases xs)
    case Nil
    with Cons.prems x show ?thesis by (subst delete_chain.simps) (simp add: clear_cells_def)
  next
    case (Cons y ys)
    let ?s = "write_cluster empty_cluster c (set_fat ((fs_fat s)[x := 0]) s)"
    have "x \<notin> set xs" using chain_distinct [OF Cons.prems(1)] by simp
    then have "chain ((fs_fat s)[x := 0]) (fs_fat s ! x) xs = chain (fs_fat s) (fs_fat s ! x) xs"
      by (intro chain_cong) (metis nth_list_update_neq)
    then have "chain (fs_fat ?s) (fs_fat s ! x) xs"
      using Cons.prems(1) by simp
    then have "delete_chain (fs_fat s ! x) ?s =
      Ret (of_nat (last xs), set_fat (clear_cells (fs_fat ?s) (butlast xs))
        (set_disk (store_chain (fs_disk ?s) (butlast xs) (zeros (butlast xs))) ?s))"
      using Cons.IH Cons by simp
    moreover have "fs_fat s ! x \<noteq> 0x0FFFFFFF" using Cons.prems(1) Cons by auto
    ultimately show ?thesis
      using x Cons by (subst delete_chain.simps) (simp add: clear_cells_Cons)
  qed
qed simp

end
