(* ===== verification/FAT32_Tree.thy ===== *)
theory FAT32_Tree
  imports FAT32_Chain
begin

text \<open>
  The directory tree as an abstract structure over the allocation table and the directory
  tables, its well-formedness, and the four changes the driver makes to it: adding a file,
  adding a folder, removing a file and removing an empty folder.
\<close>

subsection \<open>Entries\<close>

definition used :: "FAT32DirectoryEntry \<Rightarrow> bool" where
  "used e \<longleftrightarrow> de_user_attribute e = UATTR_NOT_EMPTY"

definition is_dir :: "FAT32DirectoryEntry \<Rightarrow> bool" where
  "is_dir e \<longleftrightarrow> de_attribute e = ATTR_SUBDIRECTORY"

lemma mask16: "(0xFFFF :: u32) = mask 16"
  by (simp add: mask_eq_exp_minus_1)

lemma cluster_halves:
  "push_bit 16 (ucast (ucast (drop_bit 16 c AND 0xFFFF :: u32) :: u16)) OR
   ucast (ucast (c AND 0xFFFF :: u32) :: u16) = (c :: u32)"
  unfolding mask16 by (rule bit_word_eqI) (auto simp: bit_simps)

lemma init_directory_entry_sel [simp]:
  "entry_cluster (init_directory_entry e n x a c f) = c"
  "de_name (init_directory_entry e n x a c f) = take 8 n"
  "de_ext (init_directory_entry e n x a c f) = take 3 x"
  "de_attribute (init_directory_entry e n x a c f) = a"
  "used (init_directory_entry e n x a c f)"
  "is_dir (init_directory_entry e n x a c f) \<longleftrightarrow> a = ATTR_SUBDIRECTORY"
  "de_filesize (init_directory_entry e n x a c f) = f"
  using cluster_halves [of c]
  by (simp_all add: init_directory_entry_def entry_cluster_def used_def is_dir_def)

lemma init_directory_entry_user_attribute [simp]:
  "de_user_attribute (init_directory_entry e n x a c f) = UATTR_NOT_EMPTY"
  by (simp add: init_directory_entry_def)

lemma wf_init_directory_entry [simp]:
  "8 \<le> length n \<Longrightarrow> 3 \<le> length x \<Longrightarrow> wf_entry (init_directory_entry e n x a c f)"
  by (simp add: wf_entry_def)

lemma not_used_empty_entry [simp]: "\<not> used empty_entry"
  by (simp add: used_def empty_entry_def)

lemma low_half:
  assumes "entry_cluster e < 0x10000"
  shows "ucast (de_cluster_low e) = entry_cluster e"
proof -
  have "de_cluster_high e = 0"
  proof (rule bit_word_eqI)
    fix n assume "n < LENGTH(16)"
    then have "bit (entry_cluster e) (n + 16) = bit (de_cluster_high e) n"
      by (auto simp: entry_cluster_def bit_simps dest: bit_imp_le_length)
    moreover have "\<not> bit (entry_cluster e) (n + 16)"
    proof -
      have "take_bit 16 (entry_cluster e) = entry_cluster e"
        using assms by (simp add: take_bit_eq_mod word_unat_eq_iff unat_mod word_less_nat_alt)
      then have "bit (entry_cluster e) (n + 16) = bit (take_bit 16 (entry_cluster e)) (n + 16)" by simp
      then show ?thesis by (simp add: bit_simps)
    qed
    ultimately show "bit (de_cluster_high e) n = bit 0 n" by simp
  qed
  then show ?thesis by (simp add: entry_cluster_def)
qed

subsection \<open>The tree\<close>

type_synonym slot = "nat \<times> nat"
type_synonym tables = "nat \<Rightarrow> dir_table"

abbreviation ent :: "tables \<Rightarrow> slot \<Rightarrow> FAT32DirectoryEntry" where
  "ent T p \<equiv> T (fst p) ! snd p"

text \<open>A slot is a used entry of a directory, its self and parent entries excluded.\<close>

definition slots :: "nat set \<Rightarrow> tables \<Rightarrow> slot set" where
  "slots D T = {p. fst p \<in> D \<and> 2 \<le> snd p \<and> snd p < DIR_ENTRY_COUNT \<and> used (ent T p)}"

definition fat_ok :: "u32 list \<Rightarrow> bool" where
  "fat_ok fat \<longleftrightarrow> length fat = CLUSTER_MAP_SIZE \<and> fat ! 0 = CLUSTER_0_VALUE \<and>
     fat ! 1 = CLUSTER_1_VALUE \<and> fat ! 2 = FAT32_FAT_END_OF_FILE"

definition same_key :: "FAT32DirectoryEntry \<Rightarrow> FAT32DirectoryEntry \<Rightarrow> bool" where
  "same_key e f \<longleftrightarrow> de_name e = de_name f \<and> de_ext e = de_ext f \<and> de_attribute e = de_attribute f"

definition table_ok :: "nat \<Rightarrow> dir_table \<Rightarrow> bool" where
  "table_ok d t \<longleftrightarrow> wf_table t \<and> is_dir (t ! 0) \<and> entry_cluster (t ! 0) = of_nat d \<and>
     (\<forall>i. 2 \<le> i \<and> i < DIR_ENTRY_COUNT \<longrightarrow> used (t ! i) \<or> t ! i = empty_entry) \<and>
     (\<forall>i j. 2 \<le> i \<and> i < DIR_ENTRY_COUNT \<and> 2 \<le> j \<and> j < DIR_ENTRY_COUNT \<and> used (t ! i) \<and> used (t ! j) \<and>
        same_key (t ! i) (t ! j) \<longrightarrow> i = j)"

definition entry_ok :: "u32 list \<Rightarrow> FAT32DirectoryEntry \<Rightarrow> nat list \<Rightarrow> bool" where
  "entry_ok fat e cs \<longleftrightarrow> chain fat (entry_cluster e) cs \<and> cs \<noteq> [] \<and> 2 \<notin> set cs \<and>
     length cs = (if is_dir e then 1 else unat (number_of_partition (de_filesize e)))"

text \<open>
  \<open>D\<close> is the set of directory clusters and \<open>own\<close> gives the clusters of each slot. The
  clauses say: reserved cells; the root is a directory; directory tables are in order;
  slots have proper chains; no cluster has two owners; folder entries lead to directories
  whose parent entry leads back; every directory but the root has a slot; no cluster is lost.
\<close>

definition tree_inv :: "nat set \<Rightarrow> (slot \<Rightarrow> nat list) \<Rightarrow> u32 list \<Rightarrow> tables \<Rightarrow> bool" where
  "tree_inv D own fat T \<longleftrightarrow>
     fat_ok fat \<and> 2 \<in> D \<and> D \<subseteq> {2..<CLUSTER_MAP_SIZE} \<and>
     (\<forall>d\<in>D. table_ok d (T d)) \<and>
     (\<forall>p\<in>slots D T. entry_ok fat (ent T p) (own p)) \<and>
     (\<forall>p\<in>slots D T. \<forall>q\<in>slots D T. p \<noteq> q \<longrightarrow> set (own p) \<inter> set (own q) = {}) \<and>
     (\<forall>p\<in>slots D T. is_dir (ent T p) \<longrightarrow>
        hd (own p) \<in> D \<and> entry_cluster (T (hd (own p)) ! 1) = of_nat (fst p)) \<and>
     (\<forall>d\<in>D. d \<noteq> 2 \<longrightarrow> (\<exists>p\<in>slots D T. is_dir (ent T p) \<and> own p = [d])) \<and>
     (\<forall>c. 2 < c \<and> c < CLUSTER_MAP_SIZE \<and> fat ! c \<noteq> FAT32_FAT_EMPTY_ENTRY \<longrightarrow>
        (\<exists>p\<in>slots D T. c \<in> set (own p)))"

lemma tree_invD:
  assumes "tree_inv D own fat T"
  shows "fat_ok fat" "length fat = 512" "2 \<in> D" "D \<subseteq> {2..<512}"
    "\<And>d. d \<in> D \<Longrightarrow> table_ok d (T d)"
    "\<And>p. p \<in> slots D T \<Longrightarrow> entry_ok fat (ent T p) (own p)"
    "\<And>p q. p \<in> slots D T \<Longrightarrow> q \<in> slots D T \<Longrightarrow> p \<noteq> q \<Longrightarrow> set (own p) \<inter> set (own q) = {}"
    "\<And>p. p \<in> slots D T \<Longrightarrow> is_dir (ent T p) \<Longrightarrow> hd (own p) \<in> D"
    "\<And>p. p \<in> slots D T \<Longrightarrow> is_dir (ent T p) \<Longrightarrow> entry_cluster (T (hd (own p)) ! 1) = of_nat (fst p)"
    "\<And>d. d \<in> D \<Longrightarrow> d \<noteq> 2 \<Longrightarrow> \<exists>p\<in>slots D T. is_dir (ent T p) \<and> own p = [d]"
    "\<And>c. 2 < c \<Longrightarrow> c < 512 \<Longrightarrow> fat ! c \<noteq> 0 \<Longrightarrow> \<exists>p\<in>slots D T. c \<in> set (own p)"
  using assms by (auto simp: tree_inv_def fat_ok_def)

lemma table_okD:
  assumes "table_ok d t"
  shows "wf_table t" "is_dir (t ! 0)" "entry_cluster (t ! 0) = of_nat d"
    "\<And>i. 2 \<le> i \<Longrightarrow> i < 64 \<Longrightarrow> \<not> used (t ! i) \<Longrightarrow> t ! i = empty_entry"
  using assms by (auto simp: table_ok_def)

lemma table_ok_unique:
  "table_ok d t \<Longrightarrow> 2 \<le> i \<Longrightarrow> i < 64 \<Longrightarrow> 2 \<le> j \<Longrightarrow> j < 64 \<Longrightarrow> used (t ! i) \<Longrightarrow> used (t ! j) \<Longrightarrow>
     same_key (t ! i) (t ! j) \<Longrightarrow> i = j"
  by (auto simp: table_ok_def)

lemma table_okI:
  assumes "wf_table t" "is_dir (t ! 0)" "entry_cluster (t ! 0) = of_nat d"
    "\<And>i. 2 \<le> i \<Longrightarrow> i < 64 \<Longrightarrow> \<not> used (t ! i) \<Longrightarrow> t ! i = empty_entry"
    "\<And>i j. 2 \<le> i \<Longrightarrow> i < 64 \<Longrightarrow> 2 \<le> j \<Longrightarrow> j < 64 \<Longrightarrow> used (t ! i) \<Longrightarrow> used (t ! j) \<Longrightarrow>
       same_key (t ! i) (t ! j) \<Longrightarrow> i = j"
  shows "table_ok d t"
  unfolding table_ok_def using assms by (intro conjI allI impI) auto

lemma entry_okD:
  assumes "entry_ok fat e cs"
  shows "chain fat (entry_cluster e) cs" "cs \<noteq> []" "2 \<notin> set cs" "set cs \<subseteq> {3..<512}" "distinct cs"
    "\<And>c. c \<in> set cs \<Longrightarrow> fat ! c \<noteq> 0" "entry_cluster e = of_nat (hd cs)"
    "is_dir e \<Longrightarrow> cs = [hd cs]"
proof -
  show c: "chain fat (entry_cluster e) cs" "cs \<noteq> []" and 2: "2 \<notin> set cs"
    using assms by (auto simp: entry_ok_def)
  show "set cs \<subseteq> {3..<512}"
  proof
    fix x assume "x \<in> set cs"
    then have "2 \<le> x" "x < 512" "x \<noteq> 2" using chain_range [OF c(1)] 2 by auto
    then show "x \<in> {3..<512}" by simp
  qed
  show "distinct cs" by (rule chain_distinct [OF c(1)])
  show "\<And>c. c \<in> set cs \<Longrightarrow> fat ! c \<noteq> 0" using chain_cell_nonempty [OF c(1)] .
  show "entry_cluster e = of_nat (hd cs)" using c by (cases cs) auto
  show "is_dir e \<Longrightarrow> cs = [hd cs]"
    using assms c(2) by (cases cs) (auto simp: entry_ok_def)
qed

lemma entry_ok_cong:
  assumes "entry_ok fat e cs" "\<And>c. c \<in> set cs \<Longrightarrow> fat' ! c = fat ! c"
  shows "entry_ok fat' e cs"
  using assms chain_cong [of cs fat' fat] by (simp add: entry_ok_def)

subsection \<open>Adding an entry\<close>

definition set_slot :: "tables \<Rightarrow> slot \<Rightarrow> FAT32DirectoryEntry \<Rightarrow> tables" where
  "set_slot T p e = T(fst p := (T (fst p))[snd p := e])"

lemma set_slot_hd [simp]: "0 < snd p \<Longrightarrow> set_slot T p e d ! 0 = T d ! 0"
  by (simp add: set_slot_def)

lemma set_slot_parent [simp]: "2 \<le> snd p \<Longrightarrow> set_slot T p e d ! Suc 0 = T d ! Suc 0"
  by (simp add: set_slot_def)

lemma ent_set_slot:
  "length (T (fst p)) = 64 \<Longrightarrow> snd p < 64 \<Longrightarrow> ent (set_slot T p e) q = (if q = p then e else ent T q)"
  by (auto simp: set_slot_def prod_eq_iff nth_list_update)

lemma slots_set_slot:
  assumes "length (T (fst p)) = 64" "snd p < 64" "2 \<le> snd p" "fst p \<in> D"
  shows "slots D (set_slot T p e) = (if used e then insert p (slots D T) else slots D T - {p})"
  using assms by (auto simp: slots_def ent_set_slot)

lemma same_key_commute: "same_key e f \<longleftrightarrow> same_key f e"
  by (auto simp: same_key_def)

lemma table_ok_add:
  assumes t: "table_ok d t" and j: "2 \<le> j" "j < 64" and "wf_entry e" "used e"
    and fresh: "\<And>i. 2 \<le> i \<Longrightarrow> i < 64 \<Longrightarrow> \<not> same_key (t ! i) e"
  shows "table_ok d (t[j := e])"
proof -
  have len: "length t = 64" using table_okD(1) [OF t] by simp
  have n: "t[j := e] ! i = (if i = j then e else t ! i)" if "i < 64" for i
    using that j len by (simp add: nth_list_update)
  have "\<not> same_key e (t ! i)" if "2 \<le> i" "i < 64" for i
    using fresh [OF that] by (simp add: same_key_commute)
  with fresh have u: "i = k" if "2 \<le> i" "i < 64" "2 \<le> k" "k < 64" "used (t[j := e] ! i)"
    "used (t[j := e] ! k)" "same_key (t[j := e] ! i) (t[j := e] ! k)" for i k
    using that table_ok_unique [OF t, of i k] by (simp add: n split: if_splits)
  have z: "t[j := e] ! i = empty_entry" if "2 \<le> i" "i < 64" "\<not> used (t[j := e] ! i)" for i
    using that table_okD(4) [OF t, of i] assms(5) by (simp add: n split: if_splits)
  show ?thesis
    by (rule table_okI [OF _ _ _ z u]) (use table_okD(1-3) [OF t] j assms(4) in \<open>simp_all add: n\<close>)
qed

lemma table_ok_remove:
  assumes t: "table_ok d t" and j: "2 \<le> j" "j < 64"
  shows "table_ok d (t[j := empty_entry])"
proof -
  have len: "length t = 64" using table_okD(1) [OF t] by simp
  have n: "t[j := empty_entry] ! i = (if i = j then empty_entry else t ! i)" if "i < 64" for i
    using that j len by (simp add: nth_list_update)
  have u: "i = k" if "2 \<le> i" "i < 64" "2 \<le> k" "k < 64" "used (t[j := empty_entry] ! i)"
    "used (t[j := empty_entry] ! k)" "same_key (t[j := empty_entry] ! i) (t[j := empty_entry] ! k)" for i k
    using that table_ok_unique [OF t, of i k] by (simp add: n split: if_splits)
  have z: "t[j := empty_entry] ! i = empty_entry"
    if "2 \<le> i" "i < 64" "\<not> used (t[j := empty_entry] ! i)" for i
    using that table_okD(4) [OF t, of i] by (simp add: n split: if_splits)
  show ?thesis
    by (rule table_okI [OF _ _ _ z u]) (use table_okD(1-3) [OF t] j in \<open>simp_all add: n\<close>)
qed

text \<open>Directories own their cluster and nothing else: no file chain passes through one.\<close>

lemma dir_not_free: "tree_inv D own fat T \<Longrightarrow> d \<in> D \<Longrightarrow> fat ! d \<noteq> 0"
proof (cases "d = 2")
  case True
  then show "tree_inv D own fat T \<Longrightarrow> d \<in> D \<Longrightarrow> fat ! d \<noteq> 0"
    using tree_invD(1) [of D own fat T] by (simp add: fat_ok_def)
next
  case False
  assume "tree_inv D own fat T" "d \<in> D"
  then obtain p where "p \<in> slots D T" "own p = [d]" using tree_invD(10) False by blast
  then show "fat ! d \<noteq> 0" using tree_invD(6) entry_okD(6) \<open>tree_inv D own fat T\<close> by fastforce
qed

lemma owned_dir:
  assumes "tree_inv D own fat T" "p \<in> slots D T" "c \<in> set (own p)" "c \<in> D"
  shows "is_dir (ent T p) \<and> own p = [c]"
proof -
  have "c \<noteq> 2" using tree_invD(6) [OF assms(1,2)] entry_okD(3) assms(3) by blast
  then obtain q where q: "q \<in> slots D T" "is_dir (ent T q)" "own q = [c]"
    using tree_invD(10) assms(1,4) by blast
  then have "q = p" using tree_invD(7) [OF assms(1) q(1) assms(2)] assms(3) by auto
  with q show ?thesis by simp
qed

lemma tree_invI:
  assumes "fat_ok fat" "2 \<in> D" "D \<subseteq> {2..<512}"
    "\<And>d. d \<in> D \<Longrightarrow> table_ok d (T d)"
    "\<And>p. p \<in> slots D T \<Longrightarrow> entry_ok fat (ent T p) (own p)"
    "\<And>p q. p \<in> slots D T \<Longrightarrow> q \<in> slots D T \<Longrightarrow> p \<noteq> q \<Longrightarrow> set (own p) \<inter> set (own q) = {}"
    "\<And>p. p \<in> slots D T \<Longrightarrow> is_dir (ent T p) \<Longrightarrow>
       hd (own p) \<in> D \<and> entry_cluster (T (hd (own p)) ! 1) = of_nat (fst p)"
    "\<And>d. d \<in> D \<Longrightarrow> d \<noteq> 2 \<Longrightarrow> \<exists>p\<in>slots D T. is_dir (ent T p) \<and> own p = [d]"
    "\<And>c. 2 < c \<Longrightarrow> c < 512 \<Longrightarrow> fat ! c \<noteq> 0 \<Longrightarrow> \<exists>p\<in>slots D T. c \<in> set (own p)"
  shows "tree_inv D own fat T"
  unfolding tree_inv_def using assms
  by (intro conjI ballI allI impI) simp_all

text \<open>
  What the two ways of adding an entry \<open>e\<close> at slot \<open>p\<close> with the clusters \<open>cs\<close> share: the
  clusters were free, the other cells of the map stay, and the entry is new in its directory.
\<close>

definition adds :: "nat set \<Rightarrow> u32 list \<Rightarrow> u32 list \<Rightarrow> tables \<Rightarrow> slot \<Rightarrow> FAT32DirectoryEntry \<Rightarrow> nat list \<Rightarrow> bool" where
  "adds D fat fat' T p e cs \<longleftrightarrow>
     fst p \<in> D \<and> 2 \<le> snd p \<and> snd p < 64 \<and> \<not> used (ent T p) \<and> wf_entry e \<and> used e \<and>
     (\<forall>i. 2 \<le> i \<and> i < 64 \<longrightarrow> \<not> same_key (T (fst p) ! i) e) \<and>
     entry_ok fat' e cs \<and> (\<forall>c\<in>set cs. fat ! c = 0) \<and>
     length fat' = 512 \<and> (\<forall>c. c \<notin> set cs \<longrightarrow> fat' ! c = fat ! c)"

lemma tree_inv_adds:
  assumes inv: "tree_inv D own fat T" and a: "adds D fat fat' T p e cs"
  shows "slots D (set_slot T p e) = insert p (slots D T)" "p \<notin> slots D T"
    "ent (set_slot T p e) q = (if q = p then e else ent T q)"
    "q \<in> slots D T \<Longrightarrow> set (own q) \<inter> set cs = {}"
    "q \<in> slots D T \<Longrightarrow> entry_ok fat' (ent T q) (own q)"
    "d \<in> D \<Longrightarrow> table_ok d (set_slot T p e d)"
    "fat_ok fat'" "set cs \<inter> D = {}"
proof -
  note D = tree_invD [OF inv]
  have p: "fst p \<in> D" "2 \<le> snd p" "snd p < 64" "\<not> used (ent T p)"
    and e: "wf_entry e" "used e" "\<And>i. 2 \<le> i \<Longrightarrow> i < 64 \<Longrightarrow> \<not> same_key (T (fst p) ! i) e"
    and cs: "entry_ok fat' e cs" "\<And>c. c \<in> set cs \<Longrightarrow> fat ! c = 0"
    and fat': "length fat' = 512" "\<And>c. c \<notin> set cs \<Longrightarrow> fat' ! c = fat ! c"
    using a by (auto simp: adds_def)
  have len: "length (T (fst p)) = 64" using table_okD(1) [OF D(5) [OF p(1)]] by simp
  show "slots D (set_slot T p e) = insert p (slots D T)"
    using p e(2) len by (simp add: slots_set_slot)
  show "p \<notin> slots D T" using p(4) by (simp add: slots_def)
  show "ent (set_slot T p e) q = (if q = p then e else ent T q)"
    using len p(3) by (rule ent_set_slot)
  show old: "set (own q) \<inter> set cs = {}" if "q \<in> slots D T" for q
    using entry_okD(6) [OF D(6) [OF that]] cs(2) by blast
  show "entry_ok fat' (ent T q) (own q)" if "q \<in> slots D T" for q
    by (rule entry_ok_cong [OF D(6) [OF that]], rule fat'(2)) (use old [OF that] in blast)
  show "table_ok d (set_slot T p e d)" if "d \<in> D" for d
    using D(5) [OF that] p e by (auto simp: set_slot_def intro!: table_ok_add)
  have "0 \<notin> set cs" "1 \<notin> set cs" "2 \<notin> set cs" using entry_okD(4) [OF cs(1)] by auto
  then show "fat_ok fat'"
    using D(1) fat' by (simp add: fat_ok_def)
  show "set cs \<inter> D = {}" using dir_not_free [OF inv] cs(2) by blast
qed

lemma fun_upd_disjoint:
  assumes "\<And>q r. q \<in> A \<Longrightarrow> r \<in> A \<Longrightarrow> q \<noteq> r \<Longrightarrow> set (f q) \<inter> set (f r) = {}"
    "\<And>q. q \<in> A \<Longrightarrow> set (f q) \<inter> set cs = {}" "p \<notin> A"
    "q \<in> insert p A" "r \<in> insert p A" "q \<noteq> r"
  shows "set ((f(p := cs)) q) \<inter> set ((f(p := cs)) r) = {}"
proof (cases "q = p \<or> r = p")
  case True
  then show ?thesis using assms(2) [of q] assms(2) [of r] assms(4-6) by (auto simp: Int_commute)
next
  case False
  then show ?thesis using assms(1) [of q r] assms(4-6) by simp
qed

lemma tree_inv_add_file:
  assumes inv: "tree_inv D own fat T" and a: "adds D fat fat' T p e cs" and e: "\<not> is_dir e"
  shows "tree_inv D (own(p := cs)) fat' (set_slot T p e)"
proof -
  note D = tree_invD [OF inv] and A = tree_inv_adds [OF inv a]
  have p: "2 \<le> snd p" and cs: "entry_ok fat' e cs" and fat': "\<And>c. c \<notin> set cs \<Longrightarrow> fat' ! c = fat ! c"
    using a by (auto simp: adds_def)
  have ne: "q \<noteq> p" if "q \<in> slots D T" for q using A(2) that by blast
  show ?thesis
  proof (rule tree_invI, unfold A(1))
    fix q r assume "q \<in> insert p (slots D T)" "r \<in> insert p (slots D T)" "q \<noteq> r"
    then show "set ((own(p := cs)) q) \<inter> set ((own(p := cs)) r) = {}"
      using fun_upd_disjoint [where f = own, OF D(7) A(4) A(2)] by blast
  next
    fix q assume "q \<in> insert p (slots D T)" "is_dir (ent (set_slot T p e) q)"
    then have "q \<in> slots D T" "is_dir (ent T q)" "q \<noteq> p" using e A(3) by (auto split: if_splits)
    then show "hd ((own(p := cs)) q) \<in> D \<and>
      entry_cluster (set_slot T p e (hd ((own(p := cs)) q)) ! 1) = of_nat (fst q)"
      using D(8,9) p by simp
  next
    fix d assume "d \<in> D" "d \<noteq> 2"
    then obtain q where "q \<in> slots D T" "is_dir (ent T q)" "own q = [d]" using D(10) by blast
    then show "\<exists>q\<in>insert p (slots D T). is_dir (ent (set_slot T p e) q) \<and> (own(p := cs)) q = [d]"
      using ne A(3) by (intro bexI [of _ q]) auto
  next
    fix c :: nat assume c: "2 < c" "c < 512" "fat' ! c \<noteq> 0"
    show "\<exists>q\<in>insert p (slots D T). c \<in> set ((own(p := cs)) q)"
    proof (cases "c \<in> set cs")
      case False
      then obtain q where "q \<in> slots D T" "c \<in> set (own q)" using D(11) [of c] c fat' by fastforce
      then show ?thesis using ne by (intro bexI [of _ q]) auto
    qed simp
  qed (use D A cs in \<open>auto\<close>)
qed

lemma tree_inv_add_dir:
  assumes inv: "tree_inv D own fat T" and a: "adds D fat fat' T p e [c]" and e: "is_dir e"
    and t: "table_ok c t" "\<And>i. 2 \<le> i \<Longrightarrow> i < 64 \<Longrightarrow> \<not> used (t ! i)" "entry_cluster (t ! 1) = of_nat (fst p)"
  shows "tree_inv (insert c D) (own(p := [c])) fat' ((set_slot T p e)(c := t))"
proof -
  note D = tree_invD [OF inv] and A = tree_inv_adds [OF inv a]
  let ?T = "(set_slot T p e)(c := t)" and ?own = "own(p := [c])"
  have p: "2 \<le> snd p" "fst p \<in> D" and cs: "entry_ok fat' e [c]" "\<And>x. x \<noteq> c \<Longrightarrow> fat' ! x = fat ! x"
    using a by (auto simp: adds_def)
  have c: "c \<notin> D" "3 \<le> c" "c < 512" using A(8) entry_okD(4) [OF cs(1)] by auto
  have ne: "q \<noteq> p" "fst q \<noteq> c" if "q \<in> slots D T" for q using A(2) that c by (auto simp: slots_def)
  have sl: "slots (insert c D) ?T = insert p (slots D T)"
  proof -
    have "slots (insert c D) ?T = slots D (set_slot T p e)"
      using t(2) c(1) by (auto simp: slots_def)
    then show ?thesis using A(1) by simp
  qed
  have en: "ent ?T q = (if q = p then e else ent T q)" if "q \<in> insert p (slots D T)" for q
  proof -
    have "fst q \<noteq> c" using that ne(2) p(2) c(1) by blast
    then show ?thesis using A(3) by simp
  qed
  show ?thesis
  proof (rule tree_invI, unfold sl)
    fix q r assume "q \<in> insert p (slots D T)" "r \<in> insert p (slots D T)" "q \<noteq> r"
    then show "set (?own q) \<inter> set (?own r) = {}"
      using fun_upd_disjoint [where f = own, OF D(7) A(4) A(2)] by blast
  next
    fix q assume q: "q \<in> insert p (slots D T)" "is_dir (ent ?T q)"
    show "hd (?own q) \<in> insert c D \<and> entry_cluster (?T (hd (?own q)) ! 1) = of_nat (fst q)"
    proof (cases "q = p")
      case False
      with q have "q \<in> slots D T" "is_dir (ent T q)" using en by auto
      then have "hd (own q) \<in> D" "entry_cluster (T (hd (own q)) ! 1) = of_nat (fst q)" using D(8,9) by auto
      with False c p show ?thesis by auto
    qed (use t(3) in simp)
  next
    fix d assume "d \<in> insert c D" "d \<noteq> 2"
    then consider "d = c" | q where "q \<in> slots D T" "is_dir (ent T q)" "own q = [d]" using D(10) by blast
    then show "\<exists>q\<in>insert p (slots D T). is_dir (ent ?T q) \<and> ?own q = [d]"
    proof cases
      case 1
      then show ?thesis using e en [of p] by (intro bexI [of _ p]) auto
    next
      case (2 q)
      then show ?thesis using ne [of q] en [of q] by (intro bexI [of _ q]) auto
    qed
  next
    fix x :: nat assume x: "2 < x" "x < 512" "fat' ! x \<noteq> 0"
    show "\<exists>q\<in>insert p (slots D T). x \<in> set (?own q)"
    proof (cases "x = c")
      case False
      then obtain q where "q \<in> slots D T" "x \<in> set (own q)" using D(11) [of x] x cs(2) by fastforce
      then show ?thesis using ne(1) by (intro bexI [of _ q]) auto
    qed simp
  next
    fix q assume "q \<in> insert p (slots D T)"
    then show "entry_ok fat' (ent ?T q) (?own q)" using en [of q] A(5) [of q] cs(1) by (cases "q = p") simp_all
  next
    fix d assume "d \<in> insert c D"
    then show "table_ok d (?T d)" using A(6) t(1) by auto
  qed (use D A(7) c in auto)
qed

subsection \<open>Removing an entry\<close>

definition removes :: "nat set \<Rightarrow> (slot \<Rightarrow> nat list) \<Rightarrow> u32 list \<Rightarrow> u32 list \<Rightarrow> tables \<Rightarrow> slot \<Rightarrow> bool" where
  "removes D own fat fat' T p \<longleftrightarrow> p \<in> slots D T \<and> length fat' = 512 \<and>
     (\<forall>c<512. fat' ! c = (if c \<in> set (own p) then 0 else fat ! c))"

lemma tree_inv_removes:
  assumes inv: "tree_inv D own fat T" and r: "removes D own fat fat' T p"
  shows "slots D (set_slot T p empty_entry) = slots D T - {p}"
    "ent (set_slot T p empty_entry) q = (if q = p then empty_entry else ent T q)"
    "q \<in> slots D T - {p} \<Longrightarrow> entry_ok fat' (ent T q) (own q)"
    "d \<in> D \<Longrightarrow> table_ok d (set_slot T p empty_entry d)"
    "fat_ok fat'"
    "2 < c \<Longrightarrow> c < 512 \<Longrightarrow> fat' ! c \<noteq> 0 \<Longrightarrow> \<exists>q\<in>slots D T - {p}. c \<in> set (own q)"
proof -
  note D = tree_invD [OF inv]
  have p: "p \<in> slots D T" "fst p \<in> D" "2 \<le> snd p" "snd p < 64"
    and fat': "length fat' = 512" "\<And>c. c < 512 \<Longrightarrow> fat' ! c = (if c \<in> set (own p) then 0 else fat ! c)"
    using r by (auto simp: removes_def slots_def)
  note P = entry_okD [OF D(6) [OF p(1)]]
  have len: "length (T (fst p)) = 64" using table_okD(1) [OF D(5) [OF p(2)]] by simp
  show "slots D (set_slot T p empty_entry) = slots D T - {p}"
    using p len by (simp add: slots_set_slot)
  show "ent (set_slot T p empty_entry) q = (if q = p then empty_entry else ent T q)"
    using len p(4) by (rule ent_set_slot)
  show "entry_ok fat' (ent T q) (own q)" if q: "q \<in> slots D T - {p}" for q
  proof (rule entry_ok_cong)
    show "entry_ok fat (ent T q) (own q)" using D(6) q by blast
    fix c assume c: "c \<in> set (own q)"
    then have "c \<notin> set (own p)" using D(7) [of q p] q p(1) by auto
    moreover have "c < 512" using entry_okD(4) [OF D(6), of q] q c by auto
    ultimately show "fat' ! c = fat ! c" using fat'(2) by simp
  qed
  show "table_ok d (set_slot T p empty_entry d)" if "d \<in> D" for d
    using D(5) [OF that] p by (auto simp: set_slot_def intro!: table_ok_remove)
  have "0 \<notin> set (own p)" "1 \<notin> set (own p)" "2 \<notin> set (own p)" using P(4) by auto
  then show "fat_ok fat'" using D(1) fat' by (simp add: fat_ok_def)
  assume c: "2 < c" "c < 512" "fat' ! c \<noteq> 0"
  then have "c \<notin> set (own p)" "fat ! c \<noteq> 0" using fat'(2) by (auto split: if_splits)
  then show "\<exists>q\<in>slots D T - {p}. c \<in> set (own q)" using D(11) c by blast
qed

lemma tree_inv_remove_file:
  assumes inv: "tree_inv D own fat T" and r: "removes D own fat fat' T p" and e: "\<not> is_dir (ent T p)"
  shows "tree_inv D own fat' (set_slot T p empty_entry)"
proof -
  note D = tree_invD [OF inv] and R = tree_inv_removes [OF inv r]
  have p: "2 \<le> snd p" using r by (auto simp: removes_def slots_def)
  show ?thesis
  proof (rule tree_invI, unfold R(1))
    fix q assume "q \<in> slots D T - {p}" "is_dir (ent (set_slot T p empty_entry) q)"
    then have "q \<in> slots D T" "is_dir (ent T q)" using R(2) by (auto split: if_splits)
    then show "hd (own q) \<in> D \<and> entry_cluster (set_slot T p empty_entry (hd (own q)) ! 1) = of_nat (fst q)"
      using D(8,9) p by simp
  next
    fix d assume "d \<in> D" "d \<noteq> 2"
    then obtain q where "q \<in> slots D T" "is_dir (ent T q)" "own q = [d]" using D(10) by blast
    moreover from this have "q \<noteq> p" using e by blast
    ultimately show "\<exists>q\<in>slots D T - {p}. is_dir (ent (set_slot T p empty_entry) q) \<and> own q = [d]"
      using R(2) by (intro bexI [of _ q]) auto
  next
    fix q assume "q \<in> slots D T - {p}"
    then show "entry_ok fat' (ent (set_slot T p empty_entry) q) (own q)" using R(2,3) by simp
  qed (use D(3,4,7) R(4,5,6) in \<open>blast+\<close>)
qed

lemma tree_inv_remove_dir:
  assumes inv: "tree_inv D own fat T" and r: "removes D own fat fat' T p"
    and e: "is_dir (ent T p)" "own p = [c]" and empty: "\<And>i. 2 \<le> i \<Longrightarrow> i < 64 \<Longrightarrow> \<not> used (T c ! i)"
  shows "tree_inv (D - {c}) own fat' (set_slot T p empty_entry)"
proof -
  note D = tree_invD [OF inv] and R = tree_inv_removes [OF inv r]
  have p: "p \<in> slots D T" "2 \<le> snd p" using r by (auto simp: removes_def slots_def)
  have nc: "fst q \<noteq> c" if "q \<in> slots D T" for q using that empty by (auto simp: slots_def)
  have sl: "slots (D - {c}) (set_slot T p empty_entry) = slots D T - {p}"
  proof -
    have "slots (D - {c}) (set_slot T p empty_entry) = {q \<in> slots D (set_slot T p empty_entry). fst q \<noteq> c}"
      by (auto simp: slots_def)
    then show ?thesis using R(1) nc by auto
  qed
  have other: "c \<notin> set (own q)" if "q \<in> slots D T - {p}" for q
    using D(7) [of q p] that p(1) e(2) by auto
  show ?thesis
  proof (rule tree_invI, unfold sl)
    fix q assume q: "q \<in> slots D T - {p}" "is_dir (ent (set_slot T p empty_entry) q)"
    then have "q \<in> slots D T" "is_dir (ent T q)" "q \<noteq> p" using R(2) by (auto split: if_splits)
    moreover from this have "hd (own q) \<noteq> c" using other [of q] entry_okD(2) [OF D(6)] by fastforce
    ultimately show "hd (own q) \<in> D - {c} \<and>
      entry_cluster (set_slot T p empty_entry (hd (own q)) ! 1) = of_nat (fst q)"
      using D(8,9) p by simp
  next
    fix d assume "d \<in> D - {c}" "d \<noteq> 2"
    then obtain q where "q \<in> slots D T" "is_dir (ent T q)" "own q = [d]" "d \<noteq> c" using D(10) by blast
    moreover from this have "q \<noteq> p" using e by auto
    ultimately show "\<exists>q\<in>slots D T - {p}. is_dir (ent (set_slot T p empty_entry) q) \<and> own q = [d]"
      using R(2) by (intro bexI [of _ q]) auto
  next
    fix q assume "q \<in> slots D T - {p}"
    then show "entry_ok fat' (ent (set_slot T p empty_entry) q) (own q)" using R(2,3) by simp
  next
    have "c \<noteq> 2" using entry_okD(3) [OF D(6) [OF p(1)]] e(2) by auto
    then show "2 \<in> D - {c}" using D(3) by simp
  qed (use D(4,7) R(4,5,6) in \<open>blast+\<close>)
qed

text \<open>The invariant only looks at the tables of directories.\<close>

lemma tree_inv_cong:
  assumes "tree_inv D own fat T" "\<And>d. d \<in> D \<Longrightarrow> T' d = T d"
  shows "tree_inv D own fat T'"
proof -
  note D = tree_invD [OF assms(1)]
  have sl: "slots D T' = slots D T" using assms(2) by (auto simp: slots_def)
  have en: "ent T' p = ent T p" if "p \<in> slots D T" for p using assms(2) that by (auto simp: slots_def)
  show ?thesis
  proof (rule tree_invI, unfold sl)
    fix p assume "p \<in> slots D T" "is_dir (ent T' p)"
    then show "hd (own p) \<in> D \<and> entry_cluster (T' (hd (own p)) ! 1) = of_nat (fst p)"
      using D(8,9) en assms(2) by simp
  next
    fix d assume "d \<in> D" "d \<noteq> 2"
    then obtain q where "q \<in> slots D T" "is_dir (ent T q)" "own q = [d]" using D(10) by blast
    then show "\<exists>p\<in>slots D T. is_dir (ent T' p) \<and> own p = [d]" using en by auto
  qed (use D(1,3,4,5,6,7,11) en assms(2) in \<open>simp_all\<close>)
qed

end
