(* ===== verification/FAT32_Inv.thy ===== *)
theory FAT32_Inv
  imports FAT32_Tree
begin

text \<open>
  The invariant of the mounted file system, and what the operations of the driver share:
  the search of a directory, the result of storing a file on free clusters, and the effect
  on the invariant of rewriting a directory table, a chain of clusters and the map.
\<close>

subsection \<open>The invariant\<close>

abbreviation tables :: "fs_state \<Rightarrow> tables" where
  "tables s \<equiv> \<lambda>d. read_table s (of_nat d)"

definition fs_inv :: "nat set \<Rightarrow> (slot \<Rightarrow> nat list) \<Rightarrow> fs_state \<Rightarrow> bool" where
  "fs_inv D own s \<longleftrightarrow> wf_disk (fs_disk s) \<and> wf_table (dir_table_buf (fs_driver s)) \<and>
     length (cluster_buf (fs_driver s)) = CLUSTER_SIZE \<and>
     cluster (fs_disk s) 1 = enc_fat (fs_fat s) \<and> \<not> is_empty_storage (fs_disk s) \<and>
     tree_inv D own (fs_fat s) (tables s)"

lemma fs_invD:
  assumes "fs_inv D own s"
  shows "wf_disk (fs_disk s)" "wf_table (dir_table_buf (fs_driver s))"
    "cluster (fs_disk s) 1 = enc_fat (fs_fat s)" "\<not> is_empty_storage (fs_disk s)"
    "tree_inv D own (fs_fat s) (tables s)" "length (fs_fat s) = 512"
  using assms tree_invD(2) by (auto simp: fs_inv_def)

lemma fs_inv_dir:
  assumes "fs_inv D own s" "unat c \<in> D"
  shows "table_ok (unat c) (read_table s c)" "wf_table (read_table s c)" "is_dir (read_table s c ! 0)"
    "unat c < 512" "2 \<le> unat c"
proof -
  show t: "table_ok (unat c) (read_table s c)"
    using tree_invD(5) [OF fs_invD(5) [OF assms(1)] assms(2)] by simp
  show "wf_table (read_table s c)" "is_dir (read_table s c ! 0)" using table_okD [OF t] by auto
  show "unat c < 512" "2 \<le> unat c" using tree_invD(4) [OF fs_invD(5) [OF assms(1)]] assms(2) by auto
qed

lemma fs_inv_reserved:
  assumes "fs_inv D own s"
  shows "fs_fat s ! 0 \<noteq> 0" "fs_fat s ! Suc 0 \<noteq> 0" "fs_fat s ! 2 \<noteq> 0"
  using tree_invD(1) [OF fs_invD(5) [OF assms]] by (auto simp: fat_ok_def)

lemma free_from_reserved:
  assumes "fs_inv D own s"
  shows "free_from (fs_fat s) 0 = free_from (fs_fat s) 3"
  using fs_inv_reserved [OF assms] free_from_step [of 0] free_from_step [of "Suc 0"] free_from_step [of 2]
  by (simp add: numeral_2_eq_2 numeral_3_eq_3)

text \<open>The boot block survives writes to other clusters.\<close>

lemma is_empty_storage_write [simp]:
  assumes "0 < c" "c < 512"
  shows "is_empty_storage (write_clusters bs (of_nat c) 1 d) = is_empty_storage d"
proof -
  have "unat (0 - cluster_to_lba (of_nat c)) \<ge> 4"
  proof -
    have u: "unat (cluster_to_lba (of_nat c)) = 4 * c"
      using assms by (simp add: cluster_to_lba_def unat_word_ariths)
    then have "cluster_to_lba (of_nat c) \<noteq> 0" using assms(1) by (metis mult_is_0 not_gr0 unat_0 zero_neq_numeral)
    then have "unat (- cluster_to_lba (of_nat c)) = 2 ^ 32 - 4 * c"
      using u assms(1) unat_sub_if' [of 0 "cluster_to_lba (of_nat c)"] by simp
    then show ?thesis using assms(2) by simp
  qed
  then show ?thesis
    by (simp add: is_empty_storage_def read_blocks_def write_clusters_def write_blocks_apply)
qed

lemma is_empty_storage_store:
  "set cs \<subseteq> {2..<512} \<Longrightarrow> is_empty_storage (store_chain d cs bs) = is_empty_storage d"
  by (induction d cs bs rule: store_chain.induct) auto

subsection \<open>Searching a directory\<close>

definition has_key :: "dir_table \<Rightarrow> FAT32DriverRequest \<Rightarrow> u8 \<Rightarrow> nat \<Rightarrow> bool" where
  "has_key t rq a i \<longleftrightarrow> de_name (t ! i) = rq_name rq \<and> de_ext (t ! i) = rq_ext rq \<and> de_attribute (t ! i) = a"

lemma entry_matches_iff:
  "wf_entry e \<Longrightarrow> wf_request rq \<Longrightarrow> entry_matches e rq \<longleftrightarrow> de_name e = rq_name rq \<and> de_ext e = rq_ext rq"
  by (simp add: entry_matches_def wf_entry_def wf_request_def)

lemma has_key_matches:
  "wf_table t \<Longrightarrow> wf_request rq \<Longrightarrow> i < 64 \<Longrightarrow>
     entry_matches (t ! i) rq \<and> de_attribute (t ! i) = a \<longleftrightarrow> has_key t rq a i"
  by (simp add: entry_matches_iff has_key_def)

definition first_unused :: "dir_table \<Rightarrow> nat \<Rightarrow> nat" where
  "first_unused t i = scan_while (\<lambda>i. used (t ! i)) i DIR_ENTRY_COUNT"

definition unused_count :: "dir_table \<Rightarrow> nat \<Rightarrow> nat" where
  "unused_count t i = length (filter (\<lambda>i. \<not> used (t ! i)) [i..<DIR_ENTRY_COUNT])"

lemma write_scan_idx:
  "fst (write_scan t rq a i found e n) =
     scan_while (\<lambda>i. \<not> (entry_matches (t ! i) rq \<and> de_attribute (t ! i) = a)) i 64"
proof (induction t rq a i found e n rule: write_scan.induct)
  case (1 t rq a i found e n)
  then show ?case
    by (subst write_scan.simps, subst scan_while.simps) (auto)
qed

lemma write_scan_none:
  assumes "\<And>k. i \<le> k \<Longrightarrow> k < 64 \<Longrightarrow> \<not> (entry_matches (t ! k) rq \<and> de_attribute (t ! k) = a)" "i \<le> 64"
  shows "write_scan t rq a i found e n =
    (64, if found \<or> first_unused t i = 64 then e else of_nat (first_unused t i), n + of_nat (unused_count t i))"
  using assms
proof (induction t rq a i found e n rule: write_scan.induct)
  case (1 t rq a i found e n)
  show ?case
  proof (cases "i < 64")
    case True
    have k: "unused_count t i = (if used (t ! i) then 0 else 1) + unused_count t (Suc i)"
      using True by (simp add: unused_count_def filter_upt_Cons)
    have f: "first_unused t i = (if used (t ! i) then first_unused t (Suc i) else i)"
      using True by (simp add: first_unused_def scan_while.simps [of _ i])
    have i: "\<not> (entry_matches (t ! i) rq \<and> de_attribute (t ! i) = a)" using "1.prems"(1) [of i] True by simp
    show ?thesis
    proof (cases "used (t ! i)")
      case u: True
      then have "write_scan t rq a i found e n = write_scan t rq a (Suc i) found e n"
        using True i by (subst write_scan.simps) (simp add: used_def)
      also have "\<dots> = (64, if found \<or> first_unused t (Suc i) = 64 then e else of_nat (first_unused t (Suc i)),
          n + of_nat (unused_count t (Suc i)))"
        using True i u "1.prems"(1) by (intro "1.IH"(2)) (auto simp: used_def)
      finally show ?thesis using u k f by simp
    next
      case u: False
      let ?e = "if found then e else of_nat i"
      have "write_scan t rq a i found e n = write_scan t rq a (Suc i) True ?e (n + 1)"
        using True i u by (subst write_scan.simps) (simp add: used_def)
      also have "\<dots> = (64, if True \<or> first_unused t (Suc i) = 64 then ?e else of_nat (first_unused t (Suc i)),
          n + 1 + of_nat (unused_count t (Suc i)))"
        using True i u "1.prems"(1) by (intro "1.IH"(1)) (auto simp: used_def)
      finally show ?thesis using u k f True by (simp add: add.assoc)
    qed
  next
    case False
    with "1.prems" have "i = 64" by simp
    then show ?thesis
      by (subst write_scan.simps) (simp add: first_unused_def unused_count_def scan_while.simps)
  qed
qed

lemma first_unused_props:
  assumes "first_unused t 2 \<noteq> 64"
  shows "2 \<le> first_unused t 2" "first_unused t 2 < 64" "\<not> used (t ! first_unused t 2)"
  using assms scan_while_bounds [of 2 64 "\<lambda>i. used (t ! i)"] scan_while_stop [of "\<lambda>i. used (t ! i)" 2 64]
  by (auto simp: first_unused_def)

lemma unused_count_zero: "unused_count t 2 = 0 \<longleftrightarrow> first_unused t 2 = 64"
proof -
  have "unused_count t 2 = 0 \<longleftrightarrow> (\<forall>k\<in>{2..<64}. used (t ! k))"
    by (simp add: unused_count_def filter_empty_conv)
  also have "\<dots> \<longleftrightarrow> first_unused t 2 = 64"
    using scan_while_end_iff [of 2 64 "\<lambda>k. used (t ! k)"] by (simp add: first_unused_def Ball_def)
  finally show ?thesis .
qed

lemma unused_count_word: "of_nat (unused_count t 2) = (0 :: u32) \<longleftrightarrow> first_unused t 2 = 64"
proof -
  have "unused_count t 2 \<le> length [2..<64]" unfolding unused_count_def by (rule order_trans [OF length_filter_le]) simp
  then have "unat (of_nat (unused_count t 2) :: u32) = unused_count t 2" by (intro unat_of_nat_u32) simp
  then have "of_nat (unused_count t 2) = (0 :: u32) \<longleftrightarrow> unused_count t 2 = 0"
    by (simp only: word_unat_eq_iff unat_0)
  then show ?thesis by (simp only: unused_count_zero)
qed

subsection \<open>Writing a file\<close>

text \<open>The disk and driver after a file was stored on the clusters \<open>cs\<close> under entry \<open>j\<close> of its parent.\<close>

definition new_entry :: "FAT32DriverRequest \<Rightarrow> dir_table \<Rightarrow> nat \<Rightarrow> u8 \<Rightarrow> nat \<Rightarrow> FAT32DirectoryEntry" where
  "new_entry rq t j a c =
     init_directory_entry (t ! j) (rq_name rq) (rq_ext rq) a (of_nat c) (rq_buffer_size rq)"

definition file_data :: "FAT32DriverRequest \<Rightarrow> mem \<Rightarrow> u8 list list" where
  "file_data rq m = buffers m (rq_buf rq) 0 (unat (number_of_partition (rq_buffer_size rq)))"

definition file_written :: "FAT32DriverRequest \<Rightarrow> dir_table \<Rightarrow> nat \<Rightarrow> nat list \<Rightarrow> mem \<Rightarrow> fs_state \<Rightarrow> fs_state" where
  "file_written rq t j cs m s =
     (let fat = link_chain (fs_fat s) cs;
          t' = t[j := new_entry rq t j 0 (hd cs)];
          d = write_clusters (enc_table t') (rq_parent_cluster_number rq) 1 (fs_disk s);
          d = write_clusters (enc_fat fat) FAT_CLUSTER_NUMBER 1 (store_chain d cs (file_data rq m))
      in set_fat fat (set_disk d s))"

definition file_clusters :: "FAT32DriverRequest \<Rightarrow> fs_state \<Rightarrow> nat list" where
  "file_clusters rq s = take (unat (number_of_partition (rq_buffer_size rq))) (free_from (fs_fat s) 3)"

lemma ceil_2048: "(n + 2047) div 2048 = n div 2048 + (if n mod 2048 = 0 then 0 else (1 :: nat))"
proof -
  define q r where "q = n div 2048" and "r = n mod 2048"
  have n: "n = 2048 * q + r" "r < 2048" by (simp_all add: q_def r_def)
  have "(n + 2047) div 2048 = q + (r + 2047) div 2048" unfolding n(1) by simp
  moreover have "(r + 2047) div 2048 = (if r = 0 then 0 else 1)"
    using n(2) by (auto intro: div_nat_eqI)
  ultimately show ?thesis by (simp add: q_def r_def)
qed

lemma number_of_partition_ceil:
  "unat (number_of_partition sz) = (unat sz + 2047) div 2048"
proof -
  have b: "unat sz div 2048 < 2097152" using unsigned_less [of sz, where 'a = nat] by simp
  have "sz mod 2048 = 0 \<longleftrightarrow> unat sz mod 2048 = 0" by (simp add: word_unat_eq_iff unat_mod)
  then show ?thesis
    using b by (simp add: ceil_2048 number_of_partition_def unat_word_ariths unat_div word_gt_0)
qed

lemma number_of_partition_pos: "sz \<noteq> 0 \<Longrightarrow> 0 < unat (number_of_partition sz)"
  by (simp add: number_of_partition_ceil div_greater_zero_iff word_unat_eq_iff)

lemma unat_pred: "0 < unat (w :: u32) \<Longrightarrow> Suc (unat (w - 1)) = unat w" "of_nat (unat (w - 1)) = (w - 1 :: u32)"
  by (simp_all add: unat_minus_one unat_gt_0)

lemma unat_minus_one_u32: "unat (-1 :: u32) = 2 ^ 32 - 1"
  by (simp add: unsigned_minus_1_eq_mask mask_eq_exp_minus_1)

lemma small_ne_minus_one [simp]: "c < 512 \<Longrightarrow> (of_nat c :: u32) \<noteq> -1"
  using unat_minus_one_u32 by (auto simp: word_unat_eq_iff)

lemma find_empty_cluster_inv:
  assumes "fs_inv D own s" "free_from (fs_fat s) 3 = c # cs"
  shows "find_empty_cluster (fs_fat s) = of_nat c" "(of_nat c :: u32) \<noteq> -1" "3 \<le> c" "c < 512" "fs_fat s ! c = 0"
proof -
  show "find_empty_cluster (fs_fat s) = of_nat c"
    using assms free_from_reserved [OF assms(1)] by (simp add: find_empty_cluster_free)
  show c: "3 \<le> c" "c < 512" "fs_fat s ! c = 0" using free_from_ConsD [OF assms(2)] by auto
  show "(of_nat c :: u32) \<noteq> -1" using c(2) by simp
qed

lemma take_free_from:
  assumes "0 < n" "n \<le> length (free_from fat 3)"
  shows "take n (free_from fat 3) \<noteq> []" "distinct (take n (free_from fat 3))"
    "set (take n (free_from fat 3)) \<subseteq> {3..<512}"
    "c \<in> set (take n (free_from fat 3)) \<Longrightarrow> fat ! c = 0"
    "length (take n (free_from fat 3)) = n"
  using assms set_take_subset [of n "free_from fat 3"] by (auto simp: set_free_from)

lemma write_file_result:
  assumes inv: "fs_inv D own s" and sz: "rq_buffer_size rq \<noteq> 0"
    and room: "unat (number_of_partition (rq_buffer_size rq)) \<le> length (free_from (fs_fat s) 3)"
    and j: "j < 64"
  shows "write_file rq t (of_nat j) m s = Ret (0, file_written rq t j (file_clusters rq s) m s)"
proof -
  let ?np = "number_of_partition (rq_buffer_size rq)" and ?fat = "fs_fat s"
  let ?n = "unat ?np"
  have n: "0 < ?n" by (rule number_of_partition_pos [OF sz])
  then obtain c fs where fr: "free_from ?fat 3 = c # fs" using room by (cases "free_from ?fat 3") auto
  note C = find_empty_cluster_inv [OF inv fr]
  define cs where "cs = file_clusters rq s"
  have cs: "cs = take ?n (free_from ?fat c)" "hd cs = c" "cs \<noteq> []" "length cs = ?n"
    using n room fr free_from_at [OF fr] by (auto simp: cs_def file_clusters_def)
  have ok: "enough_empty_cluster (fs_driver s) ?np" using room by (simp add: enough_empty_cluster_free)
  obtain K where K: "unat (?np - 1) = K" "?n = Suc K" "?np - 1 = of_nat K"
    using unat_pred(1) [OF n] unat_pred(2) [of ?np] by metis
  let ?t = "t[j := new_entry rq t j 0 (hd cs)]"
  let ?s = "write_cluster (enc_table ?t) (rq_parent_cluster_number rq) s"
  have p: "write_partitions K m (rq_buf rq) 0 (of_nat c) ?s =
      Ret (of_nat K, of_nat (last cs), set_fat (link_open ?fat cs)
        (set_disk (store_chain (fs_disk ?s) (butlast cs) (buffers m (rq_buf rq) 0 K)) ?s))"
    using write_partitions_free [of ?s c K m "rq_buf rq" 0] C fr room K(2) cs free_from_at [OF fr]
    by (simp add: Let_def)
  have "set cs \<subseteq> {3..<512}" using take_free_from(3) [OF n room] by (simp add: cs_def file_clusters_def)
  then have l: "last cs < 512" using last_in_set [OF cs(3)] by auto
  have data: "store_chain d cs (file_data rq m) =
      write_clusters (mem_read m (rq_buf rq + 2048 * of_nat K) 2048) (of_nat (last cs)) 1
        (store_chain d (butlast cs) (buffers m (rq_buf rq) 0 K))" for d
    using store_chain_snoc [of "buffers m (rq_buf rq) 0 K" "butlast cs" d "last cs"] cs(3,4) K(2)
    by (simp add: file_data_def buffers_snoc)
  show ?thesis
    using ok C(1,2) p l j cs(2) data K(1)
    by (simp add: write_file_def Let_def new_entry_def file_written_def link_chain_def flip: cs_def)
qed

lemma write_clusters_commute:
  assumes "c < 2 ^ 30" "c' < 2 ^ 30" "c \<noteq> c'"
  shows "write_clusters a c 1 (write_clusters b c' 1 d) = write_clusters b c' 1 (write_clusters a c 1 d)"
proof
  fix x
  have "\<not> (unat (x - cluster_to_lba c) < 4 \<and> unat (x - cluster_to_lba c') < 4)"
  proof
    assume x: "unat (x - cluster_to_lba c) < 4 \<and> unat (x - cluster_to_lba c') < 4"
    have "x = cluster_to_lba c + of_nat (unat (x - cluster_to_lba c))"
      "x = cluster_to_lba c' + of_nat (unat (x - cluster_to_lba c'))" by simp_all
    then show False using cluster_blocks_distinct [OF assms] x by metis
  qed
  then show "write_clusters a c 1 (write_clusters b c' 1 d) x = write_clusters b c' 1 (write_clusters a c 1 d) x"
    by (auto simp: write_clusters_def write_blocks_apply)
qed

text \<open>Every operation ends in such a disk: a table at \<open>p\<close>, data along \<open>cs\<close>, the map at 1.\<close>

definition disk_update :: "disk \<Rightarrow> u8 list \<Rightarrow> nat \<Rightarrow> nat list \<Rightarrow> u8 list list \<Rightarrow> u8 list \<Rightarrow> disk" where
  "disk_update d tb p cs bs fb =
     write_clusters fb 1 1 (store_chain (write_clusters tb (of_nat p) 1 d) cs bs)"

lemma cluster_one_other: "x < 512 \<Longrightarrow> x \<noteq> 1 \<Longrightarrow> cluster (write_clusters b 1 1 d) x = cluster d x"
  using cluster_write_other [of 1 x b d] by simp

lemma disk_update_cluster:
  assumes "p < 512" "p \<notin> set cs" "p \<noteq> 1" "1 \<notin> set cs" "set cs \<subseteq> {..<512}" "length tb = 2048" "length fb = 2048"
  shows "cluster (disk_update d tb p cs bs fb) 1 = fb"
    "cluster (disk_update d tb p cs bs fb) p = tb"
    "x < 512 \<Longrightarrow> x \<notin> set cs \<Longrightarrow> x \<noteq> p \<Longrightarrow> x \<noteq> 1 \<Longrightarrow> cluster (disk_update d tb p cs bs fb) x = cluster d x"
    "distinct cs \<Longrightarrow> length bs = length cs \<Longrightarrow> \<forall>b\<in>set bs. length b = 2048 \<Longrightarrow>
       map (cluster (disk_update d tb p cs bs fb)) cs = bs"
proof -
  show "cluster (disk_update d tb p cs bs fb) 1 = fb"
    using assms(7) by (simp add: disk_update_def read_write_cluster_same)
  show "cluster (disk_update d tb p cs bs fb) p = tb"
    using assms by (simp add: disk_update_def cluster_one_other cluster_store_other read_write_cluster_same)
  show "x < 512 \<Longrightarrow> x \<notin> set cs \<Longrightarrow> x \<noteq> p \<Longrightarrow> x \<noteq> 1 \<Longrightarrow> cluster (disk_update d tb p cs bs fb) x = cluster d x"
    using assms by (simp add: disk_update_def cluster_one_other cluster_store_other cluster_write_other)
  assume b: "distinct cs" "length bs = length cs" "\<forall>b\<in>set bs. length b = 2048"
  have "cluster (disk_update d tb p cs bs fb) (cs ! k) = bs ! k" if "k < length cs" for k
  proof -
    have "cs ! k < 512" "cs ! k \<noteq> 1" using assms(4,5) nth_mem [OF that] by auto
    then show ?thesis using b assms(5) that by (simp add: disk_update_def cluster_one_other cluster_store_nth)
  qed
  then show "map (cluster (disk_update d tb p cs bs fb)) cs = bs" using b(2) by (intro nth_equalityI) auto
qed

lemma wf_disk_update:
  "wf_disk d \<Longrightarrow> length tb = 2048 \<Longrightarrow> length fb = 2048 \<Longrightarrow> \<forall>b\<in>set bs. length b = 2048 \<Longrightarrow>
     wf_disk (disk_update d tb p cs bs fb)"
  by (simp add: disk_update_def wf_store_chain)

lemma is_empty_storage_update:
  assumes "2 \<le> p" "p < 512" "set cs \<subseteq> {2..<512}"
  shows "is_empty_storage (disk_update d tb p cs bs fb) = is_empty_storage d"
  using assms is_empty_storage_write [of 1 fb] by (simp add: disk_update_def is_empty_storage_store)

text \<open>
  Common part of the four invariant proofs: after a \<open>disk_update\<close> the directory tables are
  the old ones with one entry of the table at \<open>p\<close> replaced.
\<close>

lemma disk_update_tables:
  assumes "length bs = 2048" "wf_table (T p)" "wf_entry e" "p < 512" "d < 512" "d \<notin> set cs"
    "p \<notin> set cs" "p \<noteq> 1" "1 \<notin> set cs" "set cs \<subseteq> {..<512}" "d \<noteq> 1"
    and T: "\<And>d. T d = dec_table (cluster dk d)"
  shows "dec_table (cluster (disk_update dk (enc_table ((T p)[j := e])) p cs b bs) d) = set_slot T (p, j) e d"
proof (cases "d = p")
  case True
  then show ?thesis
    using assms disk_update_cluster(2) [of p cs "enc_table ((T p)[j := e])" bs dk b]
    by (simp add: set_slot_def layout_simps)
next
  case False
  then show ?thesis
    using assms disk_update_cluster(3) [of p cs "enc_table ((T p)[j := e])" bs d dk b]
    by (simp add: set_slot_def layout_simps)
qed

lemma fs_inv_update:
  assumes inv: "fs_inv D own s" and p: "unat p \<in> D" and cs: "set cs \<subseteq> {3..<512}"
    and bs: "\<forall>b\<in>set bs. length b = 2048" and fat: "length fat = 512" and e: "wf_entry e"
    and buf: "wf_table buf"
    and t: "tree_inv D' own' fat (tables s')"
    and s': "s' = s\<lparr>fs_disk := disk_update (fs_disk s) (enc_table ((read_table s p)[j := e])) (unat p) cs bs (enc_fat fat),
        fs_driver := (fs_driver s)\<lparr>fat_table := fat, dir_table_buf := buf\<rparr>\<rparr>"
    and np: "unat p \<notin> set cs"
  shows "fs_inv D' own' s'"
proof -
  note P = fs_inv_dir [OF inv p] and I = fs_invD [OF inv]
  have l: "length (enc_table ((read_table s p)[j := e])) = 2048" "length (enc_fat fat) = 2048"
    using P(2) e fat by (simp_all add: layout_simps)
  have csr: "1 \<notin> set cs" "set cs \<subseteq> {..<512}" using cs by auto
  have "cluster (fs_disk s') 1 = enc_fat fat"
    using disk_update_cluster(1) [OF P(4) np _ csr l] P(5) s' by simp
  moreover have "\<not> is_empty_storage (fs_disk s')"
    using I(4) P(4,5) cs s' by (subst s', simp, subst is_empty_storage_update) auto
  moreover have "wf_disk (fs_disk s')" using I(1) l bs s' by (simp add: wf_disk_update)
  moreover have "length (cluster_buf (fs_driver s)) = 2048" using inv by (simp add: fs_inv_def)
  ultimately show ?thesis using t s' buf by (simp add: fs_inv_def)
qed

lemma file_written_alt:
  "file_written rq t j cs m s =
     s\<lparr>fs_disk := disk_update (fs_disk s) (enc_table (t[j := new_entry rq t j 0 (hd cs)]))
         (unat (rq_parent_cluster_number rq)) cs (file_data rq m) (enc_fat (link_chain (fs_fat s) cs)),
       fs_driver := (fs_driver s)\<lparr>fat_table := link_chain (fs_fat s) cs\<rparr>\<rparr>"
  by (simp add: file_written_def disk_update_def Let_def)

lemma wf_new_entry: "wf_request rq \<Longrightarrow> wf_entry (new_entry rq t j a c)"
  by (simp add: new_entry_def wf_request_def)

lemma new_entry_sel [simp]:
  "entry_cluster (new_entry rq t j a c) = of_nat c" "used (new_entry rq t j a c)"
  "is_dir (new_entry rq t j a c) \<longleftrightarrow> a = 0x10" "de_filesize (new_entry rq t j a c) = rq_buffer_size rq"
  "de_attribute (new_entry rq t j a c) = a"
  by (simp_all add: new_entry_def)

lemma new_entry_key:
  "wf_request rq \<Longrightarrow> de_name (new_entry rq t j a c) = rq_name rq \<and> de_ext (new_entry rq t j a c) = rq_ext rq"
  by (simp add: new_entry_def wf_request_def)

text \<open>The situation in which \<open>fat_write\<close> creates an entry: its parent and the slot it takes.\<close>

definition can_add :: "nat set \<Rightarrow> fs_state \<Rightarrow> FAT32DriverRequest \<Rightarrow> u8 \<Rightarrow> bool" where
  "can_add D s rq a \<longleftrightarrow>
     (let t = read_table s (rq_parent_cluster_number rq)
      in wf_request rq \<and> unat (rq_parent_cluster_number rq) \<in> D \<and> first_unused t 2 \<noteq> DIR_ENTRY_COUNT \<and>
         (\<forall>i\<in>{2..<DIR_ENTRY_COUNT}. \<not> has_key t rq a i))"

abbreviation new_slot :: "fs_state \<Rightarrow> FAT32DriverRequest \<Rightarrow> slot" where
  "new_slot s rq \<equiv> (unat (rq_parent_cluster_number rq), first_unused (read_table s (rq_parent_cluster_number rq)) 2)"

lemma can_addD:
  assumes "can_add D s rq a"
  shows "wf_request rq" "unat (rq_parent_cluster_number rq) \<in> D"
    "first_unused (read_table s (rq_parent_cluster_number rq)) 2 \<noteq> 64"
    "\<And>i. 2 \<le> i \<Longrightarrow> i < 64 \<Longrightarrow> \<not> has_key (read_table s (rq_parent_cluster_number rq)) rq a i"
  using assms by (auto simp: can_add_def Let_def)

lemma can_add_scan:
  assumes inv: "fs_inv D own s" and a: "can_add D s rq a"
  defines "t \<equiv> read_table s (rq_parent_cluster_number rq)"
  shows "write_scan t rq a 2 False (-1) 0 = (64, of_nat (first_unused t 2), of_nat (unused_count t 2))"
    "de_attribute (t ! 0) = 0x10" "(of_nat (unused_count t 2) :: u32) \<noteq> 0"
    "2 \<le> first_unused t 2" "first_unused t 2 < 64" "\<not> used (t ! first_unused t 2)"
proof -
  note A = can_addD [OF a, folded t_def] and P = fs_inv_dir [OF inv can_addD(2) [OF a], folded t_def]
  have "\<not> (entry_matches (t ! i) rq \<and> de_attribute (t ! i) = a)" if "2 \<le> i" "i < 64" for i
    using A(4) [OF that] has_key_matches [OF P(2) A(1) that(2)] by simp
  then show "write_scan t rq a 2 False (-1) 0 = (64, of_nat (first_unused t 2), of_nat (unused_count t 2))"
    using A(3) by (subst write_scan_none) auto
  show "de_attribute (t ! 0) = 0x10" using P(3) by (simp add: is_dir_def)
  show "(of_nat (unused_count t 2) :: u32) \<noteq> 0" using A(3) by (simp add: unused_count_word)
  show "2 \<le> first_unused t 2" "first_unused t 2 < 64" "\<not> used (t ! first_unused t 2)"
    using first_unused_props [OF A(3)] .
qed

lemma can_add_adds:
  assumes inv: "fs_inv D own s" and a: "can_add D s rq a"
    and cs: "entry_ok fat' (new_entry rq (read_table s (rq_parent_cluster_number rq)) j a (hd cs)) cs"
      "\<And>c. c \<in> set cs \<Longrightarrow> fs_fat s ! c = 0" "length fat' = 512" "\<And>c. c \<notin> set cs \<Longrightarrow> fat' ! c = fs_fat s ! c"
  shows "adds D (fs_fat s) fat' (tables s) (new_slot s rq)
    (new_entry rq (read_table s (rq_parent_cluster_number rq)) j a (hd cs)) cs"
proof -
  note A = can_addD [OF a] and S = can_add_scan [OF inv a]
  have "\<not> same_key (read_table s (rq_parent_cluster_number rq) ! i)
      (new_entry rq (read_table s (rq_parent_cluster_number rq)) j a (hd cs))" if "2 \<le> i" "i < 64" for i
    using A(4) [OF that] new_entry_key [OF A(1)] by (simp add: same_key_def has_key_def)
  then show ?thesis
    using A S(4-6) cs wf_new_entry [OF A(1)] by (simp add: adds_def)
qed

end
