(* ===== verification/FAT32_Write.thy ===== *)
theory FAT32_Write
  imports FAT32_Inv
begin

text \<open>
  The outcomes of \<open>fat_write\<close>: a stored file, a created folder, and its refusals.
\<close>

subsection \<open>Storing a file\<close>

lemma fat_write_file_result:
  fixes m :: mem
  assumes inv: "fs_inv D own s" and a: "can_add D s rq 0" and sz: "rq_buffer_size rq \<noteq> 0"
    and room: "unat (number_of_partition (rq_buffer_size rq)) \<le> length (free_from (fs_fat s) 3)"
  shows "fat_write rq m s =
    Ret (0, file_written rq (read_table s (rq_parent_cluster_number rq)) (snd (new_slot s rq)) (file_clusters rq s) m s)"
  using can_add_scan [OF inv a] sz write_file_result [OF inv sz room]
  by (simp add: fat_write_def Let_def)

lemma file_clusters_props:
  assumes inv: "fs_inv D own s" and sz: "rq_buffer_size rq \<noteq> 0"
    and room: "unat (number_of_partition (rq_buffer_size rq)) \<le> length (free_from (fs_fat s) 3)"
  defines "cs \<equiv> file_clusters rq s"
  shows "cs \<noteq> []" "distinct cs" "set cs \<subseteq> {3..<512}" "\<And>c. c \<in> set cs \<Longrightarrow> fs_fat s ! c = 0"
    "length cs = unat (number_of_partition (rq_buffer_size rq))" "set cs \<inter> D = {}"
    "chain (link_chain (fs_fat s) cs) (of_nat (hd cs)) cs"
    "\<And>c. c \<notin> set cs \<Longrightarrow> link_chain (fs_fat s) cs ! c = fs_fat s ! c"
proof -
  note T = take_free_from [OF number_of_partition_pos [OF sz] room]
  show cs: "cs \<noteq> []" "distinct cs" "set cs \<subseteq> {3..<512}"
    "length cs = unat (number_of_partition (rq_buffer_size rq))"
    using T by (auto simp: cs_def file_clusters_def)
  show z: "fs_fat s ! c = 0" if "c \<in> set cs" for c
    using T(4) that by (simp add: cs_def file_clusters_def)
  then show "set cs \<inter> D = {}" using dir_not_free [OF fs_invD(5) [OF inv]] by blast
  have "set cs \<subseteq> {2..<512}" using cs(3) by auto
  then show "chain (link_chain (fs_fat s) cs) (of_nat (hd cs)) cs"
    using chain_link_chain [OF cs(1,2)] fs_invD(6) [OF inv] by blast
  show "\<And>c. c \<notin> set cs \<Longrightarrow> link_chain (fs_fat s) cs ! c = fs_fat s ! c"
    using cs(1) link_chain_other by blast
qed

lemma file_data_lengths: "\<forall>b\<in>set (file_data rq m). length b = 2048"
  "length (file_data rq m) = unat (number_of_partition (rq_buffer_size rq))"
  by (auto simp: file_data_def dest: buffers_lengths)

lemma file_written_effect:
  fixes m :: mem
  assumes inv: "fs_inv D own s" and a: "can_add D s rq 0" and sz: "rq_buffer_size rq \<noteq> 0"
    and room: "unat (number_of_partition (rq_buffer_size rq)) \<le> length (free_from (fs_fat s) 3)"
  defines "t \<equiv> read_table s (rq_parent_cluster_number rq)" and "p \<equiv> new_slot s rq"
    and "cs \<equiv> file_clusters rq s"
  defines "s' \<equiv> file_written rq t (snd p) cs m s"
  shows "fs_inv D (own(p := cs)) s'"
    "\<And>d. d \<in> D \<Longrightarrow> tables s' d = set_slot (tables s) p (new_entry rq t (snd p) 0 (hd cs)) d"
    "map (cluster (fs_disk s')) cs = file_data rq m"
    "\<And>x. x < 512 \<Longrightarrow> x \<noteq> 1 \<Longrightarrow> x \<notin> set cs \<Longrightarrow> x \<noteq> fst p \<Longrightarrow> cluster (fs_disk s') x = cluster (fs_disk s) x"
proof -
  note A = can_addD [OF a] and C = file_clusters_props [OF inv sz room, folded cs_def]
  note P = fs_inv_dir [OF inv A(2), folded t_def] and I = fs_invD [OF inv]
  let ?e = "new_entry rq t (snd p) 0 (hd cs)" and ?fat = "link_chain (fs_fat s) cs"
  have e: "wf_entry ?e" by (rule wf_new_entry [OF A(1)])
  have fp: "fst p = unat (rq_parent_cluster_number rq)" "(unat (rq_parent_cluster_number rq), snd p) = p"
    by (simp_all add: p_def)
  have np: "fst p \<notin> set cs" "fst p \<noteq> 1" "fst p < 512" using C(6) A(2) P(4,5) fp(1) by auto
  have csr: "1 \<notin> set cs" "set cs \<subseteq> {..<512}" using C(3) by auto
  have l: "length (enc_table (t[snd p := ?e])) = 2048" "length (enc_fat ?fat) = 2048" "length ?fat = 512"
    using P(2) e I(6) by (simp_all add: layout_simps)
  have s': "s' = s\<lparr>fs_disk := disk_update (fs_disk s) (enc_table (t[snd p := ?e])) (fst p) cs (file_data rq m) (enc_fat ?fat),
       fs_driver := (fs_driver s)\<lparr>fat_table := ?fat\<rparr>\<rparr>"
    by (simp add: s'_def file_written_alt fp)
  show tab: "tables s' d = set_slot (tables s) p ?e d" if "d \<in> D" for d
  proof -
    have "d < 512" "d \<notin> set cs" "d \<noteq> 1" using tree_invD(4) [OF I(5)] C(6) that by auto
    then show ?thesis
      using disk_update_tables [of "enc_fat ?fat" "tables s" "fst p" ?e d cs "fs_disk s" "snd p" "file_data rq m"]
        l(2) P(2) e np csr s' by (simp add: fp t_def)
  qed
  show "map (cluster (fs_disk s')) cs = file_data rq m"
    using disk_update_cluster(4) [OF np(3,1,2) csr l(1,2) C(2)] file_data_lengths [of rq m] C(5) s' by simp
  show "\<And>x. x < 512 \<Longrightarrow> x \<noteq> 1 \<Longrightarrow> x \<notin> set cs \<Longrightarrow> x \<noteq> fst p \<Longrightarrow> cluster (fs_disk s') x = cluster (fs_disk s) x"
    using disk_update_cluster(3) [OF np(3,1,2) csr l(1,2)] s' by simp
  have "entry_ok ?fat ?e cs" using C(1,3,5,7) by (auto simp: entry_ok_def)
  then have "adds D (fs_fat s) ?fat (tables s) p ?e cs"
    using can_add_adds [OF inv a _ C(4) l(3) C(8)] by (simp add: p_def t_def)
  then have "tree_inv D (own(p := cs)) ?fat (set_slot (tables s) p ?e)"
    by (rule tree_inv_add_file [OF I(5)]) simp
  then have "tree_inv D (own(p := cs)) ?fat (tables s')" by (rule tree_inv_cong) (rule tab)
  then show "fs_inv D (own(p := cs)) s'"
    using fs_inv_update [OF inv A(2) C(3) file_data_lengths(1) l(3) e I(2)] np s' by (simp add: fp t_def)
qed

subsection \<open>Creating a folder\<close>


definition folder_written ::
  "FAT32DriverRequest \<Rightarrow> dir_table \<Rightarrow> nat \<Rightarrow> nat \<Rightarrow> fs_state \<Rightarrow> fs_state" where
  "folder_written rq t j c s =
     (let fat = (fs_fat s)[c := FAT32_FAT_END_OF_FILE];
          folder = init_directory_table (rq_name rq) (rq_parent_cluster_number rq) s
      in s\<lparr>fs_disk := disk_update (fs_disk s) (enc_table (t[j := new_entry rq t j ATTR_SUBDIRECTORY c]))
             (unat (rq_parent_cluster_number rq)) [c] [enc_table folder] (enc_fat fat),
           fs_driver := (fs_driver s)\<lparr>fat_table := fat, dir_table_buf := folder\<rparr>\<rparr>)"

lemma fat_write_folder_result:
  assumes inv: "fs_inv D own s" and a: "can_add D s rq ATTR_SUBDIRECTORY" and sz: "rq_buffer_size rq = 0"
    and c: "free_from (fs_fat s) 3 = c # cs"
  shows "fat_write rq m s =
    Ret (0, folder_written rq (read_table s (rq_parent_cluster_number rq)) (snd (new_slot s rq)) c s)"
proof -
  note A = can_add_scan [OF inv a] and C = find_empty_cluster_inv [OF inv c]
  note P = fs_inv_dir [OF inv can_addD(2) [OF a]]
  have nd: "unat (rq_parent_cluster_number rq) \<noteq> c"
    using dir_not_free [OF fs_invD(5) [OF inv] can_addD(2) [OF a]] C(5) by auto
  let ?p = "rq_parent_cluster_number rq"
  have p: "?p < 0x40000000" "?p \<noteq> 1" "?p \<noteq> of_nat c" using P(4,5) nd C(4) by (auto simp: word_less_nat_alt)
  have c1: "(of_nat c :: u32) \<noteq> 1" using C(3,4) by (auto simp: word_unat_eq_iff)
  have "write_clusters x ?p 1 (write_clusters y (of_nat c) 1 (write_clusters z 1 1 d)) =
    write_clusters z 1 1 (write_clusters y (of_nat c) 1 (write_clusters x ?p 1 d))" for x y z d
    using write_clusters_commute [of ?p "of_nat c" x y] write_clusters_commute [of ?p 1 x z]
      write_clusters_commute [of "of_nat c" 1 y z] p c1 C(4) by simp
  then show ?thesis
    using A C sz by (simp add: fat_write_def Let_def write_folder_def folder_written_def disk_update_def new_entry_def)
qed

lemma folder_table:
  fixes parent :: u32
  assumes inv: "fs_inv D own s" and c: "free_from (fs_fat s) 3 = c # cs" and n: "length nm = 8"
  defines "t \<equiv> init_directory_table nm parent s"
  shows "table_ok c t" "\<And>i. 2 \<le> i \<Longrightarrow> i < 64 \<Longrightarrow> t ! i = empty_entry" "entry_cluster (t ! 1) = parent"
    "de_name (t ! 0) = nm" "wf_table t"
proof -
  note C = find_empty_cluster_inv [OF inv c]
  have "wf_table (replicate 64 empty_entry)" by (simp add: wf_table_alt)
  moreover have "8 \<le> length root_name" "3 \<le> length nul_ext" by (simp_all add: root_name_def nul_ext_def)
  ultimately show wf: "wf_table t"
    using C(1,2) fs_invD(1) [OF inv] n by (simp add: t_def init_directory_table_def Let_def)
  show z: "t ! i = empty_entry" if "2 \<le> i" "i < 64" for i
    using that C(1,2) by (simp add: t_def init_directory_table_def Let_def)
  show "entry_cluster (t ! 1) = parent" "de_name (t ! 0) = nm"
    using C(1,2) n by (simp_all add: t_def init_directory_table_def Let_def)
  have "is_dir (t ! 0)" "entry_cluster (t ! 0) = of_nat c"
    using C(1,2) by (simp_all add: t_def init_directory_table_def Let_def)
  then show "table_ok c t" using wf z by (intro table_okI) auto
qed

lemma folder_written_effect:
  assumes inv: "fs_inv D own s" and a: "can_add D s rq ATTR_SUBDIRECTORY" and sz: "rq_buffer_size rq = 0"
    and c: "free_from (fs_fat s) 3 = c # cs"
  defines "t \<equiv> read_table s (rq_parent_cluster_number rq)" and "p \<equiv> new_slot s rq"
  defines "s' \<equiv> folder_written rq t (snd p) c s"
  shows "fs_inv (insert c D) (own(p := [c])) s'"
    "\<And>d. d \<in> D \<Longrightarrow> tables s' d = set_slot (tables s) p (new_entry rq t (snd p) ATTR_SUBDIRECTORY c) d"
    "tables s' c = init_directory_table (rq_name rq) (rq_parent_cluster_number rq) s"
    "\<And>x. x < 512 \<Longrightarrow> x \<noteq> 1 \<Longrightarrow> x \<noteq> c \<Longrightarrow> x \<noteq> fst p \<Longrightarrow> cluster (fs_disk s') x = cluster (fs_disk s) x"
proof -
  note A = can_addD [OF a] and C = find_empty_cluster_inv [OF inv c]
  note P = fs_inv_dir [OF inv A(2), folded t_def] and I = fs_invD [OF inv]
  let ?e = "new_entry rq t (snd p) ATTR_SUBDIRECTORY c" and ?fat = "(fs_fat s)[c := 0x0FFFFFFF]"
  let ?f = "init_directory_table (rq_name rq) (rq_parent_cluster_number rq) s"
  have n: "length (rq_name rq) = 8" using A(1) by (simp add: wf_request_def)
  note F = folder_table [OF inv c n, where parent = "rq_parent_cluster_number rq"]
  have e: "wf_entry ?e" by (rule wf_new_entry [OF A(1)])
  have fp: "fst p = unat (rq_parent_cluster_number rq)" "(unat (rq_parent_cluster_number rq), snd p) = p"
    by (simp_all add: p_def)
  have cD: "c \<notin> D" using dir_not_free [OF I(5)] C(5) by auto
  have np: "fst p \<notin> set [c]" "fst p \<noteq> 1" "fst p < 512" using cD A(2) P(4,5) fp(1) by auto
  have csr: "1 \<notin> set [c]" "set [c] \<subseteq> {..<512}" "set [c] \<subseteq> {3..<512}" using C(3,4) by auto
  have bs: "\<forall>b\<in>set [enc_table ?f]. length b = 2048" using F(5) by (simp add: layout_simps)
  have l: "length (enc_table (t[snd p := ?e])) = 2048" "length (enc_fat ?fat) = 2048" "length ?fat = 512"
    using P(2) e I(6) by (simp_all add: layout_simps)
  have s': "s' = s\<lparr>fs_disk := disk_update (fs_disk s) (enc_table (t[snd p := ?e])) (fst p) [c] [enc_table ?f] (enc_fat ?fat),
       fs_driver := (fs_driver s)\<lparr>fat_table := ?fat, dir_table_buf := ?f\<rparr>\<rparr>"
    by (simp add: s'_def folder_written_def Let_def fp)
  show tab: "tables s' d = set_slot (tables s) p ?e d" if "d \<in> D" for d
  proof -
    have "d < 512" "d \<notin> set [c]" "d \<noteq> 1" using tree_invD(4) [OF I(5)] cD that by auto
    then show ?thesis
      using disk_update_tables [of "enc_fat ?fat" "tables s" "fst p" ?e d "[c]" "fs_disk s" "snd p" "[enc_table ?f]"]
        l(2) P(2) e np csr s' by (simp add: fp t_def)
  qed
  have "map (cluster (fs_disk s')) [c] = [enc_table ?f]"
    using disk_update_cluster(4) [OF np(3,1,2) csr(1,2) l(1,2) _ _ bs] s' by simp
  then show tc: "tables s' c = ?f" using F(5) by (simp add: layout_simps)
  show "\<And>x. x < 512 \<Longrightarrow> x \<noteq> 1 \<Longrightarrow> x \<noteq> c \<Longrightarrow> x \<noteq> fst p \<Longrightarrow> cluster (fs_disk s') x = cluster (fs_disk s) x"
    using disk_update_cluster(3) [OF np(3,1,2) csr(1,2) l(1,2)] s' by simp
  have "entry_ok ?fat ?e [c]" using C I(6) by (simp add: entry_ok_def)
  then have "adds D (fs_fat s) ?fat (tables s) p ?e [c]"
    using can_add_adds [OF inv a, of ?fat "snd p" "[c]"] C(5) I(6) by (simp add: p_def t_def)
  then have "tree_inv (insert c D) (own(p := [c])) ?fat ((set_slot (tables s) p ?e)(c := ?f))"
    by (rule tree_inv_add_dir [OF I(5)]) (use F in \<open>simp_all add: fp\<close>)
  then have "tree_inv (insert c D) (own(p := [c])) ?fat (tables s')"
    by (rule tree_inv_cong) (use tab tc cD in auto)
  then show "fs_inv (insert c D) (own(p := [c])) s'"
    using fs_inv_update [OF inv A(2) csr(3) bs l(3) e F(5)] np s' by (simp add: fp t_def)
qed

subsection \<open>Refusals\<close>

lemma fat_write_not_dir: "\<not> is_dir (read_table s (rq_parent_cluster_number rq) ! 0) \<Longrightarrow> fat_write rq m s = Ret (2, s)"
  by (simp add: fat_write_def is_dir_def)

abbreviation rq_attr :: "FAT32DriverRequest \<Rightarrow> u8" where
  "rq_attr rq \<equiv> (if rq_buffer_size rq = 0 then ATTR_SUBDIRECTORY else 0)"

lemma fat_write_duplicate:
  assumes "wf_disk (fs_disk s)" "wf_request rq" "is_dir (read_table s (rq_parent_cluster_number rq) ! 0)"
    and i: "2 \<le> i" "i < 64" "has_key (read_table s (rq_parent_cluster_number rq)) rq (rq_attr rq) i"
  shows "fat_write rq m s = Ret (1, s)"
proof -
  let ?t = "read_table s (rq_parent_cluster_number rq)"
  let ?scan = "write_scan ?t rq (rq_attr rq) 2 False (-1) 0"
  have wf: "wf_table ?t" using assms(1) by (simp add: layout_simps)
  have "fst ?scan \<noteq> 64"
  proof
    assume "fst ?scan = 64"
    then have "i < scan_while (\<lambda>i. \<not> (entry_matches (?t ! i) rq \<and> de_attribute (?t ! i) = rq_attr rq)) 2 64"
      using i(2) by (simp only: write_scan_idx)
    then have "\<not> (entry_matches (?t ! i) rq \<and> de_attribute (?t ! i) = rq_attr rq)"
      by (rule scan_while_skipped [OF i(1)])
    then show False using i(3) unfolding has_key_matches [OF wf assms(2) i(2)] by simp
  qed
  moreover have "fst ?scan \<le> 64" unfolding write_scan_idx by (rule scan_while_le) simp
  ultimately have "fst ?scan < 64" by simp
  then show ?thesis using assms(3)
    by (cases "rq_buffer_size rq = 0") (simp_all add: fat_write_def is_dir_def Let_def split_beta)
qed

lemma fat_write_full:
  assumes "wf_disk (fs_disk s)" "wf_request rq" "is_dir (read_table s (rq_parent_cluster_number rq) ! 0)"
    and "\<And>i. 2 \<le> i \<Longrightarrow> i < 64 \<Longrightarrow> \<not> has_key (read_table s (rq_parent_cluster_number rq)) rq (rq_attr rq) i"
    and full: "first_unused (read_table s (rq_parent_cluster_number rq)) 2 = 64"
  shows "fat_write rq m s = Ret (-1, s)"
proof -
  let ?t = "read_table s (rq_parent_cluster_number rq)"
  have wf: "wf_table ?t" using assms(1) by (simp add: layout_simps)
  have "write_scan ?t rq (rq_attr rq) 2 False (-1) 0 = (64, -1, 0 + of_nat (unused_count ?t 2))"
    using assms(4) full has_key_matches [OF wf assms(2)] by (subst write_scan_none) auto
  moreover have "unused_count ?t 2 = 0" using full by (simp only: unused_count_zero)
  ultimately show ?thesis using assms(3) by (simp add: fat_write_def is_dir_def)
qed

lemma fat_write_no_space:
  assumes inv: "fs_inv D own s" and a: "can_add D s rq (rq_attr rq)"
    and "if rq_buffer_size rq = 0 then free_from (fs_fat s) 3 = []
      else length (free_from (fs_fat s) 3) + (if word_at (enc_table (dir_table_buf (fs_driver s))) 0 = 0 then 1 else 0)
             < unat (number_of_partition (rq_buffer_size rq))"
  shows "fat_write rq m s = Ret (-1, s)"
proof (cases "rq_buffer_size rq = 0")
  case True
  then have "find_empty_cluster (fs_fat s) = -1"
    using assms free_from_reserved [OF inv] by (simp add: find_empty_cluster_free)
  then show ?thesis using can_add_scan [OF inv a] True by (simp add: fat_write_def write_folder_def)
next
  case False
  then have "\<not> enough_empty_cluster (fs_driver s) (number_of_partition (rq_buffer_size rq))"
    using assms(3) by (simp add: enough_empty_cluster_free)
  then show ?thesis using can_add_scan [OF inv a] False by (simp add: fat_write_def write_file_def)
qed

end
