(* ===== verification/FAT32_Access.thy ===== *)
theory FAT32_Access
  imports FAT32_Write
begin

text \<open>
  The outcomes of \<open>fat_read\<close>, \<open>read_directory\<close> and \<open>Delete\<close>: contents of files and folders,
  freed files and folders, and the refusals.
\<close>

subsection \<open>Reading\<close>

abbreviation rq_table :: "fs_state \<Rightarrow> FAT32DriverRequest \<Rightarrow> dir_table" where
  "rq_table s rq \<equiv> read_table s (rq_parent_cluster_number rq)"

text \<open>The slot the search of \<open>fat_read\<close> and \<open>Delete\<close> arrives at.\<close>

abbreviation found_slot :: "fs_state \<Rightarrow> FAT32DriverRequest \<Rightarrow> slot" where
  "found_slot s rq \<equiv> (unat (rq_parent_cluster_number rq), find_entry (rq_table s rq) rq)"

lemma found_slotD:
  assumes inv: "fs_inv D own s" and p: "found_slot s rq \<in> slots D (tables s)"
  defines "e \<equiv> rq_table s rq ! find_entry (rq_table s rq) rq" and "cs \<equiv> own (found_slot s rq)"
  shows "unat (rq_parent_cluster_number rq) \<in> D" "de_attribute (rq_table s rq ! 0) = 0x10"
    "2 \<le> find_entry (rq_table s rq) rq" "find_entry (rq_table s rq) rq < 64" "used e"
    "chain (fs_fat s) (entry_cluster e) cs" "cs \<noteq> []" "set cs \<subseteq> {3..<512}" "distinct cs"
    "entry_cluster e = of_nat (hd cs)" "is_dir e \<Longrightarrow> cs = [hd cs]" "unat (rq_parent_cluster_number rq) \<in> set cs \<Longrightarrow> is_dir e \<and> cs = [unat (rq_parent_cluster_number rq)]"
    "entry_ok (fs_fat s) e cs"
proof -
  show d: "unat (rq_parent_cluster_number rq) \<in> D" "2 \<le> find_entry (rq_table s rq) rq"
    "find_entry (rq_table s rq) rq < 64" "used e"
    using p by (auto simp: slots_def e_def)
  show "de_attribute (rq_table s rq ! 0) = 0x10" using fs_inv_dir(3) [OF inv d(1)] by (simp add: is_dir_def)
  have "entry_ok (fs_fat s) (ent (tables s) (found_slot s rq)) cs"
    unfolding cs_def by (rule tree_invD(6) [OF fs_invD(5) [OF inv] p])
  then show eo: "entry_ok (fs_fat s) e cs" by (simp add: e_def)
  show "chain (fs_fat s) (entry_cluster e) cs" "cs \<noteq> []" "set cs \<subseteq> {3..<512}" "distinct cs"
    "entry_cluster e = of_nat (hd cs)" "is_dir e \<Longrightarrow> cs = [hd cs]"
    using entry_okD(1,2,4,5,7,8) [OF eo] by auto
  show "unat (rq_parent_cluster_number rq) \<in> set cs \<Longrightarrow> is_dir e \<and> cs = [unat (rq_parent_cluster_number rq)]"
    using owned_dir [OF fs_invD(5) [OF inv] p _ d(1)] by (simp add: cs_def e_def)
qed

lemma fat_read_file:
  assumes inv: "fs_inv D own s" and p: "found_slot s rq \<in> slots D (tables s)"
    and f: "\<not> is_dir (ent (tables s) (found_slot s rq))"
    and sz: "de_filesize (ent (tables s) (found_slot s rq)) \<le> rq_buffer_size rq"
  shows "fat_read rq s m =
    Ret (0, mem_write m (rq_buf rq) (concat (map (cluster (fs_disk s)) (own (found_slot s rq)))))"
proof -
  note F = found_slotD [OF inv p]
  have "read_chain s (entry_cluster (rq_table s rq ! find_entry (rq_table s rq) rq)) (rq_buf rq) m =
      Ret (mem_write m (rq_buf rq) (concat (map (cluster (fs_disk s)) (own (found_slot s rq)))))"
    by (rule read_chain_chain [OF F(6) fs_invD(1) [OF inv]])
  then show ?thesis using F(2,4) f sz by (simp add: fat_read_def Let_def is_dir_def not_less)
qed

lemma fat_read_refusals:
  shows "\<not> is_dir (rq_table s rq ! 0) \<Longrightarrow> fat_read rq s m = Ret (-1, m)"
    "is_dir (rq_table s rq ! 0) \<Longrightarrow> find_entry (rq_table s rq) rq = 64 \<Longrightarrow> fat_read rq s m = Ret (2, m)"
    "is_dir (rq_table s rq ! 0) \<Longrightarrow> find_entry (rq_table s rq) rq < 64 \<Longrightarrow>
       is_dir (rq_table s rq ! find_entry (rq_table s rq) rq) \<Longrightarrow> fat_read rq s m = Ret (1, m)"
    "is_dir (rq_table s rq ! 0) \<Longrightarrow> find_entry (rq_table s rq) rq < 64 \<Longrightarrow>
       \<not> is_dir (rq_table s rq ! find_entry (rq_table s rq) rq) \<Longrightarrow>
       rq_buffer_size rq < de_filesize (rq_table s rq ! find_entry (rq_table s rq) rq) \<Longrightarrow>
       fat_read rq s m = Ret (-1, m)"
  by (simp_all add: fat_read_def Let_def is_dir_def)

text \<open>Whether \<open>fat_read\<close> finds a file that fits the buffer of the request.\<close>

definition file_readable :: "FAT32DriverRequest \<Rightarrow> fs_state \<Rightarrow> bool" where
  "file_readable rq s \<longleftrightarrow> (let t = rq_table s rq; i = find_entry t rq in
     is_dir (t ! 0) \<and> i < 64 \<and> \<not> is_dir (t ! i) \<and> de_filesize (t ! i) \<le> rq_buffer_size rq)"

lemma find_entry_le: "find_entry t rq \<le> 64"
  using scan_while_le [of 0 64] by (simp add: find_entry_def)

lemma fat_read_code: "fat_read rq s m = Ret (r, m') \<Longrightarrow> r = 0 \<longleftrightarrow> file_readable rq s"
  using find_entry_le [of "rq_table s rq" rq]
  by (auto simp: fat_read_def file_readable_def Let_def is_dir_def not_less elim!: run_bind_RetE split: if_splits)

lemma fat_read_unreadable:
  assumes "\<not> file_readable rq s"
  shows "\<exists>c. fat_read rq s m = Ret (c, m) \<and> c \<noteq> 0 \<and>
    (c = 1 \<longleftrightarrow> is_dir (rq_table s rq ! 0) \<and> find_entry (rq_table s rq) rq < 64 \<and> is_dir (rq_table s rq ! find_entry (rq_table s rq) rq))"
  using assms find_entry_le [of "rq_table s rq" rq] by (auto simp: fat_read_def file_readable_def Let_def is_dir_def not_le)

text \<open>
  A request with an empty name finds the first unused entry, whose cluster number is 0, and
  leaves the map: the driver takes the reserved cell 0 for a chain.
\<close>

lemma cluster_map_get_reserved:
  "fat_ok (fat_table st) \<Longrightarrow> cluster_map_get st 0 = Some 0x0FFFFFF0" "cluster_map_get st 0x0FFFFFF0 = None"
  by (simp_all add: fat_ok_def cluster_map_get_def)

lemma read_chain_zero:
  "fat_ok (fs_fat s) \<Longrightarrow> read_chain s 0 ptr m = Fault Out_Of_Bounds"
  using cluster_map_get_reserved [of "fs_driver s"]
  by (simp add: read_chain.simps [of s 0] read_chain.simps [of s "0x0FFFFFF0"])

lemma empty_entry_sel [simp]: "entry_cluster empty_entry = 0" "\<not> is_dir empty_entry" "de_filesize empty_entry = 0"
  "de_name empty_entry = replicate 8 0" "de_ext empty_entry = replicate 3 0" "de_attribute empty_entry = 0"
  by (simp_all add: entry_cluster_def empty_entry_def is_dir_def)

subsection \<open>Deleting\<close>

lemma write_store_commute:
  assumes "p < 2 ^ 30" "unat p \<notin> set cs" "set cs \<subseteq> {..<512}"
  shows "write_clusters b p 1 (store_chain d cs bs) = store_chain (write_clusters b p 1 d) cs bs"
  using assms
proof (induction d cs bs rule: store_chain.induct)
  case (1 d c cs b' bs)
  have "p \<noteq> of_nat c" using 1 by auto
  then show ?case using 1 by (simp add: write_clusters_commute)
qed auto

definition deleted :: "FAT32DriverRequest \<Rightarrow> dir_table \<Rightarrow> nat \<Rightarrow> nat list \<Rightarrow> fs_state \<Rightarrow> fs_state" where
  "deleted rq t j cs s =
     s\<lparr>fs_disk := disk_update (fs_disk s) (enc_table (t[j := empty_entry]))
         (unat (rq_parent_cluster_number rq)) cs (zeros cs) (enc_fat (clear_cells (fs_fat s) cs)),
       fs_driver := (fs_driver s)\<lparr>fat_table := clear_cells (fs_fat s) cs\<rparr>\<rparr>"

lemma zeros_snoc: "cs \<noteq> [] \<Longrightarrow> zeros (butlast cs) @ [empty_cluster] = zeros cs"
  by (cases cs rule: rev_cases) (auto simp: replicate_append_same)

lemma delete_finish_result:
  assumes cs: "cs \<noteq> []" "set cs \<subseteq> {3..<512}" and p: "unat (rq_parent_cluster_number rq) < 512"
    "unat (rq_parent_cluster_number rq) \<notin> set cs"
  shows "delete_finish rq t j (of_nat (last cs))
      (set_fat (clear_cells (fs_fat s) (butlast cs))
        (set_disk (store_chain (fs_disk s) (butlast cs) (zeros (butlast cs))) s)) =
    Ret (0, deleted rq t j cs s)"
proof -
  have l: "last cs < 512" using cs(2) last_in_set [OF cs(1)] by (meson atLeastLessThan_iff subsetD)
  have r: "set cs \<subseteq> {..<512}" using cs(2) by auto
  have pw: "rq_parent_cluster_number rq < 2 ^ 30" using p(1) by (simp add: word_less_nat_alt)
  have c: "clear_cells (fs_fat s) cs = (clear_cells (fs_fat s) (butlast cs))[last cs := 0]"
    using clear_cells_snoc [of "fs_fat s" "butlast cs" "last cs"] cs(1) by simp
  have d: "write_clusters empty_cluster (of_nat (last cs)) 1 (store_chain d (butlast cs) (zeros (butlast cs))) =
      store_chain d cs (zeros cs)" for d
    using store_chain_snoc [of "zeros (butlast cs)" "butlast cs" d "last cs" empty_cluster] cs(1)
    by (simp add: zeros_snoc del: length_butlast)
  show ?thesis
    using l c d write_store_commute [OF pw p(2) r]
    by (simp add: delete_finish_def Let_def deleted_def disk_update_def)
qed

lemma Delete_file_result:
  assumes inv: "fs_inv D own s" and p: "found_slot s rq \<in> slots D (tables s)"
    and f: "\<not> is_dir (ent (tables s) (found_slot s rq))"
  shows "Delete rq s = Ret (0, deleted rq (rq_table s rq) (snd (found_slot s rq)) (own (found_slot s rq)) s)"
proof -
  note F = found_slotD [OF inv p]
  have nd: "unat (rq_parent_cluster_number rq) \<notin> set (own (found_slot s rq))" using F(12) f by auto
  show ?thesis
    using F(2,4) f delete_chain_chain [OF F(6,7)] fs_inv_dir(4) [OF inv F(1)]
      delete_finish_result [OF F(7,8) fs_inv_dir(4) [OF inv F(1)] nd]
    by (simp add: Delete_def Let_def is_dir_def)
qed

lemma deleted_effect:
  assumes inv: "fs_inv D own s" and p: "found_slot s rq \<in> slots D (tables s)"
    and nd: "unat (rq_parent_cluster_number rq) \<notin> set (own (found_slot s rq))"
  defines "q \<equiv> found_slot s rq"
  defines "s' \<equiv> deleted rq (rq_table s rq) (snd q) (own q) s"
  shows "tree_inv D' own' (clear_cells (fs_fat s) (own q)) (tables s') \<Longrightarrow> fs_inv D' own' s'"
    "\<And>d. d \<in> D \<Longrightarrow> d \<notin> set (own q) \<Longrightarrow> tables s' d = set_slot (tables s) q empty_entry d"
    "map (cluster (fs_disk s')) (own q) = zeros (own q)"
    "\<And>x. x < 512 \<Longrightarrow> x \<noteq> 1 \<Longrightarrow> x \<notin> set (own q) \<Longrightarrow> x \<noteq> fst q \<Longrightarrow> cluster (fs_disk s') x = cluster (fs_disk s) x"
    "removes D own (fs_fat s) (clear_cells (fs_fat s) (own q)) (tables s) q"
proof -
  note F = found_slotD [OF inv p, folded q_def] and I = fs_invD [OF inv]
  note P = fs_inv_dir [OF inv F(1)]
  let ?cs = "own q" and ?fat = "clear_cells (fs_fat s) (own q)" and ?t = "rq_table s rq"
  have fp: "fst q = unat (rq_parent_cluster_number rq)" "(unat (rq_parent_cluster_number rq), snd q) = q"
    by (simp_all add: q_def)
  have np: "fst q \<notin> set ?cs" "fst q \<noteq> 1" "fst q < 512" using nd P(4,5) by (auto simp: q_def)
  have csr: "1 \<notin> set ?cs" "set ?cs \<subseteq> {..<512}" using F(8) by auto
  have bs: "\<forall>b\<in>set (zeros ?cs). length b = 2048" by simp
  have l: "length (enc_table (?t[snd q := empty_entry])) = 2048" "length (enc_fat ?fat) = 2048" "length ?fat = 512"
    using P(2) I(6) by (simp_all add: layout_simps)
  have s': "s' = s\<lparr>fs_disk := disk_update (fs_disk s) (enc_table (?t[snd q := empty_entry])) (fst q) ?cs (zeros ?cs) (enc_fat ?fat),
       fs_driver := (fs_driver s)\<lparr>fat_table := ?fat\<rparr>\<rparr>"
    by (simp add: s'_def deleted_def fp)
  show "tables s' d = set_slot (tables s) q empty_entry d" if "d \<in> D" "d \<notin> set ?cs" for d
  proof -
    have "d < 512" "d \<noteq> 1" using tree_invD(4) [OF I(5)] that by auto
    then show ?thesis
      using disk_update_tables [of "enc_fat ?fat" "tables s" "fst q" empty_entry d ?cs "fs_disk s" "snd q" "zeros ?cs"]
        that l(2) P(2) np csr s' by (simp add: fp)
  qed
  show "map (cluster (fs_disk s')) ?cs = zeros ?cs"
    using disk_update_cluster(4) [OF np(3,1,2) csr l(1,2) F(9) _ bs] s' by simp
  show "\<And>x. x < 512 \<Longrightarrow> x \<noteq> 1 \<Longrightarrow> x \<notin> set ?cs \<Longrightarrow> x \<noteq> fst q \<Longrightarrow> cluster (fs_disk s') x = cluster (fs_disk s) x"
    using disk_update_cluster(3) [OF np(3,1,2) csr l(1,2)] s' by simp
  show "removes D own (fs_fat s) ?fat (tables s) q"
    using p l(3) I(6) by (simp add: removes_def clear_cells_nth q_def)
  show "tree_inv D' own' ?fat (tables s') \<Longrightarrow> fs_inv D' own' s'"
    using fs_inv_update [OF inv F(1) F(8) bs l(3) wf_empty_entry I(2)] np s' by (simp add: fp)
qed

lemma Delete_file_inv:
  assumes inv: "fs_inv D own s" and p: "found_slot s rq \<in> slots D (tables s)"
    and f: "\<not> is_dir (ent (tables s) (found_slot s rq))"
  shows "fs_inv D own (deleted rq (rq_table s rq) (snd (found_slot s rq)) (own (found_slot s rq)) s)"
proof -
  note F = found_slotD [OF inv p] and I = fs_invD [OF inv]
  have nd: "unat (rq_parent_cluster_number rq) \<notin> set (own (found_slot s rq))" using F(12) f by auto
  note E = deleted_effect [OF inv p nd]
  have dis: "d \<notin> set (own (found_slot s rq))" if "d \<in> D" for d
    using owned_dir [OF I(5) p _ that] f by auto
  show ?thesis
    by (rule E(1), rule tree_inv_cong [OF tree_inv_remove_file [OF I(5) E(5) f]]) (use E(2) dis in blast)
qed

definition folder_empty :: "dir_table \<Rightarrow> bool" where
  "folder_empty t \<longleftrightarrow> (\<forall>i\<in>{2..<DIR_ENTRY_COUNT}. \<not> used (t ! i))"

lemma folder_scan:
  "scan_while (\<lambda>i. de_user_attribute (t ! i) \<noteq> UATTR_NOT_EMPTY) 2 64 < 64 \<longleftrightarrow> \<not> folder_empty t"
proof -
  let ?k = "scan_while (\<lambda>i. de_user_attribute (t ! i) \<noteq> UATTR_NOT_EMPTY) 2 64"
  have "?k \<le> 64" by (rule scan_while_le) simp
  then have "?k < 64 \<longleftrightarrow> ?k \<noteq> 64" by linarith
  then show ?thesis
    using scan_while_end_iff [of 2 64 "\<lambda>i. de_user_attribute (t ! i) \<noteq> UATTR_NOT_EMPTY"]
    by (simp add: folder_empty_def used_def Ball_def)
qed

lemma Delete_folder_result:
  assumes inv: "fs_inv D own s" and p: "found_slot s rq \<in> slots D (tables s)"
    and f: "is_dir (ent (tables s) (found_slot s rq))" and c: "own (found_slot s rq) = [c]"
  shows "\<not> folder_empty (tables s c) \<Longrightarrow> Delete rq s = Ret (2, s)"
    "folder_empty (tables s c) \<Longrightarrow> unat (rq_parent_cluster_number rq) \<noteq> c \<Longrightarrow>
       Delete rq s = Ret (0, deleted rq (rq_table s rq) (snd (found_slot s rq)) [c] s)"
proof -
  note F = found_slotD [OF inv p, unfolded c] and P = fs_inv_dir(4) [OF inv found_slotD(1) [OF inv p]]
  have cr: "c < 512" and ec: "entry_cluster (rq_table s rq ! find_entry (rq_table s rq) rq) = of_nat c"
    using F(8,10) by auto
  have low: "ucast (de_cluster_low (rq_table s rq ! find_entry (rq_table s rq) rq)) = (of_nat c :: u32)"
    using low_half [of "rq_table s rq ! find_entry (rq_table s rq) rq"] ec cr by (simp add: word_less_nat_alt)
  show "\<not> folder_empty (tables s c) \<Longrightarrow> Delete rq s = Ret (2, s)"
    using F(2,4) f low folder_scan [of "tables s c"] by (simp add: Delete_def Let_def is_dir_def)
  assume "folder_empty (tables s c)" "unat (rq_parent_cluster_number rq) \<noteq> c"
  then show "Delete rq s = Ret (0, deleted rq (rq_table s rq) (snd (found_slot s rq)) [c] s)"
    using F(2,4) f low ec folder_scan [of "tables s c"]
      delete_finish_result [of "[c]" rq "rq_table s rq" "find_entry (rq_table s rq) rq" s] F(8) P
    by (simp add: Delete_def Let_def is_dir_def clear_cells_def)
qed

lemma Delete_folder_inv:
  assumes inv: "fs_inv D own s" and p: "found_slot s rq \<in> slots D (tables s)"
    and f: "is_dir (ent (tables s) (found_slot s rq))" and c: "own (found_slot s rq) = [c]"
    and e: "folder_empty (tables s c)"
  shows "unat (rq_parent_cluster_number rq) \<noteq> c"
    "fs_inv (D - {c}) own (deleted rq (rq_table s rq) (snd (found_slot s rq)) [c] s)"
proof -
  note F = found_slotD [OF inv p] and I = fs_invD [OF inv]
  have empty: "\<not> used (tables s c ! i)" if "2 \<le> i" "i < 64" for i
    using e that by (simp add: folder_empty_def)
  show "unat (rq_parent_cluster_number rq) \<noteq> c"
    using empty [of "find_entry (rq_table s rq) rq"] F(3,4,5) by auto
  then have nd: "unat (rq_parent_cluster_number rq) \<notin> set (own (found_slot s rq))" by (simp add: c)
  note E = deleted_effect [OF inv p nd, unfolded c]
  show "fs_inv (D - {c}) own (deleted rq (rq_table s rq) (snd (found_slot s rq)) [c] s)"
    by (rule E(1), rule tree_inv_cong [OF tree_inv_remove_dir [OF I(5) _ f c empty]]) (use E(2,5) c in auto)
qed

lemma Delete_refusals:
  "\<not> is_dir (rq_table s rq ! 0) \<Longrightarrow> Delete rq s = Ret (-1, s)"
  "is_dir (rq_table s rq ! 0) \<Longrightarrow> find_entry (rq_table s rq) rq = 64 \<Longrightarrow> Delete rq s = Ret (1, s)"
  by (simp_all add: Delete_def Let_def is_dir_def)

lemma delete_chain_zero:
  assumes "fat_ok (fs_fat s)"
  shows "delete_chain 0 s = Fault Out_Of_Bounds"
proof -
  have "cluster_map_get st 0x0FFFFFF0 = None" for st by (rule cluster_map_get_reserved)
  moreover have "cluster_map_get (fs_driver s) 0 = Some 0x0FFFFFF0" by (rule cluster_map_get_reserved) (rule assms)
  ultimately show ?thesis
    using assms by (simp add: delete_chain.simps [of 0] delete_chain.simps [of "0x0FFFFFF0"] fat_ok_def)
qed

end
