(* ===== verification/FAT32_Session.thy ===== *)
theory FAT32_Session
  imports FAT32_Access
begin

text \<open>
  The file system over time: formatting, mounting, the operations the shell may issue as a
  step relation, and the properties of the driver.
\<close>

subsection \<open>Formatting and mounting\<close>

lemma length_fs_signature: "length fs_signature = 512"
  by (simp add: fs_signature_def)

lemma initial_fat_props:
  "length initial_fat = 512" "free_from initial_fat 0 = [2..<512]" "find_empty_cluster initial_fat = 2"
proof -
  show "length initial_fat = 512" by (simp add: initial_fat_def)
  have c: "initial_fat ! 0 \<noteq> 0" "initial_fat ! Suc 0 \<noteq> 0" "\<And>i. 2 \<le> i \<Longrightarrow> i < 512 \<Longrightarrow> initial_fat ! i = 0"
    by (auto simp: initial_fat_def nth_append nth_Cons')
  have "free_from initial_fat 0 = free_from initial_fat 2"
    using c(1,2) free_from_step [of 0] free_from_step [of "Suc 0"] by (simp add: numeral_2_eq_2)
  also have "\<dots> = [2..<512]" using c(3) by (simp add: free_from_def filter_id_conv)
  finally show f: "free_from initial_fat 0 = [2..<512]" .
  show "find_empty_cluster initial_fat = 2" by (simp add: find_empty_cluster_free f upt_conv_Cons)
qed

definition root_table :: dir_table where
  "root_table =
     [init_directory_entry empty_entry root_name nul_ext ATTR_SUBDIRECTORY 2 0,
      init_directory_entry empty_entry root_name nul_ext ATTR_SUBDIRECTORY 2 0] @ replicate 62 empty_entry"

lemma init_root_table: "init_directory_table root_name 2 (set_fat initial_fat s) = root_table"
proof -
  have "replicate 64 empty_entry = empty_entry # empty_entry # replicate 62 empty_entry"
    by (rule nth_equalityI) (auto simp: nth_Cons')
  then show ?thesis
    using initial_fat_props(3) by (simp add: init_directory_table_def Let_def root_table_def)
qed

lemma root_table_ok: "table_ok 2 root_table"
proof -
  have z: "root_table ! i = empty_entry" if "2 \<le> i" "i < 64" for i
    using that by (simp add: root_table_def nth_append nth_Cons')
  have "wf_table root_table" by (simp add: root_table_def wf_table_alt root_name_def nul_ext_def)
  moreover have "is_dir (root_table ! 0)" "entry_cluster (root_table ! 0) = 2" by (simp_all add: root_table_def)
  ultimately show ?thesis using z by (intro table_okI) auto
qed

lemma root_table_empty: "2 \<le> i \<Longrightarrow> i < 64 \<Longrightarrow> root_table ! i = empty_entry"
  by (simp add: root_table_def nth_append nth_Cons')

definition formatted_fat :: "u32 list" where
  "formatted_fat = initial_fat[2 := FAT32_FAT_END_OF_FILE]"

lemma create_fat32_result:
  "create_fat32 after s =
     s\<lparr>fs_disk := write_clusters (enc_table root_table) 2 1 (write_clusters (enc_fat formatted_fat) 1 1
          (write_clusters (fs_signature @ after) 0 1 (fs_disk s))),
       fs_driver := (fs_driver s)\<lparr>fat_table := formatted_fat, dir_table_buf := root_table\<rparr>\<rparr>"
  using init_root_table [of s] by (simp add: create_fat32_def Let_def formatted_fat_def)

definition wf_driver :: "FAT32DriverState \<Rightarrow> bool" where
  "wf_driver st \<longleftrightarrow> wf_table (dir_table_buf st) \<and> length (cluster_buf st) = CLUSTER_SIZE"

lemma create_fat32_inv:
  assumes d: "wf_disk (fs_disk s)" and b: "wf_driver (fs_driver s)" and a: "length after = 1536"
  shows "fs_inv {2} (\<lambda>_. []) (create_fat32 after s)"
proof -
  let ?s = "create_fat32 after s"
  have l: "length (enc_table root_table) = 2048" "length (enc_fat formatted_fat) = 2048"
    "length (fs_signature @ after) = 2048" "wf_table root_table"
    using table_okD(1) [OF root_table_ok] a initial_fat_props(1)
    by (simp_all add: layout_simps length_fs_signature formatted_fat_def)
  have t: "tables ?s 2 = root_table"
    using l by (simp add: create_fat32_result read_write_cluster_same layout_simps)
  have f: "cluster (fs_disk ?s) 1 = enc_fat formatted_fat"
    using l cluster_write_other [of 2 1 "enc_table root_table"]
    by (simp add: create_fat32_result read_write_cluster_same)
  have "is_empty_storage (fs_disk ?s) = is_empty_storage (write_clusters (fs_signature @ after) 0 1 (fs_disk s))"
    using is_empty_storage_write [of 2 "enc_table root_table"] is_empty_storage_write [of 1 "enc_fat formatted_fat"]
    by (simp add: create_fat32_result)
  then have e: "\<not> is_empty_storage (fs_disk ?s)"
    by (simp add: is_empty_storage_def read_blocks_def write_clusters_def write_blocks_apply cluster_to_lba_def
        length_fs_signature)
  have sl: "slots {2} (tables ?s) = {}"
    using t root_table_empty by (auto simp: slots_def)
  have cell: "formatted_fat ! c = 0" if "2 < c" "c < 512" for c
    using that by (simp add: formatted_fat_def initial_fat_def nth_append nth_Cons')
  have "tree_inv {2} (\<lambda>_. []) formatted_fat (tables ?s)"
  proof (rule tree_invI, unfold sl)
    show "fat_ok formatted_fat"
      using initial_fat_props(1) by (simp add: fat_ok_def formatted_fat_def) (simp add: initial_fat_def)
    show "\<And>d. d \<in> {2} \<Longrightarrow> table_ok d (tables ?s d)" using t root_table_ok by simp
  qed (use cell in auto)
  then show ?thesis
    using d b l e f by (simp add: fs_inv_def create_fat32_result wf_driver_def)
qed

lemma initialize_mounts:
  assumes inv: "fs_inv D own s" and d: "fs_disk s' = fs_disk s" and b: "wf_driver (fs_driver s')"
  shows "fs_inv D own (initialize_filesystem_fat32 after s')"
    "fs_fat (initialize_filesystem_fat32 after s') = fs_fat s"
    "fs_disk (initialize_filesystem_fat32 after s') = fs_disk s"
proof -
  note I = fs_invD [OF inv]
  have r: "initialize_filesystem_fat32 after s' = set_fat (fs_fat s) s'"
    using I(3,4,6) d by (simp add: initialize_filesystem_fat32_def layout_simps)
  show "fs_fat (initialize_filesystem_fat32 after s') = fs_fat s"
    "fs_disk (initialize_filesystem_fat32 after s') = fs_disk s" using r d by simp_all
  show "fs_inv D own (initialize_filesystem_fat32 after s')"
    unfolding r using I d b inv by (simp add: fs_inv_def wf_driver_def)
qed

subsection \<open>Directories reachable from the root\<close>

inductive_set dirs :: "fs_state \<Rightarrow> nat set" for s :: fs_state where
  root: "2 \<in> dirs s"
| sub: "d \<in> dirs s \<Longrightarrow> 2 \<le> i \<Longrightarrow> i < DIR_ENTRY_COUNT \<Longrightarrow> used (tables s d ! i) \<Longrightarrow> is_dir (tables s d ! i) \<Longrightarrow>
    unat (entry_cluster (tables s d ! i)) \<in> dirs s"

lemma dirs_subset:
  assumes "fs_inv D own s"
  shows "dirs s \<subseteq> D"
proof
  note I = tree_invD [OF fs_invD(5) [OF assms]]
  fix c assume "c \<in> dirs s"
  then show "c \<in> D"
  proof (induction rule: dirs.induct)
    case (sub d i)
    then have p: "(d, i) \<in> slots D (tables s)" by (simp add: slots_def)
    have "hd (own (d, i)) \<in> D" using I(8) [OF p] sub by simp
    moreover have "entry_cluster (tables s d ! i) = of_nat (hd (own (d, i)))" using entry_okD(7) [OF I(6) [OF p]] by simp
    moreover have "hd (own (d, i)) < 512" using I(4) calculation(1) by auto
    ultimately show ?case by simp
  qed (rule I(3))
qed

subsection \<open>Steps\<close>

text \<open>
  What the callers of the driver must observe. The parent is a directory of the tree. For a
  write, the free-space check must not be fooled by the word behind the map. For a deletion,
  the name is not empty and the search does not stop at the entries 0 and 1.
\<close>

definition space_check_exact :: "fs_state \<Rightarrow> FAT32DriverRequest \<Rightarrow> bool" where
  "space_check_exact s rq \<longleftrightarrow> word_at (enc_table (dir_table_buf (fs_driver s))) 0 \<noteq> 0 \<or>
     unat (number_of_partition (rq_buffer_size rq)) \<noteq> Suc (length (free_from (fs_fat s) 3))"

definition write_allowed :: "fs_state \<Rightarrow> FAT32DriverRequest \<Rightarrow> bool" where
  "write_allowed s rq \<longleftrightarrow> wf_request rq \<and> unat (rq_parent_cluster_number rq) \<in> dirs s \<and> space_check_exact s rq"

definition delete_allowed :: "fs_state \<Rightarrow> FAT32DriverRequest \<Rightarrow> bool" where
  "delete_allowed s rq \<longleftrightarrow> wf_request rq \<and> unat (rq_parent_cluster_number rq) \<in> dirs s \<and>
     rq_name rq \<noteq> replicate 8 0 \<and> 2 \<le> find_entry (rq_table s rq) rq"

inductive fs_step :: "fs_state \<Rightarrow> fs_state \<Rightarrow> bool" where
  step_write: "write_allowed s rq \<Longrightarrow> fat_write rq m s = Ret (r, s') \<Longrightarrow> fs_step s s'"
| step_delete: "delete_allowed s rq \<Longrightarrow> Delete rq s = Ret (r, s') \<Longrightarrow> fs_step s s'"
| step_mount: "wf_driver st \<Longrightarrow> fs_step s (initialize_filesystem_fat32 after (s\<lparr>fs_driver := st\<rparr>))"

definition fs_init :: "fs_state \<Rightarrow> bool" where
  "fs_init s \<longleftrightarrow> (\<exists>s0 after. wf_disk (fs_disk s0) \<and> wf_driver (fs_driver s0) \<and> length after = 1536 \<and>
     s = create_fat32 after s0)"

definition fs_ok :: "fs_state \<Rightarrow> bool" where
  "fs_ok s \<longleftrightarrow> (\<exists>D own. fs_inv D own s)"

lemma fat_write_cases:
  assumes inv: "fs_inv D own s" and w: "write_allowed s rq"
  obtains (stored) "rq_buffer_size rq \<noteq> 0" "can_add D s rq 0"
      "unat (number_of_partition (rq_buffer_size rq)) \<le> length (free_from (fs_fat s) 3)"
  | (made) c cs where "rq_buffer_size rq = 0" "can_add D s rq ATTR_SUBDIRECTORY" "free_from (fs_fat s) 3 = c # cs"
  | (refused) r where "fat_write rq m s = Ret (r, s)" "r = 1 \<or> r = -1"
proof -
  let ?t = "rq_table s rq"
  have wf: "wf_request rq" and d: "unat (rq_parent_cluster_number rq) \<in> D" and ex: "space_check_exact s rq"
    using w dirs_subset [OF inv] by (auto simp: write_allowed_def)
  note P = fs_inv_dir [OF inv d] and I = fs_invD [OF inv]
  show thesis
  proof (cases "\<exists>i. 2 \<le> i \<and> i < 64 \<and> has_key ?t rq (rq_attr rq) i")
    case True
    then show thesis using fat_write_duplicate [OF I(1) wf P(3)] refused [of 1] by blast
  next
    case no: False
    show thesis
    proof (cases "first_unused ?t 2 = 64")
      case True
      then show thesis using fat_write_full [OF I(1) wf P(3) _ True] no refused [of "-1"] by blast
    next
      case False
      then have a: "can_add D s rq (rq_attr rq)" using no wf d by (auto simp: can_add_def)
      show thesis
      proof (cases "rq_buffer_size rq = 0")
        case z: True
        show thesis
        proof (cases "free_from (fs_fat s) 3")
          case Nil
          then show thesis using fat_write_no_space [OF inv a, of m] z by (intro refused [of "-1"]) auto
        qed (use made a z in auto)
      next
        case z: False
        let ?n = "unat (number_of_partition (rq_buffer_size rq))"
        show thesis
        proof (cases "?n \<le> length (free_from (fs_fat s) 3)")
          case False
          then have "length (free_from (fs_fat s) 3) +
              (if word_at (enc_table (dir_table_buf (fs_driver s))) 0 = 0 then 1 else 0) < ?n"
            using ex by (auto simp: space_check_exact_def)
          then show thesis using fat_write_no_space [OF inv a, of m] z by (intro refused [of "-1"]) auto
        qed (use stored a z in auto)
      qed
    qed
  qed
qed

lemma find_entry_props:
  assumes "wf_table t" "wf_request rq" "find_entry t rq < 64"
  shows "de_name (t ! find_entry t rq) = rq_name rq" "de_ext (t ! find_entry t rq) = rq_ext rq"
  using scan_while_stop [of "\<lambda>i. \<not> entry_matches (t ! i) rq" 0 64] assms entry_matches_iff
  by (auto simp: find_entry_def)

lemma found_named_slot:
  assumes inv: "fs_inv D own s" and d: "unat (rq_parent_cluster_number rq) \<in> D" and wf: "wf_request rq"
    and n: "rq_name rq \<noteq> replicate 8 0" and i: "2 \<le> find_entry (rq_table s rq) rq" "find_entry (rq_table s rq) rq \<noteq> 64"
  shows "found_slot s rq \<in> slots D (tables s)"
proof -
  note P = fs_inv_dir [OF inv d]
  have lt: "find_entry (rq_table s rq) rq < 64" using find_entry_le [of "rq_table s rq" rq] i(2) by simp
  have "used (rq_table s rq ! find_entry (rq_table s rq) rq)"
    using table_okD(4) [OF P(1) i(1) lt] find_entry_props(1) [OF P(2) wf lt] n by (metis empty_entry_sel(4))
  then show ?thesis using d i(1) lt by (simp add: slots_def)
qed

lemma Delete_cases:
  assumes inv: "fs_inv D own s" and w: "delete_allowed s rq"
  obtains (plain) "found_slot s rq \<in> slots D (tables s)" "\<not> is_dir (ent (tables s) (found_slot s rq))"
  | (folder) c where "found_slot s rq \<in> slots D (tables s)" "is_dir (ent (tables s) (found_slot s rq))"
      "own (found_slot s rq) = [c]" "folder_empty (tables s c)"
  | (refused) r where "Delete rq s = Ret (r, s)" "r = 1 \<or> r = 2"
proof -
  have wf: "wf_request rq" and d: "unat (rq_parent_cluster_number rq) \<in> D"
    and n: "rq_name rq \<noteq> replicate 8 0" "2 \<le> find_entry (rq_table s rq) rq"
    using w dirs_subset [OF inv] by (auto simp: delete_allowed_def)
  show thesis
  proof (cases "find_entry (rq_table s rq) rq = 64")
    case True
    then show thesis using Delete_refusals(2) [OF fs_inv_dir(3) [OF inv d]] refused [of 1] by simp
  next
    case False
    note p = found_named_slot [OF inv d wf n False]
    show thesis
    proof (cases "is_dir (ent (tables s) (found_slot s rq))")
      case True
      then obtain c where c: "own (found_slot s rq) = [c]"
        using found_slotD(11) [OF inv p] by auto
      show thesis
        using Delete_folder_result(1) [OF inv p True c] folder [OF p True c] refused [of 2] by blast
    qed (use plain p in blast)
  qed
qed

lemma fs_step_inv: "fs_ok s \<Longrightarrow> fs_step s s' \<Longrightarrow> fs_ok s'"
proof -
  assume "fs_ok s"
  then obtain D own where inv: "fs_inv D own s" by (auto simp: fs_ok_def)
  assume "fs_step s s'"
  then show "fs_ok s'"
  proof cases
    case (step_write rq m r)
    from inv step_write(1) show ?thesis
    proof (cases rule: fat_write_cases [where m = m])
      case stored
      show ?thesis
        using fat_write_file_result [OF inv stored(2,1,3), of m] file_written_effect(1) [OF inv stored(2,1,3), of m]
          step_write(2) by (auto simp: fs_ok_def)
    next
      case (made c cs)
      show ?thesis
        using fat_write_folder_result [OF inv made(2,1,3), of m] folder_written_effect(1) [OF inv made(2,1,3)]
          step_write(2) by (auto simp: fs_ok_def)
    qed (use inv step_write(2) in \<open>auto simp: fs_ok_def\<close>)
  next
    case (step_delete rq r)
    from inv step_delete(1) show ?thesis
    proof (cases rule: Delete_cases)
      case plain
      show ?thesis
        using Delete_file_result [OF inv plain] Delete_file_inv [OF inv plain] step_delete(2) by (auto simp: fs_ok_def)
    next
      case (folder c)
      note N = Delete_folder_inv [OF inv folder]
      show ?thesis
        using Delete_folder_result(2) [OF inv folder(1-4) N(1)] N(2) step_delete(2) by (auto simp: fs_ok_def)
    qed (use inv step_delete(2) in \<open>auto simp: fs_ok_def\<close>)
  next
    case (step_mount st after)
    then show ?thesis
      using initialize_mounts(1) [OF inv, of "s\<lparr>fs_driver := st\<rparr>"] by (auto simp: fs_ok_def)
  qed
qed

interpretation fs: invariant_system fs_init fs_step fs_ok
proof
  show "fs_ok s" if "fs_init s" for s
    using that create_fat32_inv unfolding fs_init_def fs_ok_def by blast
  show "fs_ok s'" if "fs_ok s" "fs_step s s'" for s s'
    using that by (rule fs_step_inv)
qed

end
