(* ===== verification/FAT32_Spec.thy ===== *)
theory FAT32_Spec
  imports FAT32_Session
begin

text \<open>
  What the FAT32 driver promises, over an abstract file system: a finite map from slots
  (directory cluster and entry index) to files with their bytes and folders with their
  cluster. Each operation of the driver is an update of this map and leaves all other
  files as they are.
\<close>

subsection \<open>The abstract file system\<close>

datatype node =
  File_Node "u8 list" "u8 list" u32 "u8 list"
| Dir_Node "u8 list" "u8 list" nat

definition node_of :: "disk \<Rightarrow> FAT32DirectoryEntry \<Rightarrow> nat list \<Rightarrow> node" where
  "node_of d e cs =
     (if is_dir e then Dir_Node (de_name e) (de_ext e) (hd cs)
      else File_Node (de_name e) (de_ext e) (de_filesize e) (concat (map (cluster d) cs)))"

definition abs_fs :: "nat set \<Rightarrow> (slot \<Rightarrow> nat list) \<Rightarrow> fs_state \<Rightarrow> slot \<Rightarrow> node option" where
  "abs_fs D own s p =
     (if p \<in> slots D (tables s) then Some (node_of (fs_disk s) (ent (tables s) p) (own p)) else None)"

lemma slots_cong: "(\<And>d. d \<in> D \<Longrightarrow> T d = T' d) \<Longrightarrow> slots D T = slots D T'"
  by (auto simp: slots_def)

lemma node_of_cong:
  "(\<And>c. \<not> is_dir e \<Longrightarrow> c \<in> set cs \<Longrightarrow> cluster d c = cluster d' c) \<Longrightarrow> node_of d e cs = node_of d' e cs"
  by (auto simp: node_of_def intro!: arg_cong [of _ _ concat])

text \<open>The clusters of a file are neither directories nor the map.\<close>

lemma file_cluster_range:
  assumes inv: "fs_inv D own s" and q: "q \<in> slots D (tables s)" "\<not> is_dir (ent (tables s) q)" "c \<in> set (own q)"
  shows "c < 512" "c \<noteq> 1" "c \<notin> D"
proof -
  note I = fs_invD [OF inv]
  show "c < 512" "c \<noteq> 1" using entry_okD(4) [OF tree_invD(6) [OF I(5) q(1)]] q(3) by auto
  show "c \<notin> D" using owned_dir [OF I(5) q(1,3)] q(2) by blast
qed

lemma abs_fs_unchanged:
  assumes inv: "fs_inv D own s" and q: "q \<in> slots D (tables s)" and e: "e = ent (tables s) q"
    and own: "cs = own q" and c: "\<And>x. x < 512 \<Longrightarrow> x \<noteq> 1 \<Longrightarrow> x \<notin> D \<Longrightarrow> x \<in> set (own q) \<Longrightarrow> cluster d x = cluster (fs_disk s) x"
  shows "Some (node_of d e cs) = abs_fs D own s q"
proof -
  have "node_of d e cs = node_of (fs_disk s) e cs"
    by (rule node_of_cong) (use file_cluster_range [OF inv q] e own c in blast)
  then show ?thesis using q e own by (simp add: abs_fs_def)
qed

lemma abs_fs_adds:
  assumes inv: "fs_inv D own s" and ad: "adds D (fs_fat s) fat' (tables s) p e cs"
    and sl: "slots D' (tables s') = insert p (slots D (tables s))"
    and tab: "\<And>d. d \<in> D \<Longrightarrow> tables s' d = set_slot (tables s) p e d"
    and fr: "\<And>x. x < 512 \<Longrightarrow> x \<noteq> 1 \<Longrightarrow> x \<notin> set cs \<Longrightarrow> x \<noteq> fst p \<Longrightarrow> cluster (fs_disk s') x = cluster (fs_disk s) x"
  shows "abs_fs D' (own(p := cs)) s' = (abs_fs D own s)(p \<mapsto> node_of (fs_disk s') e cs)"
proof
  fix q
  note X = tree_inv_adds [OF fs_invD(5) [OF inv] ad]
  have p: "fst p \<in> D" using ad by (simp add: adds_def)
  have en: "ent (tables s') q = (if q = p then e else ent (tables s) q)" if "q \<in> insert p (slots D (tables s))"
  proof -
    have "fst q \<in> D" using that p by (auto simp: slots_def)
    then show ?thesis using tab [of "fst q"] X(3) [of q] by simp
  qed
  consider "q = p" | "q \<noteq> p" "q \<in> slots D (tables s)" | "q \<notin> insert p (slots D (tables s))" by blast
  then show "abs_fs D' (own(p := cs)) s' q = ((abs_fs D own s)(p \<mapsto> node_of (fs_disk s') e cs)) q"
  proof cases
    case 2
    have "Some (node_of (fs_disk s') (ent (tables s') q) ((own(p := cs)) q)) = abs_fs D own s q"
    proof (rule abs_fs_unchanged [OF inv 2(2)])
      fix x assume "x < 512" "x \<noteq> 1" "x \<notin> D" "x \<in> set (own q)"
      then show "cluster (fs_disk s') x = cluster (fs_disk s) x"
        using X(4) [OF 2(2)] p by (intro fr) auto
    qed (use 2 en in simp_all)
    then show ?thesis using 2 sl by (simp add: abs_fs_def)
  qed (use sl en in \<open>simp_all add: abs_fs_def\<close>)
qed

lemma abs_fs_removes:
  assumes inv: "fs_inv D own s" and rm: "removes D own (fs_fat s) fat' (tables s) p"
    and sl: "slots D' (tables s') = slots D (tables s) - {p}"
    and tab: "\<And>q. q \<in> slots D (tables s) - {p} \<Longrightarrow> ent (tables s') q = ent (tables s) q"
    and fr: "\<And>x. x < 512 \<Longrightarrow> x \<noteq> 1 \<Longrightarrow> x \<notin> set (own p) \<Longrightarrow> x \<noteq> fst p \<Longrightarrow> cluster (fs_disk s') x = cluster (fs_disk s) x"
  shows "abs_fs D' own s' = (abs_fs D own s)(p := None)"
proof
  fix q
  have p: "p \<in> slots D (tables s)" "fst p \<in> D" using rm by (auto simp: removes_def slots_def)
  show "abs_fs D' own s' q = ((abs_fs D own s)(p := None)) q"
  proof (cases "q \<in> slots D (tables s) - {p}")
    case True
    then have q: "q \<in> slots D (tables s)" "q \<noteq> p" by auto
    have "Some (node_of (fs_disk s') (ent (tables s') q) (own q)) = abs_fs D own s q"
    proof (rule abs_fs_unchanged [OF inv q(1)])
      fix x assume "x < 512" "x \<noteq> 1" "x \<notin> D" "x \<in> set (own q)"
      then show "cluster (fs_disk s') x = cluster (fs_disk s) x"
        using tree_invD(7) [OF fs_invD(5) [OF inv] q(1) p(1) q(2)] p(2) by (intro fr) auto
    qed (use tab True in simp_all)
    then show ?thesis using True sl by (simp add: abs_fs_def)
  qed (use sl in \<open>auto simp: abs_fs_def\<close>)
qed

lemma concat_buffers: "concat (buffers m buf 0 n) = mem_read m buf (2048 * n)"
proof (induction n)
  case (Suc n)
  have "mem_read m buf (2048 * Suc n) = mem_read m buf (2048 * n) @ mem_read m (buf + of_nat (2048 * n)) 2048"
    using mem_read_add [of m buf "2048 * n" 2048] by (simp add: add.commute)
  with Suc show ?case by (simp add: buffers_snoc)
qed (simp add: buffers_def mem_read_def)

definition stored_bytes :: "FAT32DriverRequest \<Rightarrow> mem \<Rightarrow> u8 list" where
  "stored_bytes rq m = mem_read m (rq_buf rq) (2048 * unat (number_of_partition (rq_buffer_size rq)))"

lemma fat_write_file_refines:
  assumes inv: "fs_inv D own s" and a: "can_add D s rq 0" and sz: "rq_buffer_size rq \<noteq> 0"
    and room: "unat (number_of_partition (rq_buffer_size rq)) \<le> length (free_from (fs_fat s) 3)"
  shows "\<exists>s'. fat_write rq m s = Ret (0, s') \<and> fs_inv D (own(new_slot s rq := file_clusters rq s)) s' \<and>
    fs_fat s' = link_chain (fs_fat s) (file_clusters rq s) \<and>
    abs_fs D (own(new_slot s rq := file_clusters rq s)) s' =
      (abs_fs D own s)(new_slot s rq \<mapsto> File_Node (rq_name rq) (rq_ext rq) (rq_buffer_size rq) (stored_bytes rq m))"
proof -
  let ?p = "new_slot s rq" and ?cs = "file_clusters rq s" and ?t = "rq_table s rq"
  let ?e = "new_entry rq ?t (snd ?p) 0 (hd ?cs)" and ?s = "file_written rq ?t (snd ?p) ?cs m s"
  let ?own = "own(?p := ?cs)"
  note I = fs_invD [OF inv] and A = can_addD [OF a] and C = file_clusters_props [OF inv sz room]
  note E = file_written_effect [OF inv a sz room, where m = m]
  have fat: "fs_fat ?s = link_chain (fs_fat s) ?cs" by (simp add: file_written_alt)
  have eo: "entry_ok (link_chain (fs_fat s) ?cs) ?e ?cs" using C(1,3,5,7) by (auto simp: entry_ok_def)
  have ad: "adds D (fs_fat s) (link_chain (fs_fat s) ?cs) (tables s) ?p ?e ?cs"
    by (rule can_add_adds [OF inv a eo C(4)]) (use I(6) C(8) in simp_all)
  have sl: "slots D (tables ?s) = insert ?p (slots D (tables s))"
    using slots_cong [OF E(2)] tree_inv_adds(1) [OF I(5) ad] by simp
  have "node_of (fs_disk ?s) ?e ?cs = File_Node (rq_name rq) (rq_ext rq) (rq_buffer_size rq) (stored_bytes rq m)"
    using E(3) new_entry_key [OF A(1), of ?t "snd ?p" 0 "hd ?cs"]
    by (simp add: node_of_def file_data_def concat_buffers stored_bytes_def)
  then show ?thesis
    using fat_write_file_result [OF inv a sz room, of m] E(1) fat abs_fs_adds [OF inv ad sl E(2,4)]
    by (intro exI [of _ ?s] conjI) simp_all
qed

lemma fat_write_folder_refines:
  assumes inv: "fs_inv D own s" and a: "can_add D s rq ATTR_SUBDIRECTORY" and sz: "rq_buffer_size rq = 0"
    and c: "free_from (fs_fat s) 3 = c # cs"
  shows "\<exists>s'. fat_write rq m s = Ret (0, s') \<and> fs_inv (insert c D) (own(new_slot s rq := [c])) s' \<and>
    fs_fat s' = (fs_fat s)[c := FAT32_FAT_END_OF_FILE] \<and> folder_empty (tables s' c) \<and>
    entry_cluster (tables s' c ! 1) = rq_parent_cluster_number rq \<and>
    abs_fs (insert c D) (own(new_slot s rq := [c])) s' =
      (abs_fs D own s)(new_slot s rq \<mapsto> Dir_Node (rq_name rq) (rq_ext rq) c)"
proof -
  let ?p = "new_slot s rq" and ?t = "rq_table s rq" and ?fat = "(fs_fat s)[c := FAT32_FAT_END_OF_FILE]"
  let ?e = "new_entry rq ?t (snd ?p) ATTR_SUBDIRECTORY c" and ?s = "folder_written rq ?t (snd ?p) c s"
  note I = fs_invD [OF inv] and A = can_addD [OF a] and C = find_empty_cluster_inv [OF inv c]
  note E = folder_written_effect [OF inv a sz c]
  have n: "length (rq_name rq) = 8" using A(1) by (simp add: wf_request_def)
  note F = folder_table [OF inv c n, where parent = "rq_parent_cluster_number rq", folded E(3)]
  have fat: "fs_fat ?s = ?fat" by (simp add: folder_written_def Let_def)
  have eo: "entry_ok ?fat (new_entry rq ?t (snd ?p) ATTR_SUBDIRECTORY (hd [c])) [c]" using C I(6) by (simp add: entry_ok_def)
  have ad: "adds D (fs_fat s) ?fat (tables s) ?p ?e [c]"
    using can_add_adds [OF inv a eo] C(5) I(6) by simp
  have fe: "folder_empty (tables ?s c)" using F(2) by (simp add: folder_empty_def)
  have sl: "slots (insert c D) (tables ?s) = insert ?p (slots D (tables s))"
  proof -
    have "slots (insert c D) (tables ?s) = slots D (tables ?s)" using fe by (auto simp: slots_def folder_empty_def)
    then show ?thesis using slots_cong [OF E(2)] tree_inv_adds(1) [OF I(5) ad] by simp
  qed
  have fr: "\<And>x. x < 512 \<Longrightarrow> x \<noteq> 1 \<Longrightarrow> x \<notin> set [c] \<Longrightarrow> x \<noteq> fst ?p \<Longrightarrow> cluster (fs_disk ?s) x = cluster (fs_disk s) x"
    using E(4) by simp
  have "node_of (fs_disk ?s) ?e [c] = Dir_Node (rq_name rq) (rq_ext rq) c"
    using new_entry_key [OF A(1)] by (simp add: node_of_def)
  then show ?thesis
    using fat_write_folder_result [OF inv a sz c, of m] E(1) fat fe F(3) abs_fs_adds [OF inv ad sl E(2) fr]
    by (intro exI [of _ ?s] conjI) simp_all
qed

subsection \<open>Deletion\<close>

lemma Delete_file_refines:
  assumes inv: "fs_inv D own s" and p: "found_slot s rq \<in> slots D (tables s)"
    and f: "\<not> is_dir (ent (tables s) (found_slot s rq))"
  shows "\<exists>s'. Delete rq s = Ret (0, s') \<and> fs_inv D own s' \<and>
    fs_fat s' = clear_cells (fs_fat s) (own (found_slot s rq)) \<and>
    abs_fs D own s' = (abs_fs D own s)(found_slot s rq := None)"
proof -
  let ?p = "found_slot s rq"
  let ?s = "deleted rq (rq_table s rq) (snd ?p) (own ?p) s"
  note F = found_slotD [OF inv p] and I = fs_invD [OF inv]
  have nd: "unat (rq_parent_cluster_number rq) \<notin> set (own ?p)" using F(12) f by auto
  note E = deleted_effect [OF inv p nd]
  note R = tree_inv_removes [OF I(5) E(5)]
  have tab: "tables ?s d = set_slot (tables s) ?p empty_entry d" if "d \<in> D" for d
    using E(2) [OF that] owned_dir [OF I(5) p _ that] f by auto
  have sl: "slots D (tables ?s) = slots D (tables s) - {?p}" using slots_cong [OF tab] R(1) by simp
  have en: "ent (tables ?s) q = ent (tables s) q" if "q \<in> slots D (tables s) - {?p}" for q
    using that tab [of "fst q"] R(2) [of q] by (auto simp: slots_def)
  show ?thesis
    using Delete_file_result [OF inv p f] Delete_file_inv [OF inv p f] abs_fs_removes [OF inv E(5) sl en E(4)]
    by (intro exI [of _ ?s] conjI) (simp_all add: deleted_def)
qed

lemma Delete_folder_refines:
  assumes inv: "fs_inv D own s" and p: "found_slot s rq \<in> slots D (tables s)"
    and f: "is_dir (ent (tables s) (found_slot s rq))" and c: "own (found_slot s rq) = [c]"
    and e: "folder_empty (tables s c)"
  shows "\<exists>s'. Delete rq s = Ret (0, s') \<and> fs_inv (D - {c}) own s' \<and>
    fs_fat s' = (fs_fat s)[c := FAT32_FAT_EMPTY_ENTRY] \<and>
    abs_fs (D - {c}) own s' = (abs_fs D own s)(found_slot s rq := None)"
proof -
  let ?p = "found_slot s rq"
  let ?s = "deleted rq (rq_table s rq) (snd ?p) [c] s"
  note I = fs_invD [OF inv] and N = Delete_folder_inv [OF inv p f c e]
  have nd: "unat (rq_parent_cluster_number rq) \<notin> set (own ?p)" using N(1) c by simp
  note E = deleted_effect [OF inv p nd, unfolded c]
  note R = tree_inv_removes [OF I(5) E(5)]
  have nc: "fst q \<noteq> c" if "q \<in> slots D (tables s)" for q
    using that e by (auto simp: slots_def folder_empty_def)
  have tab: "tables ?s d = set_slot (tables s) ?p empty_entry d" if "d \<in> D - {c}" for d
    using E(2) [of d] that by simp
  have sl: "slots (D - {c}) (tables ?s) = slots D (tables s) - {?p}"
  proof -
    have "slots (D - {c}) (tables ?s) = slots (D - {c}) (set_slot (tables s) ?p empty_entry)"
      by (rule slots_cong) (rule tab)
    also have "\<dots> = {q \<in> slots D (set_slot (tables s) ?p empty_entry). fst q \<noteq> c}" by (auto simp: slots_def)
    finally show ?thesis using R(1) nc by auto
  qed
  have en: "ent (tables ?s) q = ent (tables s) q" if "q \<in> slots D (tables s) - {?p}" for q
  proof -
    have "fst q \<in> D - {c}" using that nc by (auto simp: slots_def)
    then show ?thesis using that tab [of "fst q"] R(2) [of q] by auto
  qed
  have fr: "\<And>x. x < 512 \<Longrightarrow> x \<noteq> 1 \<Longrightarrow> x \<notin> set (own ?p) \<Longrightarrow> x \<noteq> fst ?p \<Longrightarrow> cluster (fs_disk ?s) x = cluster (fs_disk s) x"
    using E(4) c by simp
  show ?thesis
    using Delete_folder_result(2) [OF inv p f c e N(1)] N(2) abs_fs_removes [OF inv E(5) sl en fr]
    by (intro exI [of _ ?s] conjI) (simp_all add: deleted_def clear_cells_def)
qed

end
