(* ===== verification/FAT32_Props.thy ===== *)
theory FAT32_Props
  imports FAT32_Spec
begin

text \<open>
  The properties of the FAT32 driver, with a formatted 4 MiB disk on which each of them is
  applied, and the three situations in which the driver damages the file system.
\<close>

subsection \<open>A formatted disk\<close>

definition blank_fs :: fs_state where
  "blank_fs = \<lparr>fs_disk = (\<lambda>_. replicate 512 0), fs_driver =
     \<lparr>fat_table = replicate 512 0, dir_table_buf = replicate 64 empty_entry, cluster_buf = replicate 2048 0\<rparr>\<rparr>"

definition fresh_fs :: fs_state where
  "fresh_fs = create_fat32 (replicate 1536 0) blank_fs"

definition demo_rq :: FAT32DriverRequest where
  "demo_rq = \<lparr>rq_buf = 0x1000, rq_name = map of_char ''shell'' @ [0, 0, 0], rq_ext = [0, 0, 0],
     rq_parent_cluster_number = 2, rq_buffer_size = 3000\<rparr>"

definition demo_dir_rq :: FAT32DriverRequest where
  "demo_dir_rq = demo_rq\<lparr>rq_buffer_size := 0\<rparr>"

lemma wf_blank: "wf_disk (fs_disk blank_fs)" "wf_driver (fs_driver blank_fs)"
  by (simp_all add: blank_fs_def wf_disk_def wf_driver_def wf_table_alt)

lemma fresh_inv: "fs_inv {2} (\<lambda>_. []) fresh_fs"
  unfolding fresh_fs_def by (rule create_fat32_inv [OF wf_blank]) simp

lemma fresh_fat: "fs_fat fresh_fs = formatted_fat"
  by (simp add: fresh_fs_def create_fat32_result)

lemma fresh_table: "read_table fresh_fs 2 = root_table"
  using table_okD(1) [OF root_table_ok]
  by (simp add: fresh_fs_def create_fat32_result read_write_cluster_same layout_simps)

lemma formatted_free: "free_from formatted_fat 3 = [3..<512]"
proof -
  have "formatted_fat ! c = 0" if "3 \<le> c" "c < 512" for c
    using that by (simp add: formatted_fat_def initial_fat_def nth_append nth_Cons')
  then show ?thesis by (simp add: free_from_def filter_id_conv)
qed

lemma root_table_unused: "first_unused root_table 2 = 2"
  using root_table_empty [of 2] by (simp add: first_unused_def scan_while.simps)

lemma demo_name: "rq_name demo_rq \<noteq> replicate 8 0" "wf_request demo_rq" "rq_name demo_rq \<noteq> root_name"
  by code_simp+

lemma demo_no_match: "i < 64 \<Longrightarrow> \<not> entry_matches (root_table ! i) demo_rq"
proof -
  assume i: "i < 64"
  have "de_name (root_table ! i) = root_name \<or> root_table ! i = empty_entry"
  proof (cases "i < 2")
    case True
    then have "i = 0 \<or> i = 1" by auto
    then show ?thesis by (auto simp: root_table_def root_name_def)
  qed (use i root_table_empty in simp)
  moreover have "wf_entry (root_table ! i)" using table_okD(1) [OF root_table_ok] i by simp
  ultimately show ?thesis using demo_name by (auto simp: entry_matches_iff)
qed

lemma demo_can_add: "can_add {2} fresh_fs demo_rq 0" "can_add {2} fresh_fs demo_dir_rq ATTR_SUBDIRECTORY"
proof -
  have k: "\<not> has_key root_table demo_rq a i" if "i < 64" for a i
    using demo_no_match [OF that] table_okD(1) [OF root_table_ok] that demo_name(2)
    by (auto simp: has_key_def entry_matches_iff)
  then have "\<not> has_key root_table demo_dir_rq a i" if "i < 64" for a i
    using that by (auto simp: has_key_def demo_dir_rq_def)
  then show "can_add {2} fresh_fs demo_rq 0" "can_add {2} fresh_fs demo_dir_rq ATTR_SUBDIRECTORY"
    using k fresh_table root_table_unused demo_name(2)
    by (simp_all add: can_add_def demo_dir_rq_def wf_request_def) (simp_all add: demo_rq_def)
qed

lemma demo_room: "rq_buffer_size demo_rq \<noteq> 0"
  "unat (number_of_partition (rq_buffer_size demo_rq)) \<le> length (free_from (fs_fat fresh_fs) 3)"
  by (simp_all add: fresh_fat formatted_free number_of_partition_ceil) (simp_all add: demo_rq_def)

lemma demo_clusters: "file_clusters demo_rq fresh_fs = [3, 4]"
proof -
  have "unat (number_of_partition (rq_buffer_size demo_rq)) = 2"
    by (simp add: number_of_partition_ceil demo_rq_def)
  then have "file_clusters demo_rq fresh_fs = take 2 [3..<512]"
    by (simp add: file_clusters_def fresh_fat formatted_free)
  also have "\<dots> = [3..<5]" by (subst take_upt) simp_all
  also have "\<dots> = [3, 4]" by code_simp
  finally show ?thesis .
qed

text \<open>The formatted disk with the file of \<open>demo_rq\<close> on it.\<close>

definition demo_mem :: mem where
  "demo_mem = (\<lambda>a. ucast a)"

lemmas demo_write = fresh_inv demo_can_add(1) demo_room

lemma fresh_ok: "fs_ok fresh_fs"
  using fresh_inv by (auto simp: fs_ok_def)

lemma find_entry_new:
  assumes t: "\<And>i. i < j \<Longrightarrow> \<not> entry_matches (t ! i) rq" "j < 64" "length t = 64" and e: "entry_matches e rq"
  shows "find_entry (t[j := e]) rq = j"
  unfolding find_entry_def by (rule scan_while_eqI) (use assms in auto)

lemma entry_matches_request:
  "rq_name rq' = rq_name rq \<Longrightarrow> rq_ext rq' = rq_ext rq \<Longrightarrow> entry_matches e rq' = entry_matches e rq"
  by (simp add: entry_matches_def)

text \<open>After a file was stored under a name that no entry of its directory had, it is found there.\<close>

lemma written_found:
  assumes inv: "fs_inv D own s" and a: "can_add D s rq 0" and sz: "rq_buffer_size rq \<noteq> 0"
    and room: "unat (number_of_partition (rq_buffer_size rq)) \<le> length (free_from (fs_fat s) 3)"
    and new: "\<forall>i<64. \<not> entry_matches (rq_table s rq ! i) rq"
    and rq': "rq_name rq' = rq_name rq" "rq_ext rq' = rq_ext rq"
      "rq_parent_cluster_number rq' = rq_parent_cluster_number rq"
    and s': "s' = file_written rq (rq_table s rq) (snd (new_slot s rq)) (file_clusters rq s) m s"
  shows "found_slot s' rq' = new_slot s rq" "new_slot s rq \<in> slots D (tables s')"
    "\<not> is_dir (ent (tables s') (new_slot s rq))"
    "de_filesize (ent (tables s') (new_slot s rq)) = rq_buffer_size rq"
proof -
  let ?t = "rq_table s rq" and ?p = "new_slot s rq"
  let ?e = "new_entry rq ?t (snd ?p) 0 (hd (file_clusters rq s))"
  note A = can_addD [OF a] and S = can_add_scan [OF inv a] and P = fs_inv_dir [OF inv can_addD(2) [OF a]]
  have t: "rq_table s' rq = ?t[snd ?p := ?e]"
    using file_written_effect(2) [OF inv a sz room A(2), of m] by (simp add: s' set_slot_def)
  have "entry_matches ?e rq" using A(1) new_entry_key [OF A(1)] wf_new_entry [OF A(1)] by (simp add: entry_matches_iff)
  then have "find_entry (rq_table s' rq) rq = snd ?p"
    unfolding t using new S(5) P(2) by (intro find_entry_new) auto
  moreover have "find_entry t rq' = find_entry t rq" for t
    using entry_matches_request [OF rq'(1,2)] by (simp add: find_entry_def)
  ultimately show "found_slot s' rq' = ?p" using rq'(3) by simp
  have e: "ent (tables s') ?p = ?e" using t S(5) P(2) by simp
  then show "\<not> is_dir (ent (tables s') ?p)" "de_filesize (ent (tables s') ?p) = rq_buffer_size rq" by simp_all
  show "?p \<in> slots D (tables s')" using e A(2) S(4,5) by (simp add: slots_def)
qed

lemma clear_link_chain:
  assumes "length fat = 512" "set cs \<subseteq> {3..<512}" "cs \<noteq> []" "\<And>c. c \<in> set cs \<Longrightarrow> fat ! c = 0"
  shows "clear_cells (link_chain fat cs) cs = fat"
  by (rule nth_equalityI) (use assms in \<open>auto simp: clear_cells_nth link_chain_other\<close>)

subsection \<open>Invariant and progress\<close>

text \<open>
  C12. Formatting a disk and any sequence of writes, deletions and remounts that respects the
  obligations of the callers leaves a well-formed file system: the map on disk is the map in
  memory, every entry has its own chain of the right length, no cluster is shared or lost,
  folders and their parent entries match, and names are unique in a directory.
\<close>

theorem fs_reachable_ok:
  assumes "reachable fs_init fs_step s"
  shows "fs_ok s"
  using assms by (rule fs.reachable_inv)

theorem fs_reachable_ok_witness: "fs_ok (initialize_filesystem_fat32 (replicate 1536 0) fresh_fs)"
proof (rule fs_reachable_ok)
  have "fs_init fresh_fs" unfolding fs_init_def fresh_fs_def using wf_blank by force
  then have "reachable fs_init fs_step fresh_fs" by (rule reachable_init)
  moreover have "fs_step fresh_fs (initialize_filesystem_fat32 (replicate 1536 0) (fresh_fs\<lparr>fs_driver := fs_driver fresh_fs\<rparr>))"
    by (rule step_mount) (use fresh_inv in \<open>simp add: fs_inv_def wf_driver_def\<close>)
  ultimately show "reachable fs_init fs_step (initialize_filesystem_fat32 (replicate 1536 0) fresh_fs)"
    using reachable_step by force
qed

text \<open>
  C24. On a well-formed file system an allowed write always terminates without leaving the
  driver's memory, with one of the codes 0, 1 and -1, and every refusal leaves disk and
  driver unchanged.
\<close>

theorem fat_write_returns:
  assumes "fs_ok s" "write_allowed s rq"
  shows "\<exists>r s'. fat_write rq m s = Ret (r, s') \<and> r \<in> {0, 1, -1} \<and> fs_ok s' \<and> (r \<noteq> 0 \<longrightarrow> s' = s)"
proof -
  from assms(1) obtain D own where inv: "fs_inv D own s" by (auto simp: fs_ok_def)
  from inv assms(2) have "\<exists>r s'. fat_write rq m s = Ret (r, s') \<and> r \<in> {0, 1, -1} \<and> (r \<noteq> 0 \<longrightarrow> s' = s)"
  proof (cases rule: fat_write_cases [where m = m])
    case stored
    then show ?thesis using fat_write_file_result [OF inv] by blast
  next
    case (made c cs)
    then show ?thesis using fat_write_folder_result [OF inv] by blast
  qed auto
  then show ?thesis using fs_step_inv [OF assms(1) step_write [OF assms(2)]] by blast
qed

theorem fat_write_returns_witness:
  "\<exists>r s'. fat_write demo_rq demo_mem fresh_fs = Ret (r, s') \<and> r \<in> {0, 1, -1} \<and> fs_ok s'"
proof -
  have "unat (number_of_partition (rq_buffer_size demo_rq)) \<noteq> Suc (length (free_from (fs_fat fresh_fs) 3))"
    using demo_room(2) by linarith
  then have "write_allowed fresh_fs demo_rq"
    using demo_name(2) dirs.root by (simp add: write_allowed_def space_check_exact_def) (simp add: demo_rq_def)
  from fat_write_returns [OF fresh_ok this, of demo_mem] show ?thesis by blast
qed

text \<open>
  C25. An allowed deletion always terminates without leaving the driver's memory, with one
  of the codes 0, 1 and 2, and every refusal leaves disk and driver unchanged.
\<close>

theorem Delete_returns:
  assumes "fs_ok s" "delete_allowed s rq"
  shows "\<exists>r s'. Delete rq s = Ret (r, s') \<and> r \<in> {0, 1, 2} \<and> fs_ok s' \<and> (r \<noteq> 0 \<longrightarrow> s' = s)"
proof -
  from assms(1) obtain D own where inv: "fs_inv D own s" by (auto simp: fs_ok_def)
  from inv assms(2) have "\<exists>r s'. Delete rq s = Ret (r, s') \<and> r \<in> {0, 1, 2} \<and> (r \<noteq> 0 \<longrightarrow> s' = s)"
  proof (cases rule: Delete_cases)
    case plain
    then show ?thesis using Delete_file_result [OF inv] by blast
  next
    case (folder c)
    then show ?thesis using Delete_folder_result(2) [OF inv] Delete_folder_inv(1) [OF inv] by blast
  qed auto
  then show ?thesis using fs_step_inv [OF assms(1) step_delete [OF assms(2)]] by blast
qed

theorem Delete_returns_witness:
  "\<exists>r s'. Delete demo_rq fresh_fs = Ret (r, s') \<and> r \<in> {0, 1, 2} \<and> fs_ok s'"
proof -
  have "find_entry root_table demo_rq = 64"
    using demo_no_match scan_while_end_iff [of 0 64] by (simp add: find_entry_def)
  then have "delete_allowed fresh_fs demo_rq"
    using demo_name(1,2) dirs.root fresh_table by (simp add: delete_allowed_def) (simp add: demo_rq_def)
  from Delete_returns [OF fresh_ok this] show ?thesis by blast
qed

subsection \<open>Files\<close>

text \<open>
  C21. Storing a file is one update of the abstract file system: it takes the first free
  clusters, links them into a chain in the map, and adds at the first unused entry of its
  directory a file with the requested name, size and bytes; every other file and folder
  keeps its name, size and contents.
\<close>

theorem fat_write_refines:
  assumes "fs_inv D own s" "can_add D s rq 0" "rq_buffer_size rq \<noteq> 0"
    "unat (number_of_partition (rq_buffer_size rq)) \<le> length (free_from (fs_fat s) 3)"
  shows "\<exists>s'. fat_write rq m s = Ret (0, s') \<and> fs_inv D (own(new_slot s rq := file_clusters rq s)) s' \<and>
    fs_fat s' = link_chain (fs_fat s) (file_clusters rq s) \<and>
    abs_fs D (own(new_slot s rq := file_clusters rq s)) s' =
      (abs_fs D own s)(new_slot s rq \<mapsto> File_Node (rq_name rq) (rq_ext rq) (rq_buffer_size rq) (stored_bytes rq m))"
  using assms by (rule fat_write_file_refines)

theorem fat_write_refines_witness:
  "\<exists>s'. fat_write demo_rq demo_mem fresh_fs = Ret (0, s') \<and> fs_fat s' = link_chain (fs_fat fresh_fs) [3, 4]"
  using fat_write_refines [OF demo_write, of demo_mem] by (auto simp: demo_clusters)

text \<open>
  C22. A file that was written under a new name and is read back with a large enough buffer
  arrives byte for byte.
\<close>

theorem write_read_roundtrip:
  assumes inv: "fs_inv D own s" and a: "can_add D s rq 0" and sz: "rq_buffer_size rq \<noteq> 0"
    and room: "unat (number_of_partition (rq_buffer_size rq)) \<le> length (free_from (fs_fat s) 3)"
    and new: "\<forall>i<64. \<not> entry_matches (rq_table s rq ! i) rq"
    and rq': "rq_name rq' = rq_name rq" "rq_ext rq' = rq_ext rq"
      "rq_parent_cluster_number rq' = rq_parent_cluster_number rq" "rq_buffer_size rq \<le> rq_buffer_size rq'"
  shows "\<exists>s' m''. fat_write rq m s = Ret (0, s') \<and> fat_read rq' s' m' = Ret (0, m'') \<and>
    mem_read m'' (rq_buf rq') (unat (rq_buffer_size rq)) = mem_read m (rq_buf rq) (unat (rq_buffer_size rq))"
proof -
  let ?s = "file_written rq (rq_table s rq) (snd (new_slot s rq)) (file_clusters rq s) m s"
  let ?n = "unat (rq_buffer_size rq)"
  note W = written_found [OF inv a sz room new rq'(1-3) refl, of m]
  note E = file_written_effect [OF inv a sz room, where m = m]
  have r: "fat_read rq' ?s m' = Ret (0, mem_write m' (rq_buf rq') (stored_bytes rq m))"
    using fat_read_file [OF E(1), of rq' m', unfolded W(1), OF W(2,3)] W(4) rq'(4) E(3)
    by (simp add: file_data_def concat_buffers stored_bytes_def)
  have n: "?n \<le> length (stored_bytes rq m)" "length (stored_bytes rq m) \<le> 2 ^ 32"
    using room length_filter_le [of "\<lambda>k. fs_fat s ! k = 0" "[3..<512]"]
    by (simp_all add: stored_bytes_def number_of_partition_ceil free_from_def)
  have "mem_read m (rq_buf rq) ?n = take ?n (stored_bytes rq m)"
    using n(1) by (intro nth_equalityI) (auto simp: stored_bytes_def)
  moreover have "mem_read (mem_write m' (rq_buf rq') (stored_bytes rq m)) (rq_buf rq') ?n = take ?n (stored_bytes rq m)"
    using n by (intro nth_equalityI) (auto simp: mem_write_def unat_of_nat)
  ultimately show ?thesis using r fat_write_file_result [OF inv a sz room, of m] by auto
qed

theorem write_read_roundtrip_witness:
  "\<exists>s' m''. fat_write demo_rq demo_mem fresh_fs = Ret (0, s') \<and>
    fat_read (demo_rq\<lparr>rq_buf := 0x9000\<rparr>) s' demo_mem = Ret (0, m'') \<and>
    mem_read m'' 0x9000 3000 = mem_read demo_mem 0x1000 3000"
proof -
  have p: "rq_parent_cluster_number demo_rq = 2" "rq_buf demo_rq = 0x1000" "unat (rq_buffer_size demo_rq) = 3000"
    by (simp_all add: demo_rq_def)
  show ?thesis
    using write_read_roundtrip [OF demo_write, of "demo_rq\<lparr>rq_buf := 0x9000\<rparr>" demo_mem demo_mem] demo_no_match
    by (simp add: p fresh_table)
qed

text \<open>
  C23. Deleting a file is one update of the abstract file system: exactly its clusters become
  free, its entry becomes unused, and every other file and folder stays as it is.
\<close>

theorem Delete_refines:
  assumes "fs_inv D own s" "found_slot s rq \<in> slots D (tables s)"
    "\<not> is_dir (ent (tables s) (found_slot s rq))"
  shows "\<exists>s'. Delete rq s = Ret (0, s') \<and> fs_inv D own s' \<and>
    fs_fat s' = clear_cells (fs_fat s) (own (found_slot s rq)) \<and>
    abs_fs D own s' = (abs_fs D own s)(found_slot s rq := None)"
  using assms by (rule Delete_file_refines)

theorem Delete_refines_witness:
  "\<exists>s s'. fat_write demo_rq demo_mem fresh_fs = Ret (0, s) \<and> Delete demo_rq s = Ret (0, s') \<and>
     fs_fat s' = clear_cells (fs_fat s) [3, 4]"
proof -
  have p: "rq_parent_cluster_number demo_rq = 2" by (simp add: demo_rq_def)
  note W = written_found [OF demo_write _ refl refl refl refl, of demo_mem]
  note E = file_written_effect(1) [OF demo_write, of demo_mem]
  have "\<forall>i<64. \<not> entry_matches (rq_table fresh_fs demo_rq ! i) demo_rq"
    using demo_no_match by (simp add: p fresh_table)
  note X = Delete_refines [OF E, of demo_rq, unfolded W(1) [OF this], OF W(2,3) [OF this]]
  show ?thesis using X fat_write_file_result [OF demo_write, of demo_mem] by (auto simp: demo_clusters)
qed

text \<open>
  C26. Writing a file under a new name and deleting it again restores the map and the
  abstract file system.
\<close>

theorem write_delete_restores:
  assumes inv: "fs_inv D own s" and a: "can_add D s rq 0" and sz: "rq_buffer_size rq \<noteq> 0"
    and room: "unat (number_of_partition (rq_buffer_size rq)) \<le> length (free_from (fs_fat s) 3)"
    and new: "\<forall>i<64. \<not> entry_matches (rq_table s rq ! i) rq"
  shows "\<exists>s' s''. fat_write rq m s = Ret (0, s') \<and> Delete rq s' = Ret (0, s'') \<and> fs_fat s'' = fs_fat s \<and>
    abs_fs D (own(new_slot s rq := file_clusters rq s)) s'' = abs_fs D own s"
proof -
  let ?p = "new_slot s rq" and ?cs = "file_clusters rq s"
  let ?own = "own(?p := ?cs)"
  let ?s = "file_written rq (rq_table s rq) (snd ?p) ?cs m s"
  note W = written_found [OF inv a sz room new refl refl refl refl, of m]
  note C = file_clusters_props [OF inv sz room]
  obtain s'' where s'': "Delete rq ?s = Ret (0, s'')" "fs_fat s'' = clear_cells (fs_fat ?s) (?own ?p)"
      "abs_fs D ?own s'' = (abs_fs D ?own ?s)(?p := None)"
    using Delete_file_refines [OF file_written_effect(1) [OF inv a sz room, of m], of rq, unfolded W(1), OF W(2,3)]
    by blast
  have "fs_fat s'' = fs_fat s"
    using s''(2) clear_link_chain [OF fs_invD(6) [OF inv] C(3,1,4)] by (simp add: file_written_alt)
  moreover have "abs_fs D own s ?p = None"
    using can_add_scan(6) [OF inv a] by (simp add: abs_fs_def slots_def)
  then have "abs_fs D ?own s'' = abs_fs D own s"
    using s''(3) fat_write_file_refines [OF inv a sz room, of m] fat_write_file_result [OF inv a sz room, of m]
    by (auto simp: fun_upd_idem)
  ultimately show ?thesis using s''(1) fat_write_file_result [OF inv a sz room, of m] by blast
qed

theorem write_delete_restores_witness:
  "\<exists>s' s''. fat_write demo_rq demo_mem fresh_fs = Ret (0, s') \<and> Delete demo_rq s' = Ret (0, s'') \<and>
     fs_fat s'' = fs_fat fresh_fs"
proof -
  have p: "rq_parent_cluster_number demo_rq = 2" by (simp add: demo_rq_def)
  have "\<forall>i<64. \<not> entry_matches (rq_table fresh_fs demo_rq ! i) demo_rq"
    using demo_no_match by (simp add: p fresh_table)
  from write_delete_restores [OF demo_write this, of demo_mem] show ?thesis by blast
qed

text \<open>
  C27. Reading. Let the entry that the search of \<open>fat_read\<close> arrives at, if any, be a used slot of a
  directory of the tree (so not one of the two entries of the directory itself, and not an empty
  entry, which an empty name would match). If it is a file and the buffer holds its size, the call
  returns 0 and the buffer the bytes of the file, its clusters in the order of the chain. In every
  other case the code is not 0 and no byte of memory changes; it is 1 exactly for a folder.
\<close>

theorem fat_read_outcome:
  assumes inv: "fs_inv D own s" and p: "find_entry (rq_table s rq) rq < 64 \<Longrightarrow> found_slot s rq \<in> slots D (tables s)"
  shows "if file_readable rq s
    then \<exists>n e fsize bytes. abs_fs D own s (found_slot s rq) = Some (File_Node n e fsize bytes) \<and> fsize \<le> rq_buffer_size rq \<and>
      fat_read rq s m = Ret (0, mem_write m (rq_buf rq) bytes)
    else \<exists>c. fat_read rq s m = Ret (c, m) \<and> c \<noteq> 0 \<and>
      (c = 1 \<longleftrightarrow> is_dir (rq_table s rq ! 0) \<and> find_entry (rq_table s rq) rq < 64 \<and> is_dir (rq_table s rq ! find_entry (rq_table s rq) rq))"
proof (cases "file_readable rq s")
  case True
  then have f: "found_slot s rq \<in> slots D (tables s)" "\<not> is_dir (ent (tables s) (found_slot s rq))"
    "de_filesize (ent (tables s) (found_slot s rq)) \<le> rq_buffer_size rq"
    using p by (simp_all add: file_readable_def Let_def)
  then show ?thesis using True fat_read_file [OF inv f] by (simp add: abs_fs_def node_of_def)
next
  case False
  then show ?thesis using fat_read_unreadable by simp
qed

end
