(* ===== verification/FAT32_Folders.thy ===== *)
theory FAT32_Folders
  imports FAT32_Props
begin

text \<open>
  Properties of the FAT32 driver continued: folders, mounting, the refusals of
  \<open>fat_write\<close>, and the situations in which the driver damages the file system.
\<close>

subsection \<open>Folders\<close>

lemma demo_dir_write: "rq_buffer_size demo_dir_rq = 0" "free_from (fs_fat fresh_fs) 3 = 3 # [4..<512]"
  by (simp_all add: demo_dir_rq_def fresh_fat formatted_free upt_rec [of 3])

text \<open>
  C28. Creating a folder takes the first free cluster, writes there an empty directory table
  whose parent entry leads back, and adds one folder entry to the abstract file system.
\<close>

theorem mkdir_refines:
  assumes "fs_inv D own s" "can_add D s rq ATTR_SUBDIRECTORY" "rq_buffer_size rq = 0"
    "free_from (fs_fat s) 3 = c # cs"
  shows "\<exists>s'. fat_write rq m s = Ret (0, s') \<and> fs_inv (insert c D) (own(new_slot s rq := [c])) s' \<and>
    fs_fat s' = (fs_fat s)[c := FAT32_FAT_END_OF_FILE] \<and> folder_empty (tables s' c) \<and>
    entry_cluster (tables s' c ! 1) = rq_parent_cluster_number rq \<and>
    abs_fs (insert c D) (own(new_slot s rq := [c])) s' =
      (abs_fs D own s)(new_slot s rq \<mapsto> Dir_Node (rq_name rq) (rq_ext rq) c)"
  using assms by (rule fat_write_folder_refines)

theorem mkdir_refines_witness:
  "\<exists>s'. fat_write demo_dir_rq demo_mem fresh_fs = Ret (0, s') \<and> folder_empty (tables s' 3)"
  using mkdir_refines [OF fresh_inv demo_can_add(2) demo_dir_write, of demo_mem] by blast

text \<open>The request of the folder case of \<open>Delete\<close> after the folder was created.\<close>

lemma demo_folder:
  obtains s' own where "fat_write demo_dir_rq demo_mem fresh_fs = Ret (0, s')" "fs_inv {3, 2} own s'"
    "found_slot s' demo_dir_rq \<in> slots {3, 2} (tables s')" "is_dir (ent (tables s') (found_slot s' demo_dir_rq))"
    "own (found_slot s' demo_dir_rq) = [3]" "folder_empty (tables s' 3)"
proof -
  let ?s = "folder_written demo_dir_rq root_table 2 3 fresh_fs" and ?own = "(\<lambda>_. [])((2, 2) := [3])"
  let ?e = "new_entry demo_dir_rq root_table 2 ATTR_SUBDIRECTORY 3"
  have p: "rq_parent_cluster_number demo_dir_rq = 2" by (simp add: demo_dir_rq_def demo_rq_def)
  have slot: "new_slot fresh_fs demo_dir_rq = (2, 2)" by (simp add: p fresh_table root_table_unused)
  note E = folder_written_effect [OF fresh_inv demo_can_add(2) demo_dir_write, unfolded slot p fresh_table root_table_unused fst_conv snd_conv]
  have w: "fat_write demo_dir_rq demo_mem fresh_fs = Ret (0, ?s)"
    using fat_write_folder_result [OF fresh_inv demo_can_add(2) demo_dir_write] by (simp add: p fresh_table root_table_unused)
  have wf: "wf_request demo_dir_rq" using demo_name(2) by (simp add: demo_dir_rq_def wf_request_def)
  have t: "tables ?s 2 = root_table[2 := ?e]" using E(2) [of 2] by (simp add: set_slot_def fresh_table)
  have m: "entry_matches ?e demo_dir_rq"
    using new_entry_key [OF wf] wf_new_entry [OF wf] wf by (simp add: entry_matches_iff)
  have "\<not> entry_matches (root_table ! i) demo_dir_rq" if "i < 64" for i
    using demo_no_match [OF that] by (simp add: entry_matches_def demo_dir_rq_def)
  then have "find_entry (root_table[2 := ?e]) demo_dir_rq = 2"
    using m table_okD(1) [OF root_table_ok] by (intro find_entry_new) simp_all
  then have f: "found_slot ?s demo_dir_rq = (2, 2)" using t by (simp add: p)
  have ent: "ent (tables ?s) (2, 2) = ?e" using t table_okD(1) [OF root_table_ok] by simp
  have "folder_empty (tables ?s 3)"
    using folder_table(2) [OF fresh_inv demo_dir_write(2), of "rq_name demo_dir_rq"] E(3) wf
    by (simp add: folder_empty_def wf_request_def)
  moreover have "(2, 2) \<in> slots {3, 2} (tables ?s)" "is_dir (ent (tables ?s) (2, 2))"
    using ent by (simp_all add: slots_def)
  ultimately show thesis using that [OF w, of ?own] E(1) f by simp
qed

text \<open>
  C29. Deleting an empty folder frees exactly its cluster and removes one entry of the
  abstract file system.
\<close>

theorem rmdir_refines:
  assumes "fs_inv D own s" "found_slot s rq \<in> slots D (tables s)"
    "is_dir (ent (tables s) (found_slot s rq))" "own (found_slot s rq) = [c]" "folder_empty (tables s c)"
  shows "\<exists>s'. Delete rq s = Ret (0, s') \<and> fs_inv (D - {c}) own s' \<and>
    fs_fat s' = (fs_fat s)[c := FAT32_FAT_EMPTY_ENTRY] \<and>
    abs_fs (D - {c}) own s' = (abs_fs D own s)(found_slot s rq := None)"
  using assms by (rule Delete_folder_refines)

theorem rmdir_refines_witness:
  "\<exists>s s'. fat_write demo_dir_rq demo_mem fresh_fs = Ret (0, s) \<and> Delete demo_dir_rq s = Ret (0, s') \<and>
     fs_fat s' = (fs_fat s)[3 := 0]"
proof (rule demo_folder)
  fix s own
  assume w: "fat_write demo_dir_rq demo_mem fresh_fs = Ret (0, s)" and a: "fs_inv {3, 2} own s"
    "found_slot s demo_dir_rq \<in> slots {3, 2} (tables s)" "is_dir (ent (tables s) (found_slot s demo_dir_rq))"
    "own (found_slot s demo_dir_rq) = [3]" "folder_empty (tables s 3)"
  from rmdir_refines [OF a] w show ?thesis by auto
qed

text \<open>A folder that still has entries is not deleted: the code is 2 and nothing changes.\<close>

theorem rmdir_nonempty:
  assumes "fs_inv D own s" "found_slot s rq \<in> slots D (tables s)"
    "is_dir (ent (tables s) (found_slot s rq))" "(unat (entry_cluster (ent (tables s) (found_slot s rq))), i) \<in> slots D (tables s)"
  shows "Delete rq s = Ret (2, s)"
proof -
  note F = found_slotD [OF assms(1,2)]
  obtain c where c: "own (found_slot s rq) = [c]" using F(11) assms(3) by auto
  have "entry_cluster (ent (tables s) (found_slot s rq)) = of_nat c" "c < 512" using F(8,10) c by auto
  then have "\<not> folder_empty (tables s c)" using assms(4) by (auto simp: slots_def folder_empty_def)
  then show ?thesis by (rule Delete_folder_result(1) [OF assms(1-3) c])
qed

text \<open>An empty folder takes any properly named file.\<close>

lemma folder_empty_can_add:
  assumes inv: "fs_inv D own s" and d: "unat (rq_parent_cluster_number rq) \<in> D"
    and e: "folder_empty (rq_table s rq)" and rq: "wf_request rq" "rq_name rq \<noteq> replicate 8 0"
  shows "can_add D s rq a" "new_slot s rq = (unat (rq_parent_cluster_number rq), 2)"
proof -
  let ?t = "rq_table s rq"
  have u: "first_unused ?t 2 = 2"
    using e by (simp add: first_unused_def scan_while.simps folder_empty_def)
  then show "new_slot s rq = (unat (rq_parent_cluster_number rq), 2)" by simp
  have "\<not> has_key ?t rq a i" if "2 \<le> i" "i < 64" for i
  proof -
    have "?t ! i = empty_entry"
      using table_okD(4) [OF fs_inv_dir(1) [OF inv d] that] e that by (simp add: folder_empty_def)
    then show ?thesis using rq(2) by (metis empty_entry_sel(4) has_key_def)
  qed
  then show "can_add D s rq a" using u d rq by (simp add: can_add_def)
qed

definition demo_sub_rq :: FAT32DriverRequest where
  "demo_sub_rq = demo_rq\<lparr>rq_parent_cluster_number := 3, rq_buffer_size := 1\<rparr>"

theorem rmdir_nonempty_witness:
  "\<exists>s s'. fat_write demo_dir_rq demo_mem fresh_fs = Ret (0, s) \<and> fat_write demo_sub_rq demo_mem s = Ret (0, s') \<and>
     Delete demo_dir_rq s' = Ret (2, s')"
proof (rule demo_folder)
  fix s own
  assume w: "fat_write demo_dir_rq demo_mem fresh_fs = Ret (0, s)" and a: "fs_inv {3, 2} own s"
    "found_slot s demo_dir_rq \<in> slots {3, 2} (tables s)" "is_dir (ent (tables s) (found_slot s demo_dir_rq))"
    "own (found_slot s demo_dir_rq) = [3]" "folder_empty (tables s 3)"
  have q: "rq_parent_cluster_number demo_sub_rq = 3" "rq_buffer_size demo_sub_rq \<noteq> 0" "wf_request demo_sub_rq"
    "rq_name demo_sub_rq \<noteq> replicate 8 0" "unat (number_of_partition (rq_buffer_size demo_sub_rq)) = 1"
    using demo_name by (simp_all add: demo_sub_rq_def wf_request_def number_of_partition_ceil)
  have p: "rq_parent_cluster_number demo_dir_rq = 2" by (simp add: demo_dir_rq_def demo_rq_def)
  note A = folder_empty_can_add [OF a(1), where rq = demo_sub_rq]
  have add: "can_add {3, 2} s demo_sub_rq 0" "new_slot s demo_sub_rq = (3, 2)"
    using A q a(5) by simp_all
  have "fs_fat s = (fs_fat fresh_fs)[3 := FAT32_FAT_END_OF_FILE]"
    using fat_write_folder_refines [OF fresh_inv demo_can_add(2) demo_dir_write, of demo_mem] w by auto
  then have "4 \<in> set (free_from (fs_fat s) 3)"
    using formatted_free by (simp add: set_free_from fresh_fat formatted_fat_def initial_fat_def)
  then have room: "unat (number_of_partition (rq_buffer_size demo_sub_rq)) \<le> length (free_from (fs_fat s) 3)"
    using q(5) by (cases "free_from (fs_fat s) 3") auto
  let ?cs = "file_clusters demo_sub_rq s"
  let ?s = "file_written demo_sub_rq (rq_table s demo_sub_rq) 2 ?cs demo_mem s"
  note E = file_written_effect [OF a(1) add(1) q(2) room, where m = demo_mem, unfolded add(2) snd_conv]
  have t: "tables ?s 2 = tables s 2" "ent (tables ?s) (3, 2) = new_entry demo_sub_rq (rq_table s demo_sub_rq) 2 0 (hd ?cs)"
    using E(2) [of 2] E(2) [of 3] fs_inv_dir(2) [OF a(1), of 3] by (simp_all add: set_slot_def)
  have f: "found_slot ?s demo_dir_rq = found_slot s demo_dir_rq" using t(1) by (simp add: p)
  have sl: "found_slot ?s demo_dir_rq \<in> slots {3, 2} (tables ?s)" "(3, 2) \<in> slots {3, 2} (tables ?s)"
    using a(2) f t by (auto simp: slots_def p)
  have ec: "entry_cluster (ent (tables ?s) (found_slot ?s demo_dir_rq)) = 3"
    using found_slotD(10) [OF a(1,2)] a(4) t(1) by (simp add: p)
  have "Delete demo_dir_rq ?s = Ret (2, ?s)"
    by (rule rmdir_nonempty [OF E(1) sl(1), of 2]) (use a(3) f t(1) ec sl(2) in \<open>simp_all add: p\<close>)
  then show ?thesis
    using w fat_write_file_result [OF a(1) add(1) q(2) room, of demo_mem] add(2) by auto
qed

subsection \<open>Mounting\<close>

lemma abs_fs_disk: "fs_disk s' = fs_disk s \<Longrightarrow> abs_fs D own s' = abs_fs D own s"
  by (rule ext) (simp add: abs_fs_def)

text \<open>
  C33. Mounting after a power cycle: whatever the driver's memory holds, mounting
  the disk of a well-formed file system reads back the same map, does not write to the disk
  and yields the same abstract file system.
\<close>

theorem mount_preserves:
  assumes "fs_inv D own s" "fs_disk s' = fs_disk s" "wf_driver (fs_driver s')"
  shows "fs_inv D own (initialize_filesystem_fat32 after s') \<and>
    fs_fat (initialize_filesystem_fat32 after s') = fs_fat s \<and>
    fs_disk (initialize_filesystem_fat32 after s') = fs_disk s \<and>
    abs_fs D own (initialize_filesystem_fat32 after s') = abs_fs D own s"
  using initialize_mounts [OF assms] by (intro conjI abs_fs_disk)

theorem mount_preserves_witness:
  "fs_fat (initialize_filesystem_fat32 [] (blank_fs\<lparr>fs_disk := fs_disk fresh_fs\<rparr>)) = fs_fat fresh_fs"
  using mount_preserves [OF fresh_inv, of "blank_fs\<lparr>fs_disk := fs_disk fresh_fs\<rparr>" "[]"] wf_blank(2) by simp

text \<open>
  On a storage without the boot signature, mounting formats: the result is a well-formed
  and empty file system with 509 free clusters.
\<close>

theorem mount_formats:
  assumes "is_empty_storage (fs_disk s)" "wf_disk (fs_disk s)" "wf_driver (fs_driver s)" "length after = 1536"
  shows "fs_inv {2} (\<lambda>_. []) (initialize_filesystem_fat32 after s) \<and>
    abs_fs {2} (\<lambda>_. []) (initialize_filesystem_fat32 after s) = Map.empty \<and>
    free_from (fs_fat (initialize_filesystem_fat32 after s)) 0 = [3..<512] \<and>
    \<not> is_empty_storage (fs_disk (initialize_filesystem_fat32 after s))"
proof -
  have r: "initialize_filesystem_fat32 after s = create_fat32 after s"
    using assms(1) by (simp add: initialize_filesystem_fat32_def)
  note inv = create_fat32_inv [OF assms(2-4)]
  have "read_table (create_fat32 after s) 2 = root_table"
    using table_okD(1) [OF root_table_ok] by (simp add: create_fat32_result read_write_cluster_same layout_simps)
  then have "slots {2} (tables (create_fat32 after s)) = {}"
    using root_table_empty by (auto simp: slots_def)
  moreover have "free_from (fs_fat (create_fat32 after s)) 0 = [3..<512]"
    using free_from_reserved [OF inv] formatted_free by (simp add: create_fat32_result)
  ultimately show ?thesis using inv fs_invD(4) [OF inv] r by (simp add: abs_fs_def fun_eq_iff)
qed

theorem mount_formats_witness: "abs_fs {2} (\<lambda>_. []) (initialize_filesystem_fat32 (replicate 1536 0) blank_fs) = Map.empty"
proof -
  have "is_empty_storage (fs_disk blank_fs)" by code_simp
  from mount_formats [OF this wf_blank, of "replicate 1536 0"] show ?thesis by simp
qed

end
