(* ===== verification/FAT32_Hazards.thy ===== *)
theory FAT32_Hazards
  imports FAT32_Folders
begin

text \<open>
  The refusals of \<open>fat_write\<close>, the free-space check, and three situations in which the driver
  leaves its data structures or damages the file system: a request with an empty name, the
  deletion of a directory through its own entry, and a file that needs one cluster more than
  are free while the word behind the map is zero.
\<close>

subsection \<open>Refusals and the free-space check\<close>

text \<open>
  C34. The refusals of \<open>fat_write\<close> on a well-formed file system, each without any change: code 2
  when the parent is no directory, 1 when the directory has an entry of the same name,
  extension and kind, and -1 when the directory has no unused entry. The -1 for a lack of free
  clusters is not among these cases.
\<close>

theorem fat_write_refusals:
  fixes s rq
  defines "t \<equiv> rq_table s rq"
  assumes inv: "fs_inv D own s" and wf: "wf_request rq"
  shows "(\<not> is_dir (t ! 0) \<longrightarrow> fat_write rq m s = Ret (2, s)) \<and>
    (is_dir (t ! 0) \<and> (\<exists>i\<in>{2..<64}. has_key t rq (rq_attr rq) i) \<longrightarrow> fat_write rq m s = Ret (1, s)) \<and>
    (is_dir (t ! 0) \<and> (\<forall>i\<in>{2..<64}. used (t ! i) \<and> \<not> has_key t rq (rq_attr rq) i) \<longrightarrow> fat_write rq m s = Ret (-1, s))"
proof (intro conjI impI)
  show "fat_write rq m s = Ret (2, s)" if "\<not> is_dir (t ! 0)"
    using that unfolding t_def by (rule fat_write_not_dir)
  show "fat_write rq m s = Ret (1, s)" if "is_dir (t ! 0) \<and> (\<exists>i\<in>{2..<64}. has_key t rq (rq_attr rq) i)"
    using fat_write_duplicate [OF fs_invD(1) [OF inv] wf] that by (auto simp: t_def)
  assume a: "is_dir (t ! 0) \<and> (\<forall>i\<in>{2..<64}. used (t ! i) \<and> \<not> has_key t rq (rq_attr rq) i)"
  then have "first_unused t 2 = 64"
    using scan_while_end_iff [of 2 64 "\<lambda>i. used (t ! i)"] by (simp add: first_unused_def Ball_def)
  then show "fat_write rq m s = Ret (-1, s)"
    using a by (intro fat_write_full [OF fs_invD(1) [OF inv] wf]) (simp_all add: t_def)
qed

lemma fresh_cluster_zero: "\<not> is_dir (read_table fresh_fs 5 ! 0)"
proof -
  have c: "read_clusters 5 1 (fs_disk fresh_fs) = read_clusters 5 1 (fs_disk blank_fs)"
    by (simp add: fresh_fs_def create_fat32_result read_write_cluster_other)
  have "length (read_clusters 5 1 (fs_disk blank_fs)) = 2048" using wf_blank(1) by simp
  moreover have "\<forall>b\<in>set (read_clusters 5 1 (fs_disk blank_fs)). b = 0"
    by (simp add: read_clusters_def read_blocks_def blank_fs_def)
  ultimately have "read_clusters 5 1 (fs_disk blank_fs) ! 11 = 0" using nth_mem by simp
  then show ?thesis by (simp add: c nth_dec_array dec_entry_def is_dir_def)
qed

theorem fat_write_refusals_witness:
  "fat_write (demo_rq\<lparr>rq_parent_cluster_number := 5\<rparr>) demo_mem fresh_fs = Ret (2, fresh_fs)"
  using fat_write_refusals [OF fresh_inv, of "demo_rq\<lparr>rq_parent_cluster_number := 5\<rparr>" demo_mem] demo_name(2)
    fresh_cluster_zero
  by (simp add: wf_request_def)

text \<open>
  The free-space check accepts a request exactly when the free clusters from 3 on suffice,
  counting one cluster too many when the word behind the map, the first four bytes of
  \<^verbatim>\<open>dir_table_buf\<close>, is zero.
\<close>

theorem enough_empty_cluster_spec:
  "enough_empty_cluster st required \<longleftrightarrow>
     unat required \<le> card {c. 3 \<le> c \<and> c < 512 \<and> fat_table st ! c = 0} +
       (if word_at (enc_table (dir_table_buf st)) 0 = 0 then 1 else 0)"
proof -
  have "length (free_from (fat_table st) 3) = card {c. 3 \<le> c \<and> c < 512 \<and> fat_table st ! c = 0}"
    using distinct_card [OF free_from_distinct, of "fat_table st" 3] by (simp add: set_free_from)
  then show ?thesis by (simp add: enough_empty_cluster_free)
qed

subsection \<open>Requests with an empty name\<close>

text \<open>
  A read or a deletion with an empty name and extension matches the first unused entry of
  a directory with a vacant entry, takes its cluster number 0 for the start of a chain, and
  follows the reserved cell 0 out of the driver's memory.
\<close>

theorem empty_name_faults:
  assumes inv: "fs_inv D own s" and d: "unat (rq_parent_cluster_number rq) \<in> D"
    and n: "rq_name rq = replicate 8 0" "rq_ext rq = replicate 3 0"
    and u: "2 \<le> find_entry (rq_table s rq) rq" "find_entry (rq_table s rq) rq < 64"
      "\<not> used (rq_table s rq ! find_entry (rq_table s rq) rq)"
  shows "fat_read rq s m = Fault Out_Of_Bounds \<and> Delete rq s = Fault Out_Of_Bounds"
proof -
  have e: "rq_table s rq ! find_entry (rq_table s rq) rq = empty_entry"
    using table_okD(4) [OF fs_inv_dir(1) [OF inv d] u] .
  note F = tree_invD(1) [OF fs_invD(5) [OF inv]] and P = fs_inv_dir(3) [OF inv d]
  show ?thesis
    using e u(2) P read_chain_zero [OF F] delete_chain_zero [OF F] empty_entry_sel(2)
    by (simp add: fat_read_def Delete_def Let_def is_dir_def)
qed

definition noname_rq :: FAT32DriverRequest where
  "noname_rq = \<lparr>rq_buf = 0, rq_name = replicate 8 0, rq_ext = replicate 3 0, rq_parent_cluster_number = 2, rq_buffer_size = 1\<rparr>"

theorem empty_name_faults_witness: "Delete noname_rq fresh_fs = Fault Out_Of_Bounds"
proof -
  have p: "rq_parent_cluster_number noname_rq = 2" by (simp add: noname_rq_def)
  have "find_entry root_table noname_rq = 2"
    unfolding find_entry_def
  proof (rule scan_while_eqI)
    show "\<not> \<not> entry_matches (root_table ! 2) noname_rq"
      using root_table_empty [of 2] by (simp add: noname_rq_def entry_matches_def)
    fix k :: nat assume "k < 2"
    then have "k = 0 \<or> k = 1" by auto
    moreover have "\<not> entry_matches (root_table ! 0) noname_rq" "\<not> entry_matches (root_table ! 1) noname_rq"
      by code_simp+
    ultimately show "\<not> entry_matches (root_table ! k) noname_rq" by auto
  qed simp_all
  then show ?thesis
    using empty_name_faults [OF fresh_inv, of noname_rq demo_mem] root_table_empty [of 2]
    by (simp add: p fresh_table) (simp add: noname_rq_def)
qed

subsection \<open>Deleting a directory through its own entry\<close>

text \<open>
  The search of \<open>Delete\<close> starts at entry 0, so a deletion under the name of the directory
  itself, in that directory while it is empty, succeeds: the cluster of the directory becomes
  free while its own parent still lists it, and its table is no directory any more.
\<close>

theorem Delete_own_directory:
  assumes inv: "fs_inv D own s" and d: "unat (rq_parent_cluster_number rq) \<in> D"
    and m: "entry_matches (rq_table s rq ! 0) rq" and e: "folder_empty (rq_table s rq)"
  shows "\<exists>s'. Delete rq s = Ret (0, s') \<and> fs_fat s' ! unat (rq_parent_cluster_number rq) = 0 \<and>
    \<not> is_dir (rq_table s' rq ! 0)"
proof -
  let ?t = "rq_table s rq" and ?p = "rq_parent_cluster_number rq"
  note P = fs_inv_dir [OF inv d] and I = fs_invD [OF inv]
  have f: "find_entry ?t rq = 0" using m by (simp add: find_entry_def scan_while.simps)
  have c: "entry_cluster (?t ! 0) = ?p" using table_okD(3) [OF P(1)] by simp
  have low: "ucast (de_cluster_low (?t ! 0)) = ?p"
    using low_half [of "?t ! 0"] c P(4) by (simp add: word_less_nat_alt)
  let ?fat = "(fs_fat s)[unat ?p := 0]"
  let ?d = "write_clusters (enc_fat ?fat) 1 1 (write_clusters (enc_table (?t[0 := empty_entry])) ?p 1
    (write_clusters empty_cluster ?p 1 (fs_disk s)))"
  have "Delete rq s = Ret (0, s\<lparr>fs_disk := ?d, fs_driver := (fs_driver s)\<lparr>fat_table := ?fat\<rparr>\<rparr>)"
    using f c low e P(3,4) folder_scan [of ?t] by (simp add: Delete_def delete_finish_def Let_def is_dir_def)
  moreover have "read_clusters ?p 1 ?d = enc_table (?t[0 := empty_entry])"
    using P(2,4,5) cluster_one_other [of "unat ?p" "enc_fat ?fat"] by (simp add: read_write_cluster_same layout_simps)
  ultimately show ?thesis
    using P(2,4) I(6) by (simp add: layout_simps)
qed

definition root_rq :: FAT32DriverRequest where
  "root_rq = \<lparr>rq_buf = 0, rq_name = root_name, rq_ext = replicate 3 0, rq_parent_cluster_number = 2, rq_buffer_size = 1\<rparr>"

theorem Delete_own_directory_witness: "\<exists>s'. Delete root_rq fresh_fs = Ret (0, s') \<and> fs_fat s' ! 2 = 0"
proof -
  have p: "rq_parent_cluster_number root_rq = 2" by (simp add: root_rq_def)
  have "entry_matches (root_table ! 0) root_rq"
    by (simp add: root_table_def entry_matches_def root_rq_def root_name_def nul_ext_def numeral_eq_Suc)
  moreover have "folder_empty root_table" using root_table_empty by (simp add: folder_empty_def)
  ultimately show ?thesis
    using Delete_own_directory [OF fresh_inv, of root_rq] by (auto simp: p fresh_table)
qed

subsection \<open>Overrunning the map\<close>

lemma run_bind_assoc: "run_bind (run_bind r f) g = run_bind r (\<lambda>x. run_bind (f x) g)"
  by (simp add: run_bind_def split: option.split sum.split)

lemma write_partitions_snoc:
  "write_partitions (Suc k) m buf pc e s =
     run_bind (write_partitions k m buf pc e s) (\<lambda>(pc', e', s'). write_partitions 1 m buf pc' e' s')"
proof (induction k arbitrary: pc e s)
  case (Suc k)
  let ?w = "write_cluster (mem_read m (buf + of_nat CLUSTER_SIZE * pc) CLUSTER_SIZE) e"
  let ?one = "\<lambda>(pc', e', s'). write_partitions 1 m buf pc' e' s'"
  have "write_partitions (Suc (Suc k)) m buf pc e s =
      run_bind (next_empty s (e + 1)) (\<lambda>next. run_bind (set_map e next s) (\<lambda>s.
        run_bind (write_partitions k m buf (pc + 1) next (?w s)) ?one))"
    by (simp only: write_partitions.simps(2) [of "Suc k"] Suc.IH)
  also have "\<dots> = run_bind (write_partitions (Suc k) m buf pc e s) ?one"
    by (simp only: write_partitions.simps(2) [of k] run_bind_assoc)
  finally show ?case .
qed simp

lemma free_from_after_last:
  assumes "free_from fat i \<noteq> []"
  shows "c \<in> set (free_from fat i) \<Longrightarrow> c \<le> last (free_from fat i)"
proof -
  have "sorted (free_from fat i)" by (simp add: free_from_def sorted_wrt_filter)
  then show "c \<in> set (free_from fat i) \<Longrightarrow> c \<le> last (free_from fat i)"
    by (cases "free_from fat i" rule: rev_cases) (auto simp: sorted_append)
qed

lemma next_empty_overrun:
  assumes "\<And>c. i \<le> c \<Longrightarrow> c < 512 \<Longrightarrow> fs_fat s ! c \<noteq> 0" "i \<le> 512"
    "word_at (enc_table (dir_table_buf (fs_driver s))) 0 = 0"
  shows "next_empty s (of_nat i) = Ret 512"
  using assms
proof (induction "512 - i" arbitrary: i)
  case 0
  then have "i = 512" by simp
  moreover have "cluster_map_get (fs_driver s) 512 = Some 0" using 0 by (simp add: cluster_map_get_def)
  ultimately show ?case by (simp add: next_empty.simps)
next
  case (Suc d)
  have "next_empty s (of_nat (Suc i)) = Ret 512" by (rule Suc.hyps(1)) (use Suc in auto)
  moreover have "i < 512" "fs_fat s ! i \<noteq> 0" using Suc by auto
  ultimately show ?case by (subst next_empty.simps) (simp add: add.commute)
qed

lemma write_partitions_overrun:
  assumes cs: "cs = free_from (fs_fat s) 3" "cs \<noteq> []"
    and z: "word_at (enc_table (dir_table_buf (fs_driver s))) 0 = 0"
  shows "\<exists>s'. write_partitions (length cs) m buf 0 (of_nat (hd cs)) s = Ret (of_nat (length cs), 512, s') \<and>
    fs_fat s' = (link_open (fs_fat s) cs)[last cs := 512] \<and> fs_driver s' = (fs_driver s)\<lparr>fat_table := fs_fat s'\<rparr>"
proof -
  obtain k where k: "length cs = Suc k" using cs(2) by (cases cs) auto
  have e: "free_from (fs_fat s) 3 = hd cs # tl cs" using cs by simp
  have h: "3 \<le> hd cs" "hd cs < 512" "fs_fat s ! hd cs = 0" "free_from (fs_fat s) (hd cs) = cs"
    using free_from_ConsD(1-3) [OF e] free_from_at [OF e] cs(2) by simp_all
  let ?s = "set_fat (link_open (fs_fat s) cs)
    (set_disk (store_chain (fs_disk s) (butlast cs) (buffers m buf 0 k)) s)"
  have w: "write_partitions k m buf 0 (of_nat (hd cs)) s = Ret (of_nat k, of_nat (last cs), ?s)"
    using write_partitions_free [OF h(3,2), of k m buf 0] h(4) k by (simp add: Let_def)
  have l: "last cs < 512" using last_in_set [OF cs(2)] set_free_from [of "fs_fat s" 3] cs(1) by auto
  have "fs_fat ?s ! c \<noteq> 0" if "Suc (last cs) \<le> c" "c < 512" for c
  proof -
    have "c \<notin> set cs" using free_from_after_last [of "fs_fat s" 3 c] cs that by auto
    moreover from this have "fs_fat s ! c \<noteq> 0"
      using set_free_from [of "fs_fat s" 3] cs(1,2) last_in_set [OF cs(2)] that by auto
    ultimately show ?thesis by (simp add: link_open_other)
  qed
  then have "next_empty ?s (of_nat (last cs) + 1) = Ret 512"
    using next_empty_overrun [of "Suc (last cs)" ?s] l z by (simp add: add.commute)
  then show ?thesis unfolding k write_partitions_snoc w using l by simp
qed

text \<open>
  When the word behind the map is zero, as it is after every mount, a file that needs
  exactly one cluster more than are free is accepted with code 0: its chain leaves the map
  through the value 512 in the cell of the last free cluster.
\<close>

theorem fat_write_overruns_map:
  assumes inv: "fs_inv D own s" and a: "can_add D s rq 0" and sz: "rq_buffer_size rq \<noteq> 0"
    and z: "word_at (enc_table (dir_table_buf (fs_driver s))) 0 = 0"
    and n: "unat (number_of_partition (rq_buffer_size rq)) = Suc (length (free_from (fs_fat s) 3))"
    and f: "free_from (fs_fat s) 3 \<noteq> []"
  shows "\<exists>s'. fat_write rq m s = Ret (0, s') \<and> fs_fat s' ! last (free_from (fs_fat s) 3) = 512"
proof -
  let ?np = "number_of_partition (rq_buffer_size rq)" and ?t = "rq_table s rq"
  define cs where "cs = free_from (fs_fat s) 3"
  obtain c fs where fr: "free_from (fs_fat s) 3 = c # fs" using f by (cases "free_from (fs_fat s) 3") auto
  note C = find_empty_cluster_inv [OF inv fr] and S = can_add_scan [OF inv a]
  have hd: "hd cs = c" "cs \<noteq> []" using fr by (simp_all add: cs_def)
  have k: "unat (?np - 1) = length cs"
    using unat_pred(1) [of ?np] n by (simp add: cs_def)
  let ?s = "write_cluster (enc_table (?t[first_unused ?t 2 := new_entry rq ?t (first_unused ?t 2) 0 c]))
    (rq_parent_cluster_number rq) s"
  obtain s1 where s1: "write_partitions (length cs) m (rq_buf rq) 0 (of_nat c) ?s = Ret (of_nat (length cs), 512, s1)"
      "fs_fat s1 = (link_open (fs_fat s) cs)[last cs := 512]" "fs_driver s1 = (fs_driver s)\<lparr>fat_table := fs_fat s1\<rparr>"
    using write_partitions_overrun [of cs ?s m "rq_buf rq"] hd z by (auto simp: cs_def)
  have en: "enough_empty_cluster (fs_driver s) ?np" using z n by (simp add: enough_empty_cluster_free)
  have l: "last cs < 512" using last_in_set [OF hd(2)] set_free_from [of "fs_fat s" 3] by (auto simp: cs_def)
  have st: "set_map 512 v s1 = Ret (s1\<lparr>fs_driver := (fs_driver s1)\<lparr>dir_table_buf :=
      dec_table (word_set (enc_table (dir_table_buf (fs_driver s1))) 0 v)\<rparr>\<rparr>)" for v
    by (simp add: set_map_def cluster_map_set_def)
  have "\<exists>s'. write_file rq ?t (of_nat (first_unused ?t 2)) m s = Ret (0, s') \<and> fs_fat s' = fs_fat s1"
    using en C(1,2) S(5) k s1(1) st by (simp add: write_file_def Let_def new_entry_def)
  then have "\<exists>s'. fat_write rq m s = Ret (0, s') \<and> fs_fat s' = fs_fat s1"
    using S(1-3) sz by (simp add: fat_write_def Let_def)
  then show ?thesis using s1(2) l fs_invD(6) [OF inv] by (auto simp: cs_def)
qed

text \<open>The formatted disk after a power cycle, and a file of 510 clusters for its 509 free ones.\<close>

definition mounted_fs :: fs_state where
  "mounted_fs = initialize_filesystem_fat32 [] (blank_fs\<lparr>fs_disk := fs_disk fresh_fs\<rparr>)"

definition big_rq :: FAT32DriverRequest where
  "big_rq = demo_rq\<lparr>rq_buffer_size := 1044480\<rparr>"

lemma mounted_inv: "fs_inv {2} (\<lambda>_. []) mounted_fs" "fs_disk mounted_fs = fs_disk fresh_fs" "fs_fat mounted_fs = formatted_fat"
  using initialize_mounts [OF fresh_inv, of "blank_fs\<lparr>fs_disk := fs_disk fresh_fs\<rparr>" "[]"] wf_blank(2) fresh_fat
  by (simp_all add: mounted_fs_def)

lemma mounted_buf: "dir_table_buf (fs_driver mounted_fs) = replicate 64 empty_entry"
  using fs_invD(4) [OF fresh_inv] by (simp add: mounted_fs_def initialize_filesystem_fat32_def blank_fs_def)

theorem fat_write_overruns_map_witness: "\<exists>s'. fat_write big_rq demo_mem mounted_fs = Ret (0, s') \<and> fs_fat s' ! 511 = 512"
proof -
  have b: "rq_parent_cluster_number big_rq = 2" "rq_buffer_size big_rq = 1044480" "rq_name big_rq = rq_name demo_rq"
    "rq_ext big_rq = rq_ext demo_rq"
    by (simp_all add: big_rq_def demo_rq_def)
  have "can_add {2} mounted_fs big_rq 0"
    using demo_can_add(1) mounted_inv(2) b by (simp add: can_add_def has_key_def wf_request_def) (simp add: demo_rq_def)
  moreover have "word_at (enc_table (dir_table_buf (fs_driver mounted_fs))) 0 = 0"
    unfolding mounted_buf by code_simp
  moreover have "unat (number_of_partition (rq_buffer_size big_rq)) = Suc (length (free_from (fs_fat mounted_fs) 3))"
    by (simp add: b mounted_inv(3) formatted_free number_of_partition_ceil)
  ultimately show ?thesis
    using fat_write_overruns_map [OF mounted_inv(1), of big_rq demo_mem] b
    by (simp add: mounted_inv(3) formatted_free)
qed

end
