(* ===== verification/Paging.thy ===== *)
theory Paging
  imports OS_Prelude
begin

text \<open>
  Paging, \<^verbatim>\<open>src/src/paging.c\<close> and \<^verbatim>\<open>src/src/header/memory/paging.h\<close>: page directories with
  4 MiB pages, the table of physical page frames, the pool of page directories, and the
  active directory in CR3. A page directory is passed by value and returned; the caller
  stores it back. TLB invalidations are recorded in order in \<open>flushed\<close>. The model ends with
  address translation, through which the kernel reads and writes the memory of a process.
\<close>

unbundle bit_operations_syntax

subsection \<open>Data\<close>

definition PAGE_ENTRY_COUNT :: nat where [simp]: "PAGE_ENTRY_COUNT = 1024"
definition PAGE_FRAME_SIZE :: u32 where [simp]: "PAGE_FRAME_SIZE = 0x400000"
definition PAGE_FRAME_MAX_COUNT :: nat where [simp]: "PAGE_FRAME_MAX_COUNT = 32"
definition PAGING_DIRECTORY_TABLE_MAX_COUNT :: nat where [simp]: "PAGING_DIRECTORY_TABLE_MAX_COUNT = 32"
definition KERNEL_VIRTUAL_ADDRESS_BASE :: u32 where [simp]: "KERNEL_VIRTUAL_ADDRESS_BASE = 0xC0000000"

record PageDirectoryEntryFlag =
  present_bit :: bool
  write_bit :: bool
  user_supervisor_bit :: bool
  pwt_bit :: bool
  pcd_bit :: bool
  accesed_bit :: bool
  dirty_bit :: bool
  use_pagesize_4_mb :: bool

record PageDirectoryEntry =
  pde_flag :: PageDirectoryEntryFlag
  global_page :: bool
  ignored :: "3 word"
  pat :: bool
  higher_address :: u8
  reserved :: bool
  lower_address :: "10 word"

type_synonym PageDirectory = "PageDirectoryEntry list"

record PageManagerState =
  page_frame_map :: "bool list"
  free_page_frame_count :: u32

record paging_state =
  page_manager_state :: PageManagerState
  page_directory_list :: "PageDirectory list"
  page_directory_used :: "bool list"
  page_directory_list_addr :: u32
  cr3 :: u32
  flushed :: "u32 list"

definition zero_flag :: PageDirectoryEntryFlag where
  "zero_flag = \<lparr>present_bit = False, write_bit = False, user_supervisor_bit = False, pwt_bit = False,
     pcd_bit = False, accesed_bit = False, dirty_bit = False, use_pagesize_4_mb = False\<rparr>"

definition zero_pde :: PageDirectoryEntry where
  "zero_pde = \<lparr>pde_flag = zero_flag, global_page = False, ignored = 0, pat = False,
     higher_address = 0, reserved = False, lower_address = 0\<rparr>"

text \<open>The entry for the kernel, present, writable and 4 MiB large, at frame 0.\<close>

definition kernel_higher_half :: PageDirectoryEntry where
  "kernel_higher_half = zero_pde\<lparr>pde_flag :=
     zero_flag\<lparr>present_bit := True, write_bit := True, use_pagesize_4_mb := True\<rparr>, lower_address := 0\<rparr>"

definition paging_kernel_page_directory :: PageDirectory where
  "paging_kernel_page_directory = (replicate PAGE_ENTRY_COUNT zero_pde)[0 := kernel_higher_half, 0x300 := kernel_higher_half]"

definition initial_page_manager_state :: PageManagerState where
  "initial_page_manager_state =
     \<lparr>page_frame_map = True # replicate (PAGE_FRAME_MAX_COUNT - 1) False,
      free_page_frame_count = of_nat (PAGE_FRAME_MAX_COUNT - 1)\<rparr>"

subsection \<open>Operations\<close>

definition page_index :: "u32 \<Rightarrow> nat" where
  "page_index virtual_addr = unat (drop_bit 22 virtual_addr AND 0x3FF)"

definition flush_single_tlb :: "u32 \<Rightarrow> paging_state \<Rightarrow> paging_state" where
  "flush_single_tlb virtual_addr s = s\<lparr>flushed := virtual_addr # flushed s\<rparr>"

definition update_page_directory_entry ::
  "PageDirectory \<Rightarrow> u32 \<Rightarrow> u32 \<Rightarrow> PageDirectoryEntryFlag \<Rightarrow> paging_state \<Rightarrow> PageDirectory \<times> paging_state" where
  "update_page_directory_entry page_dir physical_addr virtual_addr flag s =
     (let i = page_index virtual_addr;
          e = (page_dir ! i)\<lparr>pde_flag := flag, lower_address := ucast (drop_bit 22 physical_addr AND 0x3FF)\<rparr>
      in (page_dir[i := e], flush_single_tlb virtual_addr s))"

definition paging_allocate_check :: "u32 \<Rightarrow> paging_state \<Rightarrow> bool" where
  "paging_allocate_check amount s =
     (let required_number_of_pages = amount div PAGE_FRAME_SIZE + (if amount mod PAGE_FRAME_SIZE > 0 then 1 else 0)
      in required_number_of_pages \<le> free_page_frame_count (page_manager_state s))"

definition user_flag :: PageDirectoryEntryFlag where
  "user_flag = \<lparr>present_bit = True, write_bit = True, user_supervisor_bit = True, pwt_bit = False,
     pcd_bit = False, accesed_bit = False, dirty_bit = False, use_pagesize_4_mb = True\<rparr>"

text \<open>
  \<^verbatim>\<open>page_frame_map\<close> is indexed without a bound; the four bytes behind it in the packed structure
  are those of \<^verbatim>\<open>free_page_frame_count\<close>.
\<close>

definition set_byte :: "nat \<Rightarrow> u8 \<Rightarrow> u32 \<Rightarrow> u32" where
  "set_byte k b w = (w AND NOT (push_bit (8 * k) 0xFF)) OR push_bit (8 * k) (ucast b)"

definition set_page_frame :: "nat \<Rightarrow> bool \<Rightarrow> PageManagerState \<Rightarrow> PageManagerState run" where
  "set_page_frame i b st =
     (if i < PAGE_FRAME_MAX_COUNT then Ret (st\<lparr>page_frame_map := (page_frame_map st)[i := b]\<rparr>)
      else if i < PAGE_FRAME_MAX_COUNT + 4 then
        Ret (st\<lparr>free_page_frame_count := set_byte (i - PAGE_FRAME_MAX_COUNT) (of_bool b) (free_page_frame_count st)\<rparr>)
      else Fault Out_Of_Bounds)"

definition first_free_frame :: "bool list \<Rightarrow> nat" where
  "first_free_frame m = scan_while (\<lambda>i. m ! i) 0 PAGE_FRAME_MAX_COUNT"

definition paging_allocate_user_page_frame ::
  "PageDirectory \<Rightarrow> u32 \<Rightarrow> paging_state \<Rightarrow> (bool \<times> PageDirectory \<times> paging_state) run" where
  "paging_allocate_user_page_frame page_dir virtual_addr s =
     (if \<not> paging_allocate_check PAGE_FRAME_SIZE s then Ret (False, page_dir, s)
      else
        let i = first_free_frame (page_frame_map (page_manager_state s));
            (page_dir, s) = update_page_directory_entry page_dir (of_nat i * PAGE_FRAME_SIZE) virtual_addr user_flag s
        in run_bind (set_page_frame i True (page_manager_state s)) (\<lambda>st.
           Ret (True, page_dir, s\<lparr>page_manager_state := st\<lparr>free_page_frame_count := free_page_frame_count st - 1\<rparr>\<rparr>)))"

definition paging_free_user_page_frame ::
  "PageDirectory \<Rightarrow> u32 \<Rightarrow> paging_state \<Rightarrow> (bool \<times> PageDirectory \<times> paging_state) run" where
  "paging_free_user_page_frame page_dir virtual_addr s =
     (let i = page_index virtual_addr; page_entry = page_dir ! i in
      if \<not> present_bit (pde_flag page_entry) then Ret (False, page_dir, s)
      else run_bind (set_page_frame (unat (lower_address page_entry)) False (page_manager_state s)) (\<lambda>st.
           Ret (True, page_dir[i := zero_pde],
                s\<lparr>page_manager_state := st\<lparr>free_page_frame_count := free_page_frame_count st + 1\<rparr>\<rparr>)))"

definition first_free_directory :: "bool list \<Rightarrow> nat" where
  "first_free_directory u = scan_while (\<lambda>i. u ! i) 0 PAGING_DIRECTORY_TABLE_MAX_COUNT"

text \<open>The result is the index of the new directory in \<^verbatim>\<open>page_directory_list\<close>; \<open>None\<close> is \<^verbatim>\<open>NULL\<close>.\<close>

definition paging_create_new_page_directory :: "paging_state \<Rightarrow> nat option \<times> paging_state" where
  "paging_create_new_page_directory s =
     (let i = first_free_directory (page_directory_used s) in
      if i = PAGING_DIRECTORY_TABLE_MAX_COUNT then (None, s)
      else (Some i,
            s\<lparr>page_directory_used := (page_directory_used s)[i := True],
              page_directory_list := (page_directory_list s)[i := (page_directory_list s ! i)[0x300 := kernel_higher_half]]\<rparr>))"

definition directory_addr :: "paging_state \<Rightarrow> nat \<Rightarrow> u32" where
  "directory_addr s i = page_directory_list_addr s + 0x1000 * of_nat i"

definition paging_free_page_directory :: "u32 \<Rightarrow> paging_state \<Rightarrow> bool \<times> paging_state" where
  "paging_free_page_directory page_dir s =
     (let i = scan_while (\<lambda>i. directory_addr s i \<noteq> page_dir) 0 PAGING_DIRECTORY_TABLE_MAX_COUNT in
      if i = PAGING_DIRECTORY_TABLE_MAX_COUNT then (False, s)
      else (True,
            s\<lparr>page_directory_used := (page_directory_used s)[i := False],
              page_directory_list := (page_directory_list s)[i := replicate PAGE_ENTRY_COUNT zero_pde]\<rparr>))"

definition paging_get_current_page_directory_addr :: "paging_state \<Rightarrow> u32" where
  "paging_get_current_page_directory_addr s = cr3 s + KERNEL_VIRTUAL_ADDRESS_BASE"

definition paging_use_page_directory :: "u32 \<Rightarrow> paging_state \<Rightarrow> paging_state" where
  "paging_use_page_directory page_dir_virtual_addr s =
     s\<lparr>cr3 := (if page_dir_virtual_addr > KERNEL_VIRTUAL_ADDRESS_BASE
               then page_dir_virtual_addr - KERNEL_VIRTUAL_ADDRESS_BASE else page_dir_virtual_addr)\<rparr>"

subsection \<open>Address translation\<close>

definition translate :: "PageDirectory \<Rightarrow> u32 \<Rightarrow> u32 option" where
  "translate dir va =
     (let e = dir ! page_index va in
      if present_bit (pde_flag e) then Some (push_bit 22 (ucast (lower_address e)) OR (va AND 0x3FFFFF)) else None)"

definition user_view :: "PageDirectory \<Rightarrow> mem \<Rightarrow> mem" where
  "user_view dir pm = (\<lambda>va. case translate dir va of None \<Rightarrow> 0 | Some pa \<Rightarrow> pm pa)"

text \<open>The physical memory after the virtual memory under \<open>dir\<close> became \<open>m\<close>.\<close>

definition store_view :: "PageDirectory \<Rightarrow> mem \<Rightarrow> mem \<Rightarrow> mem" where
  "store_view dir m pm = (\<lambda>pa.
     let p = scan_while (\<lambda>p. \<not> (present_bit (pde_flag (dir ! p)) \<and> lower_address (dir ! p) = ucast (drop_bit 22 pa)))
               0 PAGE_ENTRY_COUNT
     in if p < PAGE_ENTRY_COUNT then m (push_bit 22 (of_nat p) OR (pa AND 0x3FFFFF)) else pm pa)"

subsection \<open>Frames and directories as allocators\<close>

lemma flag_allocator:
  "slot_allocator n (\<lambda>m. length m = n) (!) (\<lambda>m. scan_while (\<lambda>i. m ! i) 0 n) (\<lambda>i m. m[i := True]) (\<lambda>i m. m[i := False])"
proof
  fix m :: "bool list" and i j :: nat
  show "scan_while (\<lambda>i. m ! i) 0 n \<le> n" by (rule scan_while_le) simp
  show "\<not> m ! scan_while (\<lambda>i. m ! i) 0 n" if "scan_while (\<lambda>i. m ! i) 0 n < n"
    using scan_while_stop [OF that] .
  show "m ! i" if "i < scan_while (\<lambda>i. m ! i) 0 n" using scan_while_skipped [of 0 i] that by simp
qed (simp_all add: nth_list_update)

interpretation frames: slot_allocator 32 "\<lambda>m. length m = 32" "(!)" first_free_frame "\<lambda>i m. m[i := True]" "\<lambda>i m. m[i := False]"
  using flag_allocator [of 32] by (simp add: first_free_frame_def [abs_def])

interpretation directories: slot_allocator 32 "\<lambda>u. length u = 32" "(!)" first_free_directory "\<lambda>i u. u[i := True]" "\<lambda>i u. u[i := False]"
  using flag_allocator [of 32] by (simp add: first_free_directory_def [abs_def])

lemma card_free_frames: "card (frames.free_slots m) \<le> 32"
  using card_mono [of "{..<32}" "frames.free_slots m"] by (auto simp: frames.free_slots_def)

subsection \<open>The invariant\<close>

definition frames_ok :: "PageManagerState \<Rightarrow> bool" where
  "frames_ok st \<longleftrightarrow> length (page_frame_map st) = PAGE_FRAME_MAX_COUNT \<and> page_frame_map st ! 0 \<and>
     free_page_frame_count st = of_nat (card (frames.free_slots (page_frame_map st)))"

abbreviation pde_at :: "paging_state \<Rightarrow> nat \<times> nat \<Rightarrow> PageDirectoryEntry" where
  "pde_at s q \<equiv> page_directory_list s ! fst q ! snd q"

text \<open>The pages of user processes: present entries of used directories, the kernel's excepted.\<close>

definition user_pages :: "paging_state \<Rightarrow> (nat \<times> nat) set" where
  "user_pages s = {q. fst q < PAGING_DIRECTORY_TABLE_MAX_COUNT \<and> page_directory_used s ! fst q \<and>
     snd q < PAGE_ENTRY_COUNT \<and> snd q \<noteq> 0x300 \<and> present_bit (pde_flag (pde_at s q))}"

definition frame_of :: "paging_state \<Rightarrow> nat \<times> nat \<Rightarrow> nat" where
  "frame_of s q = unat (lower_address (pde_at s q))"

definition directories_ok :: "paging_state \<Rightarrow> bool" where
  "directories_ok s \<longleftrightarrow> length (page_directory_list s) = PAGING_DIRECTORY_TABLE_MAX_COUNT \<and>
     length (page_directory_used s) = PAGING_DIRECTORY_TABLE_MAX_COUNT \<and>
     (\<forall>i<PAGING_DIRECTORY_TABLE_MAX_COUNT. length (page_directory_list s ! i) = PAGE_ENTRY_COUNT \<and>
        (if page_directory_used s ! i then page_directory_list s ! i ! 0x300 = kernel_higher_half
         else page_directory_list s ! i = replicate PAGE_ENTRY_COUNT zero_pde))"

text \<open>
  Isolation: every user page has the user flags and a frame that is marked as used and is not
  the kernel's, and no two user pages of any two processes share a frame.
\<close>

definition paging_inv :: "paging_state \<Rightarrow> bool" where
  "paging_inv s \<longleftrightarrow> frames_ok (page_manager_state s) \<and> directories_ok s \<and>
     (\<forall>q\<in>user_pages s. pde_flag (pde_at s q) = user_flag \<and> 0 < frame_of s q \<and> frame_of s q < PAGE_FRAME_MAX_COUNT \<and>
        page_frame_map (page_manager_state s) ! frame_of s q) \<and>
     inj_on (frame_of s) (user_pages s)"

lemma paging_invD:
  assumes "paging_inv s"
  shows "frames_ok (page_manager_state s)" "directories_ok s"
    "\<And>q. q \<in> user_pages s \<Longrightarrow> pde_flag (pde_at s q) = user_flag"
    "\<And>q. q \<in> user_pages s \<Longrightarrow> 0 < frame_of s q"
    "\<And>q. q \<in> user_pages s \<Longrightarrow> frame_of s q < 32"
    "\<And>q. q \<in> user_pages s \<Longrightarrow> page_frame_map (page_manager_state s) ! frame_of s q"
    "inj_on (frame_of s) (user_pages s)"
  using assms by (auto simp: paging_inv_def)

lemma frames_okD:
  assumes "frames_ok st"
  shows "length (page_frame_map st) = 32" "page_frame_map st ! 0"
    "unat (free_page_frame_count st) = card (frames.free_slots (page_frame_map st))"
  using assms card_free_frames [of "page_frame_map st"] by (auto simp: frames_ok_def unat_of_nat)

lemma directories_okD:
  assumes "directories_ok s"
  shows "length (page_directory_list s) = 32" "length (page_directory_used s) = 32"
    "\<And>i. i < 32 \<Longrightarrow> length (page_directory_list s ! i) = 1024"
    "\<And>i. i < 32 \<Longrightarrow> page_directory_used s ! i \<Longrightarrow> page_directory_list s ! i ! 0x300 = kernel_higher_half"
    "\<And>i. i < 32 \<Longrightarrow> \<not> page_directory_used s ! i \<Longrightarrow> page_directory_list s ! i = replicate 1024 zero_pde"
  using assms by (auto simp: directories_ok_def)

lemma allocate_check_page: "paging_allocate_check 0x400000 s \<longleftrightarrow> free_page_frame_count (page_manager_state s) \<noteq> 0"
  by (simp add: paging_allocate_check_def word_le_nat_alt word_unat_eq_iff Suc_le_eq)

lemma frame_address: "i < 32 \<Longrightarrow> drop_bit 22 (of_nat i * 0x400000 :: u32) AND 0x3FF = of_nat i"
proof -
  assume i: "i < 32"
  have "unat (of_nat i * 0x400000 :: u32) = i * 0x400000"
    using i by (simp add: unat_word_ariths unat_of_nat)
  then have "unat (drop_bit 22 (of_nat i * 0x400000 :: u32)) = i"
    by (simp add: drop_bit_eq_div unat_div)
  then have d: "drop_bit 22 (of_nat i * 0x400000 :: u32) = of_nat i" using i by (simp add: word_unat_eq_iff unat_of_nat)
  have "(0x3FF :: u32) = mask 10" by (simp add: mask_eq_exp_minus_1)
  then have "drop_bit 22 (of_nat i * 0x400000 :: u32) AND 0x3FF = take_bit 10 (of_nat i)"
    using d by (simp add: take_bit_eq_mask)
  also have "\<dots> = of_nat i" using i by (simp add: take_bit_eq_mod word_unat_eq_iff unat_mod unat_of_nat)
  finally show ?thesis .
qed

lemma unat_frame: "i < 32 \<Longrightarrow> unat (ucast (of_nat i :: u32) :: 10 word) = i"
  by (simp add: unsigned_ucast_eq take_bit_eq_mod unat_of_nat)

lemma page_index_less [simp]: "page_index va < 1024"
proof -
  have "(0x3FF :: u32) = mask 10" by (simp add: mask_eq_exp_minus_1)
  then have "drop_bit 22 va AND 0x3FF = take_bit 10 (drop_bit 22 va)" by (simp add: take_bit_eq_mask)
  then have "unat (drop_bit 22 va AND 0x3FF) = unat (drop_bit 22 va) mod 1024"
    by (simp add: take_bit_eq_mod unat_mod)
  then show ?thesis by (simp add: page_index_def)
qed

subsection \<open>Allocation\<close>

abbreviation free_frames :: "paging_state \<Rightarrow> nat set" where
  "free_frames s \<equiv> frames.free_slots (page_frame_map (page_manager_state s))"

abbreviation next_frame :: "paging_state \<Rightarrow> nat" where
  "next_frame s \<equiv> first_free_frame (page_frame_map (page_manager_state s))"

text \<open>The entry and the state after frame \<open>i\<close> was given to a page.\<close>

definition user_pde :: "PageDirectoryEntry \<Rightarrow> nat \<Rightarrow> PageDirectoryEntry" where
  "user_pde e i = e\<lparr>pde_flag := user_flag, lower_address := of_nat i\<rparr>"

definition frame_taken :: "nat \<Rightarrow> u32 \<Rightarrow> paging_state \<Rightarrow> paging_state" where
  "frame_taken i va s =
     s\<lparr>flushed := va # flushed s, page_manager_state :=
        \<lparr>page_frame_map = (page_frame_map (page_manager_state s))[i := True],
         free_page_frame_count = free_page_frame_count (page_manager_state s) - 1\<rparr>\<rparr>"

lemma next_frame_props:
  assumes "frames_ok (page_manager_state s)" "free_frames s \<noteq> {}"
  shows "0 < next_frame s" "next_frame s < 32" "\<not> page_frame_map (page_manager_state s) ! next_frame s"
    "\<And>i. i \<in> free_frames s \<Longrightarrow> next_frame s \<le> i"
proof -
  note F = frames_okD [OF assms(1)]
  show "next_frame s < 32" and n: "\<not> page_frame_map (page_manager_state s) ! next_frame s"
    using frames.search_found(1) [OF F(1) assms(2)] by (auto simp: frames.free_slots_def)
  show "0 < next_frame s" using n F(2) by (cases "next_frame s") auto
  show "\<And>i. i \<in> free_frames s \<Longrightarrow> next_frame s \<le> i" by (rule frames.search_found(2) [OF F(1) assms(2)])
qed

lemma paging_allocate_result:
  assumes "frames_ok (page_manager_state s)"
  shows "paging_allocate_user_page_frame dir va s =
    (if free_frames s = {} then Ret (False, dir, s)
     else Ret (True, dir[page_index va := user_pde (dir ! page_index va) (next_frame s)], frame_taken (next_frame s) va s))"
proof -
  note F = frames_okD [OF assms]
  have c: "free_page_frame_count (page_manager_state s) = 0 \<longleftrightarrow> free_frames s = {}"
    using F(3) by (simp add: word_unat_eq_iff)
  show ?thesis
  proof (cases "free_frames s = {}")
    case True
    then show ?thesis using c by (simp add: paging_allocate_user_page_frame_def allocate_check_page)
  next
    case False
    note N = next_frame_props [OF assms False]
    have u: "(ucast (of_nat (next_frame s) :: u32) :: 10 word) = of_nat (next_frame s)"
      using unat_frame [OF N(2)] N(2) by (simp add: word_unat_eq_iff unat_of_nat)
    show ?thesis
      using False c N(2) frame_address [OF N(2)] u
      by (simp add: paging_allocate_user_page_frame_def allocate_check_page update_page_directory_entry_def Let_def
          set_page_frame_def user_pde_def frame_taken_def flush_single_tlb_def)
  qed
qed

lemma frames_ok_taken:
  assumes "frames_ok (page_manager_state s)" "free_frames s \<noteq> {}"
  shows "frames_ok (page_manager_state (frame_taken (next_frame s) va s))"
proof -
  note F = frames_okD [OF assms(1)] and N = next_frame_props [OF assms]
  obtain k where "card (free_frames s) = Suc k" using assms(2) by (cases "card (free_frames s)") auto
  then have "(of_nat (card (free_frames s)) :: u32) - 1 = of_nat (card (free_frames s) - 1)" by simp
  then show ?thesis
    using F(1,2) N(1,2) assms frames.card_acquire_search [OF F(1) assms(2)]
    by (simp add: frames_ok_def frame_taken_def)
qed

definition store_directory :: "nat \<Rightarrow> PageDirectory \<Rightarrow> paging_state \<Rightarrow> paging_state" where
  "store_directory d dir s = s\<lparr>page_directory_list := (page_directory_list s)[d := dir]\<rparr>"

lemma inj_on_insert_other:
  assumes "inj_on f A" "\<And>x. x \<noteq> q \<Longrightarrow> g x = f x" "\<And>x. x \<in> A \<Longrightarrow> f x \<noteq> g q"
  shows "inj_on g (insert q A)"
proof (rule inj_onI)
  fix x y assume "x \<in> insert q A" "y \<in> insert q A" "g x = g y"
  then show "x = y"
    using assms(2) [of x] assms(2) [of y] assms(3) [of x] assms(3) [of y] inj_onD [OF assms(1), of x y]
    by (cases "x = q"; cases "y = q") auto
qed

lemma paging_inv_allocate:
  assumes inv: "paging_inv s" and d: "d < 32" "page_directory_used s ! d" and f: "free_frames s \<noteq> {}"
    and p: "page_index va \<noteq> 0x300"
  defines "dir \<equiv> page_directory_list s ! d"
  defines "s' \<equiv> store_directory d (dir[page_index va := user_pde (dir ! page_index va) (next_frame s)])
    (frame_taken (next_frame s) va s)"
  shows "paging_inv s'" "frame_of s' (d, page_index va) = next_frame s"
    "user_pages s' = insert (d, page_index va) (user_pages s)"
    "\<And>q. q \<noteq> (d, page_index va) \<Longrightarrow> pde_at s' q = pde_at s q"
proof -
  note I = paging_invD [OF inv] and N = next_frame_props [OF paging_invD(1) [OF inv] f]
  note D = directories_okD [OF I(2)] and F = frames_okD [OF I(1)]
  let ?q = "(d, page_index va)"
  have at: "pde_at s' q = (if q = ?q then user_pde (pde_at s ?q) (next_frame s) else pde_at s q)" for q
    using d D(1,3) by (auto simp: s'_def store_directory_def frame_taken_def dir_def prod_eq_iff nth_list_update)
  then show other: "\<And>q. q \<noteq> ?q \<Longrightarrow> pde_at s' q = pde_at s q" by simp
  have u: "page_directory_used s' = page_directory_used s" by (simp add: s'_def store_directory_def frame_taken_def)
  show pages: "user_pages s' = insert ?q (user_pages s)"
    using d p u at by (auto simp: user_pages_def user_pde_def user_flag_def)
  show fq: "frame_of s' ?q = next_frame s"
    using at [of ?q] N(2) by (simp add: frame_of_def user_pde_def unat_of_nat)
  have fo: "frame_of s' q = frame_of s q" if "q \<noteq> ?q" for q using other [OF that] by (simp add: frame_of_def)
  have map': "page_frame_map (page_manager_state s') = (page_frame_map (page_manager_state s))[next_frame s := True]"
    by (simp add: s'_def store_directory_def frame_taken_def)
  have "frames_ok (page_manager_state s')"
    using frames_ok_taken [OF I(1) f, of va] by (simp add: s'_def store_directory_def)
  moreover have "directories_ok s'"
    using D d p unfolding directories_ok_def s'_def
    by (auto simp: store_directory_def frame_taken_def dir_def nth_list_update)
  moreover have "pde_flag (pde_at s' q) = user_flag \<and> 0 < frame_of s' q \<and> frame_of s' q < 32 \<and>
      page_frame_map (page_manager_state s') ! frame_of s' q" if "q \<in> user_pages s'" for q
  proof (cases "q = ?q")
    case True
    then show ?thesis using at [of ?q] fq N(1,2) map' F(1) by (simp add: user_pde_def)
  next
    case False
    then have "q \<in> user_pages s" using that pages by simp
    then show ?thesis using I(3-6) [of q] other [OF False] fo [OF False] map' F(1) N(2) by (simp add: nth_list_update)
  qed
  moreover have "frame_of s q \<noteq> next_frame s" if "q \<in> user_pages s" for q using I(6) [OF that] N(3) by auto
  then have "inj_on (frame_of s') (user_pages s')"
    unfolding pages by (intro inj_on_insert_other [OF I(7) fo]) (simp_all add: fq)
  ultimately show "paging_inv s'" by (simp add: paging_inv_def)
qed

subsection \<open>Release\<close>

lemma paging_free_result:
  assumes inv: "paging_inv s" and q: "(d, page_index va) \<in> user_pages s"
  defines "f \<equiv> frame_of s (d, page_index va)" and "dir \<equiv> page_directory_list s ! d"
  shows "paging_free_user_page_frame dir va s =
    Ret (True, dir[page_index va := zero_pde], s\<lparr>page_manager_state :=
      \<lparr>page_frame_map = (page_frame_map (page_manager_state s))[f := False],
       free_page_frame_count = free_page_frame_count (page_manager_state s) + 1\<rparr>\<rparr>)"
  using paging_invD(3,5) [OF inv q] by (simp add: paging_free_user_page_frame_def Let_def set_page_frame_def
      f_def dir_def frame_of_def user_flag_def)

lemma paging_inv_free:
  assumes inv: "paging_inv s" and q: "(d, p) \<in> user_pages s"
  defines "f \<equiv> frame_of s (d, p)" and "dir \<equiv> page_directory_list s ! d"
  defines "s' \<equiv> store_directory d (dir[p := zero_pde]) (s\<lparr>page_manager_state :=
      \<lparr>page_frame_map = (page_frame_map (page_manager_state s))[f := False],
       free_page_frame_count = free_page_frame_count (page_manager_state s) + 1\<rparr>\<rparr>)"
  shows "paging_inv s'" "free_frames s' = insert f (free_frames s)" "user_pages s' = user_pages s - {(d, p)}"
proof -
  note I = paging_invD [OF inv]
  note D = directories_okD [OF I(2)] and F = frames_okD [OF I(1)]
  have d: "d < 32" "page_directory_used s ! d" "p < 1024" "p \<noteq> 0x300" using q by (auto simp: user_pages_def)
  have f: "0 < f" "f < 32" "page_frame_map (page_manager_state s) ! f" using I(4-6) [OF q] by (simp_all add: f_def)
  have at: "pde_at s' r = (if r = (d, p) then zero_pde else pde_at s r)" for r
    using d D(1,3) by (auto simp: s'_def store_directory_def dir_def prod_eq_iff nth_list_update)
  have u: "page_directory_used s' = page_directory_used s" by (simp add: s'_def store_directory_def)
  show pages: "user_pages s' = user_pages s - {(d, p)}"
    using u at by (auto simp: user_pages_def zero_pde_def zero_flag_def)
  have map': "page_frame_map (page_manager_state s') = (page_frame_map (page_manager_state s))[f := False]"
    by (simp add: s'_def store_directory_def)
  show free: "free_frames s' = insert f (free_frames s)"
    using frames.free_slots_release [OF F(1) f(2)] by (simp add: map')
  have "frames_ok (page_manager_state s')"
    using F(1,2) f I(1) frames.card_release [OF F(1) f(2,3)]
    by (simp add: frames_ok_def s'_def store_directory_def add.commute)
  moreover have "directories_ok s'"
    using D d unfolding directories_ok_def s'_def by (auto simp: store_directory_def dir_def nth_list_update)
  moreover have fo: "frame_of s' r = frame_of s r" "pde_at s' r = pde_at s r" if "r \<noteq> (d, p)" for r
    using at [of r] that by (simp_all add: frame_of_def)
  moreover have "pde_flag (pde_at s' r) = user_flag \<and> 0 < frame_of s' r \<and> frame_of s' r < 32 \<and>
      page_frame_map (page_manager_state s') ! frame_of s' r" if "r \<in> user_pages s'" for r
  proof -
    have r: "r \<in> user_pages s" "r \<noteq> (d, p)" using that pages by auto
    then have "frame_of s r \<noteq> f" using I(7) q by (auto simp: inj_on_def f_def)
    then show ?thesis using I(3-6) [OF r(1)] fo [OF r(2)] map' F(1) by (simp add: nth_list_update)
  qed
  moreover have "inj_on (frame_of s') (user_pages s')"
    using I(7) fo(1) unfolding pages by (auto simp: inj_on_def)
  ultimately show "paging_inv s'" by (simp add: paging_inv_def)
qed

subsection \<open>Page directories\<close>

lemma create_directory_result:
  assumes "paging_inv s"
  shows "paging_create_new_page_directory s =
    (let d = first_free_directory (page_directory_used s) in
     if directories.free_slots (page_directory_used s) = {} then (None, s)
     else (Some d, store_directory d ((replicate 1024 zero_pde)[0x300 := kernel_higher_half])
             (s\<lparr>page_directory_used := (page_directory_used s)[d := True]\<rparr>)))"
proof -
  note D = directories_okD [OF paging_invD(2) [OF assms]]
  let ?d = "first_free_directory (page_directory_used s)"
  have "page_directory_list s ! ?d = replicate 1024 zero_pde" if "directories.free_slots (page_directory_used s) \<noteq> {}"
    using directories.search_found(1) [OF D(2) that] D(5) [of ?d] by (simp add: directories.free_slots_def)
  then show ?thesis
    using directories.search_full_iff [OF D(2)]
    by (simp add: paging_create_new_page_directory_def Let_def store_directory_def)
qed

lemma paging_inv_create:
  assumes inv: "paging_inv s" and d: "d < 32" "\<not> page_directory_used s ! d"
  defines "s' \<equiv> store_directory d ((replicate 1024 zero_pde)[0x300 := kernel_higher_half])
    (s\<lparr>page_directory_used := (page_directory_used s)[d := True]\<rparr>)"
  shows "paging_inv s'" "user_pages s' = user_pages s"
proof -
  note I = paging_invD [OF inv]
  note D = directories_okD [OF I(2)]
  have at: "pde_at s' q = pde_at s q" if "fst q \<noteq> d" for q
    using that by (simp add: s'_def store_directory_def)
  have z: "\<not> present_bit (pde_flag (pde_at s' q))" if "fst q = d" "snd q < 1024" "snd q \<noteq> 0x300" for q
    using that d(1) D(1) by (simp add: s'_def store_directory_def zero_pde_def zero_flag_def)
  show pages: "user_pages s' = user_pages s"
  proof (intro set_eqI)
    fix q show "q \<in> user_pages s' \<longleftrightarrow> q \<in> user_pages s"
      using z [of q] at [of q] d D(2) by (cases "fst q = d") (auto simp: user_pages_def s'_def store_directory_def)
  qed
  have nd: "fst q \<noteq> d" if "q \<in> user_pages s" for q using that d(2) by (auto simp: user_pages_def)
  have fo: "frame_of s' q = frame_of s q" if "q \<in> user_pages s" for q
    using at [OF nd [OF that]] by (simp add: frame_of_def)
  have m: "page_manager_state s' = page_manager_state s" by (simp add: s'_def store_directory_def)
  have "directories_ok s'"
    using D d unfolding directories_ok_def s'_def by (auto simp: store_directory_def nth_list_update)
  moreover have "inj_on (frame_of s') (user_pages s)" using I(7) fo by (auto simp: inj_on_def)
  ultimately show "paging_inv s'"
    using I m pages at nd fo by (simp add: paging_inv_def)
qed

lemma directory_addr_inj:
  assumes "i < 32" "j < 32" "directory_addr s i = directory_addr s j"
  shows "i = j"
proof -
  have "unat (0x1000 * of_nat i :: u32) = 0x1000 * i" if "i < 32" for i
    using that by (simp add: unat_word_ariths unat_of_nat)
  then have "0x1000 * i = 0x1000 * j" using assms unfolding directory_addr_def by (metis add_left_cancel)
  then show ?thesis by simp
qed

lemma free_directory_result:
  assumes "d < 32"
  shows "paging_free_page_directory (directory_addr s d) s =
    (True, store_directory d (replicate 1024 zero_pde) (s\<lparr>page_directory_used := (page_directory_used s)[d := False]\<rparr>))"
proof -
  have "scan_while (\<lambda>i. directory_addr s i \<noteq> directory_addr s d) 0 32 = d"
  proof (rule scan_while_eqI)
    show "directory_addr s k \<noteq> directory_addr s d" if "k < d" for k
      using directory_addr_inj [of k d s] that assms by auto
  qed (use assms in simp_all)
  then show ?thesis using assms by (simp add: paging_free_page_directory_def Let_def store_directory_def)
qed

lemma free_directory_unknown:
  "(\<And>i. i < 32 \<Longrightarrow> directory_addr s i \<noteq> a) \<Longrightarrow> paging_free_page_directory a s = (False, s)"
  using scan_while_end_iff [of 0 32 "\<lambda>i. directory_addr s i \<noteq> a"]
  by (simp add: paging_free_page_directory_def Let_def)

lemma paging_inv_free_directory:
  assumes inv: "paging_inv s" and d: "d < 32"
  defines "s' \<equiv> store_directory d (replicate 1024 zero_pde) (s\<lparr>page_directory_used := (page_directory_used s)[d := False]\<rparr>)"
  shows "paging_inv s'" "user_pages s' = {q \<in> user_pages s. fst q \<noteq> d}" "free_frames s' = free_frames s"
proof -
  note I = paging_invD [OF inv]
  note D = directories_okD [OF I(2)]
  have at: "pde_at s' q = pde_at s q" if "fst q \<noteq> d" for q
    using that by (simp add: s'_def store_directory_def)
  have "\<not> page_directory_used s' ! d" using d D(2) by (simp add: s'_def store_directory_def)
  moreover have "page_directory_used s' ! i = page_directory_used s ! i" if "i \<noteq> d" for i
    using that by (simp add: s'_def store_directory_def)
  ultimately show pages: "user_pages s' = {q \<in> user_pages s. fst q \<noteq> d}"
    using at unfolding user_pages_def by (intro set_eqI) (simp, metis)
  have m: "page_manager_state s' = page_manager_state s" by (simp add: s'_def store_directory_def)
  then show "free_frames s' = free_frames s" by simp
  have fo: "frame_of s' q = frame_of s q" if "q \<in> user_pages s'" for q
    using at that pages by (simp add: frame_of_def)
  have "directories_ok s'"
    using D d unfolding directories_ok_def s'_def by (auto simp: store_directory_def nth_list_update)
  moreover have "inj_on (frame_of s') (user_pages s')" using I(7) fo pages by (auto simp: inj_on_def)
  ultimately show "paging_inv s'"
    using I m pages at fo by (simp add: paging_inv_def)
qed

subsection \<open>Translation\<close>

lemma mask22: "(0x3FFFFF :: u32) = mask 22"
  by (simp add: mask_eq_exp_minus_1)

lemma split_address: "push_bit 22 (drop_bit 22 (pa :: u32)) OR (pa AND 0x3FFFFF) = pa"
  unfolding mask22 by (rule bit_word_eqI) (auto simp: bit_simps)

lemma drop_bit_frame: "drop_bit 22 (push_bit 22 (ucast (f :: 10 word)) OR (va AND 0x3FFFFF) :: u32) = ucast f"
  unfolding mask22 by (rule bit_word_eqI) (auto simp: bit_simps dest: bit_imp_le_length)

lemma offset_frame: "(push_bit 22 x OR (va AND 0x3FFFFF) :: u32) AND 0x3FFFFF = va AND 0x3FFFFF"
  unfolding mask22 by (rule bit_word_eqI) (auto simp: bit_simps)

lemma ucast_frame [simp]: "ucast (ucast (f :: 10 word) :: u32) = f"
  by (rule bit_word_eqI) (auto simp: bit_simps)

text \<open>Memory outside the frames of a directory does not change when its virtual memory is written.\<close>

lemma store_view_outside:
  assumes "\<And>p. p < 1024 \<Longrightarrow> present_bit (pde_flag (dir ! p)) \<Longrightarrow> lower_address (dir ! p) \<noteq> ucast (drop_bit 22 pa)"
  shows "store_view dir m pm pa = pm pa"
proof -
  have "scan_while (\<lambda>p. \<not> (present_bit (pde_flag (dir ! p)) \<and> lower_address (dir ! p) = ucast (drop_bit 22 pa))) 0 1024 = 1024"
    by (rule scan_while_eqI) (use assms in auto)
  then show ?thesis by (simp add: store_view_def Let_def)
qed

lemma page_index_shift: "page_index va = unat (drop_bit 22 va)"
proof -
  have "(0x3FF :: u32) = mask 10" by (simp add: mask_eq_exp_minus_1)
  then have "drop_bit 22 va AND 0x3FF = take_bit 10 (drop_bit 22 va)" by (simp add: take_bit_eq_mask)
  also have "\<dots> = drop_bit 22 va"
    by (rule bit_word_eqI) (auto simp: bit_simps dest: bit_imp_le_length)
  finally show ?thesis by (simp add: page_index_def)
qed

text \<open>
  Where the present entries of a directory have distinct frames, what the kernel writes at a
  mapped virtual address is what it reads back there.
\<close>

lemma user_view_store_view:
  assumes inj: "\<And>p q. p < 1024 \<Longrightarrow> q < 1024 \<Longrightarrow> present_bit (pde_flag (dir ! p)) \<Longrightarrow>
      present_bit (pde_flag (dir ! q)) \<Longrightarrow> lower_address (dir ! p) = lower_address (dir ! q) \<Longrightarrow> p = q"
    and t: "translate dir va = Some pa"
  shows "user_view dir (store_view dir m pm) va = m va"
proof -
  let ?p = "page_index va"
  have pr: "present_bit (pde_flag (dir ! ?p))" and pa: "pa = push_bit 22 (ucast (lower_address (dir ! ?p))) OR (va AND 0x3FFFFF)"
    using t by (auto simp: translate_def Let_def split: if_splits)
  have f: "ucast (drop_bit 22 pa) = lower_address (dir ! ?p)" unfolding pa drop_bit_frame by simp
  have "scan_while (\<lambda>p. \<not> (present_bit (pde_flag (dir ! p)) \<and> lower_address (dir ! p) = ucast (drop_bit 22 pa))) 0 1024 = ?p"
  proof (rule scan_while_eqI)
    fix k assume k: "k < ?p"
    then have "k < 1024" using page_index_less [of va] by linarith
    then show "\<not> (present_bit (pde_flag (dir ! k)) \<and> lower_address (dir ! k) = ucast (drop_bit 22 pa))"
      using inj [of k ?p] pr f k by auto
  qed (use pr f in \<open>auto intro: less_imp_le\<close>)
  moreover have "push_bit 22 (of_nat ?p) OR (pa AND 0x3FFFFF) = va"
    using split_address [of va] by (simp add: page_index_shift pa offset_frame)
  ultimately show ?thesis using t by (simp add: user_view_def store_view_def Let_def)
qed

subsection \<open>Paging as a transition system\<close>

definition boot_paging :: "u32 \<Rightarrow> u32 \<Rightarrow> paging_state" where
  "boot_paging list_addr cr3_value =
     \<lparr>page_manager_state = initial_page_manager_state,
      page_directory_list = replicate PAGING_DIRECTORY_TABLE_MAX_COUNT (replicate PAGE_ENTRY_COUNT zero_pde),
      page_directory_used = replicate PAGING_DIRECTORY_TABLE_MAX_COUNT False,
      page_directory_list_addr = list_addr, cr3 = cr3_value, flushed = []\<rparr>"

lemma boot_frames: "frames.free_slots (page_frame_map initial_page_manager_state) = {1..<32}"
proof -
  have "(True # replicate 31 False) ! i \<longleftrightarrow> i = 0" if "i < 32" for i
    using that by (cases i) simp_all
  then show ?thesis by (auto simp: frames.free_slots_def initial_page_manager_state_def Suc_le_eq)
qed

lemma boot_paging_inv: "paging_inv (boot_paging a c)"
proof -
  have "user_pages (boot_paging a c) = {}" by (auto simp: user_pages_def boot_paging_def)
  moreover have "frames_ok initial_page_manager_state"
    using boot_frames by (simp add: frames_ok_def) (simp add: initial_page_manager_state_def)
  ultimately show ?thesis by (simp add: paging_inv_def directories_ok_def boot_paging_def)
qed

text \<open>
  The steps the kernel can take: a new directory, a frame for a page of a used directory or
  its release, both below the kernel's page \<open>0x300\<close>, the release of a directory, and a switch.
\<close>

inductive paging_step :: "paging_state \<Rightarrow> paging_state \<Rightarrow> bool" where
  create: "paging_create_new_page_directory s = (r, s') \<Longrightarrow> paging_step s s'"
| allocate: "d < 32 \<Longrightarrow> page_directory_used s ! d \<Longrightarrow> page_index va \<noteq> 0x300 \<Longrightarrow>
    paging_allocate_user_page_frame (page_directory_list s ! d) va s = Ret (r, dir, s') \<Longrightarrow>
    paging_step s (store_directory d dir s')"
| free: "d < 32 \<Longrightarrow> page_directory_used s ! d \<Longrightarrow> page_index va \<noteq> 0x300 \<Longrightarrow>
    paging_free_user_page_frame (page_directory_list s ! d) va s = Ret (r, dir, s') \<Longrightarrow>
    paging_step s (store_directory d dir s')"
| drop: "paging_free_page_directory a s = (r, s') \<Longrightarrow> paging_step s s'"
| switch: "paging_step s (paging_use_page_directory a s)"

lemma store_directory_id [simp]: "store_directory d (page_directory_list s ! d) s = s"
  by (simp add: store_directory_def)

lemma paging_inv_switch: "paging_inv s \<Longrightarrow> paging_inv (paging_use_page_directory a s)"
proof -
  have "user_pages (paging_use_page_directory a s) = user_pages s" "directories_ok (paging_use_page_directory a s) = directories_ok s"
    "frame_of (paging_use_page_directory a s) = frame_of s"
    by (simp_all add: user_pages_def directories_ok_def frame_of_def paging_use_page_directory_def fun_eq_iff)
  then show "paging_inv s \<Longrightarrow> paging_inv (paging_use_page_directory a s)"
    by (simp add: paging_inv_def) (simp add: paging_use_page_directory_def)
qed

lemma paging_step_inv: "paging_step s s' \<Longrightarrow> paging_inv s \<Longrightarrow> paging_inv s'"
proof (induction rule: paging_step.induct)
  case (create s r s')
  note D = directories_okD(2) [OF paging_invD(2) [OF create(2)]]
  show ?case
  proof (cases "directories.free_slots (page_directory_used s) = {}")
    case False
    let ?d = "first_free_directory (page_directory_used s)"
    have d: "?d < 32" "\<not> page_directory_used s ! ?d"
      using directories.search_found(1) [OF D False] by (simp_all add: directories.free_slots_def)
    have "s' = store_directory ?d ((replicate 1024 zero_pde)[0x300 := kernel_higher_half])
        (s\<lparr>page_directory_used := (page_directory_used s)[?d := True]\<rparr>)"
      using create create_directory_result [of s] False by (simp only: Let_def if_False prod.inject)
    then show ?thesis using paging_inv_create(1) [OF create(2) d] by simp
  qed (use create create_directory_result [of s] in \<open>simp add: Let_def\<close>)
next
  case (allocate d s va r dir s')
  then show ?case
    using paging_allocate_result [OF paging_invD(1), of s "page_directory_list s ! d" va]
      paging_inv_allocate(1) [of s d va] by (auto split: if_splits)
next
  case (free d s va r dir s')
  show ?case
  proof (cases "present_bit (pde_flag (page_directory_list s ! d ! page_index va))")
    case True
    then have "(d, page_index va) \<in> user_pages s" using free by (simp add: user_pages_def)
    then show ?thesis
      using free paging_free_result [of s d va] paging_inv_free(1) [of s d "page_index va"] by auto
  qed (use free in \<open>auto simp: paging_free_user_page_frame_def Let_def\<close>)
next
  case (drop a s r s')
  show ?case
  proof (cases "\<exists>i<32. directory_addr s i = a")
    case True
    then show ?thesis using drop free_directory_result paging_inv_free_directory(1) by fastforce
  qed (use drop free_directory_unknown [of s a] in auto)
qed (rule paging_inv_switch)

interpretation paging: invariant_system "\<lambda>s. \<exists>a c. s = boot_paging a c" paging_step paging_inv
  using boot_paging_inv paging_step_inv by unfold_locales auto

end
