(* ===== verification/Paging_Props.thy ===== *)
theory Paging_Props
  imports Paging
begin

text \<open>
  The properties of paging: isolation of the user pages over every sequence of kernel steps,
  first-fit allocation, release, page directories, and the active directory.
\<close>

subsection \<open>Isolation\<close>

text \<open>
  C36. From boot on, over every sequence of directory creations, page allocations and releases,
  directory releases and switches, no two user pages of any processes translate to the
  same physical address, and no user page reaches the kernel's frame 0.
\<close>

theorem user_pages_isolated:
  assumes "reachable (\<lambda>s. \<exists>a c. s = boot_paging a c) paging_step s"
    and "(d, page_index va) \<in> user_pages s" "(d', page_index va') \<in> user_pages s"
    and "translate (page_directory_list s ! d) va = Some pa" "translate (page_directory_list s ! d') va' = Some pa"
  shows "d = d' \<and> va = va' \<and> 0x400000 \<le> unat pa"
proof -
  have inv: "paging_inv s" using assms(1) by (rule paging.reachable_inv)
  note I = paging_invD [OF inv]
  have pa: "pa = push_bit 22 (ucast (lower_address (pde_at s (d, page_index va)))) OR (va AND 0x3FFFFF)"
    "pa = push_bit 22 (ucast (lower_address (pde_at s (d', page_index va')))) OR (va' AND 0x3FFFFF)"
    using assms(4,5) by (auto simp: translate_def Let_def split: if_splits)
  have low: "ucast (drop_bit 22 pa) = lower_address (pde_at s (d, page_index va))"
    "ucast (drop_bit 22 pa) = lower_address (pde_at s (d', page_index va'))"
    using pa drop_bit_frame ucast_frame by metis+
  then have "frame_of s (d, page_index va) = frame_of s (d', page_index va')" by (simp add: frame_of_def)
  then have q: "d = d'" "page_index va = page_index va'" using inj_onD [OF I(7) _ assms(2,3)] by auto
  have "va AND 0x3FFFFF = va' AND 0x3FFFFF" using pa offset_frame by metis
  moreover have "drop_bit 22 va = drop_bit 22 va'" using q(2) by (simp add: page_index_shift word_unat_eq_iff)
  ultimately have "va = va'" by (metis split_address)
  moreover have "0x400000 \<le> unat pa"
  proof -
    have "drop_bit 22 pa \<noteq> 0" using low(1) I(4) [OF assms(2)] by (auto simp: frame_of_def)
    then have "0 < unat pa div 0x400000" by (simp add: drop_bit_eq_div word_unat_eq_iff unat_div)
    then show ?thesis by (simp add: div_greater_zero_iff)
  qed
  ultimately show ?thesis using q(1) by simp
qed

definition demo_dir :: PageDirectory where
  "demo_dir = (replicate 1024 zero_pde)[0x300 := kernel_higher_half]"

definition demo_paging :: paging_state where
  "demo_paging = store_directory 0 (demo_dir[1 := user_pde zero_pde 1])
     (frame_taken 1 0x400000 (store_directory 0 demo_dir
       ((boot_paging 0xC0100000 0)\<lparr>page_directory_used := (replicate 32 False)[0 := True]\<rparr>)))"

lemma demo_next: "first_free_frame (page_frame_map initial_page_manager_state) = 1"
  unfolding first_free_frame_def initial_page_manager_state_def
  by (rule scan_while_eqI) (simp_all add: nth_Cons')

lemma demo_reachable: "reachable (\<lambda>s. \<exists>a c. s = boot_paging a c) paging_step demo_paging"
proof -
  let ?b = "boot_paging 0xC0100000 0"
  let ?s = "store_directory 0 demo_dir (?b\<lparr>page_directory_used := (replicate 32 False)[0 := True]\<rparr>)"
  have z: "first_free_directory (replicate 32 False) = 0"
    by (simp add: first_free_directory_def scan_while.simps)
  have "(0 :: nat) \<in> directories.free_slots (page_directory_used ?b)"
    by (simp add: directories.free_slots_def boot_paging_def)
  then have "directories.free_slots (page_directory_used ?b) \<noteq> {}" by blast
  then have "paging_create_new_page_directory ?b = (Some 0, ?s)"
    using create_directory_result [OF boot_paging_inv, of "0xC0100000" 0] z
    by (simp add: Let_def demo_dir_def boot_paging_def)
  then have r: "reachable (\<lambda>s. \<exists>a c. s = boot_paging a c) paging_step ?s"
    by (blast intro: reachable_step reachable_init create)
  have m: "page_manager_state ?s = initial_page_manager_state" by (simp add: store_directory_def boot_paging_def)
  have i: "page_index 0x400000 = 1" by code_simp
  have f: "frames_ok (page_manager_state ?s)"
    using paging_invD(1) [OF boot_paging_inv [of 0 0]] m by (simp add: boot_paging_def)
  have "paging_allocate_user_page_frame (page_directory_list ?s ! 0) 0x400000 ?s =
      Ret (True, demo_dir[1 := user_pde zero_pde 1], frame_taken 1 0x400000 ?s)"
    using paging_allocate_result [OF f, of demo_dir "0x400000"] boot_frames i demo_next m
    by (simp add: store_directory_def boot_paging_def demo_dir_def)
  then have "paging_step ?s demo_paging"
    unfolding demo_paging_def
    by (intro allocate [where d = 0 and va = "0x400000"]) (simp_all add: i store_directory_def boot_paging_def)
  then show ?thesis by (rule reachable_step [OF r])
qed

lemma demo_entry: "page_directory_list demo_paging ! 0 ! 1 = user_pde zero_pde 1" "page_directory_used demo_paging ! 0"
  by (simp_all add: demo_paging_def store_directory_def frame_taken_def boot_paging_def demo_dir_def)

theorem user_pages_isolated_witness:
  "reachable (\<lambda>s. \<exists>a c. s = boot_paging a c) paging_step demo_paging \<and>
   translate (page_directory_list demo_paging ! 0) 0x400123 = Some 0x400123 \<and> 0x400000 \<le> unat (0x400123 :: u32)"
proof -
  have i: "page_index 0x400123 = 1" by code_simp
  have q: "(0, page_index 0x400123) \<in> user_pages demo_paging"
    using demo_entry by (simp add: i user_pages_def user_pde_def user_flag_def)
  have t: "translate (page_directory_list demo_paging ! 0) 0x400123 = Some 0x400123"
    using demo_entry by (simp add: translate_def i user_pde_def user_flag_def)
  show ?thesis using user_pages_isolated [OF demo_reachable q q t t] t demo_reachable by blast
qed

subsection \<open>Frames\<close>

text \<open>
  Allocating a page takes the lowest free frame and nothing else: the entry of the page
  gets the user flags and that frame, every other entry of every directory stays, the count
  of free frames drops by one and the TLB entry of the page is flushed; with no free frame
  the result is false and nothing changes.
\<close>

theorem paging_allocate_first_fit:
  assumes inv: "paging_inv s" and d: "d < 32" "page_directory_used s ! d" "page_index va \<noteq> 0x300"
  shows "if free_frames s = {}
    then paging_allocate_user_page_frame (page_directory_list s ! d) va s = Ret (False, page_directory_list s ! d, s)
    else \<exists>dir s'. paging_allocate_user_page_frame (page_directory_list s ! d) va s = Ret (True, dir, s') \<and>
      paging_inv (store_directory d dir s') \<and>
      frame_of (store_directory d dir s') (d, page_index va) = Min (free_frames s) \<and>
      free_frames (store_directory d dir s') = free_frames s - {Min (free_frames s)} \<and>
      (\<forall>q. q \<noteq> (d, page_index va) \<longrightarrow> pde_at (store_directory d dir s') q = pde_at s q) \<and>
      flushed s' = va # flushed s"
proof (cases "free_frames s = {}")
  case True
  then show ?thesis using paging_allocate_result [OF paging_invD(1) [OF inv]] by simp
next
  case False
  note F = frames_okD [OF paging_invD(1) [OF inv]] and N = next_frame_props [OF paging_invD(1) [OF inv] False]
  note A = paging_inv_allocate [OF inv d(1,2) False d(3)]
  let ?dir = "page_directory_list s ! d"
  have m: "Min (free_frames s) = next_frame s"
    using frames.search_found [OF F(1) False] by (intro Min_eqI) auto
  let ?dir' = "?dir[page_index va := user_pde (?dir ! page_index va) (next_frame s)]" and ?s = "frame_taken (next_frame s) va s"
  have f: "free_frames (store_directory d ?dir' ?s) = free_frames s - {next_frame s}"
    using frames.free_slots_acquire [OF F(1) N(2)] by (simp add: store_directory_def frame_taken_def)
  have r: "paging_allocate_user_page_frame ?dir va s = Ret (True, ?dir', ?s)" "flushed ?s = va # flushed s"
    using False paging_allocate_result [OF paging_invD(1) [OF inv], of ?dir va] by (simp_all add: frame_taken_def)
  show ?thesis
    unfolding if_not_P [OF False] m
    by (intro exI [of _ ?dir'] exI [of _ ?s] conjI allI impI) (fact r(1) A(1) A(2) f A(4) r(2))+
qed

lemma demo_inv: "paging_inv demo_paging"
  using demo_reachable by (rule paging.reachable_inv)

theorem paging_allocate_first_fit_witness:
  "\<exists>dir s'. paging_allocate_user_page_frame (page_directory_list demo_paging ! 0) 0 demo_paging = Ret (True, dir, s') \<and>
     flushed s' = [0, 0x400000]"
proof -
  have "2 \<in> free_frames demo_paging"
    by (simp add: frames.free_slots_def demo_paging_def store_directory_def frame_taken_def boot_paging_def
        initial_page_manager_state_def)
  then have ne: "free_frames demo_paging \<noteq> {}" by blast
  have "page_index 0 \<noteq> 0x300" by code_simp
  moreover have "flushed demo_paging = [0x400000]"
    by (simp add: demo_paging_def store_directory_def frame_taken_def boot_paging_def)
  ultimately show ?thesis
    using paging_allocate_first_fit [OF demo_inv _ demo_entry(2), of 0] unfolding if_not_P [OF ne] by auto
qed

text \<open>
  Releasing a user page clears its entry and makes exactly its frame free again; a page
  that is not present is refused without change.
\<close>

theorem paging_free_releases:
  assumes inv: "paging_inv s" and d: "d < 32" "page_directory_used s ! d" "page_index va \<noteq> 0x300"
  shows "if present_bit (pde_flag (pde_at s (d, page_index va)))
    then \<exists>dir s'. paging_free_user_page_frame (page_directory_list s ! d) va s = Ret (True, dir, s') \<and>
      paging_inv (store_directory d dir s') \<and> dir ! page_index va = zero_pde \<and>
      free_frames (store_directory d dir s') = insert (frame_of s (d, page_index va)) (free_frames s) \<and>
      user_pages (store_directory d dir s') = user_pages s - {(d, page_index va)}
    else paging_free_user_page_frame (page_directory_list s ! d) va s = Ret (False, page_directory_list s ! d, s)"
proof (cases "present_bit (pde_flag (pde_at s (d, page_index va)))")
  case True
  then have q: "(d, page_index va) \<in> user_pages s" using d by (simp add: user_pages_def)
  have "length (page_directory_list s ! d) = 1024" using directories_okD(3) [OF paging_invD(2) [OF inv] d(1)] .
  then show ?thesis using True paging_free_result [OF inv q] paging_inv_free [OF inv q] by simp
qed (simp add: paging_free_user_page_frame_def Let_def)

theorem paging_free_releases_witness:
  "\<exists>dir s'. paging_free_user_page_frame (page_directory_list demo_paging ! 0) 0x400000 demo_paging = Ret (True, dir, s') \<and>
     dir ! 1 = zero_pde"
proof -
  have i: "page_index 0x400000 = 1" by code_simp
  have "present_bit (pde_flag (pde_at demo_paging (0, 1)))"
    using demo_entry(1) by (simp add: user_pde_def user_flag_def)
  then show ?thesis
    using paging_free_releases [OF demo_inv _ demo_entry(2), of "0x400000"] unfolding i by auto
qed

subsection \<open>Directories\<close>

text \<open>
  A new page directory is the first unused one, holds only the kernel's entry and leaves
  all user pages as they are; when all 32 are in use the result is \<^verbatim>\<open>NULL\<close>.
\<close>

theorem paging_create_fresh:
  assumes inv: "paging_inv s"
  shows "case paging_create_new_page_directory s of
    (None, s') \<Rightarrow> s' = s \<and> (\<forall>i<32. page_directory_used s ! i)
  | (Some d, s') \<Rightarrow> d < 32 \<and> \<not> page_directory_used s ! d \<and> (\<forall>i<d. page_directory_used s ! i) \<and>
      page_directory_used s' ! d \<and> page_directory_list s' ! d = (replicate 1024 zero_pde)[0x300 := kernel_higher_half] \<and>
      paging_inv s' \<and> user_pages s' = user_pages s"
proof -
  note D = directories_okD [OF paging_invD(2) [OF inv]]
  let ?d = "first_free_directory (page_directory_used s)"
  show ?thesis
  proof (cases "directories.free_slots (page_directory_used s) = {}")
    case True
    then have "paging_create_new_page_directory s = (None, s)" using create_directory_result [OF inv] by (simp add: Let_def)
    then show ?thesis using True by (simp add: directories.free_slots_def)
  next
    case False
    have d: "?d < 32" "\<not> page_directory_used s ! ?d"
      using directories.search_found(1) [OF D(2) False] by (simp_all add: directories.free_slots_def)
    have r: "paging_create_new_page_directory s = (Some ?d, store_directory ?d ((replicate 1024 zero_pde)[0x300 := kernel_higher_half])
        (s\<lparr>page_directory_used := (page_directory_used s)[?d := True]\<rparr>))"
      using create_directory_result [OF inv] False by (simp only: Let_def if_False)
    show ?thesis
      using d D(1,2) directories.search_least [OF D(2)] paging_inv_create [OF inv d] unfolding r
      by (simp add: store_directory_def)
  qed
qed

theorem paging_create_fresh_witness: "fst (paging_create_new_page_directory (boot_paging 0xC0100000 0)) = Some 0"
proof -
  have u: "\<not> page_directory_used (boot_paging 0xC0100000 0) ! 0" by (simp add: boot_paging_def)
  obtain r s' where e: "paging_create_new_page_directory (boot_paging 0xC0100000 0) = (r, s')" by fastforce
  show ?thesis
  proof (cases r)
    case None
    then show ?thesis using paging_create_fresh [OF boot_paging_inv, of "0xC0100000" 0] u e by simp
  next
    case (Some d)
    then have "\<forall>i<d. page_directory_used (boot_paging 0xC0100000 0) ! i"
      using paging_create_fresh [OF boot_paging_inv, of "0xC0100000" 0] e by simp
    then have "d = 0" using u by (cases d) auto
    then show ?thesis using e Some by simp
  qed
qed

end
