(* ===== verification/Console.thy ===== *)
theory Console
  imports OS_Prelude
begin

text \<open>
  The text console: port I/O (\<^verbatim>\<open>src/src/portio.c\<close>), the VGA framebuffer
  (\<^verbatim>\<open>src/src/framebuffer.c\<close>) and the keyboard driver with its screen output
  (\<^verbatim>\<open>src/src/keyboard.c\<close>). The hardware behind the ports is a parameter: a record with the
  effect of the four port instructions on a device state. Video memory is a function from
  cell numbers to 16-bit cells.
\<close>

unbundle bit_operations_syntax

subsection \<open>Port I/O\<close>

record 'd ports =
  port_out :: "u16 \<Rightarrow> u8 \<Rightarrow> 'd \<Rightarrow> 'd"
  port_in :: "u16 \<Rightarrow> 'd \<Rightarrow> u8 \<times> 'd"
  port_out16 :: "u16 \<Rightarrow> u16 \<Rightarrow> 'd \<Rightarrow> 'd"
  port_in16 :: "u16 \<Rightarrow> 'd \<Rightarrow> u16 \<times> 'd"

subsection \<open>State\<close>

definition SCREEN_WIDTH :: nat where [simp]: "SCREEN_WIDTH = 80"
definition SCREEN_HEIGHT :: nat where [simp]: "SCREEN_HEIGHT = 25"
definition KEYBOARD_DATA_PORT :: u16 where [simp]: "KEYBOARD_DATA_PORT = 0x60"
definition KEYBOARD_BUFFER_SIZE :: nat where [simp]: "KEYBOARD_BUFFER_SIZE = 256"
definition CURSOR_PORT_CMD :: u16 where [simp]: "CURSOR_PORT_CMD = 0x3D4"
definition CURSOR_PORT_DATA :: u16 where [simp]: "CURSOR_PORT_DATA = 0x3D5"

record KeyboardDriverState =
  read_extended_mode :: bool
  keyboard_input_on :: bool
  keyboard_input :: u8

record 'd console =
  keyboard_driver_state :: KeyboardDriverState
  row_now :: u8
  col_now :: u8
  typed :: u8
  vram :: "nat \<Rightarrow> u16"
  device :: 'd

definition out :: "'d ports \<Rightarrow> u16 \<Rightarrow> u8 \<Rightarrow> 'd console \<Rightarrow> 'd console" where
  "out io port data s = s\<lparr>device := port_out io port data (device s)\<rparr>"

subsection \<open>Framebuffer\<close>

definition framebuffer_set_cursor :: "'d ports \<Rightarrow> u8 \<Rightarrow> u8 \<Rightarrow> 'd console \<Rightarrow> 'd console" where
  "framebuffer_set_cursor io r c s =
     (let pos = ucast r * 80 + ucast c :: u16;
          s = out io CURSOR_PORT_CMD 0x0F s;
          s = out io CURSOR_PORT_DATA (ucast (pos AND 0xFF)) s;
          s = out io CURSOR_PORT_CMD 0x0E s
      in out io CURSOR_PORT_DATA (ucast (drop_bit 8 pos AND 0xFF)) s)"

text \<open>
  \<^verbatim>\<open>char\<close> is signed: a character from \<open>0x80\<close> on fills the attribute byte with ones.
\<close>

definition cell_of :: "u8 \<Rightarrow> u8 \<Rightarrow> u8 \<Rightarrow> u16" where
  "cell_of c fg bg =
     (let attrib = push_bit 4 (ucast bg) OR (ucast fg AND 0x0F) :: u16 in scast c OR push_bit 8 attrib)"

definition cell_index :: "u8 \<Rightarrow> u8 \<Rightarrow> nat" where
  "cell_index row col = unat row * 80 + unat col"

definition framebuffer_write :: "u8 \<Rightarrow> u8 \<Rightarrow> u8 \<Rightarrow> u8 \<Rightarrow> u8 \<Rightarrow> 'd console \<Rightarrow> 'd console" where
  "framebuffer_write row col c fg bg s = s\<lparr>vram := (vram s)(cell_index row col := cell_of c fg bg)\<rparr>"

definition framebuffer_clear :: "'d console \<Rightarrow> 'd console" where
  "framebuffer_clear s =
     fold (\<lambda>i. fold (\<lambda>j. framebuffer_write (of_nat i) (of_nat j) 0 0x7 0) [0..<SCREEN_WIDTH]) [0..<SCREEN_HEIGHT] s"

subsection \<open>Screen output\<close>

definition putchar :: "'d ports \<Rightarrow> u8 \<Rightarrow> u32 \<Rightarrow> 'd console \<Rightarrow> 'd console" where
  "putchar io c color s =
     (let s = (if c = 10 then s\<lparr>row_now := row_now s + 1, col_now := 0, typed := 0\<rparr>
               else if c \<noteq> 0 then
                 let s = framebuffer_write (row_now s) (col_now s) c (ucast color) 0 s
                 in s\<lparr>col_now := col_now s + 1\<rparr>
               else s);
          s = framebuffer_write (row_now s) (col_now s) 0 0xF 0 s
      in framebuffer_set_cursor io (row_now s) (col_now s) s)"

text \<open>\<open>str\<close> are the \<^verbatim>\<open>len\<close> bytes from \<^verbatim>\<open>s\<close> on.\<close>

definition puts :: "'d ports \<Rightarrow> u8 list \<Rightarrow> u32 \<Rightarrow> 'd console \<Rightarrow> 'd console" where
  "puts io str color s = fold (\<lambda>c. putchar io c color) str s"

definition reset_write_position :: "'d console \<Rightarrow> 'd console" where
  "reset_write_position s = s\<lparr>row_now := 0, col_now := 0\<rparr>"

subsection \<open>Keyboard\<close>

definition keyboard_scancode_1_to_ascii_map :: "u8 list" where
  "keyboard_scancode_1_to_ascii_map =
     [0, 0x1B] @ map of_char ''1234567890-='' @ [8, 9] @
     map of_char ''qwertyuiop[]'' @ [10, 0] @ map of_char ''as'' @
     map of_char ''dfghjkl;'' @ [39, 96, 0, 92] @ map of_char ''zxcv'' @
     map of_char ''bnm,./'' @ [0] @ map of_char ''*'' @ [0] @ map of_char '' '' @ replicate 16 0 @
     map of_char ''-'' @ replicate 3 0 @ map of_char ''+'' @ replicate 177 0"

definition keyboard_state_activate :: "'d console \<Rightarrow> 'd console" where
  "keyboard_state_activate s =
     s\<lparr>keyboard_driver_state := (keyboard_driver_state s)\<lparr>keyboard_input_on := True, keyboard_input := 0\<rparr>\<rparr>"

definition keyboard_state_deactivate :: "'d console \<Rightarrow> 'd console" where
  "keyboard_state_deactivate s =
     s\<lparr>keyboard_driver_state := (keyboard_driver_state s)\<lparr>keyboard_input_on := False\<rparr>\<rparr>"

text \<open>The result is the byte stored through \<^verbatim>\<open>buf\<close>.\<close>

definition get_keyboard_buffer :: "'d console \<Rightarrow> u8 \<times> 'd console" where
  "get_keyboard_buffer s =
     (keyboard_input (keyboard_driver_state s),
      s\<lparr>keyboard_driver_state := (keyboard_driver_state s)\<lparr>keyboard_input := 0\<rparr>\<rparr>)"

definition is_keyboard_blocking :: "'d console \<Rightarrow> bool" where
  "is_keyboard_blocking s = keyboard_input_on (keyboard_driver_state s)"

definition pic_ack :: "'d ports \<Rightarrow> u8 \<Rightarrow> 'd console \<Rightarrow> 'd console" where
  "pic_ack io irq s =
     (let s = (if irq \<ge> 8 then out io 0xA0 0x20 s else s) in out io 0x20 0x20 s)"

definition type_blank :: "'d console \<Rightarrow> 'd console" where
  "type_blank s =
     (let s = framebuffer_write (row_now s) (col_now s) 32 0 0 s
      in s\<lparr>col_now := col_now s + 1, typed := typed s + 1\<rparr>)"

definition keyboard_key :: "'d ports \<Rightarrow> u8 \<Rightarrow> 'd console \<Rightarrow> 'd console" where
  "keyboard_key io ascii_char s =
     (let s = s\<lparr>keyboard_driver_state := (keyboard_driver_state s)\<lparr>keyboard_input := ascii_char\<rparr>\<rparr>;
          s = (if ascii_char = 10 then keyboard_state_deactivate (putchar io ascii_char 0 s)
               else if ascii_char = 8 then
                 if typed s > 0 then
                   let s = framebuffer_write (row_now s) (col_now s) 32 0 0 s;
                       s = framebuffer_set_cursor io (row_now s) (col_now s) s
                   in s\<lparr>col_now := col_now s - 1, typed := typed s - 1\<rparr>
                 else s
               else if ascii_char = 9 then type_blank (type_blank s)
               else if ascii_char \<noteq> 0 \<and> unat (typed s) < KEYBOARD_BUFFER_SIZE - 1 then
                 let s = putchar io ascii_char 0xF s in s\<lparr>typed := typed s + 1\<rparr>
               else s)
      in putchar io 0 0xF s)"

definition keyboard_isr :: "'d ports \<Rightarrow> 'd console \<Rightarrow> 'd console" where
  "keyboard_isr io s =
     (let (scancode, d) = port_in io KEYBOARD_DATA_PORT (device s);
          s = s\<lparr>device := d\<rparr>;
          s = (if scancode AND 0x80 \<noteq> 0 then s
               else if keyboard_input_on (keyboard_driver_state s) then
                 keyboard_key io (keyboard_scancode_1_to_ascii_map ! unat scancode) s
               else s)
      in pic_ack io 1 s)"

subsection \<open>Facts about output\<close>

lemma out_sel [simp]:
  "keyboard_driver_state (out io p d s) = keyboard_driver_state s" "row_now (out io p d s) = row_now s"
  "col_now (out io p d s) = col_now s" "typed (out io p d s) = typed s" "vram (out io p d s) = vram s"
  by (simp_all add: out_def)

lemma set_cursor_sel [simp]:
  "keyboard_driver_state (framebuffer_set_cursor io r c s) = keyboard_driver_state s"
  "row_now (framebuffer_set_cursor io r c s) = row_now s" "col_now (framebuffer_set_cursor io r c s) = col_now s"
  "typed (framebuffer_set_cursor io r c s) = typed s" "vram (framebuffer_set_cursor io r c s) = vram s"
  by (simp_all add: framebuffer_set_cursor_def Let_def)

lemma framebuffer_write_sel [simp]:
  "keyboard_driver_state (framebuffer_write r c x f b s) = keyboard_driver_state s"
  "row_now (framebuffer_write r c x f b s) = row_now s" "col_now (framebuffer_write r c x f b s) = col_now s"
  "typed (framebuffer_write r c x f b s) = typed s" "device (framebuffer_write r c x f b s) = device s"
  "vram (framebuffer_write r c x f b s) = (vram s)(cell_index r c := cell_of x f b)"
  by (simp_all add: framebuffer_write_def)

lemma pic_ack_sel [simp]:
  "keyboard_driver_state (pic_ack io i s) = keyboard_driver_state s" "row_now (pic_ack io i s) = row_now s"
  "col_now (pic_ack io i s) = col_now s" "typed (pic_ack io i s) = typed s" "vram (pic_ack io i s) = vram s"
  by (simp_all add: pic_ack_def Let_def)

lemma putchar_char:
  assumes "c \<noteq> 0" "c \<noteq> 10"
  shows "row_now (putchar io c color s) = row_now s" "col_now (putchar io c color s) = col_now s + 1"
    "typed (putchar io c color s) = typed s" "keyboard_driver_state (putchar io c color s) = keyboard_driver_state s"
    "vram (putchar io c color s) = (vram s)(cell_index (row_now s) (col_now s) := cell_of c (ucast color) 0,
       cell_index (row_now s) (col_now s + 1) := cell_of 0 0xF 0)"
  using assms by (simp_all add: putchar_def Let_def)

lemma putchar_newline:
  "row_now (putchar io 10 color s) = row_now s + 1" "col_now (putchar io 10 color s) = 0" "typed (putchar io 10 color s) = 0"
  "keyboard_driver_state (putchar io 10 color s) = keyboard_driver_state s"
  "vram (putchar io 10 color s) = (vram s)(cell_index (row_now s + 1) 0 := cell_of 0 0xF 0)"
  by (simp_all add: putchar_def Let_def)

lemma putchar_nul:
  "row_now (putchar io 0 color s) = row_now s" "col_now (putchar io 0 color s) = col_now s" "typed (putchar io 0 color s) = typed s"
  "keyboard_driver_state (putchar io 0 color s) = keyboard_driver_state s"
  "vram (putchar io 0 color s) = (vram s)(cell_index (row_now s) (col_now s) := cell_of 0 0xF 0)"
  by (simp_all add: putchar_def Let_def)

lemma unat_u8_succ: "unat (c :: u8) + 1 < 256 \<Longrightarrow> unat (c + 1) = unat c + 1"
  by (simp add: unat_word_ariths)

lemma cell_index_next: "unat c + 1 < 256 \<Longrightarrow> cell_index r (c + 1) = cell_index r c + 1"
  using unat_u8_succ [of c] by (simp add: cell_index_def)

definition line_cells :: "nat \<Rightarrow> u8 list \<Rightarrow> u32 \<Rightarrow> (nat \<Rightarrow> u16) \<Rightarrow> nat \<Rightarrow> u16" where
  "line_cells i str color v = (\<lambda>k.
     if i \<le> k \<and> k < i + length str then cell_of (str ! (k - i)) (ucast color) 0
     else if k = i + length str \<and> str \<noteq> [] then cell_of 0 0xF 0 else v k)"

lemma line_cells_Cons:
  "line_cells (Suc i) str color (v(i := cell_of c (ucast color) 0, Suc i := cell_of 0 0xF 0)) = line_cells i (c # str) color v"
proof
  fix k
  consider "k < i" | "k = i" | "i < k" "k < Suc i + length str" | "k = Suc i + length str" | "Suc i + length str < k" by linarith
  then show "line_cells (Suc i) str color (v(i := cell_of c (ucast color) 0, Suc i := cell_of 0 0xF 0)) k = line_cells i (c # str) color v k"
    by cases (auto simp: line_cells_def nth_Cons')
qed

lemma puts_line:
  assumes "0 \<notin> set str" "10 \<notin> set str" "unat (col_now s) + length str < 256"
  shows "row_now (puts io str color s) = row_now s \<and> unat (col_now (puts io str color s)) = unat (col_now s) + length str \<and>
    typed (puts io str color s) = typed s \<and>
    keyboard_driver_state (puts io str color s) = keyboard_driver_state s \<and>
    vram (puts io str color s) = line_cells (cell_index (row_now s) (col_now s)) str color (vram s)"
  using assms
proof (induction str arbitrary: s)
  case Nil
  then show ?case by (auto simp: puts_def line_cells_def fun_eq_iff)
next
  case (Cons c str)
  have c: "c \<noteq> 0" "c \<noteq> 10" and b: "unat (col_now s) + 1 < 256" using Cons.prems by auto
  note P = putchar_char [OF c, of io color s]
  have u: "unat (col_now (putchar io c color s)) = unat (col_now s) + 1" using P(2) unat_u8_succ [OF b] by simp
  have p: "puts io (c # str) color s = puts io str color (putchar io c color s)" by (simp add: puts_def)
  let ?s = "putchar io c color s"
  have "0 \<notin> set str" "10 \<notin> set str" "unat (col_now ?s) + length str < 256" using u Cons.prems by simp_all
  note IH = Cons.IH [OF this]
  have "vram (puts io str color ?s) = line_cells (cell_index (row_now ?s) (col_now ?s)) str color (vram ?s)"
    using IH by blast
  also have "\<dots> = line_cells (cell_index (row_now s) (col_now s)) (c # str) color (vram s)"
    unfolding P(1,2,5) cell_index_next [OF b] Suc_eq_plus1 [symmetric] by (rule line_cells_Cons)
  finally show ?case unfolding p using IH u P(1,3,4) by simp
qed

lemma fold_write_row:
  assumes "n \<le> 256" "r < 256"
  shows "vram (fold (\<lambda>j. framebuffer_write (of_nat r) (of_nat j) c f b) [0..<n] s) =
    (\<lambda>k. if r * 80 \<le> k \<and> k < r * 80 + n then cell_of c f b else vram s k)"
  using assms(1)
proof (induction n)
  case (Suc n)
  then have "cell_index (of_nat r) (of_nat n) = r * 80 + n"
    using assms(2) by (simp add: cell_index_def unat_of_nat)
  with Suc show ?case by (auto simp: fun_eq_iff)
qed (auto simp: fun_eq_iff)

lemma fold_write_rows:
  assumes "n \<le> 25"
  shows "vram (fold (\<lambda>i. fold (\<lambda>j. framebuffer_write (of_nat i) (of_nat j) c f b) [0..<80]) [0..<n] s) =
    (\<lambda>k. if k < n * 80 then cell_of c f b else vram s k)"
  using assms
proof (induction n)
  case (Suc n)
  let ?s = "fold (\<lambda>i. fold (\<lambda>j. framebuffer_write (of_nat i) (of_nat j) c f b) [0..<80]) [0..<n] s"
  have "vram (fold (\<lambda>j. framebuffer_write (of_nat n) (of_nat j) c f b) [0..<80] ?s) =
      (\<lambda>k. if n * 80 \<le> k \<and> k < n * 80 + 80 then cell_of c f b else vram ?s k)"
    using Suc.prems by (intro fold_write_row) simp_all
  with Suc show ?case by (simp add: fun_eq_iff)
qed (auto simp: fun_eq_iff)

lemma fold_write_frame:
  "row_now (fold (\<lambda>j. framebuffer_write (r j) (q j) c f b) js s) = row_now s"
  "col_now (fold (\<lambda>j. framebuffer_write (r j) (q j) c f b) js s) = col_now s"
  "device (fold (\<lambda>j. framebuffer_write (r j) (q j) c f b) js s) = device s"
  "typed (fold (\<lambda>j. framebuffer_write (r j) (q j) c f b) js s) = typed s"
  "keyboard_driver_state (fold (\<lambda>j. framebuffer_write (r j) (q j) c f b) js s) = keyboard_driver_state s"
  by (induction js arbitrary: s) simp_all

text \<open>
  Clearing the screen sets each of the 25 times 80 visible cells to the empty character in
  grey on black and touches no other video memory.
\<close>

theorem framebuffer_clear_spec:
  "vram (framebuffer_clear s) = (\<lambda>k. if k < 2000 then 0x0700 else vram s k)"
proof -
  have "cell_of 0 7 0 = 0x0700" by code_simp
  then show ?thesis using fold_write_rows [of 25 0 7 0 s] by (simp add: framebuffer_clear_def fun_eq_iff)
qed

text \<open>
  Writing a string without NUL and newline characters puts its characters in the given
  colour into consecutive cells from the write position on, the empty character behind
  them, and nothing anywhere else; the write position advances by its length.
\<close>

theorem puts_spec:
  assumes "0 \<notin> set str" "10 \<notin> set str" "unat (col_now s) + length str < 256"
  shows "vram (puts io str color s) = line_cells (cell_index (row_now s) (col_now s)) str color (vram s) \<and>
    row_now (puts io str color s) = row_now s \<and> unat (col_now (puts io str color s)) = unat (col_now s) + length str"
  using puts_line [OF assms] by blast

definition null_ports :: "unit ports" where
  "null_ports = \<lparr>port_out = (\<lambda>_ _ d. d), port_in = (\<lambda>_ d. (0x1E, d)), port_out16 = (\<lambda>_ _ d. d), port_in16 = (\<lambda>_ d. (0, d))\<rparr>"

definition blank_console :: "unit console" where
  "blank_console = \<lparr>keyboard_driver_state = \<lparr>read_extended_mode = False, keyboard_input_on = True, keyboard_input = 0\<rparr>,
     row_now = 3, col_now = 5, typed = 0, vram = (\<lambda>_. 0), device = ()\<rparr>"

theorem puts_spec_witness:
  "vram (puts null_ports [72, 105] 0xF blank_console) 246 = 0x0F69"
proof -
  have "cell_of 105 0xF 0 = 0x0F69" by code_simp
  then show ?thesis
    using puts_spec [of "[72, 105]" blank_console null_ports "0xF"]
    by (simp add: line_cells_def cell_index_def) (simp add: blank_console_def)
qed

text \<open>What one key does to the screen, case by case.\<close>

lemma keyboard_key_effect:
  fixes io :: "'d ports"
  defines "k \<equiv> \<lambda>c s. keyboard_key io c s" and "at \<equiv> \<lambda>s. cell_index (row_now s)"
  shows
    "keyboard_driver_state (k c s) = (keyboard_driver_state s)\<lparr>keyboard_input := c,
       keyboard_input_on := (c \<noteq> 10 \<and> keyboard_input_on (keyboard_driver_state s))\<rparr>"
    "row_now (k c s) = (if c = 10 then row_now s + 1 else row_now s)"
    "(col_now (k c s), typed (k c s), vram (k c s)) =
      (if c = 10 then (0, 0, (vram s)(cell_index (row_now s + 1) 0 := cell_of 0 0xF 0))
       else if c = 8 \<and> 0 < typed s then
         (col_now s - 1, typed s - 1, (vram s)(at s (col_now s) := cell_of 32 0 0, at s (col_now s - 1) := cell_of 0 0xF 0))
       else if c = 9 then (col_now s + 2, typed s + 2,
         (vram s)(at s (col_now s) := cell_of 32 0 0, at s (col_now s + 1) := cell_of 32 0 0, at s (col_now s + 2) := cell_of 0 0xF 0))
       else if c \<noteq> 0 \<and> c \<noteq> 8 \<and> typed s < 255 then (col_now s + 1, typed s + 1,
         (vram s)(at s (col_now s) := cell_of c 0xF 0, at s (col_now s + 1) := cell_of 0 0xF 0))
       else (col_now s, typed s, (vram s)(at s (col_now s) := cell_of 0 0xF 0)))"
proof -
  note defs = keyboard_key_def type_blank_def putchar_nul putchar_newline keyboard_state_deactivate_def k_def at_def Let_def
  have t: "unat (typed s) < 255 \<longleftrightarrow> typed s < 255" by (simp add: word_less_nat_alt)
  have d: "keyboard_driver_state (putchar io x col s) = keyboard_driver_state s"
      "row_now (putchar io x col s) = (if x = 10 then row_now s + 1 else row_now s)" for x col s
    by (simp_all add: putchar_def Let_def)
  show "keyboard_driver_state (k c s) = (keyboard_driver_state s)\<lparr>keyboard_input := c,
       keyboard_input_on := (c \<noteq> 10 \<and> keyboard_input_on (keyboard_driver_state s))\<rparr>"
    by (simp add: defs d)
  show "row_now (k c s) = (if c = 10 then row_now s + 1 else row_now s)" by (simp add: defs d)
  consider "c = 10" | "c = 8" | "c = 9" | "c = 0" | "c \<notin> {0, 8, 9, 10}" by blast
  then show "(col_now (k c s), typed (k c s), vram (k c s)) =
      (if c = 10 then (0, 0, (vram s)(cell_index (row_now s + 1) 0 := cell_of 0 0xF 0))
       else if c = 8 \<and> 0 < typed s then
         (col_now s - 1, typed s - 1, (vram s)(at s (col_now s) := cell_of 32 0 0, at s (col_now s - 1) := cell_of 0 0xF 0))
       else if c = 9 then (col_now s + 2, typed s + 2,
         (vram s)(at s (col_now s) := cell_of 32 0 0, at s (col_now s + 1) := cell_of 32 0 0, at s (col_now s + 2) := cell_of 0 0xF 0))
       else if c \<noteq> 0 \<and> c \<noteq> 8 \<and> typed s < 255 then (col_now s + 1, typed s + 1,
         (vram s)(at s (col_now s) := cell_of c 0xF 0, at s (col_now s + 1) := cell_of 0 0xF 0))
       else (col_now s, typed s, (vram s)(at s (col_now s) := cell_of 0 0xF 0)))"
  proof cases
    case 5
    then show ?thesis using t putchar_char [of c io "0xF"] by (simp add: defs)
  qed (simp_all add: defs add.commute [of 2])
qed

text \<open>
  C39. The keyboard interrupt, on every key. A key release, and any key while input is off, changes
  nothing. Otherwise the character of the key becomes the pending input, and: Enter turns
  input off and moves to the start of the next row; backspace blanks the cell of the cursor and
  steps back, if anything was typed; tab writes two blanks; a printable character is shown in white,
  as long as fewer than 255 keys count as typed; a key without a character, a printable one on a full
  line and backspace on an empty one change neither position nor count. Each of them puts the empty
  character at the new position and nothing anywhere else. The interrupt is acknowledged in
  every case.
\<close>

theorem keyboard_isr_spec:
  assumes i: "port_in io 0x60 (device s) = (sc, d)"
  defines "s' \<equiv> keyboard_isr io s" and "c \<equiv> keyboard_scancode_1_to_ascii_map ! unat sc"
    and "at \<equiv> cell_index (row_now s)"
  shows "(\<exists>d'. device s' = port_out io 0x20 0x20 d') \<and>
    (if sc AND 0x80 \<noteq> 0 \<or> \<not> keyboard_input_on (keyboard_driver_state s) then s' = s\<lparr>device := port_out io 0x20 0x20 d\<rparr>
     else keyboard_driver_state s' = (keyboard_driver_state s)\<lparr>keyboard_input := c, keyboard_input_on := c \<noteq> 10\<rparr> \<and>
      row_now s' = (if c = 10 then row_now s + 1 else row_now s) \<and>
      (col_now s', typed s', vram s') =
      (if c = 10 then (0, 0, (vram s)(cell_index (row_now s + 1) 0 := cell_of 0 0xF 0))
       else if c = 8 \<and> 0 < typed s then
         (col_now s - 1, typed s - 1, (vram s)(at (col_now s) := cell_of 32 0 0, at (col_now s - 1) := cell_of 0 0xF 0))
       else if c = 9 then (col_now s + 2, typed s + 2,
         (vram s)(at (col_now s) := cell_of 32 0 0, at (col_now s + 1) := cell_of 32 0 0, at (col_now s + 2) := cell_of 0 0xF 0))
       else if c \<noteq> 0 \<and> c \<noteq> 8 \<and> typed s < 255 then (col_now s + 1, typed s + 1,
         (vram s)(at (col_now s) := cell_of c 0xF 0, at (col_now s + 1) := cell_of 0 0xF 0))
       else (col_now s, typed s, (vram s)(at (col_now s) := cell_of 0 0xF 0))))"
proof -
  let ?on = "sc AND 0x80 = 0 \<and> keyboard_input_on (keyboard_driver_state s)"
  have s': "s' = pic_ack io 1 (if ?on then keyboard_key io c (s\<lparr>device := d\<rparr>) else s\<lparr>device := d\<rparr>)"
    using i by (auto simp: s'_def keyboard_isr_def c_def Let_def)
  have "device (pic_ack io 1 x) = port_out io 0x20 0x20 (device x)" for x :: "'a console"
    by (simp add: pic_ack_def out_def word_le_nat_alt)
  then have a: "\<exists>d'. device s' = port_out io 0x20 0x20 d'" unfolding s' by metis
  show ?thesis
  proof (cases ?on)
    case True
    then have "s' = pic_ack io 1 (keyboard_key io c (s\<lparr>device := d\<rparr>))" using s' by simp
    then show ?thesis using a True keyboard_key_effect [of io c "s\<lparr>device := d\<rparr>"] unfolding at_def by simp
  next
    case False
    then show ?thesis using a by (auto simp: s' pic_ack_def out_def Let_def word_le_nat_alt)
  qed
qed

theorem keyboard_isr_spec_witness:
  "keyboard_input (keyboard_driver_state (keyboard_isr null_ports blank_console)) = 97 \<and> col_now (keyboard_isr null_ports blank_console) = 6"
proof -
  have "keyboard_scancode_1_to_ascii_map ! 0x1E = 97" by code_simp
  then show ?thesis
    using keyboard_isr_spec [of null_ports blank_console "0x1E" "()"] by (simp add: null_ports_def blank_console_def)
qed

text \<open>
  Backspace undoes a typed character: write position and count are as before and the cell
  of the character is empty.
\<close>

theorem backspace_undoes_key:
  fixes io :: "'d ports"
  assumes "c \<notin> {0, 8, 9, 10}" "typed s < 255" "col_now s < 255"
  defines "s' \<equiv> keyboard_key io 8 (keyboard_key io c s)"
  shows "row_now s' = row_now s \<and> col_now s' = col_now s \<and> typed s' = typed s \<and>
    vram s' (cell_index (row_now s) (col_now s)) = cell_of 0 0xF 0 \<and>
    (\<forall>k. k \<noteq> cell_index (row_now s) (col_now s) \<and> k \<noteq> cell_index (row_now s) (col_now s) + 1 \<longrightarrow> vram s' k = vram s k)"
proof -
  let ?k = "s\<lparr>keyboard_driver_state := (keyboard_driver_state s)\<lparr>keyboard_input := c\<rparr>\<rparr>"
  let ?s1 = "putchar io c 0xF ?k"
  have c: "c \<noteq> 0" "c \<noteq> 10" and t: "unat (typed s) < 255" using assms(1,2) by (auto simp: word_less_nat_alt)
  have k1: "keyboard_key io c s = putchar io 0 0xF (?s1\<lparr>typed := typed ?s1 + 1\<rparr>)"
    using assms(1) t putchar_char(3) [OF c, of io "0xF" ?k] by (simp add: keyboard_key_def Let_def)
  note P = putchar_char [OF c, of io "0xF" ?k]
  have K: "row_now (keyboard_key io c s) = row_now s" "col_now (keyboard_key io c s) = col_now s + 1"
    "typed (keyboard_key io c s) = typed s + 1" "vram (keyboard_key io c s) =
      (vram s)(cell_index (row_now s) (col_now s) := cell_of c 0xF 0, cell_index (row_now s) (col_now s + 1) := cell_of 0 0xF 0)"
    using P by (simp_all add: k1 putchar_nul)
  have pos: "typed s + 1 > 0"
    using t by (simp add: word_less_nat_alt unat_word_ariths)
  have n: "cell_index (row_now s) (col_now s + 1) = cell_index (row_now s) (col_now s) + 1"
    using assms(3) by (intro cell_index_next) (simp add: word_less_nat_alt)
  have "row_now s' = row_now s" "col_now s' = col_now s" "typed s' = typed s"
    "vram s' = (vram s)(cell_index (row_now s) (col_now s) := cell_of c 0xF 0,
       cell_index (row_now s) (col_now s) + 1 := cell_of 32 0 0, cell_index (row_now s) (col_now s) := cell_of 0 0xF 0)"
    using K pos n by (simp_all add: s'_def keyboard_key_def [of io 8] Let_def putchar_nul)
  then show ?thesis by simp
qed

theorem backspace_undoes_key_witness:
  "col_now (keyboard_key null_ports 8 (keyboard_key null_ports 97 blank_console)) = 5"
  using backspace_undoes_key [of 97 blank_console null_ports] by (simp add: blank_console_def)

end
