(* ===== verification/Disk.thy ===== *)
theory Disk
  imports Block_Device Console
begin

text \<open>
  The ATA PIO driver, \<^verbatim>\<open>src/src/disk.c\<close>: the two waiting loops, the command sequence and the
  transfer loops over the data port. The drive behind the ports is a parameter; what the
  driver relies on (the ATA PIO protocol for 28-bit addresses) is the predicate
  \<open>ata_contract\<close>. Under it the two routines are the block store of \<open>Block_Device\<close>, on
  which the FAT32 driver is built.
\<close>

unbundle bit_operations_syntax

subsection \<open>The driver\<close>

definition ATA_STATUS_BSY :: u8 where "ATA_STATUS_BSY = 0x80"
definition ATA_STATUS_RDY :: u8 where "ATA_STATUS_RDY = 0x40"
definition HALF_BLOCK_SIZE :: nat where [simp]: "HALF_BLOCK_SIZE = BLOCK_SIZE div 2"

partial_function (option) ATA_busy_wait :: "'d ports \<Rightarrow> 'd \<Rightarrow> 'd run" where
  "ATA_busy_wait io d =
     (let (v, d) = port_in io 0x1F7 d in if v AND ATA_STATUS_BSY \<noteq> 0 then ATA_busy_wait io d else Ret d)"

partial_function (option) ATA_DRQ_wait :: "'d ports \<Rightarrow> 'd \<Rightarrow> 'd run" where
  "ATA_DRQ_wait io d =
     (let (v, d) = port_in io 0x1F7 d in if v AND ATA_STATUS_RDY = 0 then ATA_DRQ_wait io d else Ret d)"

definition ata_command :: "'d ports \<Rightarrow> u32 \<Rightarrow> u8 \<Rightarrow> u8 \<Rightarrow> 'd \<Rightarrow> 'd" where
  "ata_command io logical_block_address block_count cmd d =
     (let d = port_out io 0x1F6 (0xE0 OR ucast (drop_bit 24 logical_block_address AND 0xF)) d;
          d = port_out io 0x1F2 block_count d;
          d = port_out io 0x1F3 (ucast logical_block_address) d;
          d = port_out io 0x1F4 (ucast (drop_bit 8 logical_block_address)) d;
          d = port_out io 0x1F5 (ucast (drop_bit 16 logical_block_address)) d
      in port_out io 0x1F7 cmd d)"

definition ata_wait :: "'d ports \<Rightarrow> 'd \<Rightarrow> 'd run" where
  "ata_wait io d = run_bind (ATA_busy_wait io d) (ATA_DRQ_wait io)"

definition read_half_words :: "'d ports \<Rightarrow> u32 \<Rightarrow> nat \<Rightarrow> mem \<times> 'd \<Rightarrow> mem \<times> 'd" where
  "read_half_words io target n =
     fold (\<lambda>j (m, d). let (w, d) = port_in16 io 0x1F0 d in (mem_write m (target + of_nat (2 * j)) (enc_u16 w), d))
       [0..<n]"

primrec read_blocks_loop :: "'d ports \<Rightarrow> nat \<Rightarrow> u32 \<Rightarrow> mem \<Rightarrow> 'd \<Rightarrow> (mem \<times> 'd) run" where
  "read_blocks_loop io 0 target m d = Ret (m, d)"
| "read_blocks_loop io (Suc k) target m d =
     run_bind (ata_wait io d) (\<lambda>d.
     case read_half_words io target HALF_BLOCK_SIZE (m, d) of
       (m, d) \<Rightarrow> read_blocks_loop io k (target + of_nat BLOCK_SIZE) m d)"

definition ata_read_blocks :: "'d ports \<Rightarrow> u32 \<Rightarrow> u32 \<Rightarrow> u8 \<Rightarrow> mem \<Rightarrow> 'd \<Rightarrow> (mem \<times> 'd) run" where
  "ata_read_blocks io ptr logical_block_address block_count m d =
     run_bind (ATA_busy_wait io d) (\<lambda>d.
     read_blocks_loop io (unat block_count) ptr m (ata_command io logical_block_address block_count 0x20 d))"

definition write_half_words :: "'d ports \<Rightarrow> mem \<Rightarrow> u32 \<Rightarrow> nat \<Rightarrow> 'd \<Rightarrow> 'd" where
  "write_half_words io m src n =
     fold (\<lambda>j. port_out16 io 0x1F0 (dec_u16 (mem_read m (src + of_nat (2 * j)) 2))) [0..<n]"

primrec write_blocks_loop :: "'d ports \<Rightarrow> nat \<Rightarrow> mem \<Rightarrow> u32 \<Rightarrow> nat \<Rightarrow> 'd \<Rightarrow> 'd run" where
  "write_blocks_loop io 0 m ptr i d = Ret d"
| "write_blocks_loop io (Suc k) m ptr i d =
     run_bind (ata_wait io d) (\<lambda>d.
     write_blocks_loop io k m ptr (Suc i)
       (write_half_words io m (ptr + of_nat (BLOCK_SIZE * i)) HALF_BLOCK_SIZE d))"

definition ata_write_blocks :: "'d ports \<Rightarrow> u32 \<Rightarrow> u32 \<Rightarrow> u8 \<Rightarrow> mem \<Rightarrow> 'd \<Rightarrow> 'd run" where
  "ata_write_blocks io ptr logical_block_address block_count m d =
     run_bind (ATA_busy_wait io d) (\<lambda>d.
     write_blocks_loop io (unat block_count) m ptr 0 (ata_command io logical_block_address block_count 0x30 d))"

subsection \<open>The drive\<close>

text \<open>
  What can be observed of a drive: the blocks it stores, its command registers, the transfer
  in progress (the bytes it still delivers, or the address of the block it is filling, the
  number of blocks to come and the bytes received) and for how many status reads it will
  still report busy.
\<close>

datatype transfer = Data_In "u8 list" | Data_Out u32 nat "u8 list"

record drive =
  stored :: disk
  regs :: "u16 \<Rightarrow> u8"
  phase :: transfer
  delay :: nat

fun transfer_done :: "transfer \<Rightarrow> bool" where
  "transfer_done (Data_In bs) \<longleftrightarrow> bs = []"
| "transfer_done (Data_Out lba k bs) \<longleftrightarrow> k = 0"

definition ready :: "drive \<Rightarrow> bool" where
  "ready x \<longleftrightarrow> delay x = 0"

definition register_address :: "(u16 \<Rightarrow> u8) \<Rightarrow> u32" where
  "register_address r =
     ucast (r 0x1F3) OR push_bit 8 (ucast (r 0x1F4)) OR push_bit 16 (ucast (r 0x1F5)) OR
     push_bit 24 (ucast (r 0x1F6 AND 0xF))"

definition command_accepted :: "nat \<Rightarrow> drive \<Rightarrow> bool" where
  "command_accepted capacity x \<longleftrightarrow>
     ready x \<and> transfer_done (phase x) \<and> regs x 0x1F6 AND 0xF0 = 0xE0 \<and> regs x 0x1F2 \<noteq> 0 \<and>
     unat (register_address (regs x)) + unat (regs x 0x1F2) \<le> capacity"

text \<open>A status read changes nothing but the remaining time; a busy drive becomes ready.\<close>

definition status_law :: "'d ports \<Rightarrow> ('d \<Rightarrow> drive) \<Rightarrow> bool" where
  "status_law io obs \<longleftrightarrow>
     (\<forall>d v d'. port_in io 0x1F7 d = (v, d') \<longrightarrow>
        (v AND ATA_STATUS_BSY \<noteq> 0 \<longleftrightarrow> \<not> ready (obs d)) \<and> (ready (obs d) \<longrightarrow> v AND ATA_STATUS_RDY \<noteq> 0) \<and>
        obs d' = (obs d)\<lparr>delay := delay (obs d) - 1\<rparr>)"

definition register_law :: "'d ports \<Rightarrow> ('d \<Rightarrow> drive) \<Rightarrow> bool" where
  "register_law io obs \<longleftrightarrow>
     (\<forall>d p v. p \<in> {0x1F2, 0x1F3, 0x1F4, 0x1F5, 0x1F6} \<and> ready (obs d) \<and> transfer_done (phase (obs d)) \<longrightarrow>
        obs (port_out io p v d) = (obs d)\<lparr>regs := (regs (obs d))(p := v)\<rparr>)"

definition command_law :: "'d ports \<Rightarrow> ('d \<Rightarrow> drive) \<Rightarrow> nat \<Rightarrow> bool" where
  "command_law io obs capacity \<longleftrightarrow>
     (\<forall>d. command_accepted capacity (obs d) \<longrightarrow>
        stored (obs (port_out io 0x1F7 0x20 d)) = stored (obs d) \<and>
        phase (obs (port_out io 0x1F7 0x20 d)) =
          Data_In (read_blocks (stored (obs d)) (register_address (regs (obs d))) (regs (obs d) 0x1F2)) \<and>
        stored (obs (port_out io 0x1F7 0x30 d)) = stored (obs d) \<and>
        phase (obs (port_out io 0x1F7 0x30 d)) =
          Data_Out (register_address (regs (obs d))) (unat (regs (obs d) 0x1F2)) [])"

text \<open>Inside a block the drive stays ready; between blocks it may become busy again.\<close>

definition data_in_law :: "'d ports \<Rightarrow> ('d \<Rightarrow> drive) \<Rightarrow> bool" where
  "data_in_law io obs \<longleftrightarrow>
     (\<forall>d b b' bs w d'. ready (obs d) \<and> phase (obs d) = Data_In (b # b' # bs) \<and> port_in16 io 0x1F0 d = (w, d') \<longrightarrow>
        enc_u16 w = [b, b'] \<and> phase (obs d') = Data_In bs \<and> stored (obs d') = stored (obs d) \<and>
        (length bs mod BLOCK_SIZE \<noteq> 0 \<longrightarrow> ready (obs d')))"

definition data_out_law :: "'d ports \<Rightarrow> ('d \<Rightarrow> drive) \<Rightarrow> bool" where
  "data_out_law io obs \<longleftrightarrow>
     (\<forall>d a k bs w. ready (obs d) \<and> phase (obs d) = Data_Out a (Suc k) bs \<longrightarrow>
        (let x = obs (port_out16 io 0x1F0 w d) in
         if length bs + 2 < BLOCK_SIZE
         then ready x \<and> phase x = Data_Out a (Suc k) (bs @ enc_u16 w) \<and> stored x = stored (obs d)
         else phase x = Data_Out (a + 1) k [] \<and> stored x = (stored (obs d))(a := bs @ enc_u16 w)))"

definition ata_contract :: "'d ports \<Rightarrow> ('d \<Rightarrow> drive) \<Rightarrow> nat \<Rightarrow> bool" where
  "ata_contract io obs capacity \<longleftrightarrow>
     status_law io obs \<and> register_law io obs \<and> command_law io obs capacity \<and> data_in_law io obs \<and>
     data_out_law io obs"

subsection \<open>Waiting\<close>

lemma busy_wait_ready:
  assumes "status_law io obs"
  shows "\<exists>d'. ATA_busy_wait io d = Ret d' \<and> obs d' = (obs d)\<lparr>delay := 0\<rparr>"
proof (induction "delay (obs d)" arbitrary: d)
  case 0
  obtain v d' where "port_in io 0x1F7 d = (v, d')" by fastforce
  with 0 assms show ?case
    by (subst ATA_busy_wait.simps) (auto simp: status_law_def ready_def)
next
  case (Suc n)
  obtain v d' where *: "port_in io 0x1F7 d = (v, d')" by fastforce
  with Suc(2) assms have v: "v AND ATA_STATUS_BSY \<noteq> 0" and d': "obs d' = (obs d)\<lparr>delay := n\<rparr>"
    by (auto simp: status_law_def ready_def)
  obtain d'' where "ATA_busy_wait io d' = Ret d''" "obs d'' = (obs d')\<lparr>delay := 0\<rparr>"
    using Suc(1) [of d'] d' by auto
  with * v d' show ?case by (subst ATA_busy_wait.simps) simp
qed

lemma drq_wait_ready:
  assumes "status_law io obs" "ready (obs d)"
  shows "\<exists>d'. ATA_DRQ_wait io d = Ret d' \<and> obs d' = obs d"
proof -
  obtain v d' where "port_in io 0x1F7 d = (v, d')" by fastforce
  with assms show ?thesis
    by (subst ATA_DRQ_wait.simps) (auto simp: status_law_def ready_def)
qed

lemma wait_ready:
  assumes "status_law io obs"
  shows "\<exists>d'. ata_wait io d = Ret d' \<and> obs d' = (obs d)\<lparr>delay := 0\<rparr>"
proof -
  obtain d1 where 1: "ATA_busy_wait io d = Ret d1" "obs d1 = (obs d)\<lparr>delay := 0\<rparr>"
    using busy_wait_ready [OF assms] by blast
  then have "ready (obs d1)" by (simp add: ready_def)
  from drq_wait_ready [OF assms this] 1 show ?thesis by (auto simp: ata_wait_def)
qed

subsection \<open>Commands\<close>

text \<open>The drive reassembles the address from the four registers, as long as it has 28 bits.\<close>

lemma lba_high_clear: "unat (lba :: u32) < 2 ^ 28 \<Longrightarrow> take_bit 28 lba = lba"
  by (simp add: word_unat_eq_iff unsigned_take_bit_eq take_bit_nat_eq_self)

lemma mask4: "(0xF :: u32) = mask 4" "(0xF :: u8) = mask 4"
  by (simp_all add: mask_eq_exp_minus_1)

lemma select_bits:
  "((0xE0 :: u8) OR ucast (x AND 0xF :: u32)) AND 0xF = ucast (take_bit 4 x)"
  "((0xE0 :: u8) OR ucast (x AND 0xF :: u32)) AND 0xF0 = 0xE0"
proof -
  have *: "(0xE0 :: u8) = push_bit 5 (mask 3)" "(0xF0 :: u8) = push_bit 4 (mask 4)"
    by (simp_all add: mask_eq_exp_minus_1 push_bit_eq_mult)
  show "((0xE0 :: u8) OR ucast (x AND 0xF :: u32)) AND 0xF = ucast (take_bit 4 x)"
    "((0xE0 :: u8) OR ucast (x AND 0xF :: u32)) AND 0xF0 = 0xE0"
    unfolding * mask4 by (rule bit_word_eqI; auto simp: bit_simps)+
qed

lemma register_address_split:
  assumes "unat (lba :: u32) < 2 ^ 28" "r 0x1F3 = ucast lba" "r 0x1F4 = ucast (drop_bit 8 lba)"
    "r 0x1F5 = ucast (drop_bit 16 lba)" "r 0x1F6 = 0xE0 OR ucast (drop_bit 24 lba AND 0xF)"
  shows "register_address r = lba"
proof (rule bit_word_eqI)
  fix n assume "n < LENGTH(32)"
  then consider "n < 8" | "8 \<le> n" "n < 16" | "16 \<le> n" "n < 24" | "24 \<le> n" "n < 28" | "28 \<le> n" "n < 32"
    by fastforce
  then have "bit (register_address r) n \<longleftrightarrow> bit (take_bit 28 lba) n"
    unfolding register_address_def assms(2-) select_bits by cases (auto simp: bit_simps bit_u8_beyond)
  then show "bit (register_address r) n \<longleftrightarrow> bit lba n" by (simp add: lba_high_clear [OF assms(1)])
qed

definition idle :: "drive \<Rightarrow> bool" where
  "idle x \<longleftrightarrow> transfer_done (phase x)"

definition in_reach :: "nat \<Rightarrow> u32 \<Rightarrow> u8 \<Rightarrow> bool" where
  "in_reach capacity lba n \<longleftrightarrow> n \<noteq> 0 \<and> unat lba + unat n \<le> capacity \<and> capacity \<le> 2 ^ 28"

lemma command_effect:
  assumes c: "ata_contract io obs capacity" and rdy: "ready (obs d)" "idle (obs d)"
    and r: "in_reach capacity lba n"
  shows "stored (obs (ata_command io lba n 0x20 d)) = stored (obs d)"
    "phase (obs (ata_command io lba n 0x20 d)) = Data_In (read_blocks (stored (obs d)) lba n)"
    "stored (obs (ata_command io lba n 0x30 d)) = stored (obs d)"
    "phase (obs (ata_command io lba n 0x30 d)) = Data_Out lba (unat n) []"
proof -
  define d5 where "d5 = port_out io 0x1F5 (ucast (drop_bit 16 lba)) (port_out io 0x1F4 (ucast (drop_bit 8 lba))
    (port_out io 0x1F3 (ucast lba) (port_out io 0x1F2 n
    (port_out io 0x1F6 (0xE0 OR ucast (drop_bit 24 lba AND 0xF)) d))))"
  have reg: "obs (port_out io p v e) = (obs e)\<lparr>regs := (regs (obs e))(p := v)\<rparr>"
    if "p \<in> {0x1F2, 0x1F3, 0x1F4, 0x1F5, 0x1F6}" "ready (obs e)" "transfer_done (phase (obs e))" for e p v
    using c that by (simp add: ata_contract_def register_law_def)
  have o: "obs d5 = (obs d)\<lparr>regs := (regs (obs d))(0x1F6 := 0xE0 OR ucast (drop_bit 24 lba AND 0xF), 0x1F2 := n,
      0x1F3 := ucast lba, 0x1F4 := ucast (drop_bit 8 lba), 0x1F5 := ucast (drop_bit 16 lba))\<rparr>"
    using rdy unfolding d5_def by (simp add: reg ready_def idle_def)
  have "unat lba < 2 ^ 28" using r unat_gt_0 [of n] by (auto simp: in_reach_def)
  then have a: "register_address (regs (obs d5)) = lba"
    by (rule register_address_split) (simp_all add: o)
  have "command_accepted capacity (obs d5)"
    using rdy r unfolding command_accepted_def a by (simp add: o ready_def idle_def in_reach_def select_bits)
  moreover have "ata_command io lba n cmd d = port_out io 0x1F7 cmd d5" for cmd
    by (simp add: ata_command_def d5_def)
  moreover have "regs (obs d5) 0x1F2 = n" "stored (obs d5) = stored (obs d)" by (simp_all add: o)
  ultimately show "stored (obs (ata_command io lba n 0x20 d)) = stored (obs d)"
    "phase (obs (ata_command io lba n 0x20 d)) = Data_In (read_blocks (stored (obs d)) lba n)"
    "stored (obs (ata_command io lba n 0x30 d)) = stored (obs d)"
    "phase (obs (ata_command io lba n 0x30 d)) = Data_Out lba (unat n) []"
    using c a by (simp_all add: ata_contract_def command_law_def)
qed

subsection \<open>Reading\<close>

text \<open>The state inside a block: \<open>j\<close> half words delivered, the rest pending.\<close>

lemma read_half_words_step:
  assumes law: "data_in_law io obs" and len: "length bs = BLOCK_SIZE * Suc k"
    and d: "ready (obs d)" "phase (obs d) = Data_In bs" and j: "j \<le> HALF_BLOCK_SIZE"
  shows "\<exists>d'. read_half_words io p j (m, d) = (mem_write m p (take (2 * j) bs), d') \<and>
     phase (obs d') = Data_In (drop (2 * j) bs) \<and> stored (obs d') = stored (obs d) \<and>
     (j < HALF_BLOCK_SIZE \<longrightarrow> ready (obs d'))"
  using j
proof (induction j)
  case 0
  then show ?case using d by (simp add: read_half_words_def)
next
  case (Suc j)
  then obtain d1 where IH: "read_half_words io p j (m, d) = (mem_write m p (take (2 * j) bs), d1)"
    "phase (obs d1) = Data_In (drop (2 * j) bs)" "stored (obs d1) = stored (obs d)" "ready (obs d1)" by auto
  obtain w d2 where w: "port_in16 io 0x1F0 d1 = (w, d2)" by fastforce
  have lt: "2 * j < length bs" "Suc (2 * j) < length bs" using Suc.prems len by simp_all
  have dr: "drop (2 * j) bs = bs ! (2 * j) # bs ! Suc (2 * j) # drop (2 * Suc j) bs"
    using lt by (simp add: Cons_nth_drop_Suc)
  have two: "enc_u16 w = [bs ! (2 * j), bs ! Suc (2 * j)]" "phase (obs d2) = Data_In (drop (2 * Suc j) bs)"
    "stored (obs d2) = stored (obs d1)"
    "length (drop (2 * Suc j) bs) mod BLOCK_SIZE \<noteq> 0 \<longrightarrow> ready (obs d2)"
    using law IH(2,4) w unfolding data_in_law_def dr by (blast+)
  have "take (2 * Suc j) bs = take (2 * j) bs @ enc_u16 w"
    using lt by (simp add: take_Suc_conv_app_nth two(1))
  moreover have "length (take (2 * j) bs) + length (enc_u16 w) \<le> 2 ^ 32"
    using Suc.prems by simp
  ultimately have "mem_write (mem_write m p (take (2 * j) bs)) (p + of_nat (2 * j)) (enc_u16 w) =
    mem_write m p (take (2 * Suc j) bs)"
    using mem_write_append [of "take (2 * j) bs" "enc_u16 w" m p] lt by (simp add: min_def)
  moreover have "length (drop (2 * Suc j) bs) mod BLOCK_SIZE \<noteq> 0" if "Suc j < HALF_BLOCK_SIZE"
  proof -
    have "length (drop (2 * Suc j) bs) = (512 - 2 * Suc j) + 512 * k" using len that by simp
    then have "length (drop (2 * Suc j) bs) mod 512 = (512 - 2 * Suc j) mod 512" by (simp only: mod_mult_self2)
    then show ?thesis using that by simp
  qed
  ultimately show ?case using IH w two by (simp add: read_half_words_def)
qed

lemma read_blocks_loop_result:
  assumes law: "data_in_law io obs" "status_law io obs"
  shows "length bs = BLOCK_SIZE * k \<Longrightarrow> k \<le> 255 \<Longrightarrow> phase (obs d) = Data_In bs \<Longrightarrow>
     \<exists>d'. read_blocks_loop io k p m d = Ret (mem_write m p bs, d') \<and>
       phase (obs d') = Data_In [] \<and> stored (obs d') = stored (obs d)"
proof (induction k arbitrary: bs p m d)
  case (Suc k)
  obtain d1 where 1: "ata_wait io d = Ret d1" "obs d1 = (obs d)\<lparr>delay := 0\<rparr>"
    using wait_ready [OF law(2)] by blast
  obtain d2 where 2: "read_half_words io p HALF_BLOCK_SIZE (m, d1) = (mem_write m p (take BLOCK_SIZE bs), d2)"
    "phase (obs d2) = Data_In (drop BLOCK_SIZE bs)" "stored (obs d2) = stored (obs d)"
    using read_half_words_step [OF law(1) Suc.prems(1), of d1 HALF_BLOCK_SIZE p m] Suc.prems 1(2)
    by (auto simp: ready_def)
  obtain d3 where 3: "read_blocks_loop io k (p + of_nat BLOCK_SIZE) (mem_write m p (take BLOCK_SIZE bs)) d2 =
      Ret (mem_write (mem_write m p (take BLOCK_SIZE bs)) (p + of_nat BLOCK_SIZE) (drop BLOCK_SIZE bs), d3)"
    "phase (obs d3) = Data_In []" "stored (obs d3) = stored (obs d2)"
    using Suc.IH [of "drop BLOCK_SIZE bs" d2] Suc.prems 2 by fastforce
  have "mem_write (mem_write m p (take BLOCK_SIZE bs)) (p + of_nat BLOCK_SIZE) (drop BLOCK_SIZE bs) = mem_write m p bs"
    using mem_write_append [of "take BLOCK_SIZE bs" "drop BLOCK_SIZE bs" m p] Suc.prems by simp
  then show ?case using 1 2 3 by simp
qed simp

subsection \<open>Writing\<close>

lemma write_half_words_step:
  assumes law: "data_out_law io obs"
    and d: "ready (obs d)" "phase (obs d) = Data_Out a (Suc k) []" and j: "j < HALF_BLOCK_SIZE"
  shows "ready (obs (write_half_words io m p j d)) \<and>
     phase (obs (write_half_words io m p j d)) = Data_Out a (Suc k) (mem_read m p (2 * j)) \<and>
     stored (obs (write_half_words io m p j d)) = stored (obs d)"
  using j
proof (induction j)
  case 0
  then show ?case using d by (simp add: write_half_words_def mem_read_def)
next
  case (Suc j)
  have "mem_read m p (2 * Suc j) = mem_read m p (2 * j) @ enc_u16 (dec_u16 (mem_read m (p + of_nat (2 * j)) 2))"
    using mem_read_add [of m p "2 * j" 2] by (simp add: enc_dec_u16)
  then show ?case using Suc law by (simp add: write_half_words_def data_out_law_def Let_def)
qed

lemma write_half_words_block:
  assumes law: "data_out_law io obs" and d: "ready (obs d)" "phase (obs d) = Data_Out a (Suc k) []"
  shows "phase (obs (write_half_words io m p HALF_BLOCK_SIZE d)) = Data_Out (a + 1) k []"
    "stored (obs (write_half_words io m p HALF_BLOCK_SIZE d)) = (stored (obs d))(a := mem_read m p BLOCK_SIZE)"
proof -
  define e where "e = write_half_words io m p 255 d"
  have e: "ready (obs e)" "phase (obs e) = Data_Out a (Suc k) (mem_read m p 510)" "stored (obs e) = stored (obs d)"
    using write_half_words_step [OF assms, of 255 m p] by (simp_all add: e_def)
  have "mem_read m p (510 + 2) = mem_read m p 510 @ enc_u16 (dec_u16 (mem_read m (p + of_nat 510) 2))"
    by (simp only: mem_read_add) (simp add: enc_dec_u16)
  then have block: "mem_read m p BLOCK_SIZE = mem_read m p 510 @ enc_u16 (dec_u16 (mem_read m (p + 510) 2))"
    by simp
  have "[0..<HALF_BLOCK_SIZE] = [0..<255] @ [255]" using upt_Suc_append [of 0 255] by simp
  then have w: "write_half_words io m p HALF_BLOCK_SIZE d = port_out16 io 0x1F0 (dec_u16 (mem_read m (p + 510) 2)) e"
    by (simp add: write_half_words_def e_def)
  show "phase (obs (write_half_words io m p HALF_BLOCK_SIZE d)) = Data_Out (a + 1) k []"
    "stored (obs (write_half_words io m p HALF_BLOCK_SIZE d)) = (stored (obs d))(a := mem_read m p BLOCK_SIZE)"
    using law e unfolding w block by (simp_all add: data_out_law_def Let_def)
qed

lemma take_drop_mem_read:
  "i + k \<le> n \<Longrightarrow> take k (drop i (mem_read m p n)) = mem_read m (p + of_nat i) k"
  by (rule nth_equalityI) (auto simp: add.assoc simp flip: of_nat_add)

definition blocks_stored :: "disk \<Rightarrow> u32 \<Rightarrow> nat \<Rightarrow> u8 list \<Rightarrow> disk" where
  "blocks_stored s lba i bs =
     fold (\<lambda>i d. d(lba + of_nat i := take BLOCK_SIZE (drop (BLOCK_SIZE * i) bs))) [0..<i] s"

lemma write_blocks_loop_result:
  assumes law: "data_out_law io obs" "status_law io obs"
  shows "i + k = n \<Longrightarrow> phase (obs d) = Data_Out (lba + of_nat i) k [] \<Longrightarrow>
     stored (obs d) = blocks_stored s lba i (mem_read m p (BLOCK_SIZE * n)) \<Longrightarrow>
     \<exists>d'. write_blocks_loop io k m p i d = Ret d' \<and> idle (obs d') \<and>
       stored (obs d') = blocks_stored s lba n (mem_read m p (BLOCK_SIZE * n))"
proof (induction k arbitrary: i d)
  case 0
  then show ?case by (simp add: idle_def)
next
  case (Suc k)
  obtain d1 where 1: "ata_wait io d = Ret d1" "obs d1 = (obs d)\<lparr>delay := 0\<rparr>"
    using wait_ready [OF law(2)] by blast
  define d2 where "d2 = write_half_words io m (p + of_nat (BLOCK_SIZE * i)) HALF_BLOCK_SIZE d1"
  have "ready (obs d1)" "phase (obs d1) = Data_Out (lba + of_nat i) (Suc k) []"
    using 1(2) Suc.prems by (simp_all add: ready_def)
  note 2 = write_half_words_block [OF law(1) this, of m "p + of_nat (BLOCK_SIZE * i)", folded d2_def]
  have "take BLOCK_SIZE (drop (BLOCK_SIZE * i) (mem_read m p (BLOCK_SIZE * n))) =
      mem_read m (p + of_nat (BLOCK_SIZE * i)) BLOCK_SIZE"
    using Suc.prems(1) by (intro take_drop_mem_read) simp
  then have "stored (obs d2) = blocks_stored s lba (Suc i) (mem_read m p (BLOCK_SIZE * n))"
    using 2(2) 1(2) Suc.prems(3) by (simp add: blocks_stored_def)
  moreover have "phase (obs d2) = Data_Out (lba + of_nat (Suc i)) k []"
    using 2(1) by (simp add: add.assoc add.commute)
  ultimately show ?case using Suc.IH [of "Suc i" d2] Suc.prems(1) 1(1) by (simp add: d2_def)
qed

subsection \<open>A drive that keeps the contract\<close>

text \<open>It is busy for three status reads after a command and for two after each block.\<close>

definition sim_out16 :: "u16 \<Rightarrow> drive \<Rightarrow> drive" where
  "sim_out16 w x = (case phase x of
       Data_Out a (Suc k) bs \<Rightarrow>
         if length bs + 2 < BLOCK_SIZE then x\<lparr>phase := Data_Out a (Suc k) (bs @ enc_u16 w)\<rparr>
         else x\<lparr>phase := Data_Out (a + 1) k [], stored := (stored x)(a := bs @ enc_u16 w), delay := 2\<rparr>
     | _ \<Rightarrow> x)"

definition sim_in16 :: "drive \<Rightarrow> u16 \<times> drive" where
  "sim_in16 x = (case phase x of
       Data_In (b # b' # bs) \<Rightarrow>
         (dec_u16 [b, b'], x\<lparr>phase := Data_In bs, delay := if length bs mod BLOCK_SIZE = 0 then 2 else 0\<rparr>)
     | _ \<Rightarrow> (0, x))"

definition sim_command :: "u8 \<Rightarrow> drive \<Rightarrow> drive" where
  "sim_command v x =
     (let a = register_address (regs x); n = regs x 0x1F2 in
      if v = 0x20 then x\<lparr>phase := Data_In (read_blocks (stored x) a n), delay := 3\<rparr>
      else if v = 0x30 then x\<lparr>phase := Data_Out a (unat n) [], delay := 3\<rparr> else x)"

definition sim_ports :: "drive ports" where
  "sim_ports = \<lparr>
     port_out = (\<lambda>p v x. if p = 0x1F7 then sim_command v x else x\<lparr>regs := (regs x)(p := v)\<rparr>),
     port_in = (\<lambda>p x. (if delay x = 0 then 0x50 else 0x80, x\<lparr>delay := delay x - 1\<rparr>)),
     port_out16 = (\<lambda>p w x. sim_out16 w x),
     port_in16 = (\<lambda>p x. sim_in16 x)\<rparr>"

definition blank_drive :: drive where
  "blank_drive = \<lparr>stored = (\<lambda>_. replicate 512 0), regs = (\<lambda>_. 0), phase = Data_In [], delay = 1\<rparr>"

lemma sim_status: "status_law sim_ports id"
  by (auto simp: status_law_def sim_ports_def ready_def ATA_STATUS_BSY_def ATA_STATUS_RDY_def)

lemma sim_data_in: "data_in_law sim_ports id"
proof -
  have "enc_u16 (dec_u16 [b, b']) = [b, b']" for b b' by (rule enc_dec_u16) simp
  then show ?thesis by (auto simp: data_in_law_def sim_ports_def sim_in16_def ready_def)
qed

lemma sim_contract: "ata_contract sim_ports id capacity"
proof -
  have "register_law sim_ports id" by (auto simp: register_law_def sim_ports_def)
  moreover have "command_law sim_ports id capacity"
    by (simp add: command_law_def sim_ports_def sim_command_def Let_def)
  moreover have "data_out_law sim_ports id"
    by (auto simp: data_out_law_def sim_ports_def sim_out16_def Let_def ready_def)
  ultimately show ?thesis using sim_status sim_data_in by (simp add: ata_contract_def)
qed

subsection \<open>The driver is the block store\<close>

text \<open>
  C30. \<^verbatim>\<open>read_blocks\<close> of \<^verbatim>\<open>disk.c\<close> implements the read of the block store: on a drive that keeps the
  ATA protocol and has no transfer pending, for a non-zero number of blocks below the
  capacity of the drive (at most 2^28 blocks, the reach of the address registers), both
  waiting loops end, the call returns, exactly the stored blocks are placed at the
  pointer, and the drive keeps its contents and is ready for the next call.
\<close>

theorem ata_read_refines:
  assumes "ata_contract io obs capacity" "idle (obs d)" "wf_disk (stored (obs d))" "in_reach capacity lba n"
  shows "\<exists>d'. ata_read_blocks io ptr lba n m d = Ret (mem_write m ptr (read_blocks (stored (obs d)) lba n), d') \<and>
     idle (obs d') \<and> stored (obs d') = stored (obs d)"
proof -
  have laws: "data_in_law io obs" "status_law io obs" using assms(1) by (simp_all add: ata_contract_def)
  obtain d1 where 1: "ATA_busy_wait io d = Ret d1" "obs d1 = (obs d)\<lparr>delay := 0\<rparr>"
    using busy_wait_ready [OF laws(2)] by blast
  then have "ready (obs d1)" "idle (obs d1)" using assms(2) by (simp_all add: ready_def idle_def)
  note cmd = command_effect(1,2) [OF assms(1) this assms(4)]
  have "length (read_blocks (stored (obs d1)) lba n) = BLOCK_SIZE * unat n"
    using length_read_blocks assms(3) 1(2) by simp
  from read_blocks_loop_result [OF laws this _ cmd(2), of ptr m] show ?thesis
    using 1 cmd(1) unsigned_less [of n, where 'a = nat] by (auto simp: ata_read_blocks_def idle_def)
qed

lemma blank_drive_simps [simp]: "idle blank_drive" "wf_disk (stored blank_drive)" "delay blank_drive = 1"
  by (simp_all add: blank_drive_def idle_def wf_disk_def)

theorem ata_read_refines_witness:
  "\<exists>d'. ata_read_blocks sim_ports 0x1000 5 4 (\<lambda>_. 7) blank_drive =
     Ret (mem_write (\<lambda>_. 7) 0x1000 (read_blocks (stored blank_drive) 5 4), d') \<and>
     idle d' \<and> stored d' = stored blank_drive"
  using ata_read_refines [where io = sim_ports and obs = id and capacity = 8192 and d = blank_drive and lba = 5 and n = 4] by (simp add: in_reach_def sim_contract)

text \<open>
  C31. \<^verbatim>\<open>write_blocks\<close> of \<^verbatim>\<open>disk.c\<close> implements the write of the block store, under the same
  conditions: it returns, exactly the addressed blocks are replaced by the bytes at the
  pointer, and the drive is ready for the next call.
\<close>

theorem ata_write_refines:
  assumes "ata_contract io obs capacity" "idle (obs d)" "in_reach capacity lba n"
  shows "\<exists>d'. ata_write_blocks io ptr lba n m d = Ret d' \<and> idle (obs d') \<and>
     stored (obs d') = write_blocks (stored (obs d)) lba n (mem_read m ptr (BLOCK_SIZE * unat n))"
proof -
  have laws: "data_out_law io obs" "status_law io obs" using assms(1) by (simp_all add: ata_contract_def)
  obtain d1 where 1: "ATA_busy_wait io d = Ret d1" "obs d1 = (obs d)\<lparr>delay := 0\<rparr>"
    using busy_wait_ready [OF laws(2)] by blast
  then have "ready (obs d1)" "idle (obs d1)" using assms(2) by (simp_all add: ready_def idle_def)
  note cmd = command_effect(3,4) [OF assms(1) this assms(3)]
  from write_blocks_loop_result [OF laws, of 0 "unat n" "unat n" "ata_command io lba n 0x30 d1" lba "stored (obs d)" m ptr]
  show ?thesis using 1 cmd by (auto simp: ata_write_blocks_def write_blocks_def blocks_stored_def)
qed

theorem ata_write_refines_witness:
  "\<exists>d'. ata_write_blocks sim_ports 0x1000 8188 4 (\<lambda>_. 7) blank_drive = Ret d' \<and> idle d' \<and>
     stored d' = write_blocks (stored blank_drive) 8188 4 (mem_read (\<lambda>_. 7) 0x1000 2048)"
  using ata_write_refines [where io = sim_ports and obs = id and capacity = 8192 and d = blank_drive and lba = 8188 and n = 4] by (simp add: in_reach_def sim_contract)

end
