(* ===== verification/Process.thy ===== *)
theory Process
  imports FAT32_Ops Paging Console
begin

text \<open>
  Processes and the scheduler: \<^verbatim>\<open>src/src/process.c\<close>, \<^verbatim>\<open>src/src/scheduler.c\<close> and their headers, over
  the file system, paging, the console and the physical memory of the machine. Control
  transfers to a process by \<^verbatim>\<open>process_context_switch\<close> (assembly) are recorded in \<open>resumed\<close>.
\<close>

unbundle bit_operations_syntax

subsection \<open>Data\<close>

definition PROCESS_PAGE_FRAME_COUNT_MAX :: nat where [simp]: "PROCESS_PAGE_FRAME_COUNT_MAX = 8"
definition PROCESS_COUNT_MAX :: nat where [simp]: "PROCESS_COUNT_MAX = 16"
definition CPU_EFLAGS_BASE_FLAG :: u32 where [simp]: "CPU_EFLAGS_BASE_FLAG = 0x2"
definition CPU_EFLAGS_FLAG_INTERRUPT_ENABLE :: u32 where [simp]: "CPU_EFLAGS_FLAG_INTERRUPT_ENABLE = 0x200"
definition PROCESS_CREATE_SUCCESS :: int where [simp]: "PROCESS_CREATE_SUCCESS = 0"
definition PROCESS_CREATE_FAIL_MAX_PROCESS_EXCEEDED :: int where [simp]: "PROCESS_CREATE_FAIL_MAX_PROCESS_EXCEEDED = 1"
definition PROCESS_CREATE_FAIL_INVALID_ENTRYPOINT :: int where [simp]: "PROCESS_CREATE_FAIL_INVALID_ENTRYPOINT = 2"
definition PROCESS_CREATE_FAIL_NOT_ENOUGH_MEMORY :: int where [simp]: "PROCESS_CREATE_FAIL_NOT_ENOUGH_MEMORY = 3"
definition PROCESS_CREATE_FAIL_FS_READ_FAILURE :: int where [simp]: "PROCESS_CREATE_FAIL_FS_READ_FAILURE = 4"

datatype PROCESS_STATE = NEW | WAITING | READY | RUNNING | TERMINATED

record CPURegister =
  edi :: u32
  esi :: u32
  ebp :: u32
  esp :: u32
  ebx :: u32
  edx :: u32
  ecx :: u32
  eax :: u32
  gs :: u32
  fs :: u32
  es :: u32
  ds :: u32

record Context =
  ctx_cpu :: CPURegister
  ctx_eip :: u32
  ctx_eflags :: u32
  page_directory_virtual_addr :: u32

record ProcessControlBlock =
  pid :: u32
  process_name :: "u8 list"
  proc_state :: PROCESS_STATE
  pcb_context :: Context
  virtual_addr_used :: "u32 list"
  page_frame_used_count :: u32

record ProcessManagerState =
  process_list :: "ProcessControlBlock list"
  running_process_idx :: int
  active_process_count :: int

record 'd kernel =
  k_fs :: fs_state
  k_paging :: paging_state
  k_procs :: ProcessManagerState
  k_mem :: mem
  k_console :: "'d console"
  itoa_buf :: "u8 list"
  resumed :: "Context list"

definition zero_registers :: CPURegister where
  "zero_registers = \<lparr>edi = 0, esi = 0, ebp = 0, esp = 0, ebx = 0, edx = 0, ecx = 0, eax = 0, gs = 0, fs = 0, es = 0, ds = 0\<rparr>"

definition zero_pcb :: ProcessControlBlock where
  "zero_pcb = \<lparr>pid = 0, process_name = replicate 8 0, proc_state = NEW,
     pcb_context = \<lparr>ctx_cpu = zero_registers, ctx_eip = 0, ctx_eflags = 0, page_directory_virtual_addr = 0\<rparr>,
     virtual_addr_used = replicate PROCESS_PAGE_FRAME_COUNT_MAX 0, page_frame_used_count = 0\<rparr>"

definition initial_process_manager_state :: ProcessManagerState where
  "initial_process_manager_state =
     \<lparr>process_list = replicate PROCESS_COUNT_MAX zero_pcb, running_process_idx = -1, active_process_count = 0\<rparr>"

abbreviation set_pcb :: "nat \<Rightarrow> ProcessControlBlock \<Rightarrow> ProcessManagerState \<Rightarrow> ProcessManagerState" where
  "set_pcb i p st \<equiv> st\<lparr>process_list := (process_list st)[i := p]\<rparr>"

subsection \<open>Process table\<close>

text \<open>\<open>None\<close> is \<^verbatim>\<open>NULL\<close>; otherwise the index of the running process.\<close>

definition process_get_current_running_pcb_pointer :: "ProcessManagerState \<Rightarrow> nat option" where
  "process_get_current_running_pcb_pointer st =
     (if running_process_idx st = -1 then None else Some (nat (running_process_idx st)))"

definition process_list_get_inactive_index :: "ProcessManagerState \<Rightarrow> nat run" where
  "process_list_get_inactive_index st =
     (let i = scan_while (\<lambda>i. proc_state (process_list st ! i) \<noteq> NEW) 0 PROCESS_COUNT_MAX in
      if i = PROCESS_COUNT_MAX then Fault Out_Of_Bounds else Ret i)"

partial_function (option) generate_pid_loop :: "ProcessManagerState \<Rightarrow> u32 \<Rightarrow> u32 option" where
  "generate_pid_loop st p =
     (if scan_while (\<lambda>idx. pid (process_list st ! idx) \<noteq> p) 0 PROCESS_COUNT_MAX = PROCESS_COUNT_MAX then Some p
      else generate_pid_loop st (p + 1))"

declare generate_pid_loop.simps [code]

definition process_generate_new_pid :: "ProcessManagerState \<Rightarrow> u32 option" where
  "process_generate_new_pid st = generate_pid_loop st 1"

text \<open>
  The loop of \<^verbatim>\<open>process_destroy\<close> tests the bound last and so reads one element behind the list;
  whatever it finds there, the index is then \<open>PROCESS_COUNT_MAX\<close>.
\<close>

definition process_destroy :: "u32 \<Rightarrow> ProcessManagerState \<Rightarrow> bool \<times> ProcessManagerState" where
  "process_destroy p st =
     (let i = scan_while (\<lambda>i. pid (process_list st ! i) \<noteq> p) 0 PROCESS_COUNT_MAX in
      if i = PROCESS_COUNT_MAX then (False, st) else (True, set_pcb i zero_pcb st))"

definition ceil_div :: "u32 \<Rightarrow> u32 \<Rightarrow> u32 run" where
  "ceil_div a b =
     (if b = 0 then Fault Division_By_Zero
      else let result = a div b in Ret (if a mod b \<noteq> 0 then result + 1 else result))"

subsection \<open>Scheduler\<close>

function next_ready :: "ProcessManagerState \<Rightarrow> nat \<Rightarrow> nat \<Rightarrow> nat \<times> nat" where
  "next_ready st next_index counter =
     (if int next_index \<noteq> running_process_idx st \<and> counter < PROCESS_COUNT_MAX then
        if proc_state (process_list st ! next_index) = READY then (next_index, counter)
        else next_ready st ((next_index + 1) mod PROCESS_COUNT_MAX) (counter + 1)
      else (next_index, counter))"
  by pat_completeness auto
termination by (relation "measure (\<lambda>(st, next_index, counter). PROCESS_COUNT_MAX - counter)") auto

declare next_ready.simps [simp del]

definition scheduler_switch_to_next_process :: "'d kernel \<Rightarrow> 'd kernel" where
  "scheduler_switch_to_next_process k =
     (let st = k_procs k;
          (next_index, counter) = next_ready st (nat ((running_process_idx st + 1) mod int PROCESS_COUNT_MAX)) 0
      in if int next_index = running_process_idx st then
           k\<lparr>k_procs := set_pcb next_index ((process_list st ! next_index)\<lparr>proc_state := RUNNING\<rparr>) st\<rparr>
         else if counter = PROCESS_COUNT_MAX then k
         else
           let next_pcb = (process_list st ! next_index)\<lparr>proc_state := RUNNING\<rparr>
           in k\<lparr>k_procs := (set_pcb next_index next_pcb st)\<lparr>running_process_idx := int next_index\<rparr>,
                k_paging := paging_use_page_directory (page_directory_virtual_addr (pcb_context next_pcb)) (k_paging k),
                resumed := pcb_context next_pcb # resumed k\<rparr>)"

definition scheduler_save_context_to_current_running_pcb :: "Context \<Rightarrow> ProcessManagerState \<Rightarrow> ProcessManagerState" where
  "scheduler_save_context_to_current_running_pcb ctx st =
     (case process_get_current_running_pcb_pointer st of
        None \<Rightarrow> st
      | Some i \<Rightarrow> set_pcb i ((process_list st ! i)\<lparr>pcb_context := ctx, proc_state := READY\<rparr>) st)"

subsection \<open>Termination\<close>

definition terminate_current_process :: "'d kernel \<Rightarrow> 'd kernel run" where
  "terminate_current_process k =
     (case process_get_current_running_pcb_pointer (k_procs k) of
        None \<Rightarrow> Fault Null_Pointer
      | Some i \<Rightarrow> Ret (scheduler_switch_to_next_process (k\<lparr>k_procs := set_pcb i zero_pcb (k_procs k)\<rparr>)))"

definition kill_process :: "u32 \<Rightarrow> 'd kernel \<Rightarrow> (int \<times> 'd kernel) run" where
  "kill_process p k =
     (let st = k_procs k in
      if running_process_idx st < 0 \<or> running_process_idx st \<ge> int PROCESS_COUNT_MAX then Fault Out_Of_Bounds
      else if pid (process_list st ! nat (running_process_idx st)) = p then
        run_bind (terminate_current_process k) (\<lambda>k. Ret (0, k))
      else
        let i = scan_while (\<lambda>i. pid (process_list st ! i) \<noteq> p) 0 PROCESS_COUNT_MAX in
        if i = PROCESS_COUNT_MAX then Ret (-1, k)
        else Ret (0, k\<lparr>k_procs := set_pcb i zero_pcb st\<rparr>))"

subsection \<open>Creating a process\<close>

primrec allocate_frames ::
  "nat list \<Rightarrow> PageDirectory \<Rightarrow> u32 list \<Rightarrow> paging_state \<Rightarrow> (PageDirectory \<times> u32 list \<times> paging_state) run" where
  "allocate_frames [] dir used s = Ret (dir, used, s)"
| "allocate_frames (i # is) dir used s =
     (let virtual_addr = of_nat i * PAGE_FRAME_SIZE in
      run_bind (paging_allocate_user_page_frame dir virtual_addr s) (\<lambda>(_, dir, s).
      allocate_frames is dir (used[i := virtual_addr]) s))"

text \<open>
  The kernel accesses the memory of the new process through its page directory; an access to
  an address without a present page is a page fault. \<open>range_mapped\<close> is the condition that none
  happens on \<open>n\<close> bytes from \<open>a\<close> on. The bytes that \<open>fat_read\<close> writes are the clusters it visits.
\<close>

definition range_mapped :: "PageDirectory \<Rightarrow> u32 \<Rightarrow> nat \<Rightarrow> bool" where
  "range_mapped dir a n \<longleftrightarrow> n = 0 \<or>
     (\<forall>q\<in>set [unat a div 0x400000..<Suc ((unat a + n - 1) div 0x400000)]. present_bit (pde_flag (dir ! (q mod 1024))))"

partial_function (option) chain_clusters :: "fs_state \<Rightarrow> u32 \<Rightarrow> nat \<Rightarrow> nat run" where
  "chain_clusters s cluster_number n =
     (if cluster_number = FAT32_FAT_END_OF_FILE then Ret n
      else case cluster_map_get (fs_driver s) cluster_number of
             None \<Rightarrow> Fault Out_Of_Bounds
           | Some next \<Rightarrow> chain_clusters s next (Suc n))"

declare chain_clusters.simps [code]

definition read_into_space ::
  "PageDirectory \<Rightarrow> FAT32DriverRequest \<Rightarrow> fs_state \<Rightarrow> mem \<Rightarrow> (int \<times> mem) run" where
  "read_into_space dir rq s pm =
     run_bind (fat_read rq s (user_view dir pm)) (\<lambda>(r, m).
     if r \<noteq> 0 then Ret (r, pm)
     else
       let parent = read_table s (rq_parent_cluster_number rq) in
       run_bind (chain_clusters s (entry_cluster (parent ! find_entry parent rq)) 0) (\<lambda>n.
       if range_mapped dir (rq_buf rq) (CLUSTER_SIZE * n) then Ret (0, store_view dir m pm)
       else Fault Page_Fault))"

definition place_image :: "PageDirectory \<Rightarrow> u32 \<Rightarrow> u32 list \<Rightarrow> mem \<Rightarrow> mem run" where
  "place_image dir buf used pm =
     (if range_mapped dir buf 0x400000 \<and> range_mapped dir (used ! 0) 0x400000 \<and> range_mapped dir (used ! 1) 0x400000 then
        let m = user_view dir pm;
            m = snd (memcpy (used ! 0) buf PAGE_FRAME_SIZE m);
            m = snd (memset (used ! 1) 0 PAGE_FRAME_SIZE m)
        in Ret (store_view dir m pm)
      else Fault Page_Fault)"

definition new_register_state :: CPURegister where
  "new_register_state = zero_registers\<lparr>ebp := 0x400000 - 4, esp := 0x400000 - 4,
     gs := 0x3 OR push_bit 3 0x4, fs := 0x3 OR push_bit 3 0x4, es := 0x3 OR push_bit 3 0x4, ds := 0x3 OR push_bit 3 0x4\<rparr>"

definition new_context :: "u32 \<Rightarrow> Context" where
  "new_context page_dir = \<lparr>ctx_cpu = new_register_state, ctx_eip = 0,
     ctx_eflags = CPU_EFLAGS_BASE_FLAG OR CPU_EFLAGS_FLAG_INTERRUPT_ENABLE, page_directory_virtual_addr = page_dir\<rparr>"

definition process_create_user_process :: "FAT32DriverRequest \<Rightarrow> 'd kernel \<Rightarrow> (int \<times> 'd kernel) run" where
  "process_create_user_process rq k =
     (if active_process_count (k_procs k) \<ge> int PROCESS_COUNT_MAX then Ret (PROCESS_CREATE_FAIL_MAX_PROCESS_EXCEEDED, k)
      else if rq_buf rq \<ge> KERNEL_VIRTUAL_ADDRESS_BASE then Ret (PROCESS_CREATE_FAIL_INVALID_ENTRYPOINT, k)
      else
        run_bind (ceil_div (rq_buffer_size rq + PAGE_FRAME_SIZE) PAGE_FRAME_SIZE) (\<lambda>page_frame_count_needed.
        if \<not> paging_allocate_check page_frame_count_needed (k_paging k) \<or>
           page_frame_count_needed > of_nat PROCESS_PAGE_FRAME_COUNT_MAX
        then Ret (PROCESS_CREATE_FAIL_NOT_ENOUGH_MEMORY, k)
        else
          run_bind (process_list_get_inactive_index (k_procs k)) (\<lambda>p_index.
          case paging_create_new_page_directory (k_paging k) of
            (None, pg) \<Rightarrow> Ret (PROCESS_CREATE_FAIL_NOT_ENOUGH_MEMORY, k\<lparr>k_paging := pg\<rparr>)
          | (Some d, pg) \<Rightarrow>
              let new_pcb = process_list (k_procs k) ! p_index in
              run_bind (allocate_frames [0..<unat page_frame_count_needed] (page_directory_list pg ! d)
                          (virtual_addr_used new_pcb) pg) (\<lambda>(dir, used, pg).
              let pg = store_directory d dir pg;
                  new_pcb = new_pcb\<lparr>virtual_addr_used := used, page_frame_used_count := page_frame_count_needed\<rparr>;
                  k = k\<lparr>k_procs := set_pcb p_index new_pcb (k_procs k)\<rparr>;
                  temp_page = paging_get_current_page_directory_addr pg;
                  new_page = directory_addr pg d;
                  pg = paging_use_page_directory new_page pg
              in run_bind (read_into_space dir rq (k_fs k) (k_mem k)) (\<lambda>(ret_val, pm).
                 let pg = paging_use_page_directory temp_page pg in
                 if ret_val \<noteq> 0 then
                   Ret (PROCESS_CREATE_FAIL_FS_READ_FAILURE, k\<lparr>k_paging := pg, k_mem := pm\<rparr>)
                 else
                   run_bind (place_image dir (rq_buf rq) used pm) (\<lambda>pm.
                   let new_pcb = new_pcb\<lparr>process_name := take 8 (rq_name rq), pcb_context := new_context new_page\<rparr>;
                       st = set_pcb p_index new_pcb (k_procs k)
                   in case process_generate_new_pid st of
                        None \<Rightarrow> None
                      | Some p \<Rightarrow>
                          let new_pcb = new_pcb\<lparr>pid := p, proc_state := READY\<rparr>;
                              st = set_pcb p_index new_pcb st
                          in Ret (PROCESS_CREATE_SUCCESS,
                                  k\<lparr>k_paging := pg, k_mem := pm,
                                    k_procs := st\<lparr>active_process_count := active_process_count st + 1\<rparr>\<rparr>)))))))"

subsection \<open>Listing\<close>

definition state_code :: "PROCESS_STATE \<Rightarrow> u32" where
  "state_code st = (case st of NEW \<Rightarrow> 0 | WAITING \<Rightarrow> 1 | READY \<Rightarrow> 2 | RUNNING \<Rightarrow> 3 | TERMINATED \<Rightarrow> 4)"

text \<open>
  A name of eight characters has no terminating NUL; \<^verbatim>\<open>strlen\<close> then runs into the bytes of
  the state behind it.
\<close>

definition name_string :: "ProcessControlBlock \<Rightarrow> u8 list" where
  "name_string p = takeWhile (\<lambda>c. c \<noteq> 0) (process_name p @ enc_u32 (state_code (proc_state p)))"

primrec print_processes :: "'d ports \<Rightarrow> ProcessControlBlock list \<Rightarrow> 'd kernel \<Rightarrow> 'd kernel run" where
  "print_processes io [] k = Ret k"
| "print_processes io (p # ps) k =
     (if proc_state p = RUNNING \<or> proc_state p = READY then
        run_bind (itoa (itoa_buf k) (sint (pid p)) 10) (\<lambda>(buf, i).
        let c = puts io (map of_char ''PID: '') 7 (k_console k);
            c = puts io (takeWhile (\<lambda>c. c \<noteq> 0) (drop i buf)) 15 c;
            c = puts io (map of_char ''     Name: '') 7 c;
            c = puts io (name_string p) 15 c;
            c = puts io [10] 15 c
        in print_processes io ps (k\<lparr>k_console := c, itoa_buf := buf\<rparr>))
      else print_processes io ps k)"

definition print_active_processes :: "'d ports \<Rightarrow> 'd kernel \<Rightarrow> 'd kernel run" where
  "print_active_processes io k =
     print_processes io (process_list (k_procs k))
       (k\<lparr>k_console := puts io (map of_char ''Currently running processes:'' @ [10]) 7 (k_console k)\<rparr>)"

end
