(* ===== verification/CMOS.thy ===== *)
theory CMOS
  imports String_Lib Console
begin

text \<open>
  The real-time clock, \<^verbatim>\<open>src/src/cmos.c\<close>: reading the clock until two readings agree, decoding
  it, and the clock on the last screen row. The clock itself is the device behind the ports.
\<close>

unbundle bit_operations_syntax

subsection \<open>Reading the registers\<close>

definition CURRENT_YEAR :: u32 where [simp]: "CURRENT_YEAR = 2024"
definition CMOS_ADDRESS :: u16 where [simp]: "CMOS_ADDRESS = 0x70"
definition CMOS_DATA :: u16 where [simp]: "CMOS_DATA = 0x71"

text \<open>No code assigns \<^verbatim>\<open>century_register\<close>; the branches on it are dead and the local \<^verbatim>\<open>century\<close> is never set.\<close>

record rtc_time =
  second :: u8
  minute :: u8
  hour :: u8
  day :: u8
  month :: u8
  year :: u32

definition get_RTC_register :: "'d ports \<Rightarrow> u8 \<Rightarrow> 'd \<Rightarrow> u8 \<times> 'd" where
  "get_RTC_register io reg d = port_in io CMOS_DATA (port_out io CMOS_ADDRESS reg d)"

definition get_update_in_progress_flag :: "'d ports \<Rightarrow> 'd \<Rightarrow> u8 \<times> 'd" where
  "get_update_in_progress_flag io d =
     (let (v, d) = port_in io CMOS_DATA (port_out io CMOS_ADDRESS 0x0A d) in (v AND 0x80, d))"

partial_function (option) wait_update :: "'d ports \<Rightarrow> 'd \<Rightarrow> 'd run" where
  "wait_update io d =
     (let (f, d) = get_update_in_progress_flag io d in if f \<noteq> 0 then wait_update io d else Ret d)"

definition read_registers :: "'d ports \<Rightarrow> 'd \<Rightarrow> (rtc_time \<times> 'd) run" where
  "read_registers io d =
     run_bind (wait_update io d) (\<lambda>d.
     let (s, d) = get_RTC_register io 0x00 d;
         (mi, d) = get_RTC_register io 0x02 d;
         (h, d) = get_RTC_register io 0x04 d;
         (da, d) = get_RTC_register io 0x07 d;
         (mo, d) = get_RTC_register io 0x08 d;
         (y, d) = get_RTC_register io 0x09 d
     in Ret (\<lparr>second = s, minute = mi, hour = h, day = da, month = mo, year = ucast y\<rparr>, d))"

partial_function (option) read_stable :: "'d ports \<Rightarrow> rtc_time \<Rightarrow> 'd \<Rightarrow> (rtc_time \<times> 'd) run" where
  "read_stable io t d =
     (case read_registers io d of
        None \<Rightarrow> None
      | Some (Inl f) \<Rightarrow> Some (Inl f)
      | Some (Inr (t', d)) \<Rightarrow> if t' \<noteq> t then read_stable io t' d else Ret (t', d))"

subsection \<open>Decoding\<close>

definition bcd :: "u8 \<Rightarrow> u8" where
  "bcd b = (b AND 0x0F) + (b div 16) * 10"

definition from_bcd :: "rtc_time \<Rightarrow> rtc_time" where
  "from_bcd t = t\<lparr>second := bcd (second t), minute := bcd (minute t),
     hour := ((hour t AND 0x0F) + ((hour t AND 0x70) div 16) * 10) OR (hour t AND 0x80),
     day := bcd (day t), month := bcd (month t), year := (year t AND 0x0F) + (year t div 16) * 10\<rparr>"

definition decode_rtc :: "u8 \<Rightarrow> rtc_time \<Rightarrow> rtc_time" where
  "decode_rtc registerB t =
     (let t = (if registerB AND 0x04 = 0 then from_bcd t else t);
          t = (if registerB AND 0x02 = 0 \<and> hour t AND 0x80 \<noteq> 0 then t\<lparr>hour := ((hour t AND 0x7F) + 12) mod 24\<rparr> else t);
          y = year t + (CURRENT_YEAR div 100) * 100
      in t\<lparr>year := if y < CURRENT_YEAR then y + 100 else y\<rparr>)"

definition read_rtc :: "'d ports \<Rightarrow> 'd \<Rightarrow> (rtc_time \<times> 'd) run" where
  "read_rtc io d =
     run_bind (read_registers io d) (\<lambda>(t, d).
     run_bind (read_stable io t d) (\<lambda>(t, d).
     let (registerB, d) = get_RTC_register io 0x0B d in Ret (decode_rtc registerB t, d)))"

subsection \<open>The clock on the screen\<close>

text \<open>
  Two characters of \<^verbatim>\<open>itoa\<close>'s result at \<open>i\<close>, in columns \<open>col\<close> and \<open>col + 1\<close> of the last row. For the
  value 0 the result is the last byte of the buffer, and the second character is the byte
  behind the buffer, \<open>after\<close>.
\<close>

definition print_field :: "u8 \<Rightarrow> u8 \<Rightarrow> u8 list \<Rightarrow> nat \<Rightarrow> 'd console \<Rightarrow> 'd console" where
  "print_field col after buf i s =
     (let row = of_nat (SCREEN_HEIGHT - 1); c0 = buf ! i; c1 = (if Suc i < length buf then buf ! Suc i else after) in
      if length (takeWhile (\<lambda>c. c \<noteq> 0) (drop i buf)) = 1 then
        framebuffer_write row (col + 1) c0 0xF 0 (framebuffer_write row col 48 0xF 0 s)
      else
        framebuffer_write row (col + 1) (if c1 = 0 then 48 else c1) 0xF 0
          (framebuffer_write row col (if c0 = 0 then 48 else c0) 0xF 0 s))"

definition print_current_time ::
  "'d ports \<Rightarrow> u8 \<Rightarrow> u8 list \<Rightarrow> 'd console \<Rightarrow> (rtc_time \<times> u8 list \<times> 'd console) run" where
  "print_current_time io after buf s =
     run_bind (read_rtc io (device s)) (\<lambda>(t, d).
     let s = s\<lparr>device := d\<rparr>; row = of_nat (SCREEN_HEIGHT - 1); w = of_nat SCREEN_WIDTH in
     run_bind (itoa buf ((int (unat (hour t)) + 7) mod 24) 10) (\<lambda>(buf, i).
     let s = framebuffer_write row (w - 6) 58 0xF 0 (print_field (w - 8) after buf i s) in
     run_bind (itoa buf (int (unat (minute t))) 10) (\<lambda>(buf, i).
     let s = framebuffer_write row (w - 3) 58 0xF 0 (print_field (w - 5) after buf i s) in
     run_bind (itoa buf (int (unat (second t))) 10) (\<lambda>(buf, i).
     Ret (t, buf, print_field (w - 2) after buf i s)))))"

declare wait_update.simps [code] read_stable.simps [code]

subsection \<open>The clock chip\<close>

text \<open>
  What the code relies on of the clock chip, a parameter of the model. The chip is updating
  (\<open>busy\<close>) or quiet. One access selects a register and reads it. In a quiet period the update flag of
  register \<open>0x0A\<close> is clear and the time registers have the values \<open>T\<close>; \<open>left\<close> more accesses
  stay in the period. While the chip is updating the flag is set, any other value may be read,
  and after at most \<open>left\<close> accesses the update is over. A new quiet period lasts for at least
  \<open>RTC_WINDOW\<close> accesses. A quiet period may end between any two accesses of the code. The mode
  register \<open>0x0B\<close> is always \<open>B\<close>.
\<close>

definition RTC_WINDOW :: nat where [simp]: "RTC_WINDOW = 21"

record 'd chip =
  in_range :: "'d \<Rightarrow> bool"
  busy :: "'d \<Rightarrow> bool"
  left :: "'d \<Rightarrow> nat"
  time_regs :: "'d \<Rightarrow> u8 \<Rightarrow> u8"
  mode_reg :: u8

definition clock_registers :: "(u8 \<Rightarrow> u8) \<Rightarrow> rtc_time" where
  "clock_registers reg = \<lparr>second = reg 0x00, minute = reg 0x02, hour = reg 0x04, day = reg 0x07, month = reg 0x08, year = ucast (reg 0x09)\<rparr>"

definition time_registers :: "u8 set" where
  "time_registers = {0x00, 0x02, 0x04, 0x07, 0x08, 0x09}"

definition chip_access :: "'d chip \<Rightarrow> u8 \<Rightarrow> 'd \<Rightarrow> u8 \<Rightarrow> 'd \<Rightarrow> bool" where
  "chip_access C r d v d' \<longleftrightarrow> in_range C d' \<and> (r = 0x0B \<longrightarrow> v = mode_reg C) \<and>
     (if busy C d then (r = 0x0A \<longrightarrow> v AND 0x80 \<noteq> 0) \<and> (if busy C d' then left C d' < left C d else RTC_WINDOW \<le> left C d')
      else (r = 0x0A \<longrightarrow> v AND 0x80 = 0) \<and> (r \<in> time_registers \<longrightarrow> v = time_regs C d r) \<and>
        (if left C d = 0 then busy C d' \<or> RTC_WINDOW \<le> left C d'
         else \<not> busy C d' \<and> left C d - 1 \<le> left C d' \<and> time_regs C d' = time_regs C d))"

definition rtc_chip :: "'d ports \<Rightarrow> 'd chip \<Rightarrow> bool" where
  "rtc_chip io C \<longleftrightarrow> (\<forall>d r. in_range C d \<longrightarrow>
     chip_access C r d (fst (get_RTC_register io r d)) (snd (get_RTC_register io r d)))"

lemma rtc_chipD: "rtc_chip io C \<Longrightarrow> in_range C d \<Longrightarrow> get_RTC_register io r d = (v, d') \<Longrightarrow> chip_access C r d v d'"
  unfolding rtc_chip_def by (metis fst_conv snd_conv)

text \<open>The time of day in the registers of a quiet chip, as the driver decodes it.\<close>

definition time_of :: "'d chip \<Rightarrow> 'd \<Rightarrow> rtc_time" where
  "time_of C d = decode_rtc (mode_reg C) (clock_registers (time_regs C d))"

text \<open>States the chip passes through during a sequence of accesses.\<close>

definition passes :: "'d ports \<Rightarrow> 'd \<Rightarrow> 'd \<Rightarrow> bool" where
  "passes io = (\<lambda>d d'. \<exists>r. d' = snd (get_RTC_register io r d))\<^sup>*\<^sup>*"

lemma passes_refl [simp]: "passes io d d"
  by (simp add: passes_def)

lemma passes_access: "passes io d d1 \<Longrightarrow> get_RTC_register io r d1 = (v, d2) \<Longrightarrow> passes io d d2"
  unfolding passes_def by (rule rtranclp.rtrancl_into_rtrancl) (auto intro: exI [of _ r])

lemma passes_trans: "passes io d d1 \<Longrightarrow> passes io d1 d2 \<Longrightarrow> passes io d d2"
  unfolding passes_def by simp

text \<open>A quiet chip with \<open>n\<close> accesses left, and one that is updating or has \<open>n\<close> left.\<close>

definition calm :: "'d chip \<Rightarrow> nat \<Rightarrow> 'd \<Rightarrow> bool" where
  "calm C n d \<longleftrightarrow> in_range C d \<and> \<not> busy C d \<and> n \<le> left C d"

definition fresh :: "'d chip \<Rightarrow> nat \<Rightarrow> 'd \<Rightarrow> bool" where
  "fresh C n d \<longleftrightarrow> in_range C d \<and> (busy C d \<or> n \<le> left C d)"

lemma access_calm:
  assumes "rtc_chip io C" "calm C (Suc n) d" "get_RTC_register io r d = (v, d')"
  shows "calm C n d'" "time_regs C d' = time_regs C d" "r \<in> time_registers \<Longrightarrow> v = time_regs C d r" "r = 0x0A \<Longrightarrow> v AND 0x80 = 0"
  using rtc_chipD [OF assms(1) _ assms(3)] assms(2) by (auto simp: calm_def chip_access_def)

lemma access_any:
  assumes "rtc_chip io C" "in_range C d" "get_RTC_register io r d = (v, d')"
  shows "in_range C d'" "r = 0x0B \<Longrightarrow> v = mode_reg C" "r = 0x0A \<Longrightarrow> v AND 0x80 = 0 \<longleftrightarrow> \<not> busy C d"
    "fresh C RTC_WINDOW d' \<or> (\<not> busy C d \<and> \<not> busy C d' \<and> time_regs C d' = time_regs C d \<and> (r \<in> time_registers \<longrightarrow> v = time_regs C d r))"
    "busy C d \<Longrightarrow> busy C d' \<and> left C d' < left C d \<or> calm C RTC_WINDOW d'"
  using rtc_chipD [OF assms] by (auto simp: fresh_def calm_def chip_access_def split: if_splits)

lemma access_fresh:
  assumes "rtc_chip io C" "fresh C (Suc n) d" "n < RTC_WINDOW" "get_RTC_register io r d = (v, d')"
  shows "fresh C n d'"
  using rtc_chipD [OF assms(1) _ assms(4)] assms(2,3) by (auto simp: fresh_def chip_access_def split: if_splits)

subsection \<open>Reading the time\<close>

lemma wait_update_step:
  assumes "get_RTC_register io 0x0A d = (v, d')"
  shows "wait_update io d = (if v AND 0x80 \<noteq> 0 then wait_update io d' else Ret d')"
  using assms by (subst wait_update.simps) (simp add: get_update_in_progress_flag_def get_RTC_register_def)

lemma wait_update_calm:
  assumes "rtc_chip io C" "calm C (Suc n) d"
  obtains d' where "wait_update io d = Ret d'" "calm C n d'" "time_regs C d' = time_regs C d" "passes io d d'"
proof -
  obtain v d' where g: "get_RTC_register io 0x0A d = (v, d')" by fastforce
  show thesis
    using that [of d'] access_calm [OF assms g] wait_update_step [OF g] passes_access [OF passes_refl g] by simp
qed

lemma wait_update_busy:
  assumes c: "rtc_chip io C"
  shows "in_range C d \<Longrightarrow> busy C d \<Longrightarrow> \<exists>d'. wait_update io d = Ret d' \<and> calm C 20 d' \<and> passes io d d'"
proof (induction "left C d" arbitrary: d rule: less_induct)
  case less
  obtain v d1 where g: "get_RTC_register io 0x0A d = (v, d1)" by fastforce
  note a = access_any [OF c less.prems(1) g] and p = passes_access [OF passes_refl g]
  have w: "wait_update io d = wait_update io d1" using a(3) less.prems(2) wait_update_step [OF g] by simp
  from a(5) [OF less.prems(2)] show ?case
  proof
    assume "busy C d1 \<and> left C d1 < left C d"
    then show ?thesis using less.hyps [of d1] a(1) w passes_trans [OF p] by auto
  next
    assume "calm C RTC_WINDOW d1"
    then have q: "calm C (Suc 20) d1" by simp
    obtain d' where "wait_update io d1 = Ret d'" "calm C 20 d'" "passes io d1 d'" by (rule wait_update_calm [OF c q])
    then show ?thesis using w passes_trans [OF p] by auto
  qed
qed


text \<open>The six accesses after the wait, as a list.\<close>

primrec read_list :: "'d ports \<Rightarrow> u8 list \<Rightarrow> 'd \<Rightarrow> u8 list \<times> 'd" where
  "read_list io [] d = ([], d)"
| "read_list io (r # rs) d = (let (v, d) = get_RTC_register io r d; (vs, d) = read_list io rs d in (v # vs, d))"

abbreviation time_list :: "u8 list" where
  "time_list \<equiv> [0x00, 0x02, 0x04, 0x07, 0x08, 0x09]"

definition time_from :: "u8 list \<Rightarrow> rtc_time" where
  "time_from vs = \<lparr>second = vs ! 0, minute = vs ! 1, hour = vs ! 2, day = vs ! 3, month = vs ! 4, year = ucast (vs ! 5)\<rparr>"

lemma read_registers_list:
  "read_registers io d = run_bind (wait_update io d) (\<lambda>d. case read_list io time_list d of (vs, d) \<Rightarrow> Ret (time_from vs, d))"
  by (simp add: read_registers_def time_from_def case_prod_beta Let_def numeral_nat)

lemma time_from_map: "time_from (map reg time_list) = clock_registers reg"
  by (simp add: time_from_def clock_registers_def)

lemma read_list_ConsE:
  assumes "read_list io (r # rs) d = (vs, d')" "get_RTC_register io r d = (v, d1)"
  obtains ws where "read_list io rs d1 = (ws, d')" "vs = v # ws"
  using assms by (auto split: prod.splits)

lemma read_list_calm:
  assumes c: "rtc_chip io C"
  shows "calm C (length rs + n) d \<Longrightarrow> set rs \<subseteq> time_registers \<Longrightarrow> read_list io rs d = (vs, d') \<Longrightarrow>
    vs = map (time_regs C d) rs \<and> calm C n d' \<and> time_regs C d' = time_regs C d \<and> passes io d d'"
proof (induction rs arbitrary: d vs)
  case (Cons r rs)
  obtain v d1 where g: "get_RTC_register io r d = (v, d1)" by fastforce
  obtain ws where ws: "read_list io rs d1 = (ws, d')" "vs = v # ws" using read_list_ConsE [OF Cons.prems(3) g] .
  have q: "calm C (Suc (length rs + n)) d" using Cons.prems(1) by simp
  note a = access_calm [OF c q g]
  show ?case using Cons.IH [OF a(1) _ ws(1)] Cons.prems(2) a ws(2) passes_trans [OF passes_access [OF passes_refl g]] by auto
qed simp

text \<open>
  Any sequence of accesses either stays in one quiet period, and then all values are those of
  the period, or it ends where the next update is still far.
\<close>

lemma read_list_period:
  assumes c: "rtc_chip io C"
  shows read_list_any: "in_range C d \<Longrightarrow> set rs \<subseteq> time_registers \<Longrightarrow> length rs \<le> 21 \<Longrightarrow> read_list io rs d = (vs, d') \<Longrightarrow>
    in_range C d' \<and> passes io d d' \<and> (fresh C (21 - length rs) d' \<or>
      (\<not> busy C d \<and> \<not> busy C d' \<and> time_regs C d' = time_regs C d \<and> vs = map (time_regs C d) rs))"
  and read_list_fresh: "fresh C (length rs + n) d \<Longrightarrow> length rs + n \<le> 21 \<Longrightarrow> read_list io rs d = (vs, d') \<Longrightarrow>
    fresh C n d' \<and> passes io d d'"
proof (induction rs arbitrary: d vs n)
  case (Cons r rs)
  {
    case 2
    obtain v d1 where g: "get_RTC_register io r d = (v, d1)" by fastforce
    note p = passes_access [OF passes_refl g]
    obtain ws where ws: "read_list io rs d1 = (ws, d')" using read_list_ConsE [OF 2(3) g] .
    have "fresh C (length rs + n) d1" using access_fresh [OF c _ _ g, of "length rs + n"] 2(1,2) by simp
    then show ?case using Cons.IH(2) [OF _ _ ws] 2(2) passes_trans [OF p] by auto
  next
    case 1
    obtain v d1 where g: "get_RTC_register io r d = (v, d1)" by fastforce
    note p = passes_access [OF passes_refl g]
    obtain ws where ws: "read_list io rs d1 = (ws, d')" "vs = v # ws" using read_list_ConsE [OF 1(4) g] .
    note a = access_any [OF c 1(1) g]
    from a(4) show ?case
    proof
      assume f: "fresh C RTC_WINDOW d1"
      then have "fresh C (length rs + (21 - length rs)) d1" using 1(3) by simp
      then have "fresh C (21 - length rs) d' \<and> passes io d1 d'" using Cons.IH(2) [OF _ _ ws(1), of "21 - length rs"] 1(3) by auto
      then show ?thesis using passes_trans [OF p] by (auto simp: fresh_def)
    next
      assume b: "\<not> busy C d \<and> \<not> busy C d1 \<and> time_regs C d1 = time_regs C d \<and> (r \<in> time_registers \<longrightarrow> v = time_regs C d r)"
      then show ?thesis
        using Cons.IH(1) [OF a(1) _ _ ws(1)] 1(2,3) ws(2) passes_trans [OF p] by (auto simp: fresh_def)
    qed
  }
qed (auto simp: fresh_def)


lemma time_list_time: "set time_list \<subseteq> time_registers"
  by (simp add: time_registers_def)

lemma read_registers_calm:
  assumes c: "rtc_chip io C" and d: "calm C (7 + n) d"
  shows "\<exists>d'. read_registers io d = Ret (clock_registers (time_regs C d), d') \<and> calm C n d' \<and>
    time_regs C d' = time_regs C d \<and> passes io d d'"
proof -
  have d: "calm C (Suc (6 + n)) d" using d by simp
  obtain d0 where w: "wait_update io d = Ret d0" "calm C (6 + n) d0" "time_regs C d0 = time_regs C d" "passes io d d0"
    by (rule wait_update_calm [OF c d])
  obtain vs d' where l: "read_list io time_list d0 = (vs, d')" by fastforce
  have "calm C (length time_list + n) d0" using w(2) by (simp add: calm_def)
  from read_list_calm [OF c this time_list_time l] show ?thesis
    using w l passes_trans [OF w(4)] time_from_map by (auto simp: read_registers_list)
qed

lemma read_registers_fresh:
  assumes c: "rtc_chip io C" and d: "fresh C (7 + n) d" "n \<le> 14"
  shows "\<exists>d'. read_registers io d = Ret (clock_registers (time_regs C d'), d') \<and> calm C n d' \<and> passes io d d'"
proof (cases "busy C d")
  case False
  then show ?thesis using read_registers_calm [OF c, of n d] d(1) by (auto simp: fresh_def calm_def)
next
  case True
  then obtain d0 where w: "wait_update io d = Ret d0" "calm C 20 d0" "passes io d d0"
    using wait_update_busy [OF c _ True] d(1) by (auto simp: fresh_def)
  obtain vs d' where l: "read_list io time_list d0 = (vs, d')" by fastforce
  have "calm C (length time_list + n) d0" using w(2) d(2) by (simp add: calm_def)
  from read_list_calm [OF c this time_list_time l] show ?thesis
    using w l passes_trans [OF w(3)] time_from_map by (auto simp: read_registers_list)
qed

lemma read_registers_any:
  assumes c: "rtc_chip io C" and d: "in_range C d"
  shows "\<exists>t d'. read_registers io d = Ret (t, d') \<and> passes io d d' \<and> in_range C d' \<and>
    (fresh C 14 d' \<or> (\<not> busy C d \<and> \<not> busy C d' \<and> time_regs C d' = time_regs C d \<and> t = clock_registers (time_regs C d)))"
proof (cases "busy C d")
  case True
  then obtain d' where r: "read_registers io d = Ret (clock_registers (time_regs C d'), d')" "calm C 14 d'" "passes io d d'"
    using read_registers_fresh [OF c, of 14 d] d by (auto simp: fresh_def)
  then show ?thesis by (auto simp: calm_def fresh_def)
next
  case False
  obtain v d0 where g: "get_RTC_register io 0x0A d = (v, d0)" by fastforce
  note a = access_any [OF c d g] and p = passes_access [OF passes_refl g]
  have w: "wait_update io d = Ret d0" using wait_update_step [OF g] a(3) False by simp
  obtain vs d' where l: "read_list io time_list d0 = (vs, d')" by fastforce
  have r: "read_registers io d = Ret (time_from vs, d')" using w l by (simp add: read_registers_list)
  from a(4) show ?thesis
  proof
    assume "fresh C RTC_WINDOW d0"
    then have "fresh C (length time_list + 15) d0" by simp
    from read_list_fresh [OF c this _ l] show ?thesis using r passes_trans [OF p] by (auto simp: fresh_def)
  next
    assume "\<not> busy C d \<and> \<not> busy C d0 \<and> time_regs C d0 = time_regs C d \<and> (0x0A \<in> time_registers \<longrightarrow> v = time_regs C d 0x0A)"
    with read_list_any [OF c a(1) time_list_time _ l] show ?thesis
      using r passes_trans [OF p] time_from_map by (auto simp: fresh_def)
  qed
qed


text \<open>
  Two equal readings in a row: at most four are taken, and the result is the time of one moment
  during the call, although each single reading may be torn by an update.
\<close>

lemma read_stable_step:
  "read_registers io d = Ret (t', d') \<Longrightarrow> read_stable io t d = (if t' \<noteq> t then read_stable io t' d' else Ret (t', d'))"
  by (subst read_stable.simps) simp

definition moment :: "'d ports \<Rightarrow> 'd chip \<Rightarrow> 'd \<Rightarrow> 'd \<Rightarrow> 'd \<Rightarrow> bool" where
  "moment io C d e d' \<longleftrightarrow> in_range C e \<and> \<not> busy C e \<and> passes io d e \<and> passes io e d'"

lemma moment_from: "passes io d d1 \<Longrightarrow> moment io C d1 e d' \<Longrightarrow> moment io C d e d'"
  by (auto simp: moment_def intro: passes_trans)

lemma read_stable_fresh:
  assumes c: "rtc_chip io C" and d: "fresh C 14 d"
  shows "\<exists>e d'. read_stable io t d = Ret (clock_registers (time_regs C e), d') \<and> moment io C d e d' \<and> in_range C d'"
proof -
  obtain d1 where 1: "read_registers io d = Ret (clock_registers (time_regs C d1), d1)" "calm C 7 d1" "passes io d d1"
    using read_registers_fresh [OF c, of 7 d] d by auto
  obtain d2 where 2: "read_registers io d1 = Ret (clock_registers (time_regs C d1), d2)" "calm C 0 d2" "passes io d1 d2"
    using read_registers_calm [OF c, of 0 d1] 1(2) by auto
  show ?thesis
    using read_stable_step [OF 1(1), of t] read_stable_step [OF 2(1)] 1(2,3) 2(2,3)
    by (cases "clock_registers (time_regs C d1) = t") (auto simp: moment_def calm_def intro!: exI [of _ d1])
qed

lemma read_stable_any:
  assumes c: "rtc_chip io C" and d: "in_range C d" "\<not> busy C d"
  shows "\<exists>e d'. read_stable io (clock_registers (time_regs C d)) d = Ret (clock_registers (time_regs C e), d') \<and>
    moment io C d e d' \<and> in_range C d'"
proof -
  obtain t d1 where 1: "read_registers io d = Ret (t, d1)" "passes io d d1" "in_range C d1"
    "fresh C 14 d1 \<or> (\<not> busy C d1 \<and> time_regs C d1 = time_regs C d \<and> t = clock_registers (time_regs C d))"
    using read_registers_any [OF c d(1)] by blast
  show ?thesis
  proof (cases "t = clock_registers (time_regs C d)")
    case True
    then show ?thesis
      using read_stable_step [OF 1(1), of "clock_registers (time_regs C d)"] 1(2,3) d
      by (auto simp: moment_def intro!: exI [of _ d])
  next
    case False
    then obtain e d' where "read_stable io t d1 = Ret (clock_registers (time_regs C e), d')" "moment io C d1 e d'" "in_range C d'"
      using read_stable_fresh [OF c, of d1 t] 1(4) by blast
    then show ?thesis using read_stable_step [OF 1(1)] False moment_from [OF 1(2)] by auto
  qed
qed

lemma read_rtc_result:
  assumes c: "rtc_chip io C" and d: "in_range C d"
  obtains e d' where "read_rtc io d = Ret (time_of C e, d')" "moment io C d e d'" "in_range C d'"
proof -
  obtain t d1 where 1: "read_registers io d = Ret (t, d1)" "passes io d d1" "in_range C d1"
    "fresh C 14 d1 \<or> (\<not> busy C d1 \<and> time_regs C d1 = time_regs C d \<and> t = clock_registers (time_regs C d))"
    using read_registers_any [OF c d(1)] by blast
  have "\<exists>e d2. read_stable io t d1 = Ret (clock_registers (time_regs C e), d2) \<and> moment io C d1 e d2 \<and> in_range C d2"
    using 1(4) read_stable_fresh [OF c] read_stable_any [OF c 1(3)] by metis
  then obtain e d2 where 2: "read_stable io t d1 = Ret (clock_registers (time_regs C e), d2)" "moment io C d1 e d2" "in_range C d2"
    by blast
  obtain v d3 where g: "get_RTC_register io 0x0B d2 = (v, d3)" by fastforce
  have m: "moment io C d e d3" using moment_from [OF 1(2) 2(2)] passes_access [OF _ g] by (auto simp: moment_def)
  have v: "v = mode_reg C" "in_range C d3" using access_any(1,2) [OF c 2(3) g] by simp_all
  show thesis by (rule that [of e d3]) (use 1(1) 2(1) g v m in \<open>simp_all add: read_rtc_def time_of_def\<close>)
qed

subsection \<open>Decimal digits\<close>

definition bcd_of :: "nat \<Rightarrow> u8" where
  "bcd_of n = of_nat (16 * (n div 10) + n mod 10)"

lemma bcd_all: "list_all (\<lambda>n. bcd (bcd_of n) = of_nat n) [0..<100]"
  by code_simp

lemma bcd_bcd_of: "n < 100 \<Longrightarrow> bcd (bcd_of n) = of_nat n"
  using bcd_all by (simp add: list_all_iff)

lemma bcd_hour_all:
  "list_all (\<lambda>h. ((bcd_of h AND 0x0F) + ((bcd_of h AND 0x70) div 16) * 10) OR (bcd_of h AND 0x80) = of_nat h \<and>
     (of_nat h :: u8) AND 0x80 = 0) [0..<24]"
  by code_simp

lemma bcd_year_all:
  "list_all (\<lambda>y. ((ucast (bcd_of y) :: u32) AND 0x0F) + (ucast (bcd_of y) div 16) * 10 = of_nat y) [0..<100]"
  by code_simp

lemma decode_bcd:
  assumes mode: "b AND 0x04 = 0" "b AND 0x02 \<noteq> 0"
    and regs: "reg 0x00 = bcd_of s" "reg 0x02 = bcd_of mi" "reg 0x04 = bcd_of h" "reg 0x07 = bcd_of da"
      "reg 0x08 = bcd_of mo" "reg 0x09 = bcd_of y"
    and range: "s < 60" "mi < 60" "h < 24" "da < 32" "mo < 13" "y < 100"
  shows "decode_rtc b (clock_registers reg) = \<lparr>second = of_nat s, minute = of_nat mi, hour = of_nat h, day = of_nat da,
    month = of_nat mo, year = of_nat (if y < 24 then 2100 + y else 2000 + y)\<rparr>"
proof -
  have h: "((bcd_of h AND 0x0F) + ((bcd_of h AND 0x70) div 16) * 10) OR (bcd_of h AND 0x80) = of_nat h"
    using bcd_hour_all range(3) by (simp add: list_all_iff)
  have y: "((ucast (bcd_of y) :: u32) AND 0x0F) + (ucast (bcd_of y) div 16) * 10 = of_nat y"
    using bcd_year_all range(6) by (simp add: list_all_iff)
  have "unat (of_nat y + 2000 :: u32) = y + 2000" using range(6) by (simp add: unat_word_ariths unat_of_nat)
  then have "(of_nat y + 2000 :: u32) < 2024 \<longleftrightarrow> y < 24" by (simp add: word_less_nat_alt)
  then show ?thesis
    using mode regs range h y bcd_bcd_of [of s] bcd_bcd_of [of mi] bcd_bcd_of [of da] bcd_bcd_of [of mo]
    by (auto simp: decode_rtc_def from_bcd_def clock_registers_def Let_def)
qed

text \<open>
  A clock in 24-hour BCD mode is read correctly, in the middle of updates too: \<open>read_rtc\<close> returns,
  and the result is the time of day and the date, as binary numbers, that the registers had at one
  moment of the call, with the year in the century that makes it 2024 or later.
\<close>

theorem read_rtc_bcd:
  assumes c: "rtc_chip io C" "in_range C d" and mode: "mode_reg C AND 0x04 = 0" "mode_reg C AND 0x02 \<noteq> 0"
    and regs: "\<And>e. time_regs C e 0x00 = bcd_of (s e)" "\<And>e. time_regs C e 0x02 = bcd_of (mi e)" "\<And>e. time_regs C e 0x04 = bcd_of (h e)"
      "\<And>e. time_regs C e 0x07 = bcd_of (da e)" "\<And>e. time_regs C e 0x08 = bcd_of (mo e)" "\<And>e. time_regs C e 0x09 = bcd_of (y e)"
    and range: "\<And>e. s e < 60" "\<And>e. mi e < 60" "\<And>e. h e < 24" "\<And>e. da e < 32" "\<And>e. mo e < 13" "\<And>e. y e < 100"
  shows "\<exists>e d'. moment io C d e d' \<and> read_rtc io d = Ret (\<lparr>second = of_nat (s e), minute = of_nat (mi e), hour = of_nat (h e),
    day = of_nat (da e), month = of_nat (mo e), year = of_nat (if y e < 24 then 2100 + y e else 2000 + y e)\<rparr>, d')"
proof -
  obtain e d' where r: "read_rtc io d = Ret (time_of C e, d')" "moment io C d e d'" by (rule read_rtc_result [OF c])
  then show ?thesis
    using decode_bcd [OF mode regs(1) [of e] regs(2) [of e] regs(3) [of e] regs(4) [of e] regs(5) [of e] regs(6) [of e] range] 
    by (auto simp: time_of_def)
qed

text \<open>
  A clock chip that ticks: the device state is the selected register and the number of accesses; of
  every 32 accesses the last two fall into an update, in which every register reads \<open>0xFF\<close>. It shows
  22:05 on 6 June 2024, with the seconds counting.
\<close>

definition ticks :: "u8 \<times> nat \<Rightarrow> nat" where
  "ticks d = snd d div 32 mod 60"

definition tick_regs :: "u8 \<times> nat \<Rightarrow> u8 \<Rightarrow> u8" where
  "tick_regs d r = (if r = 0x00 then bcd_of (ticks d) else if r = 0x02 then bcd_of 5 else if r = 0x04 then bcd_of 22 else
     if r = 0x07 then bcd_of 6 else if r = 0x08 then bcd_of 6 else if r = 0x09 then bcd_of 24 else if r = 0x0B then 2 else 0)"

definition tick_ports :: "(u8 \<times> nat) ports" where
  "tick_ports = \<lparr>port_out = (\<lambda>p v d. if p = 0x70 then (v, snd d) else d),
     port_in = (\<lambda>p d. (if snd d mod 32 < 30 \<or> fst d = 0x0B then tick_regs d (fst d) else 0xFF, (fst d, Suc (snd d)))),
     port_out16 = (\<lambda>_ _ d. d), port_in16 = (\<lambda>_ d. (0, d))\<rparr>"

definition tick_chip :: "(u8 \<times> nat) chip" where
  "tick_chip = \<lparr>in_range = (\<lambda>_. True), busy = (\<lambda>d. 30 \<le> snd d mod 32),
     left = (\<lambda>d. if snd d mod 32 < 30 then 29 - snd d mod 32 else 31 - snd d mod 32), time_regs = tick_regs, mode_reg = 2\<rparr>"

lemma tick_chip_ok: "rtc_chip tick_ports tick_chip"
  unfolding rtc_chip_def
proof (intro allI impI)
  fix d :: "u8 \<times> nat" and r :: u8
  obtain q n where d: "d = (q, n)" by fastforce
  let ?v = "if n mod 32 < 30 \<or> r = 0x0B then tick_regs (r, n) r else 0xFF"
  have g: "get_RTC_register tick_ports r d = (?v, (r, Suc n))" by (simp add: get_RTC_register_def tick_ports_def d)
  have t: "tick_regs (r, m) = tick_regs (q, m)" for m by (rule ext) (simp add: tick_regs_def ticks_def)
  have same: "tick_regs (r, Suc n) = tick_regs (q, n)" if "n mod 32 \<noteq> 31"
  proof -
    have "Suc n div 32 = n div 32" using that by (simp add: div_Suc mod_Suc split: if_splits)
    then show ?thesis by (intro ext) (simp add: tick_regs_def ticks_def)
  qed
  have m: "Suc n mod 32 = (if n mod 32 = 31 then 0 else Suc (n mod 32))" by (simp add: mod_Suc)
  have l: "n mod 32 < 32" by simp
  show "chip_access tick_chip r d (fst (get_RTC_register tick_ports r d)) (snd (get_RTC_register tick_ports r d))"
    unfolding g using same m l t [of n]
    by (auto simp: chip_access_def tick_chip_def d tick_regs_def [of _ "0x0A"] tick_regs_def [of _ "0x0B"])
qed

theorem read_rtc_bcd_witness:
  "\<exists>e d'. moment tick_ports tick_chip (0, 28) e d' \<and> read_rtc tick_ports (0, 28) =
     Ret (\<lparr>second = of_nat (ticks e), minute = 5, hour = 22, day = 6, month = 6, year = 2024\<rparr>, d')"
proof -
  have m: "mode_reg tick_chip AND 0x04 = 0" "mode_reg tick_chip AND 0x02 \<noteq> 0" by (simp_all add: tick_chip_def)
  have r: "\<And>e. time_regs tick_chip e 0x00 = bcd_of (ticks e)" "\<And>e. time_regs tick_chip e 0x02 = bcd_of 5"
    "\<And>e. time_regs tick_chip e 0x04 = bcd_of 22" "\<And>e. time_regs tick_chip e 0x07 = bcd_of 6" "\<And>e. time_regs tick_chip e 0x08 = bcd_of 6"
    "\<And>e. time_regs tick_chip e 0x09 = bcd_of 24" by (simp_all add: tick_chip_def tick_regs_def)
  have "in_range tick_chip (0, 28)" by (simp add: tick_chip_def)
  from read_rtc_bcd [OF tick_chip_ok this m r] show ?thesis by (simp add: ticks_def)
qed

subsection \<open>Two digits on the screen\<close>

lemma itoa_digits:
  assumes "v < 100" "length buf = 32"
  shows "itoa buf (int v) 10 =
    Ret (take (31 - length (digits 10 v)) buf @ map (\<lambda>d. digit_chars ! d) (digits 10 v) @ drop 31 buf, 31 - length (digits 10 v))"
proof -
  have "v < 10 ^ 30" using assms(1) by (rule less_le_trans) simp
  then have "length (digits 10 v) \<le> 30" by (intro length_digits) simp_all
  then show ?thesis using itoa_loop_digits [of 10 v 30 buf] assms by (simp add: itoa_def Suc_diff_le)
qed

lemma digits_two:
  "digits 10 0 = []" "0 < v \<Longrightarrow> v < 10 \<Longrightarrow> digits 10 v = [v]"
  "10 \<le> v \<Longrightarrow> v < 100 \<Longrightarrow> digits 10 v = [v div 10, v mod 10]"
  by (simp_all add: digits_step)

lemma digit_char: "d < 10 \<Longrightarrow> digit_chars ! d = 48 + of_nat d"
proof -
  have "list_all (\<lambda>d. digit_chars ! d = 48 + of_nat d) [0..<10]" by code_simp
  then show "d < 10 \<Longrightarrow> digit_chars ! d = 48 + of_nat d" by (simp add: list_all_iff)
qed

lemma digit_char_nz: "d < 10 \<Longrightarrow> (48 + of_nat d :: u8) \<noteq> 0"
  by (simp add: word_unat_eq_iff unat_word_ariths unat_of_nat)

text \<open>
  What \<open>itoa\<close> and \<open>print_field\<close> put on the screen for a number below 100: two digits, except that
  for 0 the second cell shows the byte behind the buffer of \<open>itoa\<close> unless that byte is 0.
\<close>

definition field_text :: "u8 \<Rightarrow> nat \<Rightarrow> u8 list" where
  "field_text after v = [48 + of_nat (v div 10), if v = 0 \<and> after \<noteq> 0 then after else 48 + of_nat (v mod 10)]"

definition two_cells :: "u8 \<Rightarrow> u8 list \<Rightarrow> 'd console \<Rightarrow> 'd console" where
  "two_cells col cs s = s\<lparr>vram := (vram s)(cell_index 24 col := cell_of (cs ! 0) 0xF 0, cell_index 24 (col + 1) := cell_of (cs ! 1) 0xF 0)\<rparr>"

lemma print_number:
  assumes v: "v < 100" and buf: "length buf = 32" "buf ! 31 = 0"
  obtains buf' i where "itoa buf (int v) 10 = Ret (buf', i)" "length buf' = 32" "buf' ! 31 = 0"
    "\<And>s. print_field col after buf' i s = two_cells col (field_text after v) s"
proof -
  let ?ds = "map (\<lambda>d. digit_chars ! d) (digits 10 v)"
  let ?buf = "take (31 - length (digits 10 v)) buf @ ?ds @ drop 31 buf" and ?i = "31 - length (digits 10 v)"
  have d31: "drop 31 buf = [0]" using buf by (simp add: list_eq_iff_nth_eq)
  note defs = digits_two print_field_def two_cells_def field_text_def framebuffer_write_def Let_def nth_append
  consider "v = 0" | "0 < v" "v < 10" | "10 \<le> v" by linarith
  then have "length (digits 10 v) \<le> 2 \<and> length ?buf = 32 \<and> ?buf ! 31 = 0 \<and>
    (\<forall>s. print_field col after ?buf ?i s = two_cells col (field_text after v) s)"
  proof cases
    case 1
    then show ?thesis using buf d31 by (auto simp: defs)
  next
    case 2
    then show ?thesis using buf d31 digit_char [of v] digit_char_nz [of v] by (simp add: defs)
  next
    case 3
    then have "v div 10 < 10" "v mod 10 < 10" using v by simp_all
    then show ?thesis
      using 3 v buf d31 digit_char [of "v div 10"] digit_char [of "v mod 10"] digit_char_nz [of "v div 10"] digit_char_nz [of "v mod 10"]
      by (simp add: defs)
  qed
  then show thesis using that [of ?buf ?i] itoa_digits [OF v buf(1)] by blast
qed

text \<open>The text of the last eight cells of the last row.\<close>

definition clock_text :: "u8 \<Rightarrow> rtc_time \<Rightarrow> u8 list" where
  "clock_text after t = field_text after ((unat (hour t) + 7) mod 24) @ [58] @ field_text after (unat (minute t)) @ [58] @
     field_text after (unat (second t))"

definition clock_cells :: "u8 \<Rightarrow> rtc_time \<Rightarrow> (nat \<Rightarrow> u16) \<Rightarrow> (nat \<Rightarrow> u16) \<Rightarrow> bool" where
  "clock_cells after t v v' \<longleftrightarrow> map v' [1992..<2000] = map (\<lambda>c. cell_of c 0xF 0) (clock_text after t) \<and>
     (\<forall>i. i \<notin> {1992..<2000} \<longrightarrow> v' i = v i)"

text \<open>Times of day: what the chip shows decodes to minutes and seconds below 60.\<close>

definition times_of_day :: "'d chip \<Rightarrow> bool" where
  "times_of_day C \<longleftrightarrow> (\<forall>e. in_range C e \<and> \<not> busy C e \<longrightarrow> unat (minute (time_of C e)) < 60 \<and> unat (second (time_of C e)) < 60)"

lemma print_current_time_result:
  assumes c: "rtc_chip io C" "in_range C (device s)" "times_of_day C" and buf: "length buf = 32" "buf ! 31 = 0"
  shows "\<exists>e d' buf' s'. moment io C (device s) e d' \<and> in_range C d' \<and> device s' = d' \<and>
    print_current_time io after buf s = Ret (time_of C e, buf', s') \<and>
    clock_cells after (time_of C e) (vram s) (vram s') \<and> length buf' = 32 \<and> buf' ! 31 = 0"
proof -
  obtain e d where r: "read_rtc io (device s) = Ret (time_of C e, d)" "moment io C (device s) e d" "in_range C d"
    by (rule read_rtc_result [OF c(1,2)])
  define t where "t = time_of C e"
  have m: "unat (minute t) < 60" "unat (second t) < 60" using c(3) r(2) by (auto simp: times_of_day_def moment_def t_def)
  let ?h = "(unat (hour t) + 7) mod 24"
  have h: "(int (unat (hour t)) + 7) mod 24 = int ?h" by (simp add: zmod_int)
  have lt: "?h < 100" "unat (minute t) < 100" "unat (second t) < 100" using m by (simp_all add: less_le_trans [of _ 24])
  obtain b1 i1 where 1: "itoa buf (int ?h) 10 = Ret (b1, i1)" "length b1 = 32" "b1 ! 31 = 0"
    "\<And>s :: 'a console. print_field 72 after b1 i1 s = two_cells 72 (field_text after ?h) s"
    using print_number [OF lt(1) buf, of 72 after] by metis
  obtain b2 i2 where 2: "itoa b1 (int (unat (minute t))) 10 = Ret (b2, i2)" "length b2 = 32" "b2 ! 31 = 0"
    "\<And>s :: 'a console. print_field 75 after b2 i2 s = two_cells 75 (field_text after (unat (minute t))) s"
    using print_number [OF lt(2) 1(2,3), of 75 after] by metis
  obtain b3 i3 where 3: "itoa b2 (int (unat (second t))) 10 = Ret (b3, i3)" "length b3 = 32" "b3 ! 31 = 0"
    "\<And>s :: 'a console. print_field 78 after b3 i3 s = two_cells 78 (field_text after (unat (second t))) s"
    using print_number [OF lt(3) 2(2,3), of 78 after] by metis
  define s' where "s' = two_cells 78 (field_text after (unat (second t))) (framebuffer_write 24 77 58 0xF 0
    (two_cells 75 (field_text after (unat (minute t))) (framebuffer_write 24 74 58 0xF 0
    (two_cells 72 (field_text after ?h) (s\<lparr>device := d\<rparr>)))))"
  have p: "print_current_time io after buf s = Ret (t, b3, s')"
    unfolding print_current_time_def r(1) t_def [symmetric]
    using h 1(1,4) 2(1,4) 3(1,4) by (simp add: s'_def Let_def zmod_int)
  have ix: "cell_index 24 72 = 1992" "cell_index 24 73 = 1993" "cell_index 24 74 = 1994" "cell_index 24 75 = 1995"
    "cell_index 24 76 = 1996" "cell_index 24 77 = 1997" "cell_index 24 78 = 1998" "cell_index 24 79 = 1999"
    by (simp_all add: cell_index_def)
  have "[1992..<2000] = [1992, 1993, 1994, 1995, 1996, 1997, 1998, 1999]" by code_simp
  then have "map (vram s') [1992..<2000] = map (\<lambda>c. cell_of c 0xF 0) (clock_text after t)"
    by (simp add: s'_def two_cells_def framebuffer_write_def ix clock_text_def field_text_def)
  moreover have "\<forall>i. i \<notin> {1992..<2000} \<longrightarrow> vram s' i = vram s i"
    by (auto simp: s'_def two_cells_def framebuffer_write_def ix)
  moreover have "device s' = d" by (simp add: s'_def two_cells_def)
  ultimately show ?thesis using p 3(2,3) r(2,3) unfolding clock_cells_def t_def by blast
qed

text \<open>
  \<open>print_current_time\<close> shows the time that the clock had at one moment of the call, in Western
  Indonesian time, seven hours ahead, as \<^verbatim>\<open>HH:MM:SS\<close> in the last eight cells of the screen, and changes
  no other cell. A field that is 0 shows the byte behind \<open>itoa\<close>'s buffer in its second cell, unless
  that byte is 0.
\<close>

theorem print_current_time_shows:
  assumes "rtc_chip io C" "in_range C (device s)" "times_of_day C" "length buf = 32" "buf ! 31 = 0"
  shows "\<exists>e d' buf' s'. moment io C (device s) e d' \<and> print_current_time io after buf s = Ret (time_of C e, buf', s') \<and>
    clock_cells after (time_of C e) (vram s) (vram s')"
  using print_current_time_result [OF assms] by blast

definition clock_console :: "(u8 \<times> nat) console" where
  "clock_console = \<lparr>keyboard_driver_state = keyboard_driver_state blank_console, row_now = 0, col_now = 0, typed = 0,
     vram = (\<lambda>_. 0), device = (0, 0)\<rparr>"

lemma tick_time: "time_of tick_chip e = \<lparr>second = of_nat (ticks e), minute = 5, hour = 22, day = 6, month = 6, year = 2024\<rparr>"
proof -
  have "decode_rtc 2 (clock_registers (tick_regs e)) = \<lparr>second = of_nat (ticks e), minute = of_nat 5, hour = of_nat 22, day = of_nat 6,
    month = of_nat 6, year = of_nat (if 24 < (24 :: nat) then 2100 + 24 else 2000 + 24)\<rparr>"
    by (rule decode_bcd) (simp_all add: tick_regs_def ticks_def)
  then show ?thesis by (simp add: time_of_def tick_chip_def)
qed

lemma tick_times: "times_of_day tick_chip"
  unfolding times_of_day_def tick_time by (simp add: ticks_def unat_of_nat)

theorem print_current_time_shows_witness:
  "\<exists>e d' buf' s'. print_current_time tick_ports 7 (replicate 32 0) clock_console = Ret (time_of tick_chip e, buf', s') \<and>
     moment tick_ports tick_chip (0, 0) e d' \<and> clock_cells 7 (time_of tick_chip e) (\<lambda>_. 0) (vram s')"
proof -
  have r: "in_range tick_chip (device clock_console)" and c: "device clock_console = (0, 0)" "vram clock_console = (\<lambda>_. 0)"
    by (simp_all add: tick_chip_def clock_console_def)
  from print_current_time_shows [OF tick_chip_ok r tick_times, of "replicate 32 0" 7] show ?thesis unfolding c by simp blast
qed

text \<open>In 12-hour mode noon (12 with the PM bit) is decoded as hour 0.\<close>

lemma decode_noon: "hour (decode_rtc 0 (clock_registers (\<lambda>r. if r = 0x04 then 0x92 else 0))) = 0"
  by code_simp

end
