(* ===== verification/Descriptors.thy ===== *)
theory Descriptors
  imports OS_Prelude
begin

text \<open>
  The descriptor tables: \<^verbatim>\<open>src/src/gdt.c\<close>, \<^verbatim>\<open>src/src/idt.c\<close> and their headers. The packed structures
  are records of bit fields with their byte layout; the lemmas state what the processor makes
  of these bytes. The addresses of the interrupt stubs and of the task state segment come
  from assembly and the linker and are parameters.
\<close>

unbundle bit_operations_syntax

subsection \<open>Global descriptor table\<close>

definition GDT_MAX_ENTRY_COUNT :: nat where [simp]: "GDT_MAX_ENTRY_COUNT = 32"
definition GDT_KERNEL_CODE_SEGMENT_SELECTOR :: u16 where [simp]: "GDT_KERNEL_CODE_SEGMENT_SELECTOR = 0x8"
definition GDT_KERNEL_DATA_SEGMENT_SELECTOR :: u16 where [simp]: "GDT_KERNEL_DATA_SEGMENT_SELECTOR = 0x10"
definition GDT_USER_CODE_SEGMENT_SELECTOR :: u16 where [simp]: "GDT_USER_CODE_SEGMENT_SELECTOR = 0x18"
definition GDT_USER_DATA_SEGMENT_SELECTOR :: u16 where [simp]: "GDT_USER_DATA_SEGMENT_SELECTOR = 0x20"
definition GDT_TSS_SELECTOR :: u16 where [simp]: "GDT_TSS_SELECTOR = 0x28"

text \<open>The size of \<^verbatim>\<open>struct TSSEntry\<close>: 26 words of four bytes.\<close>

definition TSS_ENTRY_SIZE :: nat where [simp]: "TSS_ENTRY_SIZE = 104"

record SegmentDescriptor =
  segment_low :: u16
  base_low :: u16
  base_mid :: u8
  type_bit :: "4 word"
  non_system :: bool
  sd_privilege_lvl :: "2 word"
  sd_present_bit :: bool
  segment_mid :: "4 word"
  available :: bool
  code_segment :: bool
  default_op_size :: bool
  granularity :: bool
  base_high :: u8

type_synonym GlobalDescriptorTable = "SegmentDescriptor list"

definition null_descriptor :: SegmentDescriptor where
  "null_descriptor = \<lparr>segment_low = 0, base_low = 0, base_mid = 0, type_bit = 0, non_system = False,
     sd_privilege_lvl = 0, sd_present_bit = False, segment_mid = 0, available = False, code_segment = False,
     default_op_size = False, granularity = False, base_high = 0\<rparr>"

definition flat_descriptor :: "4 word \<Rightarrow> 2 word \<Rightarrow> SegmentDescriptor" where
  "flat_descriptor ty dpl = \<lparr>segment_low = 0xFFFF, base_low = 0, base_mid = 0, type_bit = ty, non_system = True,
     sd_privilege_lvl = dpl, sd_present_bit = True, segment_mid = 0xF, available = False, code_segment = False,
     default_op_size = True, granularity = True, base_high = 0\<rparr>"

definition tss_descriptor :: SegmentDescriptor where
  "tss_descriptor = \<lparr>segment_low = of_nat TSS_ENTRY_SIZE, base_low = 0, base_mid = 0, type_bit = 0x9, non_system = False,
     sd_privilege_lvl = 0, sd_present_bit = True,
     segment_mid = ucast (drop_bit 16 ((of_nat TSS_ENTRY_SIZE :: u32) AND push_bit 16 0xF)), available = False,
     code_segment = False, default_op_size = True, granularity = False, base_high = 0\<rparr>"

definition global_descriptor_table :: GlobalDescriptorTable where
  "global_descriptor_table =
     [null_descriptor, flat_descriptor 0xA 0, flat_descriptor 0x2 0, flat_descriptor 0xA 3, flat_descriptor 0x2 3,
      tss_descriptor] @ replicate (GDT_MAX_ENTRY_COUNT - 6) null_descriptor"

record GDTR =
  gdtr_size :: u16
  gdtr_address :: u32

definition gdt_gdtr :: "u32 \<Rightarrow> GDTR" where
  "gdt_gdtr a = \<lparr>gdtr_size = of_nat (8 * GDT_MAX_ENTRY_COUNT - 1), gdtr_address = a\<rparr>"

definition gdt_install_tss :: "u32 \<Rightarrow> GlobalDescriptorTable \<Rightarrow> GlobalDescriptorTable" where
  "gdt_install_tss base gdt =
     gdt[5 := (gdt ! 5)\<lparr>base_high := ucast (drop_bit 24 (base AND push_bit 24 0xFF)),
                        base_mid := ucast (drop_bit 16 (base AND push_bit 16 0xFF)),
                        base_low := ucast (base AND 0xFFFF)\<rparr>]"

text \<open>The bytes of a descriptor; the first bit field of a byte has its lowest bits.\<close>

definition enc_descriptor :: "SegmentDescriptor \<Rightarrow> u8 list" where
  "enc_descriptor s = enc_u16 (segment_low s) @ enc_u16 (base_low s) @
     [base_mid s,
      ucast (type_bit s) OR push_bit 4 (of_bool (non_system s)) OR push_bit 5 (ucast (sd_privilege_lvl s)) OR
        push_bit 7 (of_bool (sd_present_bit s)),
      ucast (segment_mid s) OR push_bit 4 (of_bool (available s)) OR push_bit 5 (of_bool (code_segment s)) OR
        push_bit 6 (of_bool (default_op_size s)) OR push_bit 7 (of_bool (granularity s)),
      base_high s]"

text \<open>The fields the processor reads from the eight bytes of a segment descriptor.\<close>

definition hw_base :: "u8 list \<Rightarrow> u32" where
  "hw_base bs = ucast (bs ! 2) OR push_bit 8 (ucast (bs ! 3)) OR push_bit 16 (ucast (bs ! 4)) OR push_bit 24 (ucast (bs ! 7))"

definition hw_limit :: "u8 list \<Rightarrow> u32" where
  "hw_limit bs =
     (let l = ucast (bs ! 0) OR push_bit 8 (ucast (bs ! 1)) OR push_bit 16 (ucast (bs ! 6 AND 0xF))
      in if bit (bs ! 6) 7 then push_bit 12 l OR 0xFFF else l)"

definition hw_dpl :: "u8 list \<Rightarrow> u8" where
  "hw_dpl bs = drop_bit 5 (bs ! 5) AND 3"

definition hw_type :: "u8 list \<Rightarrow> u8" where
  "hw_type bs = bs ! 5 AND 0x1F"

definition hw_present :: "u8 list \<Rightarrow> bool" where
  "hw_present bs = bit (bs ! 5) 7"

subsection \<open>Interrupt descriptor table\<close>

definition IDT_MAX_ENTRY_COUNT :: nat where [simp]: "IDT_MAX_ENTRY_COUNT = 256"
definition ISR_STUB_TABLE_LIMIT :: nat where [simp]: "ISR_STUB_TABLE_LIMIT = 64"
definition INTERRUPT_GATE_R_BIT_1 :: "3 word" where [simp]: "INTERRUPT_GATE_R_BIT_1 = 0"
definition INTERRUPT_GATE_R_BIT_2 :: "3 word" where [simp]: "INTERRUPT_GATE_R_BIT_2 = 6"
definition INTERRUPT_GATE_R_BIT_3 :: bool where [simp]: "INTERRUPT_GATE_R_BIT_3 = False"

record IDTGate =
  offset_low :: u16
  segment :: u16
  gate_reserved :: "5 word"
  r_bit_1 :: "3 word"
  r_bit_2 :: "3 word"
  gate_32 :: bool
  r_bit_3 :: bool
  desc_privilege_level :: "2 word"
  valid_bit :: bool
  offset_high :: u16

type_synonym InterruptDescriptorTable = "IDTGate list"

definition zero_gate :: IDTGate where
  "zero_gate = \<lparr>offset_low = 0, segment = 0, gate_reserved = 0, r_bit_1 = 0, r_bit_2 = 0, gate_32 = False,
     r_bit_3 = False, desc_privilege_level = 0, valid_bit = False, offset_high = 0\<rparr>"

definition interrupt_descriptor_table :: InterruptDescriptorTable where
  "interrupt_descriptor_table = replicate IDT_MAX_ENTRY_COUNT zero_gate"

record IDTR =
  idtr_size :: u16
  idtr_address :: u32

definition idt_idtr :: "u32 \<Rightarrow> IDTR" where
  "idt_idtr a = \<lparr>idtr_size = of_nat (8 * IDT_MAX_ENTRY_COUNT - 1), idtr_address = a\<rparr>"

definition set_interrupt_gate ::
  "u8 \<Rightarrow> u32 \<Rightarrow> u16 \<Rightarrow> u8 \<Rightarrow> InterruptDescriptorTable \<Rightarrow> InterruptDescriptorTable" where
  "set_interrupt_gate int_vector handler_address gdt_seg_selector privilege idt =
     idt[unat int_vector := (idt ! unat int_vector)
       \<lparr>offset_low := ucast (handler_address AND 0xFFFF), offset_high := ucast (drop_bit 16 handler_address),
        desc_privilege_level := ucast privilege, segment := gdt_seg_selector,
        r_bit_1 := INTERRUPT_GATE_R_BIT_1, r_bit_2 := INTERRUPT_GATE_R_BIT_2, r_bit_3 := INTERRUPT_GATE_R_BIT_3,
        gate_32 := True, valid_bit := True\<rparr>]"

definition initialize_idt :: "(nat \<Rightarrow> u32) \<Rightarrow> InterruptDescriptorTable \<Rightarrow> InterruptDescriptorTable" where
  "initialize_idt isr_stub_table idt =
     fold (\<lambda>i. if 0x30 \<le> i \<and> i \<le> 0x3F
               then set_interrupt_gate (of_nat i) (isr_stub_table i) GDT_KERNEL_CODE_SEGMENT_SELECTOR 3
               else set_interrupt_gate (of_nat i) (isr_stub_table i) GDT_KERNEL_CODE_SEGMENT_SELECTOR 0)
       [0..<ISR_STUB_TABLE_LIMIT] idt"

definition enc_gate :: "IDTGate \<Rightarrow> u8 list" where
  "enc_gate g = enc_u16 (offset_low g) @ enc_u16 (segment g) @
     [ucast (gate_reserved g) OR push_bit 5 (ucast (r_bit_1 g)),
      ucast (r_bit_2 g) OR push_bit 3 (of_bool (gate_32 g)) OR push_bit 4 (of_bool (r_bit_3 g)) OR
        push_bit 5 (ucast (desc_privilege_level g)) OR push_bit 7 (of_bool (valid_bit g))] @
     enc_u16 (offset_high g)"

text \<open>The handler address and segment selector the processor reads from a gate.\<close>

definition hw_offset :: "u8 list \<Rightarrow> u32" where
  "hw_offset bs = ucast (bs ! 0) OR push_bit 8 (ucast (bs ! 1)) OR push_bit 16 (ucast (bs ! 6)) OR push_bit 24 (ucast (bs ! 7))"

definition hw_selector :: "u8 list \<Rightarrow> u16" where
  "hw_selector bs = dec_u16 [bs ! 2, bs ! 3]"

text \<open>
  The entry the processor fetches through a table register: the eight bytes at the index, if
  the limit of the register covers them.
\<close>

definition hw_fetch :: "u16 \<Rightarrow> u32 \<Rightarrow> mem \<Rightarrow> nat \<Rightarrow> u8 list option" where
  "hw_fetch lim a m i = (if 8 * i + 7 \<le> unat lim then Some (mem_read m (a + of_nat (8 * i)) 8) else None)"

subsection \<open>Properties\<close>

lemma concat_chunk: "\<forall>x\<in>set xs. length (f x) = n \<Longrightarrow> i < length xs \<Longrightarrow> take n (drop (n * i) (concat (map f xs))) = f (xs ! i)"
proof (induction xs arbitrary: i)
  case (Cons x xs)
  then show ?case by (cases i) (auto simp flip: drop_drop)
qed simp

lemma mem_read_part:
  assumes "k + n \<le> l"
  shows "mem_read m (a + of_nat k) n = take n (drop k (mem_read m a l))"
  using assms by (intro nth_equalityI) (auto simp: add.assoc simp flip: of_nat_add)

lemma fetch_entry:
  assumes t: "mem_read m a (8 * length xs) = concat (map f xs)" and f: "\<forall>x\<in>set xs. length (f x) = 8"
    and i: "i < length xs" and lim: "unat lim + 1 = 8 * length xs"
  shows "hw_fetch lim a m i = Some (f (xs ! i))"
  using mem_read_part [of "8 * i" 8 "8 * length xs" m a] concat_chunk [OF f i] t i lim by (simp add: hw_fetch_def)

text \<open>
  The processor sees four flat segments, code and data for the kernel at privilege 0 and
  for user programs at privilege 3, all with base 0 and limit \<open>0xFFFFFFFF\<close>, at the selectors the
  code uses.
\<close>

theorem gdt_flat_segments:
  "map (\<lambda>sel. let bs = enc_descriptor (global_descriptor_table ! (unat sel div 8))
              in (hw_present bs, hw_base bs, hw_limit bs, hw_dpl bs, hw_type bs))
     [GDT_KERNEL_CODE_SEGMENT_SELECTOR, GDT_KERNEL_DATA_SEGMENT_SELECTOR, GDT_USER_CODE_SEGMENT_SELECTOR,
      GDT_USER_DATA_SEGMENT_SELECTOR] =
   [(True, 0, 0xFFFFFFFF, 0, 0x1A), (True, 0, 0xFFFFFFFF, 0, 0x12), (True, 0, 0xFFFFFFFF, 3, 0x1A), (True, 0, 0xFFFFFFFF, 3, 0x12)]"
  by code_simp

lemma nth_enc_descriptor:
  "enc_descriptor s ! 2 = ucast (base_low s)" "enc_descriptor s ! 3 = ucast (drop_bit 8 (base_low s))"
  "enc_descriptor s ! 4 = base_mid s" "enc_descriptor s ! 7 = base_high s"
  by (simp_all add: enc_descriptor_def enc_u16_def)

lemma word_from_bytes:
  "(ucast (ucast (ucast (a AND 0xFFFF) :: u16) :: u8) OR push_bit 8 (ucast (ucast (drop_bit 8 (ucast (a AND 0xFFFF) :: u16)) :: u8)) OR
     push_bit 16 (ucast (ucast (drop_bit 16 a AND 0xFF) :: u8)) OR
     push_bit 24 (ucast (ucast (drop_bit 24 a AND 0xFF) :: u8)) :: u32) = a"
proof (rule bit_word_eqI)
  have m: "(0xFFFF :: u32) = mask 16" "(0xFF :: u32) = mask 8" by (simp_all add: mask_eq_exp_minus_1)
  fix n assume "n < LENGTH(32)"
  then consider "n < 8" | "8 \<le> n" "n < 16" | "16 \<le> n" "n < 24" | "24 \<le> n" "n < 32" by fastforce
  then show "bit (ucast (ucast (ucast (a AND 0xFFFF) :: u16) :: u8) OR push_bit 8 (ucast (ucast (drop_bit 8 (ucast (a AND 0xFFFF) :: u16)) :: u8)) OR
     push_bit 16 (ucast (ucast (drop_bit 16 a AND 0xFF) :: u8)) OR
     push_bit 24 (ucast (ucast (drop_bit 24 a AND 0xFF) :: u8)) :: u32) n = bit a n"
    unfolding m by cases (auto simp: bit_simps)
qed

text \<open>
  After \<open>gdt_install_tss\<close> the processor finds the task state segment at its address: the
  base it assembles from the three parts of entry 5 is the given address, the limit covers the
  structure, and every other entry is as before.
\<close>

theorem gdt_install_tss_base:
  "hw_base (enc_descriptor (gdt_install_tss a global_descriptor_table ! (unat GDT_TSS_SELECTOR div 8))) = a \<and>
   hw_limit (enc_descriptor (gdt_install_tss a global_descriptor_table ! 5)) = of_nat TSS_ENTRY_SIZE \<and>
   take 5 (gdt_install_tss a global_descriptor_table) = take 5 global_descriptor_table \<and>
   drop 6 (gdt_install_tss a global_descriptor_table) = drop 6 global_descriptor_table"
proof -
  let ?g = "gdt_install_tss a global_descriptor_table"
  have len: "length global_descriptor_table = 32" by (simp add: global_descriptor_table_def)
  have "hw_base (enc_descriptor (?g ! 5)) = a"
    using len by (simp add: hw_base_def nth_enc_descriptor gdt_install_tss_def word_from_bytes)
  moreover have "hw_limit (enc_descriptor (?g ! 5)) = hw_limit (enc_descriptor tss_descriptor)"
    using len by (simp add: hw_limit_def enc_descriptor_def gdt_install_tss_def enc_u16_def global_descriptor_table_def)
  moreover have "hw_limit (enc_descriptor tss_descriptor) = 104" by code_simp
  ultimately show ?thesis by (simp add: gdt_install_tss_def)
qed

text \<open>The processor fetches this entry through the register, whose limit covers the whole table.\<close>

lemma tss_fetched:
  assumes "mem_read m (gdtr_address (gdt_gdtr b)) 256 = concat (map enc_descriptor (gdt_install_tss a global_descriptor_table))"
  shows "\<exists>bs. hw_fetch (gdtr_size (gdt_gdtr b)) (gdtr_address (gdt_gdtr b)) m (unat GDT_TSS_SELECTOR div 8) = Some bs \<and>
    hw_base bs = a \<and> hw_limit bs = of_nat TSS_ENTRY_SIZE"
proof -
  let ?g = "gdt_install_tss a global_descriptor_table"
  have "length ?g = 32" "\<forall>x\<in>set ?g. length (enc_descriptor x) = 8"
    by (simp_all add: gdt_install_tss_def global_descriptor_table_def enc_descriptor_def enc_u16_def)
  then have "hw_fetch (gdtr_size (gdt_gdtr b)) (gdtr_address (gdt_gdtr b)) m 5 = Some (enc_descriptor (?g ! 5))"
    using assms by (intro fetch_entry) (simp_all add: gdt_gdtr_def)
  then show ?thesis using gdt_install_tss_base [of a] by simp
qed

definition stub_gate :: "u32 \<Rightarrow> 2 word \<Rightarrow> IDTGate \<Rightarrow> IDTGate" where
  "stub_gate a dpl g = g\<lparr>offset_low := ucast (a AND 0xFFFF), offset_high := ucast (drop_bit 16 a),
     desc_privilege_level := dpl, segment := 8, r_bit_1 := 0, r_bit_2 := 6, r_bit_3 := False, gate_32 := True, valid_bit := True\<rparr>"

lemma initialize_idt_nth:
  assumes "length idt = 256" "i < 256"
  shows "initialize_idt stub idt ! i = (if i < 64 then stub_gate (stub i) (if 0x30 \<le> i then 3 else 0) (idt ! i) else idt ! i)"
proof -
  let ?f = "\<lambda>i. if 0x30 \<le> i \<and> i \<le> 0x3F then set_interrupt_gate (of_nat i) (stub i) GDT_KERNEL_CODE_SEGMENT_SELECTOR 3
               else set_interrupt_gate (of_nat i) (stub i) GDT_KERNEL_CODE_SEGMENT_SELECTOR 0"
  have step: "?f n g = g[n := stub_gate (stub n) (if 0x30 \<le> n then 3 else 0) (g ! n)]" if "n < 64" for n g
    using that by (simp add: set_interrupt_gate_def stub_gate_def unat_of_nat)
  have "fold ?f [0..<n] idt ! i = (if i < n then stub_gate (stub i) (if 0x30 \<le> i then 3 else 0) (idt ! i) else idt ! i) \<and>
      length (fold ?f [0..<n] idt) = 256" if "n \<le> 64" for n
    using that
  proof (induction n)
    case (Suc n)
    then have "?f n (fold ?f [0..<n] idt) =
        (fold ?f [0..<n] idt)[n := stub_gate (stub n) (if 0x30 \<le> n then 3 else 0) (fold ?f [0..<n] idt ! n)]"
      by (intro step) simp
    then show ?case using Suc assms by (auto simp: nth_list_update less_Suc_eq)
  qed (use assms in simp)
  from this [of 64] show ?thesis by (simp add: initialize_idt_def)
qed

lemma hw_stub_gate:
  shows "hw_offset (enc_gate (stub_gate a dpl g)) = a" "hw_selector (enc_gate (stub_gate a dpl g)) = 8"
    "hw_present (enc_gate (stub_gate a dpl g))"
    "dpl = 0 \<or> dpl = 3 \<Longrightarrow> hw_dpl (enc_gate (stub_gate a dpl g)) = ucast dpl \<and> hw_type (enc_gate (stub_gate a dpl g)) = 0x0E"
proof -
  have m: "(0xFFFF :: u32) = mask 16" by (simp add: mask_eq_exp_minus_1)
  show "hw_offset (enc_gate (stub_gate a dpl g)) = a"
  proof (rule bit_word_eqI)
    fix n assume "n < LENGTH(32)"
    then consider "n < 8" | "8 \<le> n" "n < 16" | "16 \<le> n" "n < 24" | "24 \<le> n" "n < 32" by fastforce
    then show "bit (hw_offset (enc_gate (stub_gate a dpl g))) n = bit a n"
      unfolding hw_offset_def enc_gate_def stub_gate_def m by cases (auto simp: enc_u16_def bit_simps)
  qed
  show "hw_selector (enc_gate (stub_gate a dpl g)) = 8"
    using dec_enc_u16 [of 8] by (simp add: hw_selector_def enc_gate_def stub_gate_def enc_u16_def)
  have b: "enc_gate (stub_gate a dpl g) ! 5 = 6 OR (8 OR (push_bit 5 (ucast dpl) OR 0x80))"
    by (simp add: enc_gate_def stub_gate_def enc_u16_def or.assoc)
  show "hw_present (enc_gate (stub_gate a dpl g))" unfolding hw_present_def b by (simp add: bit_simps)
  show "hw_dpl (enc_gate (stub_gate a dpl g)) = ucast dpl \<and> hw_type (enc_gate (stub_gate a dpl g)) = 0x0E" if "dpl = 0 \<or> dpl = 3"
    using that unfolding hw_dpl_def hw_type_def b by auto
qed

lemma length_enc_gate [simp]: "length (enc_gate g) = 8"
  by (simp add: enc_gate_def enc_u16_def)

lemma length_initialize_idt: "length idt = 256 \<Longrightarrow> length (initialize_idt stub idt) = 256"
proof -
  have "length (fold (\<lambda>i. if P i then set_interrupt_gate (of_nat i) (stub i) c 3 else set_interrupt_gate (of_nat i) (stub i) c 0) xs idt) = length idt"
    for P c xs by (induction xs arbitrary: idt) (simp_all add: set_interrupt_gate_def)
  then show "length idt = 256 \<Longrightarrow> ?thesis" by (simp add: initialize_idt_def)
qed

text \<open>
  C40. After \<open>initialize_idt\<close>, with the table in memory where the register points, the processor
  fetches for each of the 64 vectors a present 32-bit interrupt gate to its stub in the kernel's
  code segment; user programs may raise exactly the vectors \<open>0x30\<close> to \<open>0x3F\<close>, the system call
  among them. The limit of the register covers the other vectors too, but they have no gate.
\<close>

theorem initialize_idt_gates:
  fixes stub :: "nat \<Rightarrow> u32"
  assumes m: "mem_read m (idtr_address (idt_idtr a)) 2048 = concat (map enc_gate (initialize_idt stub interrupt_descriptor_table))"
    and i: "i < 256"
  shows "\<exists>bs. hw_fetch (idtr_size (idt_idtr a)) (idtr_address (idt_idtr a)) m i = Some bs \<and> hw_present bs = (i < 64) \<and>
    (i < 64 \<longrightarrow> hw_offset bs = stub i \<and> hw_selector bs = GDT_KERNEL_CODE_SEGMENT_SELECTOR \<and> hw_type bs = 0x0E \<and>
       hw_dpl bs = (if i \<in> {0x30..0x3F} then 3 else 0))"
proof -
  let ?t = "initialize_idt stub interrupt_descriptor_table"
  have l: "length interrupt_descriptor_table = 256" "length ?t = 256" by (simp_all add: interrupt_descriptor_table_def length_initialize_idt)
  have z: "interrupt_descriptor_table ! i = zero_gate" using i by (simp add: interrupt_descriptor_table_def)
  have f: "hw_fetch (idtr_size (idt_idtr a)) (idtr_address (idt_idtr a)) m i = Some (enc_gate (?t ! i))"
    using m i l by (intro fetch_entry) (simp_all add: idt_idtr_def)
  have nz: "\<not> hw_present (enc_gate zero_gate)" by code_simp
  show ?thesis
  proof (cases "i < 64")
    case True
    then have "?t ! i = stub_gate (stub i) (if 0x30 \<le> i then 3 else 0) zero_gate" using initialize_idt_nth [OF l(1) i, of stub] z by simp
    then show ?thesis using f True hw_stub_gate by auto
  next
    case False
    then show ?thesis using initialize_idt_nth [OF l(1) i, of stub] z f nz by simp
  qed
qed

theorem initialize_idt_gates_witness:
  "\<exists>bs. hw_fetch (idtr_size (idt_idtr 0xC0105000)) (idtr_address (idt_idtr 0xC0105000)) (mem_write (\<lambda>_. 0) 0xC0105000
      (concat (map enc_gate (initialize_idt (\<lambda>i. 0xC0100000 + of_nat i) interrupt_descriptor_table)))) 0x30 = Some bs \<and>
    hw_offset bs = 0xC0100030 \<and> hw_dpl bs = 3"
proof -
  let ?bs = "concat (map enc_gate (initialize_idt (\<lambda>i. 0xC0100000 + of_nat i) interrupt_descriptor_table))"
  have "length ?bs = 2048"
    by (simp add: length_concat comp_def sum_list_triv length_initialize_idt interrupt_descriptor_table_def)
  then have "mem_read (mem_write (\<lambda>_. 0) (idtr_address (idt_idtr 0xC0105000)) ?bs) (idtr_address (idt_idtr 0xC0105000)) 2048 = ?bs"
    using mem_read_write_same [of ?bs "\<lambda>_. 0" "0xC0105000"] by (simp add: idt_idtr_def)
  from initialize_idt_gates [OF this, of "0x30"] show ?thesis by (auto simp: idt_idtr_def)
qed

end
