(* ===== verification/Interrupt.thy ===== *)
theory Interrupt
  imports Process CMOS Descriptors
begin

text \<open>
  Interrupts and system calls, \<^verbatim>\<open>src/src/interrupt.c\<close>, and the start of the kernel,
  \<^verbatim>\<open>src/src/kernel.c\<close>. System calls get their arguments in registers; the kernel follows the
  pointers among them through the active page directory. The byte \<open>after\<close> is the one behind
  \<open>itoa\<close>'s buffer.
\<close>

unbundle bit_operations_syntax

subsection \<open>Data\<close>

definition PIC1_OFFSET :: u8 where [simp]: "PIC1_OFFSET = 0x20"
definition PIC2_OFFSET :: u8 where [simp]: "PIC2_OFFSET = 0x28"
definition PIC1_COMMAND :: u16 where [simp]: "PIC1_COMMAND = 0x20"
definition PIC1_DATA :: u16 where [simp]: "PIC1_DATA = 0x21"
definition PIC2_COMMAND :: u16 where [simp]: "PIC2_COMMAND = 0xA0"
definition PIC2_DATA :: u16 where [simp]: "PIC2_DATA = 0xA1"
definition PIC_DISABLE_ALL_MASK :: u8 where [simp]: "PIC_DISABLE_ALL_MASK = 0xFF"
definition ICW1_ICW4 :: u8 where [simp]: "ICW1_ICW4 = 0x01"
definition ICW1_INIT :: u8 where [simp]: "ICW1_INIT = 0x10"
definition ICW4_8086 :: u8 where [simp]: "ICW4_8086 = 0x01"
definition IRQ_TIMER :: nat where [simp]: "IRQ_TIMER = 0"
definition IRQ_KEYBOARD :: nat where [simp]: "IRQ_KEYBOARD = 1"
definition PAGE_FAULT :: u32 where [simp]: "PAGE_FAULT = 0xE"
definition PIT_TIMER_COUNTER :: u32 where [simp]: "PIT_TIMER_COUNTER = 1193182 div 1000"
definition PIT_COMMAND_VALUE :: u8 where
  [simp]: "PIT_COMMAND_VALUE = 0 OR push_bit 1 3 OR push_bit 4 3 OR push_bit 6 0"

record InterruptStack =
  error_code :: u32
  int_eip :: u32
  int_cs :: u32
  int_eflags :: u32

record InterruptFrame =
  frame_cpu :: CPURegister
  int_number :: u32
  int_stack :: InterruptStack

record TSSEntry =
  prev_tss :: u32
  esp0 :: u32
  ss0 :: u32
  unused_register :: "u32 list"

definition interrupt_tss_entry :: TSSEntry where
  "interrupt_tss_entry = \<lparr>prev_tss = 0, esp0 = 0, ss0 = ucast GDT_KERNEL_DATA_SEGMENT_SELECTOR, unused_register = replicate 23 0\<rparr>"

subsection \<open>Interrupt controller and timer\<close>

definition mask_off :: "'d ports \<Rightarrow> nat \<Rightarrow> 'd console \<Rightarrow> 'd console" where
  "mask_off io irq c =
     (let (v, d) = port_in io PIC1_DATA (device c)
      in out io PIC1_DATA (v AND NOT (push_bit irq 1)) (c\<lparr>device := d\<rparr>))"

definition activate_timer_interrupt :: "'d ports \<Rightarrow> 'd console \<Rightarrow> 'd console" where
  "activate_timer_interrupt io c =
     (let c = out io 0x43 PIT_COMMAND_VALUE c;
          c = out io 0x40 (ucast (PIT_TIMER_COUNTER AND 0xFF)) c;
          c = out io 0x40 (ucast (drop_bit 8 PIT_TIMER_COUNTER AND 0xFF)) c
      in mask_off io IRQ_TIMER c)"

definition io_wait :: "'d ports \<Rightarrow> 'd console \<Rightarrow> 'd console" where
  "io_wait io c = out io 0x80 0 c"

definition pic_remap :: "'d ports \<Rightarrow> 'd console \<Rightarrow> 'd console" where
  "pic_remap io c =
     (let c = io_wait io (out io PIC1_COMMAND (ICW1_INIT OR ICW1_ICW4) c);
          c = io_wait io (out io PIC2_COMMAND (ICW1_INIT OR ICW1_ICW4) c);
          c = io_wait io (out io PIC1_DATA PIC1_OFFSET c);
          c = io_wait io (out io PIC2_DATA PIC2_OFFSET c);
          c = io_wait io (out io PIC1_DATA 4 c);
          c = io_wait io (out io PIC2_DATA 2 c);
          c = io_wait io (out io PIC1_DATA ICW4_8086 c);
          c = io_wait io (out io PIC2_DATA ICW4_8086 c);
          c = out io PIC1_DATA PIC_DISABLE_ALL_MASK c
      in out io PIC2_DATA PIC_DISABLE_ALL_MASK c)"

definition activate_keyboard_interrupt :: "'d ports \<Rightarrow> 'd console \<Rightarrow> 'd console" where
  "activate_keyboard_interrupt io c = mask_off io IRQ_KEYBOARD c"

definition set_tss_kernel_current_stack :: "u32 \<Rightarrow> TSSEntry \<Rightarrow> TSSEntry" where
  "set_tss_kernel_current_stack stack_ptr tss = tss\<lparr>esp0 := stack_ptr + 8\<rparr>"

subsection \<open>Memory of the caller\<close>

text \<open>The directory that CR3 points to; outside the pool it is the kernel's own.\<close>

definition active_directory :: "paging_state \<Rightarrow> PageDirectory" where
  "active_directory pg =
     (let i = scan_while (\<lambda>i. directory_addr pg i - KERNEL_VIRTUAL_ADDRESS_BASE \<noteq> cr3 pg) 0 PAGING_DIRECTORY_TABLE_MAX_COUNT
      in if i < PAGING_DIRECTORY_TABLE_MAX_COUNT then page_directory_list pg ! i else paging_kernel_page_directory)"

definition load_bytes :: "PageDirectory \<Rightarrow> u32 \<Rightarrow> nat \<Rightarrow> mem \<Rightarrow> u8 list run" where
  "load_bytes dir a n pm = (if range_mapped dir a n then Ret (mem_read (user_view dir pm) a n) else Fault Page_Fault)"

definition store_bytes :: "PageDirectory \<Rightarrow> u32 \<Rightarrow> u8 list \<Rightarrow> mem \<Rightarrow> mem run" where
  "store_bytes dir a bs pm =
     (if range_mapped dir a (length bs) then Ret (store_view dir (mem_write (user_view dir pm) a bs) pm) else Fault Page_Fault)"

definition dec_request :: "u8 list \<Rightarrow> FAT32DriverRequest" where
  "dec_request bs = \<lparr>rq_buf = dec_u32 (take 4 bs), rq_name = take 8 (drop 4 bs), rq_ext = take 3 (drop 12 bs),
     rq_parent_cluster_number = dec_u32 (take 4 (drop 15 bs)), rq_buffer_size = dec_u32 (take 4 (drop 19 bs))\<rparr>"

definition load_request :: "PageDirectory \<Rightarrow> u32 \<Rightarrow> mem \<Rightarrow> FAT32DriverRequest run" where
  "load_request dir a pm = run_bind (load_bytes dir a 23 pm) (\<lambda>bs. Ret (dec_request bs))"

text \<open>\<^verbatim>\<open>*((int8_t*) ecx) = r\<close>\<close>

definition store_result :: "u32 \<Rightarrow> int \<Rightarrow> 'd kernel \<Rightarrow> 'd kernel run" where
  "store_result a r k =
     run_bind (store_bytes (active_directory (k_paging k)) a [of_int r] (k_mem k)) (\<lambda>pm. Ret (k\<lparr>k_mem := pm\<rparr>))"

subsection \<open>System calls\<close>

definition sys_read :: "u32 \<Rightarrow> u32 \<Rightarrow> 'd kernel \<Rightarrow> 'd kernel run" where
  "sys_read p ret k =
     (let dir = active_directory (k_paging k) in
      run_bind (load_request dir p (k_mem k)) (\<lambda>rq.
      run_bind (read_into_space dir rq (k_fs k) (k_mem k)) (\<lambda>(r, pm).
      store_result ret r (k\<lparr>k_mem := pm\<rparr>))))"

definition sys_read_directory :: "u32 \<Rightarrow> u32 \<Rightarrow> 'd kernel \<Rightarrow> 'd kernel run" where
  "sys_read_directory p ret k =
     (let dir = active_directory (k_paging k) in
      run_bind (load_request dir p (k_mem k)) (\<lambda>rq.
      let (r, m) = read_directory rq (k_fs k) (user_view dir (k_mem k)) in
      if r \<noteq> 0 then store_result ret r k
      else if range_mapped dir (rq_buf rq) CLUSTER_SIZE then store_result ret r (k\<lparr>k_mem := store_view dir m (k_mem k)\<rparr>)
      else Fault Page_Fault))"

text \<open>\<open>fat_write\<close> reads the clusters of a file from the buffer only when it stores it.\<close>

definition sys_write :: "u32 \<Rightarrow> u32 \<Rightarrow> 'd kernel \<Rightarrow> 'd kernel run" where
  "sys_write p ret k =
     (let dir = active_directory (k_paging k) in
      run_bind (load_request dir p (k_mem k)) (\<lambda>rq.
      run_bind (fat_write rq (user_view dir (k_mem k)) (k_fs k)) (\<lambda>(r, s).
      if r = 0 \<and> rq_buffer_size rq \<noteq> 0 \<and>
         \<not> range_mapped dir (rq_buf rq) (CLUSTER_SIZE * unat (number_of_partition (rq_buffer_size rq)))
      then Fault Page_Fault
      else store_result ret r (k\<lparr>k_fs := s\<rparr>))))"

definition sys_delete :: "u32 \<Rightarrow> u32 \<Rightarrow> 'd kernel \<Rightarrow> 'd kernel run" where
  "sys_delete p ret k =
     run_bind (load_request (active_directory (k_paging k)) p (k_mem k)) (\<lambda>rq.
     run_bind (Delete rq (k_fs k)) (\<lambda>(r, s). store_result ret r (k\<lparr>k_fs := s\<rparr>)))"

definition sys_getchar :: "u32 \<Rightarrow> 'd kernel \<Rightarrow> 'd kernel run" where
  "sys_getchar p k =
     (let (ch, c) = get_keyboard_buffer (k_console k) in
      run_bind (store_bytes (active_directory (k_paging k)) p [ch] (k_mem k)) (\<lambda>pm.
      Ret (k\<lparr>k_console := c, k_mem := pm\<rparr>)))"

definition sys_puts :: "'d ports \<Rightarrow> u32 \<Rightarrow> nat \<Rightarrow> u32 \<Rightarrow> 'd kernel \<Rightarrow> 'd kernel run" where
  "sys_puts io p n color k =
     run_bind (load_bytes (active_directory (k_paging k)) p n (k_mem k)) (\<lambda>bs.
     Ret (k\<lparr>k_console := puts io bs color (k_console k)\<rparr>))"

definition sys_read_cluster :: "u32 \<Rightarrow> u32 \<Rightarrow> 'd kernel \<Rightarrow> 'd kernel run" where
  "sys_read_cluster p n k =
     run_bind (store_bytes (active_directory (k_paging k)) p (read_clusters n 1 (fs_disk (k_fs k))) (k_mem k)) (\<lambda>pm.
     Ret (k\<lparr>k_mem := pm\<rparr>))"

definition sys_write_cluster :: "u32 \<Rightarrow> u32 \<Rightarrow> 'd kernel \<Rightarrow> 'd kernel run" where
  "sys_write_cluster p n k =
     run_bind (load_bytes (active_directory (k_paging k)) p CLUSTER_SIZE (k_mem k)) (\<lambda>bs.
     Ret (k\<lparr>k_fs := write_cluster bs n (k_fs k)\<rparr>))"

definition sys_exec :: "u32 \<Rightarrow> u32 \<Rightarrow> 'd kernel \<Rightarrow> 'd kernel run" where
  "sys_exec p ret k =
     run_bind (load_request (active_directory (k_paging k)) p (k_mem k)) (\<lambda>rq.
     run_bind (process_create_user_process rq k) (\<lambda>(r, k). store_result ret r k))"

text \<open>When the killed process was the running one, another process may have been resumed; then control does not come back.\<close>

definition sys_kill :: "u32 \<Rightarrow> u32 \<Rightarrow> 'd kernel \<Rightarrow> 'd kernel run" where
  "sys_kill p ret k =
     run_bind (kill_process p k) (\<lambda>(r, k').
     if length (resumed k') \<noteq> length (resumed k) then Ret k' else store_result ret r k')"

definition sys_clock :: "'d ports \<Rightarrow> u8 \<Rightarrow> 'd kernel \<Rightarrow> 'd kernel run" where
  "sys_clock io after k =
     run_bind (print_current_time io after (itoa_buf k) (k_console k)) (\<lambda>(t, buf, c).
     Ret (k\<lparr>itoa_buf := buf, k_console := c\<rparr>))"

definition interrupt :: "'d ports \<Rightarrow> u8 \<Rightarrow> CPURegister \<Rightarrow> 'd kernel \<Rightarrow> 'd kernel run" where
  "interrupt io after cpu k =
     (if eax cpu = 0 then sys_read (ebx cpu) (ecx cpu) k
      else if eax cpu = 1 then sys_read_directory (ebx cpu) (ecx cpu) k
      else if eax cpu = 2 then sys_write (ebx cpu) (ecx cpu) k
      else if eax cpu = 3 then sys_delete (ebx cpu) (ecx cpu) k
      else if eax cpu = 4 then sys_getchar (ebx cpu) k
      else if eax cpu = 5 then sys_puts io (ebx cpu) 1 (ecx cpu) k
      else if eax cpu = 6 then sys_puts io (ebx cpu) (unat (ecx cpu)) (edx cpu) k
      else if eax cpu = 7 then Ret (k\<lparr>k_console := keyboard_state_activate (k_console k)\<rparr>)
      else if eax cpu = 8 then Ret (k\<lparr>k_console := reset_write_position (framebuffer_clear (k_console k))\<rparr>)
      else if eax cpu = 9 then sys_read_cluster (ebx cpu) (ecx cpu) k
      else if eax cpu = 10 then sys_write_cluster (ebx cpu) (ecx cpu) k
      else if eax cpu = 11 then terminate_current_process k
      else if eax cpu = 12 then sys_exec (ebx cpu) (ecx cpu) k
      else if eax cpu = 13 then print_active_processes io k
      else if eax cpu = 14 then sys_kill (ebx cpu) (ecx cpu) k
      else if eax cpu = 15 then sys_clock io after k
      else if eax cpu = 16 then Ret (k\<lparr>k_console := keyboard_state_activate (k_console k)\<rparr>)
      else if eax cpu = 17 then
        Ret (k\<lparr>k_console := framebuffer_write (ucast (ecx cpu)) (ucast (edx cpu)) (ucast (ebx cpu)) 0xF 0 (k_console k)\<rparr>)
      else Ret k)"

text \<open>
  A page fault stops the processor: interrupt gates disable interrupts, so \<^verbatim>\<open>hlt\<close> does not return.
\<close>

definition main_interrupt_handler :: "'d ports \<Rightarrow> u8 \<Rightarrow> InterruptFrame \<Rightarrow> 'd kernel \<Rightarrow> 'd kernel run" where
  "main_interrupt_handler io after frame k =
     (if int_number frame = PAGE_FAULT then None
      else if int_number frame = of_nat IRQ_KEYBOARD + ucast PIC1_OFFSET then
        Ret (k\<lparr>k_console := keyboard_isr io (k_console k)\<rparr>)
      else if int_number frame = of_nat IRQ_TIMER + ucast PIC1_OFFSET then
        let current_ctx = \<lparr>ctx_cpu = frame_cpu frame, ctx_eip = int_eip (int_stack frame), ctx_eflags = int_eflags (int_stack frame),
                            page_directory_virtual_addr = paging_get_current_page_directory_addr (k_paging k)\<rparr>;
            k = k\<lparr>k_procs := scheduler_save_context_to_current_running_pcb current_ctx (k_procs k)\<rparr>;
            k = k\<lparr>k_console := pic_ack io (of_nat IRQ_TIMER) (k_console k)\<rparr>
        in Ret (scheduler_switch_to_next_process k)
      else if int_number frame = 0x30 then interrupt io after (frame_cpu frame) k
      else Ret k)"

subsection \<open>Start of the kernel\<close>

record 'd machine =
  m_gdt :: GlobalDescriptorTable
  m_idt :: InterruptDescriptorTable
  m_tss :: TSSEntry
  m_kernel :: "'d kernel"

definition scheduler_init :: "'d ports \<Rightarrow> 'd kernel \<Rightarrow> 'd kernel" where
  "scheduler_init io k = k\<lparr>k_console := activate_timer_interrupt io (k_console k)\<rparr>"

definition shell_request :: FAT32DriverRequest where
  "shell_request = \<lparr>rq_buf = 0, rq_name = map of_char ''shell'' @ [0, 0, 0], rq_ext = [0, 0, 0],
     rq_parent_cluster_number = ROOT_CLUSTER_NUMBER, rq_buffer_size = 0x100000\<rparr>"

text \<open>
  Parameters from assembly and the linker: the interrupt stubs, the address of the task state
  segment, the frame pointer, and the bytes behind the signature that formatting writes.
\<close>

definition kernel_setup ::
  "'d ports \<Rightarrow> (nat \<Rightarrow> u32) \<Rightarrow> u32 \<Rightarrow> u32 \<Rightarrow> u8 list \<Rightarrow> 'd machine \<Rightarrow> 'd machine run" where
  "kernel_setup io isr_stub_table tss_addr stack_ptr behind mc =
     (let k = m_kernel mc;
          c = pic_remap io (k_console k);
          idt = initialize_idt isr_stub_table (m_idt mc);
          c = activate_keyboard_interrupt io c;
          c = framebuffer_set_cursor io 0 0 (framebuffer_clear c);
          k = k\<lparr>k_console := c, k_fs := initialize_filesystem_fat32 behind (k_fs k)\<rparr>;
          gdt = gdt_install_tss tss_addr (m_gdt mc);
          tss = set_tss_kernel_current_stack stack_ptr (m_tss mc)
      in run_bind (process_create_user_process shell_request k) (\<lambda>(_, k).
         Ret (mc\<lparr>m_gdt := gdt, m_idt := idt, m_tss := tss,
                 m_kernel := scheduler_switch_to_next_process (scheduler_init io k)\<rparr>)))"

end
