(* ===== verification/Scheduler.thy ===== *)
theory Scheduler
  imports Process FAT32_Props
begin

text \<open>
  The scheduler: which process \<open>scheduler_switch_to_next_process\<close> picks, and that every ready
  process runs after at most 15 timer ticks.
\<close>

subsection \<open>The search\<close>

definition cyc :: "nat \<Rightarrow> nat \<Rightarrow> nat" where
  "cyc r d = (r + d) mod 16"

lemma cyc_less [simp]: "cyc r d < 16"
  by (simp add: cyc_def)

lemma cyc_ne: "r < 16 \<Longrightarrow> 0 < d \<Longrightarrow> d < 16 \<Longrightarrow> cyc r d \<noteq> r"
  by (cases "r + d < 16") (auto simp: cyc_def mod_if)

lemma cyc_16 [simp]: "r < 16 \<Longrightarrow> cyc r 16 = r"
  by (simp add: cyc_def)

lemma cyc_Suc: "(cyc r d + 1) mod 16 = cyc r (Suc d)"
  by (simp add: cyc_def mod_Suc_eq)

abbreviation state_at :: "ProcessManagerState \<Rightarrow> nat \<Rightarrow> PROCESS_STATE" where
  "state_at st i \<equiv> proc_state (process_list st ! i)"

lemma next_ready_running:
  assumes r: "running_process_idx st = int r" "r < 16" and c: "c < 16"
  shows "next_ready st (cyc r (Suc c)) c =
    (let d = scan_while (\<lambda>d. state_at st (cyc r d) \<noteq> READY) (Suc c) 16 in (cyc r d, d - 1))"
  using c
proof (induction "15 - c" arbitrary: c)
  case 0
  then have "c = 15" by simp
  then show ?case using r by (simp add: next_ready.simps scan_while.simps Let_def)
next
  case (Suc n)
  then have c: "c < 15" by simp
  have ne: "cyc r (Suc c) \<noteq> r" using r(2) c by (intro cyc_ne) auto
  show ?case
  proof (cases "state_at st (cyc r (Suc c)) = READY")
    case True
    then show ?thesis using ne r c by (simp add: next_ready.simps [of st _ c] scan_while.simps Let_def)
  next
    case False
    have "next_ready st (cyc r (Suc c)) c = next_ready st (cyc r (Suc (Suc c))) (Suc c)"
      using False ne r c cyc_Suc [of r "Suc c"] by (subst next_ready.simps) simp
    also have "\<dots> = (let d = scan_while (\<lambda>d. state_at st (cyc r d) \<noteq> READY) (Suc (Suc c)) 16 in (cyc r d, d - 1))"
      using Suc c by (intro Suc.hyps(1)) auto
    finally show ?thesis using False c by (simp add: scan_while.simps [of _ "Suc c"] Let_def)
  qed
qed

lemma next_ready_idle:
  assumes r: "running_process_idx st = -1" and c: "c \<le> 16"
  shows "next_ready st (c mod 16) c =
    (let i = scan_while (\<lambda>i. state_at st i \<noteq> READY) c 16 in (i mod 16, i))"
  using c
proof (induction "16 - c" arbitrary: c)
  case 0
  then have "c = 16" by simp
  then show ?case using r by (simp add: next_ready.simps scan_while.simps Let_def)
next
  case (Suc n)
  then have c: "c < 16" by simp
  show ?case
  proof (cases "state_at st c = READY")
    case True
    then show ?thesis using r c by (simp add: next_ready.simps [of st _ c] scan_while.simps Let_def)
  next
    case False
    have "next_ready st (c mod 16) c = next_ready st (Suc c mod 16) (Suc c)"
      using False r c by (subst next_ready.simps) simp
    also have "\<dots> = (let i = scan_while (\<lambda>i. state_at st i \<noteq> READY) (Suc c) 16 in (i mod 16, i))"
      using Suc c by (intro Suc.hyps(1)) auto
    finally show ?thesis using False c by (simp add: scan_while.simps [of _ c] Let_def)
  qed
qed

text \<open>The distance to the next ready process after \<open>r\<close>; 16 when there is none but possibly \<open>r\<close> itself.\<close>

definition ready_distance :: "ProcessManagerState \<Rightarrow> nat \<Rightarrow> nat" where
  "ready_distance st r = scan_while (\<lambda>d. state_at st (cyc r d) \<noteq> READY) 1 16"

lemma ready_distance_props:
  "1 \<le> ready_distance st r" "ready_distance st r \<le> 16"
  "ready_distance st r < 16 \<Longrightarrow> state_at st (cyc r (ready_distance st r)) = READY"
  "1 \<le> d \<Longrightarrow> d < ready_distance st r \<Longrightarrow> state_at st (cyc r d) \<noteq> READY"
  using scan_while_bounds [of 1 16] scan_while_stop [of "\<lambda>d. state_at st (cyc r d) \<noteq> READY" 1 16]
    scan_while_skipped [of 1 d "\<lambda>d. state_at st (cyc r d) \<noteq> READY" 16]
  by (auto simp: ready_distance_def)

definition run_process :: "nat \<Rightarrow> 'd kernel \<Rightarrow> 'd kernel" where
  "run_process i k =
     (let p = (process_list (k_procs k) ! i)\<lparr>proc_state := RUNNING\<rparr>
      in k\<lparr>k_procs := (set_pcb i p (k_procs k))\<lparr>running_process_idx := int i\<rparr>,
           k_paging := paging_use_page_directory (page_directory_virtual_addr (pcb_context p)) (k_paging k),
           resumed := pcb_context p # resumed k\<rparr>)"

lemma switch_running:
  assumes r: "running_process_idx (k_procs k) = int r" "r < 16"
  shows "scheduler_switch_to_next_process k =
    (let d = ready_distance (k_procs k) r in
     if d = 16 then k\<lparr>k_procs := set_pcb r ((process_list (k_procs k) ! r)\<lparr>proc_state := RUNNING\<rparr>) (k_procs k)\<rparr>
     else run_process (cyc r d) k)"
proof -
  let ?d = "ready_distance (k_procs k) r"
  have s: "nat ((int r + 1) mod 16) = cyc r (Suc 0)" by (simp add: cyc_def nat_mod_distrib nat_add_distrib)
  have n: "next_ready (k_procs k) (cyc r (Suc 0)) 0 = (cyc r ?d, ?d - 1)"
    using next_ready_running [OF r, of 0] by (simp add: ready_distance_def Let_def)
  show ?thesis
  proof (cases "?d = 16")
    case True
    then show ?thesis using n r s by (simp add: scheduler_switch_to_next_process_def Let_def)
  next
    case False
    then have d: "0 < ?d" "?d < 16" using ready_distance_props(1,2) [of "k_procs k" r] by auto
    then have "cyc r ?d \<noteq> r" using cyc_ne r(2) by blast
    then show ?thesis
      using n r s d by (simp add: scheduler_switch_to_next_process_def Let_def run_process_def)
  qed
qed

lemma switch_idle:
  assumes r: "running_process_idx (k_procs k) = -1"
  shows "scheduler_switch_to_next_process k =
    (let i = scan_while (\<lambda>i. state_at (k_procs k) i \<noteq> READY) 0 16 in if i = 16 then k else run_process i k)"
proof -
  let ?i = "scan_while (\<lambda>i. state_at (k_procs k) i \<noteq> READY) 0 16"
  have n: "next_ready (k_procs k) 0 0 = (?i mod 16, ?i)"
    using next_ready_idle [OF r, of 0] by (simp add: Let_def)
  have "?i \<le> 16" by (rule scan_while_le) simp
  then show ?thesis
    using n r by (cases "?i = 16") (auto simp: scheduler_switch_to_next_process_def Let_def run_process_def)
qed

subsection \<open>Rounds of timer ticks\<close>

text \<open>What the timer interrupt does: save the interrupted context, then pick the next process.\<close>

definition tick :: "'d kernel \<Rightarrow> Context \<Rightarrow> 'd kernel" where
  "tick k ctx = scheduler_switch_to_next_process (k\<lparr>k_procs := scheduler_save_context_to_current_running_pcb ctx (k_procs k)\<rparr>)"

lemma cyc_inj: "r < 16 \<Longrightarrow> a < 16 \<Longrightarrow> b < 16 \<Longrightarrow> cyc r a = cyc r b \<Longrightarrow> a = b"
  by (cases "r + a < 16"; cases "r + b < 16") (auto simp: cyc_def mod_if split: if_splits)

lemma cyc_cyc: "e \<le> d \<Longrightarrow> cyc (cyc r e) (d - e) = cyc r d"
  unfolding cyc_def by (simp only: mod_add_left_eq) simp

lemma tick_next:
  assumes r: "running_process_idx (k_procs k) = int r" "r < 16" and len: "length (process_list (k_procs k)) = 16"
    and d: "0 < d" "d < 16" and j: "state_at (k_procs k) (cyc r d) = READY"
  obtains e where "0 < e" "e \<le> d" "running_process_idx (k_procs (tick k ctx)) = int (cyc r e)"
    "length (process_list (k_procs (tick k ctx))) = 16"
    "hd (resumed (tick k ctx)) = pcb_context (process_list (k_procs k) ! cyc r e)"
    "e \<noteq> d \<Longrightarrow> process_list (k_procs (tick k ctx)) ! cyc r d = process_list (k_procs k) ! cyc r d"
proof -
  define st where "st = scheduler_save_context_to_current_running_pcb ctx (k_procs k)"
  have st: "st = set_pcb r ((process_list (k_procs k) ! r)\<lparr>pcb_context := ctx, proc_state := READY\<rparr>) (k_procs k)"
    using r by (simp add: st_def scheduler_save_context_to_current_running_pcb_def process_get_current_running_pcb_pointer_def)
  have other: "process_list st ! cyc r c = process_list (k_procs k) ! cyc r c" if "0 < c" "c < 16" for c
    using cyc_ne [OF r(2) that] by (simp add: st nth_list_update)
  have rst: "running_process_idx st = int r" using r by (simp add: st)
  let ?e = "ready_distance st r"
  have "?e \<le> d" using ready_distance_props(4) [of d st r] d j other [OF d] by (cases "d < ?e") auto
  then have e: "0 < ?e" "?e \<le> d" "?e < 16" using ready_distance_props(1) [of st r] d by auto
  have t: "tick k ctx = run_process (cyc r ?e) (k\<lparr>k_procs := st\<rparr>)"
    using switch_running [of "k\<lparr>k_procs := st\<rparr>" r] rst r(2) e(3) by (simp add: tick_def st_def Let_def)
  show thesis
  proof (rule that [of ?e])
    show "running_process_idx (k_procs (tick k ctx)) = int (cyc r ?e)" by (simp add: t run_process_def Let_def)
    show "length (process_list (k_procs (tick k ctx))) = 16" using len by (simp add: t run_process_def Let_def st)
    show "hd (resumed (tick k ctx)) = pcb_context (process_list (k_procs k) ! cyc r ?e)"
      using other [OF e(1,3)] by (simp add: t run_process_def Let_def)
    assume "?e \<noteq> d"
    then have "cyc r ?e \<noteq> cyc r d" using cyc_inj [OF r(2) e(3) d(2)] by auto
    then show "process_list (k_procs (tick k ctx)) ! cyc r d = process_list (k_procs k) ! cyc r d"
      using other [OF d] by (simp add: t run_process_def Let_def nth_list_update)
  qed (use e in auto)
qed

lemma ready_process_runs_from:
  assumes "running_process_idx (k_procs k) = int r" "r < 16" "length (process_list (k_procs k)) = 16"
    "0 < d" "d < 16" "state_at (k_procs k) (cyc r d) = READY" "d \<le> length ctxs"
  shows "\<exists>n\<le>d. running_process_idx (k_procs (foldl tick k (take n ctxs))) = int (cyc r d) \<and>
    hd (resumed (foldl tick k (take n ctxs))) = pcb_context (process_list (k_procs k) ! cyc r d)"
  using assms
proof (induction d arbitrary: k r ctxs rule: less_induct)
  case (less d)
  then obtain ctx ctxs' where c: "ctxs = ctx # ctxs'" by (cases ctxs) auto
  obtain e where e: "0 < e" "e \<le> d" "running_process_idx (k_procs (tick k ctx)) = int (cyc r e)"
    "length (process_list (k_procs (tick k ctx))) = 16"
    "hd (resumed (tick k ctx)) = pcb_context (process_list (k_procs k) ! cyc r e)"
    "e \<noteq> d \<Longrightarrow> process_list (k_procs (tick k ctx)) ! cyc r d = process_list (k_procs k) ! cyc r d"
    using tick_next [OF less.prems(1-6)] by metis
  show ?case
  proof (cases "e = d")
    case True
    then show ?thesis using e c less.prems(4) by (intro exI [of _ 1]) auto
  next
    case False
    then have d: "0 < d - e" "d - e < d" "d - e < 16" "d - e \<le> length ctxs'" using e less.prems c by auto
    have j: "cyc (cyc r e) (d - e) = cyc r d" using e(2) by (rule cyc_cyc)
    have "\<exists>n\<le>d - e. running_process_idx (k_procs (foldl tick (tick k ctx) (take n ctxs'))) = int (cyc (cyc r e) (d - e)) \<and>
        hd (resumed (foldl tick (tick k ctx) (take n ctxs'))) =
          pcb_context (process_list (k_procs (tick k ctx)) ! cyc (cyc r e) (d - e))"
      using d(1,3,4) e(3,4) e(6) [OF False] less.prems(6) j
      by (intro less.IH) (auto simp: j d(2))
    then obtain n where "n \<le> d - e" "running_process_idx (k_procs (foldl tick (tick k ctx) (take n ctxs'))) = int (cyc r d)"
      "hd (resumed (foldl tick (tick k ctx) (take n ctxs'))) = pcb_context (process_list (k_procs k) ! cyc r d)"
      using e(6) [OF False] by (auto simp: j)
    then show ?thesis using c d e(1) by (intro exI [of _ "Suc n"]) auto
  qed
qed

subsection \<open>Properties\<close>

text \<open>A kernel with three processes: slot 0 runs, slots 5 and 9 are ready.\<close>

definition demo_pcb :: "u32 \<Rightarrow> PROCESS_STATE \<Rightarrow> ProcessControlBlock" where
  "demo_pcb p st = zero_pcb\<lparr>pid := p, proc_state := st, pcb_context := new_context (0xC0100000 + 0x1000 * p)\<rparr>"

definition demo_procs :: ProcessManagerState where
  "demo_procs = \<lparr>process_list = (replicate 16 zero_pcb)[0 := demo_pcb 1 RUNNING, 5 := demo_pcb 2 READY, 9 := demo_pcb 3 READY],
     running_process_idx = 0, active_process_count = 3\<rparr>"

definition demo_kernel :: "unit kernel" where
  "demo_kernel = \<lparr>k_fs = fresh_fs, k_paging = boot_paging 0xC0100000 0, k_procs = demo_procs, k_mem = (\<lambda>_. 0),
     k_console = blank_console, itoa_buf = replicate 32 0, resumed = []\<rparr>"

lemma demo_kernel_simps [simp]: "k_procs demo_kernel = demo_procs" "running_process_idx demo_procs = 0"
    "length (process_list demo_procs) = 16"
  by (simp_all add: demo_kernel_def demo_procs_def)

lemma demo_state: "i < 16 \<Longrightarrow> process_list demo_procs ! i =
    (if i = 0 then demo_pcb 1 RUNNING else if i = 5 then demo_pcb 2 READY else if i = 9 then demo_pcb 3 READY else zero_pcb)"
  by (simp add: demo_procs_def nth_list_update)

lemma demo_pcb_simps [simp]: "pid (demo_pcb p st) = p" "proc_state (demo_pcb p st) = st"
    "pcb_context (demo_pcb p st) = new_context (0xC0100000 + 0x1000 * p)" "proc_state zero_pcb = NEW" "pid zero_pcb = 0"
  by (simp_all add: demo_pcb_def zero_pcb_def)

text \<open>
  The scheduler picks the first ready process behind the running one in cyclic order:
  it becomes the running process, its page directory becomes the active one and its saved
  context is resumed; no other process changes.
\<close>

theorem scheduler_round_robin:
  assumes r: "running_process_idx (k_procs k) = int r" "r < 16" and d: "0 < d" "d < 16"
    and j: "state_at (k_procs k) ((r + d) mod 16) = READY"
    and first: "\<And>e. 0 < e \<Longrightarrow> e < d \<Longrightarrow> state_at (k_procs k) ((r + e) mod 16) \<noteq> READY"
  defines "p \<equiv> process_list (k_procs k) ! ((r + d) mod 16)"
  shows "scheduler_switch_to_next_process k =
    k\<lparr>k_procs := (k_procs k)\<lparr>process_list := (process_list (k_procs k))[(r + d) mod 16 := p\<lparr>proc_state := RUNNING\<rparr>],
        running_process_idx := int ((r + d) mod 16)\<rparr>,
      k_paging := paging_use_page_directory (page_directory_virtual_addr (pcb_context p)) (k_paging k),
      resumed := pcb_context p # resumed k\<rparr>"
proof -
  have "ready_distance (k_procs k) r = d"
    unfolding ready_distance_def using d j first by (intro scan_while_eqI) (auto simp: cyc_def)
  then show ?thesis
    using switch_running [OF r] d(2) by (simp add: Let_def run_process_def cyc_def p_def)
qed

theorem scheduler_round_robin_witness:
  "running_process_idx (k_procs (scheduler_switch_to_next_process demo_kernel)) = 5 \<and>
   cr3 (k_paging (scheduler_switch_to_next_process demo_kernel)) = 0x102000"
proof -
  have "state_at demo_procs e \<noteq> READY" if "0 < e" "e < 5" for e using that by (simp add: demo_state)
  then show ?thesis
    using scheduler_round_robin [of demo_kernel 0 5]
    by (simp add: demo_state new_context_def paging_use_page_directory_def)
qed

text \<open>
  No process starves: while one process runs, every other ready process gets the processor
  within 15 timer ticks, whatever contexts the ticks save, and it resumes in the context it
  had when it was preempted.
\<close>

lemma ready_process_runs_within:
  assumes r: "running_process_idx (k_procs k) = int r" "r < 16" and len: "length (process_list (k_procs k)) = 16"
    and j: "j < 16" "j \<noteq> r" "state_at (k_procs k) j = READY" and c: "15 \<le> length ctxs"
  shows "\<exists>n\<le>15. running_process_idx (k_procs (foldl tick k (take n ctxs))) = int j \<and>
    hd (resumed (foldl tick k (take n ctxs))) = pcb_context (process_list (k_procs k) ! j)"
proof -
  define d where "d = (j + 16 - r) mod 16"
  have e: "cyc r d = j" using r j by (cases "r \<le> j") (auto simp: cyc_def d_def mod_if)
  have d: "0 < d" "d < 16" using r j by (cases "r \<le> j"; simp add: d_def mod_if; linarith)+
  have "d \<le> 15" "d \<le> length ctxs" using d c by simp_all
  then obtain n where "n \<le> d" "running_process_idx (k_procs (foldl tick k (take n ctxs))) = int j"
    "hd (resumed (foldl tick k (take n ctxs))) = pcb_context (process_list (k_procs k) ! j)"
    using ready_process_runs_from [OF r len d, of ctxs] j(3) unfolding e by blast
  then show ?thesis using \<open>d \<le> 15\<close> by (intro exI [of _ n]) simp
qed

text \<open>
  When the running process terminates and no other process is ready, the cleared process
  control block itself is marked as running and stays the current one; nothing is resumed and
  the page directory stays active.
\<close>

theorem terminate_last_process:
  assumes r: "running_process_idx (k_procs k) = int r" "r < 16" and len: "length (process_list (k_procs k)) = 16"
    and none: "\<And>j. j < 16 \<Longrightarrow> j \<noteq> r \<Longrightarrow> state_at (k_procs k) j \<noteq> READY"
  shows "terminate_current_process k =
    Ret (k\<lparr>k_procs := (k_procs k)\<lparr>process_list := (process_list (k_procs k))[r := zero_pcb\<lparr>proc_state := RUNNING\<rparr>]\<rparr>\<rparr>)"
proof -
  let ?st = "set_pcb r zero_pcb (k_procs k)"
  have "state_at ?st (cyc r d) \<noteq> READY" if "1 \<le> d" "d < 16" for d
    using none [of "cyc r d"] cyc_ne [OF r(2), of d] that by (simp add: nth_list_update)
  then have "ready_distance ?st r = 16"
    unfolding ready_distance_def by (intro scan_while_eqI) auto
  then show ?thesis
    using switch_running [of "k\<lparr>k_procs := ?st\<rparr>" r] r len
    by (simp add: terminate_current_process_def process_get_current_running_pcb_pointer_def Let_def)
qed

theorem terminate_last_process_witness:
  "\<exists>k'. terminate_current_process (demo_kernel\<lparr>k_procs := initial_process_manager_state\<lparr>running_process_idx := 0\<rparr>\<rparr>) = Ret k' \<and>
    state_at (k_procs k') 0 = RUNNING \<and> pid (process_list (k_procs k') ! 0) = 0"
  using terminate_last_process [of "demo_kernel\<lparr>k_procs := initial_process_manager_state\<lparr>running_process_idx := 0\<rparr>\<rparr>" 0]
  by (simp add: initial_process_manager_state_def)

end
