(* ===== verification/Process_Table.thy ===== *)
theory Process_Table
  imports Scheduler
begin

text \<open>
  The process table: new process identifiers, the slots as a first-fit allocator, and the
  invariant of the table that ticks, kills and terminations keep.
\<close>

subsection \<open>Process identifiers\<close>

definition used_pids :: "ProcessManagerState \<Rightarrow> u32 set" where
  "used_pids st = (\<lambda>i. pid (process_list st ! i)) ` {..<16}"

lemma card_used_pids: "card (used_pids st) \<le> 16"
  using card_image_le [of "{..<16}" "\<lambda>i. pid (process_list st ! i)"] by (simp add: used_pids_def)

lemma of_nat_inj_17: "inj_on (of_nat :: nat \<Rightarrow> u32) {1..17}"
  by (rule inj_onI) (simp add: word_unat_eq_iff unat_of_nat)

lemma unused_pid_exists: "\<exists>n\<in>{1..17}. of_nat n \<notin> used_pids st"
proof (rule ccontr)
  assume "\<not> (\<exists>n\<in>{1..17}. of_nat n \<notin> used_pids st)"
  then have "(of_nat :: nat \<Rightarrow> u32) ` {1..17} \<subseteq> used_pids st" by auto
  then have "card ((of_nat :: nat \<Rightarrow> u32) ` {1..17}) \<le> card (used_pids st)"
    by (intro card_mono) (simp_all add: used_pids_def)
  then show False using card_used_pids [of st] unfolding card_image [OF of_nat_inj_17] by simp
qed

lemma pid_scan_iff: "scan_while (\<lambda>i. pid (process_list st ! i) \<noteq> p) 0 16 = 16 \<longleftrightarrow> p \<notin> used_pids st"
  by (auto simp: scan_while_end_iff used_pids_def)

lemma generate_pid_loop_result:
  assumes "n \<le> m" "of_nat m \<notin> used_pids st" "\<And>q. n \<le> q \<Longrightarrow> q < m \<Longrightarrow> of_nat q \<in> used_pids st"
  shows "generate_pid_loop st (of_nat n) = Some (of_nat m)"
  using assms
proof (induction "m - n" arbitrary: n)
  case 0
  then show ?case by (subst generate_pid_loop.simps) (simp add: pid_scan_iff)
next
  case (Suc d)
  then have "of_nat n \<in> used_pids st" by simp
  moreover have "generate_pid_loop st (of_nat (Suc n)) = Some (of_nat m)" using Suc by (intro Suc.hyps(1)) auto
  ultimately show ?case by (subst generate_pid_loop.simps) (simp add: pid_scan_iff add.commute)
qed

lemma generate_new_pid_result:
  obtains n where "process_generate_new_pid st = Some (of_nat n)" "1 \<le> n" "n \<le> 17" "of_nat n \<notin> used_pids st"
    "\<And>q. 1 \<le> q \<Longrightarrow> q < n \<Longrightarrow> of_nat q \<in> used_pids st"
proof -
  define n where "n = (LEAST n. 1 \<le> n \<and> of_nat n \<notin> used_pids st)"
  obtain m where m: "m \<in> {1..17}" "of_nat m \<notin> used_pids st" using unused_pid_exists by blast
  have n: "1 \<le> n \<and> of_nat n \<notin> used_pids st" unfolding n_def by (rule LeastI [of _ m]) (use m in auto)
  have le: "n \<le> 17" unfolding n_def using m by (intro Least_le [THEN order_trans, of _ m]) auto
  have least: "of_nat q \<in> used_pids st" if "1 \<le> q" "q < n" for q
    using not_less_Least [of q "\<lambda>n. 1 \<le> n \<and> of_nat n \<notin> used_pids st"] that by (auto simp: n_def)
  have "process_generate_new_pid st = Some (of_nat n)"
    using generate_pid_loop_result [of 1 n st] n least by (simp add: process_generate_new_pid_def)
  then show thesis using that n le least by blast
qed

subsection \<open>Slots\<close>

interpretation slots: slot_allocator 16 "\<lambda>st. length (process_list st) = 16" "\<lambda>st i. state_at st i \<noteq> NEW"
  "\<lambda>st. scan_while (\<lambda>i. state_at st i \<noteq> NEW) 0 16"
  "\<lambda>i st. set_pcb i ((process_list st ! i)\<lparr>proc_state := READY\<rparr>) st" "\<lambda>i. set_pcb i zero_pcb"
proof
  fix st :: ProcessManagerState and i j :: nat
  let ?k = "scan_while (\<lambda>i. state_at st i \<noteq> NEW) 0 16"
  show "?k \<le> 16" by (rule scan_while_le) simp
  show "\<not> state_at st ?k \<noteq> NEW" if "?k < 16" using scan_while_stop [OF that] by simp
  show "state_at st i \<noteq> NEW" if "i < ?k" using scan_while_skipped [of 0 i] that by simp
qed (auto simp: nth_list_update)

abbreviation free_slots :: "ProcessManagerState \<Rightarrow> nat set" where
  "free_slots st \<equiv> slots.free_slots st"

lemma inactive_index_result:
  assumes "length (process_list st) = 16" "free_slots st \<noteq> {}"
  obtains i where "process_list_get_inactive_index st = Ret i" "i < 16" "state_at st i = NEW"
proof -
  let ?i = "scan_while (\<lambda>i. state_at st i \<noteq> NEW) 0 16"
  have "?i \<in> free_slots st" by (rule slots.search_found(1) [OF assms])
  then have "?i < 16" "state_at st ?i = NEW" by (simp_all add: slots.free_slots_def)
  then show thesis using that [of ?i] by (simp add: process_list_get_inactive_index_def Let_def)
qed

subsection \<open>The invariant of the table\<close>

definition procs_inv :: "ProcessManagerState \<Rightarrow> bool" where
  "procs_inv st \<longleftrightarrow> length (process_list st) = PROCESS_COUNT_MAX \<and>
     (\<forall>i<PROCESS_COUNT_MAX. length (virtual_addr_used (process_list st ! i)) = PROCESS_PAGE_FRAME_COUNT_MAX \<and>
        (state_at st i = NEW \<longrightarrow> pid (process_list st ! i) = 0)) \<and>
     (\<forall>i<PROCESS_COUNT_MAX. \<forall>j<PROCESS_COUNT_MAX. pid (process_list st ! i) = pid (process_list st ! j) \<longrightarrow>
        pid (process_list st ! i) \<noteq> 0 \<longrightarrow> i = j) \<and>
     (running_process_idx st = -1 \<or>
        (\<exists>r<PROCESS_COUNT_MAX. running_process_idx st = int r \<and> state_at st r \<noteq> NEW)) \<and>
     int (PROCESS_COUNT_MAX - card (free_slots st)) \<le> active_process_count st \<and>
     active_process_count st \<le> int PROCESS_COUNT_MAX"

lemma procs_invD:
  assumes "procs_inv st"
  shows "length (process_list st) = 16"
    "\<And>i. i < 16 \<Longrightarrow> length (virtual_addr_used (process_list st ! i)) = 8"
    "\<And>i. i < 16 \<Longrightarrow> state_at st i = NEW \<Longrightarrow> pid (process_list st ! i) = 0"
    "\<And>i j. i < 16 \<Longrightarrow> j < 16 \<Longrightarrow> pid (process_list st ! i) = pid (process_list st ! j) \<Longrightarrow>
       pid (process_list st ! i) \<noteq> 0 \<Longrightarrow> i = j"
    "running_process_idx st = -1 \<or> (\<exists>r<16. running_process_idx st = int r \<and> state_at st r \<noteq> NEW)"
    "int (16 - card (free_slots st)) \<le> active_process_count st" "active_process_count st \<le> 16"
  using assms by (auto simp: procs_inv_def)

lemma initial_procs_inv: "procs_inv initial_process_manager_state"
proof -
  have "free_slots initial_process_manager_state = {..<16}"
    by (auto simp: slots.free_slots_def initial_process_manager_state_def)
  then show ?thesis by (simp add: procs_inv_def) (simp add: initial_process_manager_state_def zero_pcb_def)
qed

text \<open>
  The general step: slot \<open>i\<close> gets a block whose pid is 0 or used nowhere else; the running index
  may move to it. The number of used slots grows only if \<open>i\<close> was free.
\<close>

lemma free_slots_set:
  assumes "length (process_list st) = 16" "i < 16"
  shows "free_slots (set_pcb i p st) = (if proc_state p = NEW then insert i (free_slots st) else free_slots st - {i})"
  using assms by (auto simp: slots.free_slots_def nth_list_update split: if_splits)

lemma procs_inv_set:
  assumes inv: "procs_inv st" and i: "i < 16" and vau: "length (virtual_addr_used p) = 8"
    and new: "proc_state p = NEW \<Longrightarrow> pid p = 0"
    and pid: "pid p = 0 \<or> pid p = pid (process_list st ! i) \<or> pid p \<notin> used_pids st"
    and run: "running_process_idx st' = -1 \<or> (\<exists>r<16. running_process_idx st' = int r \<and> state_at st' r \<noteq> NEW)"
    and st': "process_list st' = (process_list st)[i := p]"
    and cnt: "active_process_count st' = active_process_count st + (if proc_state p \<noteq> NEW \<and> state_at st i = NEW then 1 else 0)"
      "active_process_count st' \<le> 16"
  shows "procs_inv st'"
proof -
  note I = procs_invD [OF inv]
  have at: "process_list st' ! j = (if j = i then p else process_list st ! j)" if "j < 16" for j
    using that i I(1) st' by (simp add: nth_list_update)
  have used: "pid (process_list st ! j) \<in> used_pids st" if "j < 16" for j using that by (simp add: used_pids_def)
  have uniq: "j = l" if "j < 16" "l < 16" "pid (process_list st' ! j) = pid (process_list st' ! l)"
    "pid (process_list st' ! j) \<noteq> 0" for j l
    using that pid I(4) [of j l] I(4) [of i l] I(4) [of j i] i used [OF that(1)] used [OF that(2)]
    by (auto simp: at split: if_splits)
  have "free_slots st' = (if proc_state p = NEW then insert i (free_slots st) else free_slots st - {i})"
    using free_slots_set [OF I(1) i, of p] st' by (simp add: slots.free_slots_def)
  moreover have "i \<in> free_slots st \<longleftrightarrow> state_at st i = NEW" using i by (simp add: slots.free_slots_def)
  moreover have "0 < card (free_slots st)" if "i \<in> free_slots st" using that by (auto simp: card_gt_0_iff)
  ultimately have "int (16 - card (free_slots st')) \<le> active_process_count st'"
    using I(6) cnt by (auto simp: card_insert_if split: if_splits)
  moreover have "length (virtual_addr_used (process_list st' ! j)) = 8 \<and>
      (state_at st' j = NEW \<longrightarrow> pid (process_list st' ! j) = 0)" if "j < 16" for j
    using I(2,3) [OF that] vau new by (simp add: at [OF that])
  moreover have "length (process_list st') = 16" using I(1) st' by simp
  ultimately show ?thesis
    using run cnt(2) uniq unfolding procs_inv_def PROCESS_COUNT_MAX_def PROCESS_PAGE_FRAME_COUNT_MAX_def by auto
qed

lemma running_index:
  assumes "procs_inv st"
  obtains "running_process_idx st = -1" | r where "r < 16" "running_process_idx st = int r" "state_at st r \<noteq> NEW"
  using procs_invD(5) [OF assms] by blast

lemma procs_inv_save:
  assumes inv: "procs_inv st"
  shows "procs_inv (scheduler_save_context_to_current_running_pcb ctx st)"
  using inv
proof (cases rule: running_index)
  case 1
  then show ?thesis
    using inv by (simp add: scheduler_save_context_to_current_running_pcb_def process_get_current_running_pcb_pointer_def)
next
  case (2 r)
  note I = procs_invD [OF inv]
  show ?thesis
    unfolding scheduler_save_context_to_current_running_pcb_def process_get_current_running_pcb_pointer_def
    by (rule procs_inv_set [OF inv 2(1), where p = "(process_list st ! r)\<lparr>pcb_context := ctx, proc_state := READY\<rparr>"])
      (use 2 I(1,2,7) in \<open>auto simp: nth_list_update\<close>)
qed

lemma procs_inv_run:
  assumes inv: "procs_inv (k_procs k)" and i: "i < 16" "state_at (k_procs k) i \<noteq> NEW"
  shows "procs_inv (k_procs (run_process i k))"
  by (rule procs_inv_set [OF inv i(1), where p = "(process_list (k_procs k) ! i)\<lparr>proc_state := RUNNING\<rparr>"])
    (use i procs_invD(1,2,7) [OF inv] in \<open>auto simp: run_process_def Let_def\<close>)

text \<open>
  The search runs on a table in which the running slot may just have been cleared; it is then
  either left behind or marked as running again.
\<close>

lemma procs_inv_switch:
  assumes inv: "procs_inv (k_procs k)"
  shows "procs_inv (k_procs (scheduler_switch_to_next_process k))"
  using inv
proof (cases rule: running_index)
  case 1
  let ?i = "scan_while (\<lambda>i. state_at (k_procs k) i \<noteq> READY) 0 16"
  have "?i \<le> 16" by (rule scan_while_le) simp
  moreover have "state_at (k_procs k) ?i = READY" if "?i < 16" using scan_while_stop [OF that] by simp
  ultimately show ?thesis
    using inv switch_idle [OF 1] procs_inv_run [OF inv, of ?i] by (cases "?i = 16") (auto simp: Let_def)
next
  case (2 r)
  note D = ready_distance_props(2,3) [of "k_procs k" r]
  show ?thesis
  proof (cases "ready_distance (k_procs k) r = 16")
    case True
    have "procs_inv (set_pcb r ((process_list (k_procs k) ! r)\<lparr>proc_state := RUNNING\<rparr>) (k_procs k))"
      by (rule procs_inv_set [OF inv 2(1), where p = "(process_list (k_procs k) ! r)\<lparr>proc_state := RUNNING\<rparr>"])
        (use 2 procs_invD(1,2,7) [OF inv] in auto)
    then show ?thesis using True switch_running [OF 2(2,1)] by (simp add: Let_def)
  next
    case False
    then show ?thesis using D switch_running [OF 2(2,1)] procs_inv_run [OF inv, of "cyc r (ready_distance (k_procs k) r)"]
      by (auto simp: Let_def)
  qed
qed

subsection \<open>Termination\<close>

text \<open>What the termination of the process in slot \<open>r\<close> leaves: slot \<open>r\<close> cleared, and another process or \<open>r\<close> itself running.\<close>

lemma terminate_result:
  assumes inv: "procs_inv (k_procs k)" and r: "r < 16" "running_process_idx (k_procs k) = int r"
  obtains (next_process) j where "j < 16" "j \<noteq> r" "state_at (k_procs k) j = READY"
      "terminate_current_process k = Ret (run_process j (k\<lparr>k_procs := set_pcb r zero_pcb (k_procs k)\<rparr>))"
    | (last_process) "terminate_current_process k =
        Ret (k\<lparr>k_procs := set_pcb r (zero_pcb\<lparr>proc_state := RUNNING\<rparr>) (k_procs k)\<rparr>)"
proof -
  let ?st = "set_pcb r zero_pcb (k_procs k)"
  let ?d = "ready_distance ?st r"
  note I = procs_invD [OF inv] and D = ready_distance_props(1-3) [of ?st r]
  have t: "terminate_current_process k = Ret (scheduler_switch_to_next_process (k\<lparr>k_procs := ?st\<rparr>))"
    using r by (simp add: terminate_current_process_def process_get_current_running_pcb_pointer_def)
  note S = switch_running [of "k\<lparr>k_procs := ?st\<rparr>" r]
  show thesis
  proof (cases "?d = 16")
    case True
    then show thesis using last_process t S r I(1) by (simp add: Let_def)
  next
    case False
    then have d: "0 < ?d" "?d < 16" using D by simp_all
    then have "cyc r ?d \<noteq> r" using cyc_ne r(1) by blast
    then show thesis
      using next_process [of "cyc r ?d"] t S r d D(3) by (simp add: Let_def nth_list_update)
  qed
qed

text \<open>The processes whose blocks an operation leaves alone, apart from which one is running.\<close>

definition same_process :: "ProcessControlBlock \<Rightarrow> ProcessControlBlock \<Rightarrow> bool" where
  "same_process p q \<longleftrightarrow> q = p\<lparr>proc_state := proc_state q\<rparr>"

lemma same_process_refl [simp]: "same_process p p" "same_process p (p\<lparr>proc_state := s\<rparr>)"
  by (simp_all add: same_process_def)

lemma same_process_pid: "same_process p q \<Longrightarrow> pid q = pid p"
  by (cases p; cases q) (simp add: same_process_def)

text \<open>The effect of clearing slot \<open>i\<close>, on processes, counters and paging.\<close>

definition slot_cleared :: "nat \<Rightarrow> 'd kernel \<Rightarrow> 'd kernel \<Rightarrow> bool" where
  "slot_cleared i k k' \<longleftrightarrow> procs_inv (k_procs k') \<and>
     pid (process_list (k_procs k') ! i) = 0 \<and>
     (\<forall>j<16. j \<noteq> i \<longrightarrow> same_process (process_list (k_procs k) ! j) (process_list (k_procs k') ! j)) \<and>
     active_process_count (k_procs k') = active_process_count (k_procs k) \<and>
     page_manager_state (k_paging k') = page_manager_state (k_paging k) \<and>
     page_directory_used (k_paging k') = page_directory_used (k_paging k) \<and>
     page_directory_list (k_paging k') = page_directory_list (k_paging k) \<and> k_fs k' = k_fs k \<and> k_mem k' = k_mem k"

lemma terminate_clears:
  assumes inv: "procs_inv (k_procs k)" and r: "r < 16" "running_process_idx (k_procs k) = int r"
  shows "\<exists>k'. terminate_current_process k = Ret k' \<and> slot_cleared r k k'"
  using inv r
proof (cases rule: terminate_result)
  case (next_process j)
  note I = procs_invD [OF inv]
  let ?k = "run_process j (k\<lparr>k_procs := set_pcb r zero_pcb (k_procs k)\<rparr>)"
  have run: "procs_inv (k_procs (run_process j k))" using procs_inv_run [OF inv] next_process by simp
  have "procs_inv (k_procs ?k)"
    by (rule procs_inv_set [OF run r(1), where p = zero_pcb])
      (use next_process I(1,7) in \<open>auto simp: run_process_def Let_def list_update_swap nth_list_update zero_pcb_def\<close>)
  then have "slot_cleared r k ?k"
    using next_process r(1) I(1)
    by (auto simp: slot_cleared_def run_process_def Let_def nth_list_update paging_use_page_directory_def)
  then show ?thesis using next_process by blast
next
  case last_process
  note I = procs_invD [OF inv]
  let ?k = "k\<lparr>k_procs := set_pcb r (zero_pcb\<lparr>proc_state := RUNNING\<rparr>) (k_procs k)\<rparr>"
  have ne: "state_at (k_procs k) r \<noteq> NEW" using I(5) r by auto
  have "procs_inv (k_procs ?k)"
    by (rule procs_inv_set [OF inv r(1), where p = "zero_pcb\<lparr>proc_state := RUNNING\<rparr>"])
      (use ne r I(1,7) in \<open>auto simp: zero_pcb_def\<close>)
  then have "slot_cleared r k ?k" using r(1) I(1) by (auto simp: slot_cleared_def)
  then show ?thesis using last_process by blast
qed

lemma kill_result:
  assumes inv: "procs_inv (k_procs k)" and r: "running_process_idx (k_procs k) \<noteq> -1"
  shows "if p \<in> used_pids (k_procs k)
    then \<exists>i k'. i < 16 \<and> pid (process_list (k_procs k) ! i) = p \<and> kill_process p k = Ret (0, k') \<and> slot_cleared i k k'
    else kill_process p k = Ret (-1, k)"
proof -
  note I = procs_invD [OF inv]
  obtain r where r: "r < 16" "running_process_idx (k_procs k) = int r" using r I(5) by auto
  let ?i = "scan_while (\<lambda>i. pid (process_list (k_procs k) ! i) \<noteq> p) 0 16"
  consider (running) "pid (process_list (k_procs k) ! r) = p"
    | (unknown) "p \<notin> used_pids (k_procs k)" | (other) "pid (process_list (k_procs k) ! r) \<noteq> p" "p \<in> used_pids (k_procs k)" by blast
  then show ?thesis
  proof cases
    case running
    then have u: "p \<in> used_pids (k_procs k)" using r(1) by (auto simp: used_pids_def)
    obtain k' where "terminate_current_process k = Ret k'" "slot_cleared r k k'" using terminate_clears [OF inv r] by blast
    then have "kill_process p k = Ret (0, k')" "slot_cleared r k k'"
      using running r by (simp_all add: kill_process_def Let_def)
    then show ?thesis using u running r(1) by auto
  next
    case unknown
    then have "pid (process_list (k_procs k) ! r) \<noteq> p" using r(1) by (auto simp: used_pids_def)
    then show ?thesis using unknown r pid_scan_iff [of "k_procs k" p] by (simp add: kill_process_def Let_def)
  next
    case other
    then have i: "?i < 16" using pid_scan_iff [of "k_procs k" p] scan_while_le [of 0 16] by (simp add: le_neq_implies_less)
    then have p: "pid (process_list (k_procs k) ! ?i) = p" using scan_while_stop by blast
    let ?k = "k\<lparr>k_procs := set_pcb ?i zero_pcb (k_procs k)\<rparr>"
    have ne: "state_at (k_procs k) r \<noteq> NEW" using I(5) r by auto
    have "procs_inv (k_procs ?k)"
      by (rule procs_inv_set [OF inv i, where p = zero_pcb])
        (use ne r other p i I(1,7) in \<open>auto simp: zero_pcb_def nth_list_update\<close>)
    then have "slot_cleared ?i k ?k" using i I(1) by (auto simp: slot_cleared_def nth_list_update)
    moreover have "kill_process p k = Ret (0, ?k)" using other i r by (simp add: kill_process_def Let_def)
    ultimately show ?thesis using other(2) i p by auto
  qed
qed

lemma destroy_result:
  assumes "procs_inv st"
  shows "process_destroy p st =
    (if p \<in> used_pids st then (True, set_pcb (scan_while (\<lambda>i. pid (process_list st ! i) \<noteq> p) 0 16) zero_pcb st) else (False, st))"
  using pid_scan_iff [of st p] by (simp add: process_destroy_def Let_def)

end
