(* ===== verification/Process_Create.thy ===== *)
theory Process_Create
  imports Process_Table
begin

text \<open>
  Creating a process: the frames of the new address space, the memory the loader writes, and
  that no other process changes.
\<close>

subsection \<open>Frames of the new address space\<close>

definition record_frames :: "nat list \<Rightarrow> u32 list \<Rightarrow> u32 list" where
  "record_frames is us = fold (\<lambda>i u. u[i := of_nat i * 0x400000]) is us"

lemma record_frames_simps [simp]: "record_frames [] us = us"
    "record_frames (i # is) us = record_frames is (us[i := of_nat i * 0x400000])"
  by (simp_all add: record_frames_def)

lemma length_record_frames [simp]: "length (record_frames is us) = length us"
  by (induction "is" arbitrary: us) auto

lemma nth_record_frames: "j < length us \<Longrightarrow> record_frames is us ! j = (if j \<in> set is then of_nat j * 0x400000 else us ! j)"
  by (induction "is" arbitrary: us) (auto simp: nth_list_update)

lemma page_index_frame: "i < 0x300 \<Longrightarrow> page_index (of_nat i * 0x400000) = i"
proof -
  assume i: "i < 0x300"
  then have "unat (of_nat i * 0x400000 :: u32) = i * 0x400000" by (simp add: unat_word_ariths unat_of_nat)
  then show ?thesis using i by (simp add: page_index_shift drop_bit_eq_div unat_div)
qed

lemma store_directory_twice [simp]: "store_directory d a (store_directory d b s) = store_directory d a s"
  by (simp add: store_directory_def)

lemma frame_taken_store: "store_directory d a (frame_taken i va (store_directory d b s)) = store_directory d a (frame_taken i va s)"
  by (simp add: store_directory_def frame_taken_def)

lemma store_directory_simps [simp]:
  "page_manager_state (store_directory d a s) = page_manager_state s"
  "page_directory_used (store_directory d a s) = page_directory_used s"
  "page_directory_list_addr (store_directory d a s) = page_directory_list_addr s"
  "cr3 (store_directory d a s) = cr3 s" "flushed (store_directory d a s) = flushed s"
  "page_directory_list (store_directory d a s) = (page_directory_list s)[d := a]"
  by (simp_all add: store_directory_def)

lemma frame_taken_simps [simp]:
  "page_directory_used (frame_taken i va s) = page_directory_used s"
  "page_directory_list_addr (frame_taken i va s) = page_directory_list_addr s"
  "cr3 (frame_taken i va s) = cr3 s" "page_directory_list (frame_taken i va s) = page_directory_list s"
  "page_frame_map (page_manager_state (frame_taken i va s)) = (page_frame_map (page_manager_state s))[i := True]"
  by (simp_all add: frame_taken_def)

text \<open>What allocating the pages \<open>is\<close> leaves of the state, apart from the directory itself.\<close>

definition same_directories :: "paging_state \<Rightarrow> paging_state \<Rightarrow> bool" where
  "same_directories s s' \<longleftrightarrow> page_directory_list s' = page_directory_list s \<and> page_directory_used s' = page_directory_used s \<and>
     page_directory_list_addr s' = page_directory_list_addr s \<and> cr3 s' = cr3 s"

lemma allocate_frames_result:
  assumes "paging_inv (store_directory d dir s)" "d < 32" "page_directory_used s ! d" "set is \<subseteq> {..<0x300}" "distinct is"
    and "length dir = 1024" "length (page_directory_list s) = 32"
  shows "\<exists>dir' s'. allocate_frames is dir us s = Ret (dir', record_frames is us, s') \<and>
    paging_inv (store_directory d dir' s') \<and> same_directories s s' \<and> length dir' = 1024 \<and>
    (\<forall>p. p \<notin> set is \<longrightarrow> dir' ! p = dir ! p) \<and>
    (\<forall>p\<in>set (take (card (free_frames s)) is). present_bit (pde_flag (dir' ! p))) \<and>
    (\<forall>p\<in>set (drop (card (free_frames s)) is). dir' ! p = dir ! p) \<and> free_frames s' \<subseteq> free_frames s"
  using assms
proof (induction "is" arbitrary: dir us s)
  case Nil
  then show ?case by (simp add: same_directories_def)
next
  case (Cons i "is")
  let ?va = "of_nat i * 0x400000 :: u32"
  have i: "i < 0x300" "page_index ?va = i" using Cons.prems(4) page_index_frame by auto
  have ok: "frames_ok (page_manager_state s)" using paging_invD(1) [OF Cons.prems(1)] by simp
  note A = paging_allocate_result [OF ok, of dir ?va]
  show ?case
  proof (cases "free_frames s = {}")
    case True
    then have "paging_allocate_user_page_frame dir ?va s = Ret (False, dir, s)" using A by simp
    then show ?thesis
      using Cons.IH [of dir s "us[i := ?va]"] Cons.prems True by (fastforce simp: Let_def)
  next
    case False
    let ?dir = "dir[i := user_pde (dir ! i) (next_frame s)]" and ?s = "frame_taken (next_frame s) ?va s"
    have a: "paging_allocate_user_page_frame dir ?va s = Ret (True, ?dir, ?s)" using A False i by simp
    have inv: "paging_inv (store_directory d ?dir ?s)"
      using paging_inv_allocate(1) [OF Cons.prems(1), of d ?va] Cons.prems(2,3,7) False i by (simp add: frame_taken_store)
    have c: "card (free_frames ?s) = card (free_frames s) - 1"
      using frames.card_acquire_search [OF frames_okD(1) [OF ok] False] by simp
    obtain dir' s' where R: "allocate_frames is ?dir (us[i := ?va]) ?s = Ret (dir', record_frames is (us[i := ?va]), s')"
      "paging_inv (store_directory d dir' s')" "same_directories ?s s'" "length dir' = 1024"
      "\<forall>p. p \<notin> set is \<longrightarrow> dir' ! p = ?dir ! p"
      "\<forall>p\<in>set (take (card (free_frames ?s)) is). present_bit (pde_flag (dir' ! p))"
      "\<forall>p\<in>set (drop (card (free_frames ?s)) is). dir' ! p = ?dir ! p" "free_frames s' \<subseteq> free_frames ?s"
      using Cons.IH [OF inv, of "us[i := ?va]"] Cons.prems by auto
    have "dir' ! i = user_pde (dir ! i) (next_frame s)" using R(5) Cons.prems(5,6) i by simp
    then have "present_bit (pde_flag (dir' ! i))" by (simp add: user_pde_def user_flag_def)
    moreover have "\<forall>p\<in>set (drop (card (free_frames s)) (i # is)). dir' ! p = dir ! p"
    proof
      fix p assume "p \<in> set (drop (card (free_frames s)) (i # is))"
      then have p: "p \<in> set (drop (card (free_frames ?s)) is)" using c False by (simp add: drop_Cons' card_gt_0_iff)
      then have "p \<noteq> i" using Cons.prems(5) in_set_dropD by fastforce
      then show "dir' ! p = dir ! p" using R(7) p by simp
    qed
    moreover have "free_frames ?s \<subseteq> free_frames s"
      using frames.free_slots_acquire [OF frames_okD(1) [OF ok] next_frame_props(2) [OF ok False]] by auto
    ultimately show ?thesis
      using R a c False
      by (intro exI [of _ dir'] exI [of _ s']) (auto simp: Let_def same_directories_def take_Cons' card_gt_0_iff)
  qed
qed

text \<open>The recorded addresses do not influence the allocation.\<close>

lemma allocate_frames_any:
  "allocate_frames is dir us s = Ret (dir', us', s') \<Longrightarrow> allocate_frames is dir vs s = Ret (dir', record_frames is vs, s')"
proof (induction "is" arbitrary: dir us vs s)
  case (Cons i "is")
  from Cons.prems obtain b e t where "paging_allocate_user_page_frame dir (of_nat i * 0x400000) s = Ret (b, e, t)"
    "allocate_frames is e (us[i := of_nat i * 0x400000]) t = Ret (dir', us', s')"
    by (auto simp: Let_def elim!: run_bind_RetE)
  then show ?case using Cons.IH [of e _ t "vs[i := of_nat i * 0x400000]"] by (auto simp: Let_def)
qed simp

lemma take_upt_min: "take n [0..<m] = [0..<min n m]"
  by (cases "n \<le> m") simp_all

subsection \<open>The new address space\<close>

text \<open>Slot, directory and paging state of a process under construction.\<close>

definition frames_needed :: "FAT32DriverRequest \<Rightarrow> u32" where
  "frames_needed rq = (let a = rq_buffer_size rq + 0x400000 in if a mod 0x400000 \<noteq> 0 then a div 0x400000 + 1 else a div 0x400000)"

definition address_space :: "FAT32DriverRequest \<Rightarrow> 'd kernel \<Rightarrow> nat \<Rightarrow> PageDirectory \<Rightarrow> paging_state \<Rightarrow> bool" where
  "address_space rq k d dir pg \<longleftrightarrow> d < 32 \<and> \<not> page_directory_used (k_paging k) ! d \<and>
     pg = store_directory d dir pg \<and> paging_inv pg \<and>
     page_directory_list pg = (page_directory_list (k_paging k))[d := dir] \<and>
     page_directory_used pg = (page_directory_used (k_paging k))[d := True] \<and>
     page_directory_list_addr pg = page_directory_list_addr (k_paging k) \<and> cr3 pg = cr3 (k_paging k) \<and> length dir = 1024 \<and>
     (\<forall>p. unat (frames_needed rq) \<le> p \<longrightarrow> p < 1024 \<longrightarrow> p \<noteq> 0x300 \<longrightarrow> \<not> present_bit (pde_flag (dir ! p))) \<and>
     (\<forall>p<min (card (free_frames (k_paging k))) (unat (frames_needed rq)). present_bit (pde_flag (dir ! p))) \<and>
     (\<forall>p. card (free_frames (k_paging k)) \<le> p \<longrightarrow> p < unat (frames_needed rq) \<longrightarrow> \<not> present_bit (pde_flag (dir ! p))) \<and>
     free_frames pg \<subseteq> free_frames (k_paging k)"

lemma new_address_space:
  assumes inv: "paging_inv (k_paging k)" and n: "unat (frames_needed rq) \<le> 8"
    and free: "directories.free_slots (page_directory_used (k_paging k)) \<noteq> {}"
  shows "\<exists>d pg1 dir pg2. paging_create_new_page_directory (k_paging k) = (Some d, pg1) \<and>
    (\<forall>us. allocate_frames [0..<unat (frames_needed rq)] (page_directory_list pg1 ! d) us pg1 =
       Ret (dir, record_frames [0..<unat (frames_needed rq)] us, pg2)) \<and>
    address_space rq k d dir (store_directory d dir pg2)"
proof -
  note D = directories_okD [OF paging_invD(2) [OF inv]]
  define d where "d = first_free_directory (page_directory_used (k_paging k))"
  define dir0 where "dir0 = (replicate 1024 zero_pde)[0x300 := kernel_higher_half]"
  define pg1 where "pg1 = store_directory d dir0 (k_paging k\<lparr>page_directory_used := (page_directory_used (k_paging k))[d := True]\<rparr>)"
  have d: "d < 32" "\<not> page_directory_used (k_paging k) ! d"
    using directories.search_found(1) [OF D(2) free] by (simp_all add: d_def directories.free_slots_def)
  have c: "paging_create_new_page_directory (k_paging k) = (Some d, pg1)"
    using create_directory_result [OF inv] free by (simp add: Let_def d_def dir0_def pg1_def)
  have pg1: "paging_inv pg1" "page_directory_list pg1 ! d = dir0" "pg1 = store_directory d dir0 pg1"
    using paging_inv_create(1) [OF inv d] d(1) D(1) by (simp_all add: dir0_def pg1_def)
  let ?is = "[0..<unat (frames_needed rq)]"
  have "\<exists>dir' s'. allocate_frames ?is dir0 us pg1 = Ret (dir', record_frames ?is us, s') \<and>
      paging_inv (store_directory d dir' s') \<and> same_directories pg1 s' \<and> length dir' = 1024 \<and>
      (\<forall>p. p \<notin> set ?is \<longrightarrow> dir' ! p = dir0 ! p) \<and>
      (\<forall>p\<in>set (take (card (free_frames pg1)) ?is). present_bit (pde_flag (dir' ! p))) \<and>
      (\<forall>p\<in>set (drop (card (free_frames pg1)) ?is). dir' ! p = dir0 ! p) \<and> free_frames s' \<subseteq> free_frames pg1" for us
    using pg1 d n D(1,2) by (intro allocate_frames_result) (auto simp: pg1_def dir0_def)
  from this [of "[]"] obtain dir pg2 where A: "allocate_frames ?is dir0 [] pg1 = Ret (dir, record_frames ?is [], pg2)"
    "paging_inv (store_directory d dir pg2)" "same_directories pg1 pg2" "length dir = 1024"
    "\<forall>p. p \<notin> set ?is \<longrightarrow> dir ! p = dir0 ! p"
    "\<forall>p\<in>set (take (card (free_frames pg1)) ?is). present_bit (pde_flag (dir ! p))"
    "\<forall>p\<in>set (drop (card (free_frames pg1)) ?is). dir ! p = dir0 ! p" "free_frames pg2 \<subseteq> free_frames pg1" by blast
  have any: "allocate_frames ?is dir0 us pg1 = Ret (dir, record_frames ?is us, pg2)" for us
    using allocate_frames_any [OF A(1)] by simp
  have "\<not> present_bit (pde_flag (dir ! p))" if "unat (frames_needed rq) \<le> p" "p < 1024" "p \<noteq> 0x300" for p
    using A(5) that by (simp add: dir0_def zero_pde_def zero_flag_def)
  moreover have "\<not> present_bit (pde_flag (dir ! p))" if "card (free_frames (k_paging k)) \<le> p" "p < unat (frames_needed rq)" for p
    using A(7) that n by (simp add: pg1_def dir0_def zero_pde_def zero_flag_def)
  ultimately have "address_space rq k d dir (store_directory d dir pg2)"
    using d A(2-4,6,8) by (simp add: address_space_def same_directories_def pg1_def take_upt_min)
  then show ?thesis using c any pg1(2) by (intro exI [of _ d] exI [of _ pg1] exI [of _ dir] exI [of _ pg2]) simp
qed

subsection \<open>The control flow of process creation\<close>

lemma ceil_div_needed: "ceil_div (rq_buffer_size rq + 0x400000) 0x400000 = Ret (frames_needed rq)"
  by (simp add: ceil_div_def frames_needed_def Let_def)

definition create_guard :: "FAT32DriverRequest \<Rightarrow> 'd kernel \<Rightarrow> int" where
  "create_guard rq k =
     (if active_process_count (k_procs k) \<ge> 16 then PROCESS_CREATE_FAIL_MAX_PROCESS_EXCEEDED
      else if rq_buf rq \<ge> KERNEL_VIRTUAL_ADDRESS_BASE then PROCESS_CREATE_FAIL_INVALID_ENTRYPOINT
      else if \<not> paging_allocate_check (frames_needed rq) (k_paging k) \<or> frames_needed rq > 8 \<or>
        directories.free_slots (page_directory_used (k_paging k)) = {} then PROCESS_CREATE_FAIL_NOT_ENOUGH_MEMORY
      else 0)"

definition started_pcb :: "FAT32DriverRequest \<Rightarrow> ProcessControlBlock \<Rightarrow> ProcessControlBlock" where
  "started_pcb rq p = p\<lparr>virtual_addr_used := record_frames [0..<unat (frames_needed rq)] (virtual_addr_used p),
     page_frame_used_count := frames_needed rq\<rparr>"

definition created_pcb :: "FAT32DriverRequest \<Rightarrow> u32 \<Rightarrow> u32 \<Rightarrow> ProcessControlBlock \<Rightarrow> ProcessControlBlock" where
  "created_pcb rq page q p = (started_pcb rq p)\<lparr>process_name := take 8 (rq_name rq),
     pcb_context := new_context page, pid := q, proc_state := READY\<rparr>"

text \<open>How creation ends once slot \<open>i\<close>, directory \<open>d\<close> and the frames are taken: with code 4 or 0.\<close>

abbreviation restored :: "nat \<Rightarrow> paging_state \<Rightarrow> paging_state" where
  "restored d pg \<equiv> paging_use_page_directory (paging_get_current_page_directory_addr pg)
     (paging_use_page_directory (directory_addr pg d) pg)"

definition finish_create ::
  "FAT32DriverRequest \<Rightarrow> 'd kernel \<Rightarrow> nat \<Rightarrow> nat \<Rightarrow> PageDirectory \<Rightarrow> paging_state \<Rightarrow> u32 \<Rightarrow> (int \<times> 'd kernel) run" where
  "finish_create rq k i d dir pg q =
     (let p = process_list (k_procs k) ! i in
      run_bind (read_into_space dir rq (k_fs k) (k_mem k)) (\<lambda>(rv, pm).
      if rv \<noteq> 0 then Ret (4, k\<lparr>k_procs := set_pcb i (started_pcb rq p) (k_procs k), k_paging := restored d pg, k_mem := pm\<rparr>)
      else run_bind (place_image dir (rq_buf rq) (virtual_addr_used (started_pcb rq p)) pm) (\<lambda>pm'.
        Ret (0, k\<lparr>k_paging := restored d pg, k_mem := pm',
                  k_procs := (set_pcb i (created_pcb rq (directory_addr pg d) q p) (k_procs k))
                    \<lparr>active_process_count := active_process_count (k_procs k) + 1\<rparr>\<rparr>))))"

lemma finish_createE:
  assumes "finish_create rq k i d dir pg q = Ret (r, k')"
  obtains (failed) rv pm where "read_into_space dir rq (k_fs k) (k_mem k) = Ret (rv, pm)" "rv \<noteq> 0" "r = 4"
      "k' = k\<lparr>k_procs := set_pcb i (started_pcb rq (process_list (k_procs k) ! i)) (k_procs k), k_paging := restored d pg, k_mem := pm\<rparr>"
    | (created) pm pm' where "read_into_space dir rq (k_fs k) (k_mem k) = Ret (0, pm)" "r = 0"
      "place_image dir (rq_buf rq) (virtual_addr_used (started_pcb rq (process_list (k_procs k) ! i))) pm = Ret pm'"
      "k' = k\<lparr>k_procs := (set_pcb i (created_pcb rq (directory_addr pg d) q (process_list (k_procs k) ! i)) (k_procs k))
           \<lparr>active_process_count := active_process_count (k_procs k) + 1\<rparr>, k_paging := restored d pg, k_mem := pm'\<rparr>"
  using assms by (auto simp: finish_create_def Let_def elim!: run_bind_RetE split: if_splits)

lemma free_slot_exists:
  assumes "procs_inv st" "active_process_count st < 16"
  shows "free_slots st \<noteq> {}"
  using procs_invD(6) [OF assms(1)] assms(2) by (cases "free_slots st = {}") auto

lemma create_refused:
  assumes "paging_inv (k_paging k)" "procs_inv (k_procs k)" "create_guard rq k \<noteq> 0"
  shows "process_create_user_process rq k = Ret (create_guard rq k, k)"
proof -
  have "process_create_user_process rq k = Ret (3, k)"
    if "active_process_count (k_procs k) < 16" "\<not> rq_buf rq \<ge> 0xC0000000" "paging_allocate_check (frames_needed rq) (k_paging k)"
      "\<not> frames_needed rq > 8" "directories.free_slots (page_directory_used (k_paging k)) = {}"
  proof -
    note a = that(1)
    obtain i where "process_list_get_inactive_index (k_procs k) = Ret i"
      using inactive_index_result [OF procs_invD(1) free_slot_exists] assms(2) a by blast
    then show ?thesis
      using that create_directory_result [OF assms(1)]
      by (simp add: process_create_user_process_def ceil_div_needed Let_def)
  qed
  then show ?thesis
    using assms(3) by (auto simp: create_guard_def process_create_user_process_def ceil_div_needed split: if_splits)
qed

lemma create_accepted:
  assumes pinv: "paging_inv (k_paging k)" and inv: "procs_inv (k_procs k)" and g: "create_guard rq k = 0"
  obtains i d dir pg q where "i < 16" "state_at (k_procs k) i = NEW" "address_space rq k d dir pg"
    "1 \<le> q" "q \<le> 17" "of_nat q \<notin> used_pids (k_procs k)"
    "process_create_user_process rq k = finish_create rq k i d dir pg (of_nat q)"
proof -
  have G: "active_process_count (k_procs k) < 16" "\<not> rq_buf rq \<ge> 0xC0000000" "paging_allocate_check (frames_needed rq) (k_paging k)"
      "\<not> frames_needed rq > 8" "directories.free_slots (page_directory_used (k_paging k)) \<noteq> {}"
    using g by (auto simp: create_guard_def split: if_splits)
  then have n: "unat (frames_needed rq) \<le> 8" by (simp add: not_less word_le_nat_alt)
  obtain i where i: "process_list_get_inactive_index (k_procs k) = Ret i" "i < 16" "state_at (k_procs k) i = NEW"
    using inactive_index_result [OF procs_invD(1) free_slot_exists] inv G(1) by blast
  obtain d pg1 dir pg2 where A: "paging_create_new_page_directory (k_paging k) = (Some d, pg1)"
    "\<And>us. allocate_frames [0..<unat (frames_needed rq)] (page_directory_list pg1 ! d) us pg1 =
       Ret (dir, record_frames [0..<unat (frames_needed rq)] us, pg2)"
    "address_space rq k d dir (store_directory d dir pg2)"
    using new_address_space [OF pinv n G(5)] by blast
  let ?p = "process_list (k_procs k) ! i" and ?pg = "store_directory d dir pg2"
  let ?st = "set_pcb i ((started_pcb rq ?p)\<lparr>process_name := take 8 (rq_name rq), pcb_context := new_context (directory_addr ?pg d)\<rparr>) (k_procs k)"
  have "pid (process_list ?st ! j) = pid (process_list (k_procs k) ! j)" if "j < 16" for j
    using that i(2) procs_invD(1) [OF inv] by (simp add: nth_list_update started_pcb_def)
  then have u: "used_pids ?st = used_pids (k_procs k)" unfolding used_pids_def by (intro image_cong) auto
  obtain q where q: "process_generate_new_pid ?st = Some (of_nat q)" "1 \<le> q" "q \<le> 17" "of_nat q \<notin> used_pids (k_procs k)"
    using generate_new_pid_result [of ?st] unfolding u by blast
  show thesis
    using G i(1) A(1,2) q(1)
    by (intro that [OF i(2,3) A(3) q(2-4)])
      (simp add: finish_create_def process_create_user_process_def ceil_div_needed Let_def started_pcb_def created_pcb_def cong: if_cong option.case_cong)
qed

subsection \<open>Memory\<close>

text \<open>\<open>only_in dir pm pm'\<close>: the two memories agree outside the frames that \<open>dir\<close> maps.\<close>

definition only_in :: "PageDirectory \<Rightarrow> mem \<Rightarrow> mem \<Rightarrow> bool" where
  "only_in dir pm pm' \<longleftrightarrow> (\<forall>pa. (\<forall>p<1024. present_bit (pde_flag (dir ! p)) \<longrightarrow> lower_address (dir ! p) \<noteq> ucast (drop_bit 22 pa)) \<longrightarrow>
     pm' pa = pm pa)"

lemma only_in_refl [simp]: "only_in dir pm pm"
  by (simp add: only_in_def)

lemma only_in_store: "only_in dir pm0 pm \<Longrightarrow> only_in dir pm0 (store_view dir m pm)"
  using store_view_outside [of dir _ m pm] unfolding only_in_def by metis

lemma read_into_space_only_in: "read_into_space dir rq s pm = Ret (rv, pm') \<Longrightarrow> only_in dir pm pm'"
  by (auto simp: read_into_space_def Let_def only_in_store elim!: run_bind_RetE split: if_splits prod.splits)

lemma place_image_only_in: "place_image dir buf us pm = Ret pm' \<Longrightarrow> only_in dir pm0 pm \<Longrightarrow> only_in dir pm0 pm'"
  by (auto simp: place_image_def Let_def only_in_store split: if_splits)

lemma translate_frame:
  assumes "translate dir va = Some pa"
  shows "ucast (drop_bit 22 pa) = lower_address (dir ! page_index va)"
proof -
  have "pa = push_bit 22 (ucast (lower_address (dir ! page_index va))) OR (va AND 0x3FFFFF)"
    using assms by (auto simp: translate_def Let_def split: if_splits)
  then show ?thesis using drop_bit_frame ucast_frame by metis
qed

lemma user_page_translate:
  assumes "(d, page_index va) \<in> user_pages s"
  obtains pa where "translate (page_directory_list s ! d) va = Some pa"
  using assms by (auto simp: user_pages_def translate_def Let_def)

text \<open>Frames of one directory are disjoint from the user pages of every other one.\<close>

lemma frames_of_others:
  assumes inv: "paging_inv s" and q: "(e, page_index va) \<in> user_pages s" and d: "d < 32" "page_directory_used s ! d" "d \<noteq> e"
    and p: "p < 1024" "present_bit (pde_flag (page_directory_list s ! d ! p))"
  shows "lower_address (page_directory_list s ! d ! p) \<noteq> lower_address (page_directory_list s ! e ! page_index va)"
proof (cases "p = 0x300")
  case True
  then have "lower_address (page_directory_list s ! d ! p) = 0"
    using directories_okD(4) [OF paging_invD(2) [OF inv] d(1,2)] by (simp add: kernel_higher_half_def)
  moreover have "lower_address (page_directory_list s ! e ! page_index va) \<noteq> 0"
    using paging_invD(4) [OF inv q] by (auto simp: frame_of_def)
  ultimately show ?thesis by simp
next
  case False
  then have "(d, p) \<in> user_pages s" using d p by (simp add: user_pages_def)
  then have "frame_of s (d, p) \<noteq> frame_of s (e, page_index va)"
    using inj_onD [OF paging_invD(7) [OF inv] _ _ q] d(3) by blast
  then show ?thesis by (auto simp: frame_of_def)
qed

lemma other_memory:
  assumes inv: "paging_inv s" and q: "(e, page_index va) \<in> user_pages s" and d: "d < 32" "page_directory_used s ! d" "d \<noteq> e"
    and o: "only_in (page_directory_list s ! d) pm pm'"
  shows "user_view (page_directory_list s ! e) pm' va = user_view (page_directory_list s ! e) pm va"
proof -
  obtain pa where t: "translate (page_directory_list s ! e) va = Some pa" using q by (rule user_page_translate)
  have "lower_address (page_directory_list s ! d ! p) \<noteq> ucast (drop_bit 22 pa)"
    if "p < 1024" "present_bit (pde_flag (page_directory_list s ! d ! p))" for p
    using frames_of_others [OF inv q d that] translate_frame [OF t] by simp
  then have "pm' pa = pm pa" using o by (simp add: only_in_def)
  then show ?thesis using t by (simp add: user_view_def)
qed

lemma use_page_directory_simps [simp]:
  "page_manager_state (paging_use_page_directory a s) = page_manager_state s"
  "page_directory_list (paging_use_page_directory a s) = page_directory_list s"
  "page_directory_used (paging_use_page_directory a s) = page_directory_used s"
  "page_directory_list_addr (paging_use_page_directory a s) = page_directory_list_addr s"
  by (simp_all add: paging_use_page_directory_def)

lemma user_pages_use [simp]: "user_pages (paging_use_page_directory a s) = user_pages s"
  by (simp add: user_pages_def)

lemma address_space_old_pages:
  assumes inv: "paging_inv (k_paging k)" and a: "address_space rq k d dir pg"
    and q: "(e, page_index va) \<in> user_pages (k_paging k)" and o: "only_in dir (k_mem k) pm"
  shows "(e, page_index va) \<in> user_pages pg \<and>
    user_view (page_directory_list pg ! e) pm va = user_view (page_directory_list (k_paging k) ! e) (k_mem k) va"
proof -
  note D = directories_okD [OF paging_invD(2) [OF inv]]
  have A: "d < 32" "\<not> page_directory_used (k_paging k) ! d" "paging_inv pg"
    "page_directory_list pg = (page_directory_list (k_paging k))[d := dir]"
    "page_directory_used pg = (page_directory_used (k_paging k))[d := True]"
    using a by (simp_all add: address_space_def)
  have ne: "d \<noteq> e" using q A(2) by (auto simp: user_pages_def)
  then have q': "(e, page_index va) \<in> user_pages pg" using q A(4,5) by (auto simp: user_pages_def)
  have "page_directory_list pg ! e = page_directory_list (k_paging k) ! e" "page_directory_list pg ! d = dir"
    "page_directory_used pg ! d"
    using A D(1,2) ne by simp_all
  then show ?thesis using other_memory [OF A(3) q' A(1) _ ne] o q' by simp
qed

text \<open>Creation restores the active directory when CR3 lies in the lower quarter of memory.\<close>

lemma restore_directory:
  assumes "0 < c" "c < 0x40000000" "cr3 s = c"
  shows "cr3 (paging_use_page_directory (paging_get_current_page_directory_addr s) s') = c"
proof -
  have "unat (c + 0xC0000000) = unat c + 0xC0000000"
    using assms by (simp add: unat_word_ariths word_less_nat_alt)
  then have "c + 0xC0000000 > 0xC0000000" using assms(1) by (simp add: word_less_nat_alt unat_gt_0)
  then show ?thesis using assms(3) by (simp add: paging_use_page_directory_def paging_get_current_page_directory_addr_def)
qed

end
