(* ===== verification/Process_Props.thy ===== *)
theory Process_Props
  imports Process_Create
begin

text \<open>
  The properties of processes: identifiers, the process table over time, creation of a process
  and its isolation from the others, and termination.
\<close>

subsection \<open>Loading\<close>

lemma mem_write_read_same: "n \<le> 2 ^ 32 \<Longrightarrow> mem_write m p (mem_read m p n) = m"
  by (auto simp: mem_write_def fun_eq_iff)

lemma memcpy_to_0: "unat src + unat n \<le> 2 ^ 32 \<Longrightarrow> memcpy 0 src n m = (0, mem_write m 0 (mem_read m src (unat n)))"
  using fold_copy_forward [of "unat n" src 0 m] by (simp add: memcpy_def unat_word_ariths unat_of_nat)

lemma directory_frames_inj:
  assumes inv: "paging_inv s" and d: "d < 32" "page_directory_used s ! d"
    and p: "p < 1024" "q < 1024" "present_bit (pde_flag (page_directory_list s ! d ! p))"
      "present_bit (pde_flag (page_directory_list s ! d ! q))"
      "lower_address (page_directory_list s ! d ! p) = lower_address (page_directory_list s ! d ! q)"
  shows "p = q"
proof -
  have k: "lower_address (page_directory_list s ! d ! 0x300) = 0"
    using directories_okD(4) [OF paging_invD(2) [OF inv] d] by (simp add: kernel_higher_half_def)
  have u: "(d, p) \<in> user_pages s" if "p < 1024" "present_bit (pde_flag (page_directory_list s ! d ! p))" "p \<noteq> 0x300" for p
    using that d by (simp add: user_pages_def)
  have nz: "lower_address (page_directory_list s ! d ! p) \<noteq> 0"
    if "p < 1024" "present_bit (pde_flag (page_directory_list s ! d ! p))" "p \<noteq> 0x300" for p
    using paging_invD(4) [OF inv u [OF that]] by (auto simp: frame_of_def)
  show ?thesis
  proof (cases "p = 0x300 \<or> q = 0x300")
    case True
    then show ?thesis using k nz [OF p(1,3)] nz [OF p(2,4)] p(5) by (cases "p = 0x300"; cases "q = 0x300") auto
  next
    case False
    then show ?thesis
      using inj_onD [OF paging_invD(7) [OF inv] _ u [OF p(1,3)] u [OF p(2,4)]] p(5) by (auto simp: frame_of_def)
  qed
qed

lemma chain_clusters_chain: "chain (fs_fat s) c cs \<Longrightarrow> chain_clusters s c n = Ret (n + length cs)"
proof (induction cs arbitrary: c n)
  case Nil
  then show ?case by (simp add: chain_clusters.simps)
next
  case (Cons x xs)
  then have "c = of_nat x" "x < 512" by auto
  then show ?case using Cons by (subst chain_clusters.simps) (auto simp: cluster_map_get_def)
qed

lemma low_page_index: "unat va < 0x400000 \<Longrightarrow> page_index va = 0"
    "0x400000 \<le> unat va \<Longrightarrow> unat va < 0x800000 \<Longrightarrow> page_index va = 1"
  by (simp_all add: page_index_shift drop_bit_eq_div unat_div)

lemma range_mapped_low:
  assumes pr: "present_bit (pde_flag (dir ! 0))" "0x400000 < unat a + n \<Longrightarrow> present_bit (pde_flag (dir ! 1))" and n: "unat a + n \<le> 0x800000"
  shows "range_mapped dir a n"
proof (cases "n = 0")
  case False
  have "(unat a + n - 1) div 0x400000 < 2" using n False by (simp add: div_less_iff_less_mult)
  moreover have "present_bit (pde_flag (dir ! (q mod 1024)))" if "q < Suc ((unat a + n - 1) div 0x400000)" for q
  proof -
    have "q = 0 \<or> q = 1 \<and> 0x400000 < unat a + n" using that calculation by auto
    then show ?thesis using pr by auto
  qed
  ultimately show ?thesis by (simp add: range_mapped_def del: upt_Suc)
qed (simp add: range_mapped_def)

lemma read_low_file:
  assumes pr: "present_bit (pde_flag (dir ! 0))" "0x300000 < rq_buf rq \<Longrightarrow> present_bit (pde_flag (dir ! 1))"
    and fs: "fs_inv D own s" "found_slot s rq \<in> slots D (tables s)" "\<not> is_dir (ent (tables s) (found_slot s rq))"
      "de_filesize (ent (tables s) (found_slot s rq)) \<le> rq_buffer_size rq"
    and b: "rq_buf rq \<le> 0x400000"
  shows "read_into_space dir rq s pm = Ret (0, store_view dir (mem_write (user_view dir pm) (rq_buf rq)
    (concat (map (cluster (fs_disk s)) (own (found_slot s rq))))) pm)"
proof -
  note F = found_slotD [OF fs(1,2)]
  have "length (own (found_slot s rq)) \<le> 510" by (rule chain_length [OF F(6)])
  then have "range_mapped dir (rq_buf rq) (2048 * length (own (found_slot s rq)))"
    using b by (intro range_mapped_low [OF pr]) (simp_all add: word_le_nat_alt word_less_nat_alt)
  then show ?thesis
    using fat_read_file [OF fs] chain_clusters_chain [OF F(6), of 0] by (simp add: read_into_space_def Let_def)
qed

text \<open>The image is read at the address of the request and then moved to address 0.\<close>

lemma load_result:
  assumes inv: "paging_inv pg" and d: "d < 32" "page_directory_used pg ! d"
    and pr: "present_bit (pde_flag (dir ! 0))" "present_bit (pde_flag (dir ! 1))"
    and fs: "fs_inv D own s" "found_slot s rq \<in> slots D (tables s)" "\<not> is_dir (ent (tables s) (found_slot s rq))"
      "de_filesize (ent (tables s) (found_slot s rq)) \<le> rq_buffer_size rq"
    and b: "rq_buf rq \<le> 0x400000" and us: "us ! 0 = 0" "us ! 1 = 0x400000" and dir: "dir = page_directory_list pg ! d"
  defines "cs \<equiv> own (found_slot s rq)"
  shows "\<exists>pm1 pm2. read_into_space dir rq s pm = Ret (0, pm1) \<and> place_image dir (rq_buf rq) us pm1 = Ret pm2 \<and>
    mem_read (user_view dir pm2) 0 (2048 * length cs) = concat (map (cluster (fs_disk s)) cs) \<and>
    (\<forall>va. 0x400000 \<le> unat va \<longrightarrow> unat va < 0x800000 \<longrightarrow> user_view dir pm2 va = 0)"
proof -
  note F = found_slotD [OF fs(1,2)]
  let ?bs = "concat (map (cluster (fs_disk s)) cs)" and ?b = "rq_buf rq"
  have n: "length cs \<le> 510" unfolding cs_def by (rule chain_length [OF F(6)])
  have ub: "unat ?b \<le> 0x400000" using b by (simp add: word_le_nat_alt)
  have l: "length ?bs = 2048 * length cs"
    using fs_invD(1) [OF fs(1)] by (simp add: length_concat comp_def sum_list_triv)
  define m1 where "m1 = mem_write (user_view dir pm) ?b ?bs"
  define pm1 where "pm1 = store_view dir m1 pm"
  define m2 where "m2 = mem_write (mem_write (user_view dir pm1) 0 (mem_read (user_view dir pm1) ?b 0x400000)) 0x400000 (replicate 0x400000 0)"
  define pm2 where "pm2 = store_view dir m2 pm1"
  have view: "user_view dir (store_view dir m pm') va = m va" if "unat va < 0x800000" for m pm' va
  proof -
    have "page_index va = 0 \<or> page_index va = 1" using low_page_index [of va] that by linarith
    then obtain pa where "translate dir va = Some pa" using pr by (auto simp: translate_def Let_def)
    then show ?thesis using user_view_store_view directory_frames_inj [OF inv d] unfolding dir by blast
  qed
  have "read_into_space dir rq s pm = Ret (0, pm1)"
    using read_low_file [OF pr fs b] by (simp add: pm1_def m1_def cs_def)
  moreover have "range_mapped dir ?b 0x400000" "range_mapped dir 0 0x400000" "range_mapped dir 0x400000 0x400000"
    using ub by (intro range_mapped_low [OF pr]; simp)+
  then have "place_image dir ?b us pm1 = Ret pm2"
    using us ub memcpy_to_0 [of ?b "0x400000"] by (simp add: place_image_def Let_def memset_spec pm2_def m2_def)
  moreover have "user_view dir pm2 va = 0" if "0x400000 \<le> unat va" "unat va < 0x800000" for va
  proof -
    have "unat (va - 0x400000) < 0x400000" using that by (simp add: unat_sub word_le_nat_alt)
    then show ?thesis using view [OF that(2), of m2 pm1] by (simp add: pm2_def m2_def mem_write_def)
  qed
  moreover have "mem_read (user_view dir pm2) 0 (2048 * length cs) = ?bs"
  proof (rule nth_equalityI)
    fix i assume "i < length (mem_read (user_view dir pm2) 0 (2048 * length cs))"
    then have i: "i < 2048 * length cs" "i < 0x400000" using n by simp_all
    then have u: "unat (of_nat i :: u32) = i" by (simp add: unat_of_nat)
    have ui: "unat (?b + of_nat i) = unat ?b + i" using ub i u by (simp add: unat_word_ariths)
    have "unat (of_nat i - 0x400000 :: u32) \<ge> 0x400000" using i u by (simp add: unat_sub_if_size word_size)
    then have "m2 (of_nat i) = user_view dir pm1 (?b + of_nat i)" using i u by (simp add: m2_def mem_write_def)
    also have "\<dots> = m1 (?b + of_nat i)" using view [of "?b + of_nat i" m1 pm] ui ub i(2) by (simp add: pm1_def)
    also have "\<dots> = ?bs ! i" using i u l by (simp add: m1_def mem_write_def)
    finally show "mem_read (user_view dir pm2) 0 (2048 * length cs) ! i = ?bs ! i"
      using view [of "of_nat i" m2 pm1] i u by (simp add: pm2_def)
  qed (simp add: l)
  ultimately show ?thesis by blast
qed

lemma frames_needed_small:
  assumes "0 < rq_buffer_size rq" "rq_buffer_size rq \<le> 0x400000"
  shows "frames_needed rq = 2"
proof -
  let ?a = "rq_buffer_size rq + 0x400000"
  have b: "0 < unat (rq_buffer_size rq)" "unat (rq_buffer_size rq) \<le> 0x400000"
    using assms by (simp_all add: word_less_nat_alt word_le_nat_alt)
  then have u: "unat ?a = unat (rq_buffer_size rq) + 0x400000" by (simp add: unat_word_ariths)
  show ?thesis
  proof (cases "unat (rq_buffer_size rq) = 0x400000")
    case True
    then have "rq_buffer_size rq = 0x400000" by (simp add: word_unat_eq_iff)
    then show ?thesis by (simp add: frames_needed_def)
  next
    case False
    then have "unat (?a div 0x400000) = 1" "unat (?a mod 0x400000) = unat (rq_buffer_size rq)"
      using b u by (simp_all add: unat_div unat_mod div_nat_eqI)
    then show ?thesis using b(1) by (auto simp: frames_needed_def word_unat_eq_iff unat_word_ariths)
  qed
qed

subsection \<open>Identifiers\<close>

text \<open>
  A new process always gets an identifier: the search ends, with the smallest positive
  number that no slot of the table uses, which is at most 17.
\<close>

theorem process_generate_new_pid_spec:
  "\<exists>n. process_generate_new_pid st = Some (of_nat n) \<and> 1 \<le> n \<and> n \<le> 17 \<and> of_nat n \<notin> used_pids st \<and>
     of_nat ` {1..<n} \<subseteq> used_pids st"
proof -
  obtain n where "process_generate_new_pid st = Some (of_nat n)" "1 \<le> n" "n \<le> 17" "of_nat n \<notin> used_pids st"
    "\<And>q. 1 \<le> q \<Longrightarrow> q < n \<Longrightarrow> of_nat q \<in> used_pids st" by (rule generate_new_pid_result [of st]) blast
  then show ?thesis by (intro exI [of _ n]) auto
qed

subsection \<open>Creation\<close>

lemma created_pcb_simps [simp]: "proc_state (created_pcb rq a q p) = READY" "pid (created_pcb rq a q p) = q"
    "length (virtual_addr_used (created_pcb rq a q p)) = length (virtual_addr_used p)"
    "pcb_context (created_pcb rq a q p) = new_context a" "process_name (created_pcb rq a q p) = take 8 (rq_name rq)"
    "proc_state (started_pcb rq p) = proc_state p" "pid (started_pcb rq p) = pid p"
    "length (virtual_addr_used (started_pcb rq p)) = length (virtual_addr_used p)"
  by (simp_all add: created_pcb_def started_pcb_def)

lemma procs_inv_started:
  assumes inv: "procs_inv st" and i: "i < 16" "state_at st i = NEW"
  shows "procs_inv (set_pcb i (started_pcb rq (process_list st ! i)) st)"
  by (rule procs_inv_set [OF inv i(1), where p = "started_pcb rq (process_list st ! i)"])
    (use i procs_invD(1-3,5,7) [OF inv] in \<open>auto simp: nth_list_update\<close>)

lemma procs_inv_created:
  assumes inv: "procs_inv st" and i: "i < 16" "state_at st i = NEW" and q: "q \<notin> used_pids st"
    and a: "active_process_count st < 16"
  shows "procs_inv ((set_pcb i (created_pcb rq page q (process_list st ! i)) st)\<lparr>active_process_count := active_process_count st + 1\<rparr>)"
  by (rule procs_inv_set [OF inv i(1), where p = "created_pcb rq page q (process_list st ! i)"])
    (use i q a procs_invD(1,2,5) [OF inv] in \<open>auto simp: nth_list_update\<close>)

text \<open>What creation promises to the processes that exist already.\<close>

definition others_untouched :: "'d kernel \<Rightarrow> 'd kernel \<Rightarrow> bool" where
  "others_untouched k k' \<longleftrightarrow> k_fs k' = k_fs k \<and>
     (\<forall>i<16. state_at (k_procs k) i \<noteq> NEW \<longrightarrow> process_list (k_procs k') ! i = process_list (k_procs k) ! i) \<and>
     running_process_idx (k_procs k') = running_process_idx (k_procs k) \<and>
     (\<forall>e va. (e, page_index va) \<in> user_pages (k_paging k) \<longrightarrow> (e, page_index va) \<in> user_pages (k_paging k') \<and>
        user_view (page_directory_list (k_paging k') ! e) (k_mem k') va =
        user_view (page_directory_list (k_paging k) ! e) (k_mem k) va)"

definition new_process :: "FAT32DriverRequest \<Rightarrow> 'd kernel \<Rightarrow> 'd kernel \<Rightarrow> nat \<Rightarrow> nat \<Rightarrow> bool" where
  "new_process rq k k' i d \<longleftrightarrow> i < 16 \<and> state_at (k_procs k) i = NEW \<and> state_at (k_procs k') i = READY \<and>
     pid (process_list (k_procs k') ! i) \<noteq> 0 \<and> pid (process_list (k_procs k') ! i) \<notin> used_pids (k_procs k) \<and>
     process_name (process_list (k_procs k') ! i) = take 8 (rq_name rq) \<and>
     d < 32 \<and> \<not> page_directory_used (k_paging k) ! d \<and> page_directory_used (k_paging k') ! d \<and>
     pcb_context (process_list (k_procs k') ! i) = new_context (directory_addr (k_paging k) d) \<and>
     active_process_count (k_procs k') = active_process_count (k_procs k) + 1 \<and>
     (\<forall>j<16. j \<noteq> i \<longrightarrow> process_list (k_procs k') ! j = process_list (k_procs k) ! j) \<and>
     running_process_idx (k_procs k') = running_process_idx (k_procs k) \<and> resumed k' = resumed k"

lemma created_new_process:
  assumes pinv: "paging_inv (k_paging k)" and inv: "procs_inv (k_procs k)"
    and i: "i < 16" "state_at (k_procs k) i = NEW" and a: "address_space rq k d dir pg"
    and q: "1 \<le> q" "q \<le> 17" "of_nat q \<notin> used_pids (k_procs k)"
    and k': "k' = k\<lparr>k_procs := (set_pcb i (created_pcb rq (directory_addr pg d) (of_nat q) (process_list (k_procs k) ! i)) (k_procs k))
           \<lparr>active_process_count := active_process_count (k_procs k) + 1\<rparr>, k_paging := restored d pg, k_mem := pm\<rparr>"
  shows "new_process rq k k' i d"
proof -
  have "d < 32" "\<not> page_directory_used (k_paging k) ! d" "page_directory_used pg ! d" "directory_addr pg d = directory_addr (k_paging k) d"
    using a directories_okD(2) [OF paging_invD(2) [OF pinv]] by (auto simp: address_space_def directory_addr_def)
  moreover have "(of_nat q :: u32) \<noteq> 0" using q(1,2) by (simp add: word_unat_eq_iff unat_of_nat)
  ultimately show ?thesis using i q(3) procs_invD(1) [OF inv] by (simp add: new_process_def k')
qed

text \<open>What creation takes from paging, whether it succeeds or not.\<close>

definition space_taken :: "FAT32DriverRequest \<Rightarrow> 'd kernel \<Rightarrow> 'd kernel \<Rightarrow> nat \<Rightarrow> bool" where
  "space_taken rq k k' d \<longleftrightarrow> d < 32 \<and> \<not> page_directory_used (k_paging k) ! d \<and>
     page_directory_used (k_paging k') = (page_directory_used (k_paging k))[d := True] \<and>
     user_pages (k_paging k') = user_pages (k_paging k) \<union> {d} \<times> {..<min (card (free_frames (k_paging k))) (unat (frames_needed rq))}"

lemma address_space_taken:
  assumes pinv: "paging_inv (k_paging k)" and a: "address_space rq k d dir pg" and n: "unat (frames_needed rq) \<le> 8"
    and k': "k_paging k' = restored d pg"
  shows "space_taken rq k k' d"
proof -
  note D = directories_okD(1,2) [OF paging_invD(2) [OF pinv]]
  let ?m = "min (card (free_frames (k_paging k))) (unat (frames_needed rq))"
  have A: "d < 32" "\<not> page_directory_used (k_paging k) ! d" "page_directory_list pg = (page_directory_list (k_paging k))[d := dir]"
    "page_directory_used pg = (page_directory_used (k_paging k))[d := True]" using a by (simp_all add: address_space_def)
  have "present_bit (pde_flag (dir ! p)) \<longleftrightarrow> p < ?m" if "p < 1024" "p \<noteq> 0x300" for p
    using a that unfolding address_space_def by (metis min_less_iff_conj not_le)
  moreover have "p < 1024 \<and> p \<noteq> 0x300" if "p < ?m" for p using that n by simp
  ultimately have "(e, p) \<in> user_pages (restored d pg) \<longleftrightarrow> (e, p) \<in> user_pages (k_paging k) \<union> {d} \<times> {..<?m}" for e p
    using A D by (cases "e = d") (auto simp: user_pages_def)
  then show ?thesis using A k' by (auto simp: space_taken_def)
qed

text \<open>Page frames, page directories and the process count are only ever taken.\<close>

definition resources_shrink :: "'d kernel \<Rightarrow> 'd kernel \<Rightarrow> bool" where
  "resources_shrink k k' \<longleftrightarrow> free_frames (k_paging k') \<subseteq> free_frames (k_paging k) \<and>
     directories.free_slots (page_directory_used (k_paging k')) \<subseteq> directories.free_slots (page_directory_used (k_paging k)) \<and>
     active_process_count (k_procs k) \<le> active_process_count (k_procs k')"

lemma resources_shrinkI:
  assumes "page_manager_state (k_paging k') = page_manager_state (k_paging k)"
    "page_directory_used (k_paging k') = page_directory_used (k_paging k)"
    "active_process_count (k_procs k') = active_process_count (k_procs k)"
  shows "resources_shrink k k'"
  using assms by (simp add: resources_shrink_def)

lemma create_effect:
  assumes pinv: "paging_inv (k_paging k)" and inv: "procs_inv (k_procs k)"
    and r: "process_create_user_process rq k = Ret (r, k')"
  shows "procs_inv (k_procs k')" "paging_inv (k_paging k')" "others_untouched k k'"
    "create_guard rq k \<noteq> 0 \<Longrightarrow> r = create_guard rq k \<and> k' = k" "create_guard rq k = 0 \<Longrightarrow> r \<in> {0, 4}"
    "r = 0 \<Longrightarrow> \<exists>i d. new_process rq k k' i d"
    "r \<noteq> 0 \<Longrightarrow> active_process_count (k_procs k') = active_process_count (k_procs k)"
    "resources_shrink k k'"
proof -
  have all: "procs_inv (k_procs k') \<and> paging_inv (k_paging k') \<and> others_untouched k k' \<and> resources_shrink k k' \<and>
    (create_guard rq k \<noteq> 0 \<longrightarrow> r = create_guard rq k \<and> k' = k) \<and> (create_guard rq k = 0 \<longrightarrow> r \<in> {0, 4}) \<and>
    (if r = 0 then \<exists>i d. new_process rq k k' i d
     else active_process_count (k_procs k') = active_process_count (k_procs k))"
  proof (cases "create_guard rq k = 0")
    case False
    then show ?thesis using r create_refused [OF pinv inv] pinv inv by (auto simp: others_untouched_def resources_shrinkI)
  next
    case True
    then have a: "active_process_count (k_procs k) < 16" by (auto simp: create_guard_def split: if_splits)
    obtain i d dir pg q where C: "i < 16" "state_at (k_procs k) i = NEW" "address_space rq k d dir pg"
      "1 \<le> q" "q \<le> 17" "of_nat q \<notin> used_pids (k_procs k)" "finish_create rq k i d dir pg (of_nat q) = Ret (r, k')"
      using create_accepted [OF pinv inv True] r by metis
    have pg: "paging_inv pg" "d < 32" "\<not> page_directory_used (k_paging k) ! d" "page_directory_used pg ! d"
      "directory_addr pg d = directory_addr (k_paging k) d"
      using C(3) directories_okD(2) [OF paging_invD(2) [OF pinv]] by (auto simp: address_space_def directory_addr_def)
    have "free_frames pg \<subseteq> free_frames (k_paging k)" "page_directory_used pg = (page_directory_used (k_paging k))[d := True]"
      using C(3) by (simp_all add: address_space_def)
    then have shrink: "free_frames pg \<subseteq> free_frames (k_paging k)"
      "directories.free_slots (page_directory_used pg) \<subseteq> directories.free_slots (page_directory_used (k_paging k))"
      using directories.free_slots_acquire [OF directories_okD(2) [OF paging_invD(2) [OF pinv]] pg(2)] by auto
    note S = procs_inv_started [OF inv C(1,2), of rq] and K = procs_inv_created [OF inv C(1,2,6) a, of rq]
    have len: "length (process_list (k_procs k)) = 16" using procs_invD(1) [OF inv] .
    have other: "(process_list (k_procs k))[i := p] ! j = process_list (k_procs k) ! j" if "state_at (k_procs k) j \<noteq> NEW" for j p
      using that C(2) by (cases "i = j") auto
    from C(7) show ?thesis
    proof (cases rule: finish_createE)
      case (failed rv pm)
      then show ?thesis
        using S pg(1) paging_inv_switch True other shrink
          address_space_old_pages [OF pinv C(3) _ read_into_space_only_in [OF failed(1)]]
        by (auto simp: others_untouched_def resources_shrink_def)
    next
      case (created pm pm')
      note O = place_image_only_in [OF created(3) read_into_space_only_in [OF created(1)]]
      have "new_process rq k k' i d" by (rule created_new_process [OF pinv inv C(1-6) created(4)])
      moreover have "others_untouched k k'"
        using created(4) C(2) other address_space_old_pages [OF pinv C(3) _ O] by (auto simp: others_untouched_def)
      moreover have "resources_shrink k k'" using created(4) shrink by (simp add: resources_shrink_def)
      ultimately show ?thesis using created(2,4) K pg paging_inv_switch True by auto
    qed
  qed
  then show "procs_inv (k_procs k')" "paging_inv (k_paging k')" "others_untouched k k'"
    "create_guard rq k \<noteq> 0 \<Longrightarrow> r = create_guard rq k \<and> k' = k" "create_guard rq k = 0 \<Longrightarrow> r \<in> {0, 4}"
    "r = 0 \<Longrightarrow> \<exists>i d. new_process rq k k' i d"
    "r \<noteq> 0 \<Longrightarrow> active_process_count (k_procs k') = active_process_count (k_procs k)"
    "resources_shrink k k'"
    by simp_all
qed

lemma create_loads:
  assumes pinv: "paging_inv (k_paging k)" and inv: "procs_inv (k_procs k)"
    and free: "active_process_count (k_procs k) < 16" "directories.free_slots (page_directory_used (k_paging k)) \<noteq> {}"
      "2 \<le> card (free_frames (k_paging k))"
    and fs: "fs_inv D own (k_fs k)" "found_slot (k_fs k) rq \<in> slots D (tables (k_fs k))"
      "\<not> is_dir (ent (tables (k_fs k)) (found_slot (k_fs k) rq))"
      "de_filesize (ent (tables (k_fs k)) (found_slot (k_fs k) rq)) \<le> rq_buffer_size rq"
    and rq: "rq_buf rq \<le> 0x400000" "0 < rq_buffer_size rq" "rq_buffer_size rq \<le> 0x400000"
  defines "cs \<equiv> own (found_slot (k_fs k) rq)"
  shows "\<exists>k' i d. process_create_user_process rq k = Ret (0, k') \<and> new_process rq k k' i d \<and>
    mem_read (user_view (page_directory_list (k_paging k') ! d) (k_mem k')) 0 (2048 * length cs) =
      concat (map (cluster (fs_disk (k_fs k))) cs) \<and>
    (\<forall>va. 0x400000 \<le> unat va \<longrightarrow> unat va < 0x800000 \<longrightarrow>
       user_view (page_directory_list (k_paging k') ! d) (k_mem k') va = 0)"
proof -
  note n = frames_needed_small [OF rq(2,3)] and F = frames_okD [OF paging_invD(1) [OF pinv]]
  have "free_page_frame_count (page_manager_state (k_paging k)) \<noteq> 0" using F(3) free(3) by auto
  then have "create_guard rq k = 0"
    using free rq(1) n by (simp add: create_guard_def paging_allocate_check_def word_le_nat_alt Suc_le_eq unat_gt_0)
  then obtain i d dir pg q where C: "i < 16" "state_at (k_procs k) i = NEW" "address_space rq k d dir pg"
    "1 \<le> q" "q \<le> 17" "of_nat q \<notin> used_pids (k_procs k)"
    "process_create_user_process rq k = finish_create rq k i d dir pg (of_nat q)"
    using create_accepted [OF pinv inv, of rq] by metis
  let ?p = "process_list (k_procs k) ! i"
  have A: "paging_inv pg" "d < 32" "page_directory_used pg ! d" "page_directory_list pg ! d = dir" "\<not> page_directory_used (k_paging k) ! d"
    "present_bit (pde_flag (dir ! 0))" "present_bit (pde_flag (dir ! 1))" "directory_addr pg d = directory_addr (k_paging k) d"
    using C(3) free(3) n directories_okD(1,2) [OF paging_invD(2) [OF pinv]] by (auto simp: address_space_def directory_addr_def)
  have us: "virtual_addr_used (started_pcb rq ?p) ! 0 = 0" "virtual_addr_used (started_pcb rq ?p) ! 1 = 0x400000"
    using procs_invD(2) [OF inv C(1)] n by (simp_all add: started_pcb_def nth_record_frames)
  obtain pm1 pm2 where L: "read_into_space dir rq (k_fs k) (k_mem k) = Ret (0, pm1)"
    "place_image dir (rq_buf rq) (virtual_addr_used (started_pcb rq ?p)) pm1 = Ret pm2"
    "mem_read (user_view dir pm2) 0 (2048 * length cs) = concat (map (cluster (fs_disk (k_fs k))) cs)"
    "\<forall>va. 0x400000 \<le> unat va \<longrightarrow> unat va < 0x800000 \<longrightarrow> user_view dir pm2 va = 0"
    using load_result [OF A(1-3,6,7) fs rq(1) us A(4) [symmetric], of "k_mem k"] by (auto simp: cs_def)
  define k' where "k' = k\<lparr>k_procs := (set_pcb i (created_pcb rq (directory_addr pg d) (of_nat q) ?p) (k_procs k))
      \<lparr>active_process_count := active_process_count (k_procs k) + 1\<rparr>,
    k_paging := paging_use_page_directory (paging_get_current_page_directory_addr pg) (paging_use_page_directory (directory_addr pg d) pg),
    k_mem := pm2\<rparr>"
  have "process_create_user_process rq k = Ret (0, k')"
    using C(7) L(1,2) rq(1) by (simp add: finish_create_def Let_def k'_def)
  moreover have "new_process rq k k' i d" by (rule created_new_process [OF pinv inv C(1-6) k'_def])
  moreover have "page_directory_list (k_paging k') ! d = dir" "k_mem k' = pm2" using A(4) by (simp_all add: k'_def)
  ultimately show ?thesis using L(3,4) by metis
qed

text \<open>A kernel after boot with one file on its disk, and a request to run that file.\<close>

definition boot_kernel :: "fs_state \<Rightarrow> unit kernel" where
  "boot_kernel s = demo_kernel\<lparr>k_fs := s, k_procs := initial_process_manager_state\<rparr>"

definition run_rq :: FAT32DriverRequest where
  "run_rq = demo_rq\<lparr>rq_buf := 0\<rparr>"

lemma boot_kernel_inv: "paging_inv (k_paging (boot_kernel s))" "procs_inv (k_procs (boot_kernel s))"
  using boot_paging_inv initial_procs_inv by (simp_all add: boot_kernel_def demo_kernel_def)

lemma boot_room: "create_guard run_rq (boot_kernel s) = 0" "active_process_count (k_procs (boot_kernel s)) < 16"
    "directories.free_slots (page_directory_used (k_paging (boot_kernel s))) \<noteq> {}" "2 \<le> card (free_frames (k_paging (boot_kernel s)))"
proof -
  have n: "frames_needed run_rq = 2" by (rule frames_needed_small) (simp_all add: run_rq_def demo_rq_def)
  have "0 \<in> directories.free_slots (page_directory_used (k_paging (boot_kernel s)))"
    by (simp add: directories.free_slots_def boot_kernel_def demo_kernel_def boot_paging_def)
  then show d: "directories.free_slots (page_directory_used (k_paging (boot_kernel s))) \<noteq> {}" by blast
  show a: "active_process_count (k_procs (boot_kernel s)) < 16" by (simp add: boot_kernel_def initial_process_manager_state_def)
  have "paging_allocate_check 2 (k_paging (boot_kernel s))"
    by (simp add: paging_allocate_check_def boot_kernel_def demo_kernel_def boot_paging_def initial_page_manager_state_def)
  then show "create_guard run_rq (boot_kernel s) = 0"
    unfolding create_guard_def n using d a by (simp add: run_rq_def)
  show "2 \<le> card (free_frames (k_paging (boot_kernel s)))"
    using boot_frames by (simp add: boot_kernel_def demo_kernel_def boot_paging_def)
qed

text \<open>The disk with the file of \<open>demo_rq\<close>, stored in clusters 3 and 4.\<close>

definition file_fs :: fs_state where
  "file_fs = file_written demo_rq (rq_table fresh_fs demo_rq) (snd (new_slot fresh_fs demo_rq)) [3, 4] demo_mem fresh_fs"

lemma file_fs_found:
  defines "own \<equiv> (\<lambda>_. [])(new_slot fresh_fs demo_rq := [3, 4])"
  shows "fs_inv {2} own file_fs" "found_slot file_fs run_rq \<in> slots {2} (tables file_fs)"
    "\<not> is_dir (ent (tables file_fs) (found_slot file_fs run_rq))"
    "de_filesize (ent (tables file_fs) (found_slot file_fs run_rq)) \<le> rq_buffer_size run_rq"
    "own (found_slot file_fs run_rq) = [3, 4]" "rq_buf run_rq = 0" "0 < rq_buffer_size run_rq" "rq_buffer_size run_rq \<le> 0x400000"
    "rq_buf run_rq \<le> 0x400000"
proof -
  have p: "rq_parent_cluster_number demo_rq = 2" by (simp add: demo_rq_def)
  have new: "\<forall>i<64. \<not> entry_matches (rq_table fresh_fs demo_rq ! i) demo_rq"
    using demo_no_match by (simp add: p fresh_table)
  have q: "rq_name run_rq = rq_name demo_rq" "rq_ext run_rq = rq_ext demo_rq"
    "rq_parent_cluster_number run_rq = rq_parent_cluster_number demo_rq" "rq_buffer_size run_rq = rq_buffer_size demo_rq"
    by (simp_all add: run_rq_def)
  note W = written_found [OF demo_write new q(1-3) refl, of demo_mem, unfolded demo_clusters, folded file_fs_def]
  show "fs_inv {2} own file_fs"
    using file_written_effect(1) [OF demo_write, of demo_mem] by (simp add: demo_clusters file_fs_def own_def)
  show "found_slot file_fs run_rq \<in> slots {2} (tables file_fs)" "\<not> is_dir (ent (tables file_fs) (found_slot file_fs run_rq))"
    "de_filesize (ent (tables file_fs) (found_slot file_fs run_rq)) \<le> rq_buffer_size run_rq"
    "own (found_slot file_fs run_rq) = [3, 4]"
    using W q(4) by (simp_all add: own_def)
qed (simp_all add: run_rq_def demo_rq_def)

theorem fat_read_outcome_witness:
  "\<exists>bytes. length bytes = 4096 \<and> fat_read run_rq file_fs demo_mem = Ret (0, mem_write demo_mem 0 bytes)"
proof -
  note F = file_fs_found
  have s: "2 \<le> find_entry (rq_table file_fs run_rq) run_rq" "find_entry (rq_table file_fs run_rq) run_rq < 64" "is_dir (rq_table file_fs run_rq ! 0)"
    using found_slotD(2-4) [OF F(1,2)] by (simp_all add: is_dir_def)
  then have "file_readable run_rq file_fs" using F(3,4) by (simp add: file_readable_def Let_def)
  then obtain n e fsize bytes where b: "abs_fs {2} ((\<lambda>_. [])(new_slot fresh_fs demo_rq := [3, 4])) file_fs (found_slot file_fs run_rq) =
      Some (File_Node n e fsize bytes)" "fat_read run_rq file_fs demo_mem = Ret (0, mem_write demo_mem (rq_buf run_rq) bytes)"
    using fat_read_outcome [OF F(1), of run_rq demo_mem] F(2) by auto
  then have "bytes = concat (map (cluster (fs_disk file_fs)) [3, 4])" using F(2,3,5) by (auto simp: abs_fs_def node_of_def split: if_splits)
  then have "length bytes = 4096" using fs_invD(1) [OF F(1)] by simp
  then show ?thesis using b(2) F(6) by auto
qed

lemma demo_run: "\<exists>k' i d. process_create_user_process run_rq (boot_kernel file_fs) = Ret (0, k') \<and>
    new_process run_rq (boot_kernel file_fs) k' i d"
proof -
  have f: "k_fs (boot_kernel file_fs) = file_fs" by (simp add: boot_kernel_def)
  show ?thesis
    using create_loads [OF boot_kernel_inv [of file_fs] boot_room(2-4) [of file_fs], unfolded f, OF file_fs_found(1-4,9,7,8)] by blast
qed

text \<open>
  C2. Whatever the outcome of creating a process, the processes that exist keep their control
  blocks, their pages and every byte of their memory, the file system is not changed, and the
  invariants of paging and of the process table are kept.
\<close>

theorem process_create_isolated:
  assumes "paging_inv (k_paging k)" "procs_inv (k_procs k)" "process_create_user_process rq k = Ret (r, k')"
  shows "others_untouched k k' \<and> paging_inv (k_paging k') \<and> procs_inv (k_procs k')"
  using create_effect(1-3) [OF assms] by blast

theorem process_create_isolated_witness:
  "\<exists>k'. process_create_user_process run_rq (boot_kernel file_fs) = Ret (0, k') \<and> others_untouched (boot_kernel file_fs) k'"
proof -
  obtain k' where r: "process_create_user_process run_rq (boot_kernel file_fs) = Ret (0, k')" using demo_run by blast
  then show ?thesis using process_create_isolated [OF boot_kernel_inv r] by blast
qed

definition failed_process :: "FAT32DriverRequest \<Rightarrow> 'd kernel \<Rightarrow> 'd kernel \<Rightarrow> nat \<Rightarrow> bool" where
  "failed_process rq k k' i \<longleftrightarrow> i < 16 \<and> state_at (k_procs k) i = NEW \<and>
     k' = k\<lparr>k_procs := set_pcb i (started_pcb rq (process_list (k_procs k) ! i)) (k_procs k), k_paging := k_paging k'\<rparr>"

lemma read_into_space_code:
  assumes "read_into_space dir rq s pm = Ret (rv, pm')"
  shows "rv = 0 \<longleftrightarrow> file_readable rq s" "rv \<noteq> 0 \<Longrightarrow> pm' = pm"
  using assms fat_read_code [of rq s "user_view dir pm"]
  by (auto simp: read_into_space_def Let_def elim!: run_bind_RetE split: if_splits)



text \<open>
  C10. Running a file of at most 4 MiB, with a buffer of the caller in the first 4 MiB, succeeds when
  a process slot, a page directory and two page frames are free: the new process finds the clusters
  of the file at address 0 and a cleared page behind them, the one the code takes for its stack.
\<close>

theorem process_create_succeeds:
  assumes pinv: "paging_inv (k_paging k)" and inv: "procs_inv (k_procs k)"
    and free: "active_process_count (k_procs k) < 16" "directories.free_slots (page_directory_used (k_paging k)) \<noteq> {}"
      "2 \<le> card (free_frames (k_paging k))"
    and fs: "fs_inv D own (k_fs k)" "found_slot (k_fs k) rq \<in> slots D (tables (k_fs k))"
      "\<not> is_dir (ent (tables (k_fs k)) (found_slot (k_fs k) rq))"
      "de_filesize (ent (tables (k_fs k)) (found_slot (k_fs k) rq)) \<le> rq_buffer_size rq"
    and rq: "rq_buf rq \<le> 0x400000" "0 < rq_buffer_size rq" "rq_buffer_size rq \<le> 0x400000"
  defines "cs \<equiv> own (found_slot (k_fs k) rq)"
  shows "\<exists>k' i d. process_create_user_process rq k = Ret (0, k') \<and> new_process rq k k' i d \<and>
    mem_read (user_view (page_directory_list (k_paging k') ! d) (k_mem k')) 0 (2048 * length cs) =
      concat (map (cluster (fs_disk (k_fs k))) cs) \<and>
    (\<forall>va. 0x400000 \<le> unat va \<longrightarrow> unat va < 0x800000 \<longrightarrow>
       user_view (page_directory_list (k_paging k') ! d) (k_mem k') va = 0)"
  unfolding cs_def by (rule create_loads [OF assms(1-12)])

theorem process_create_succeeds_witness:
  "\<exists>k' i d. process_create_user_process run_rq (boot_kernel file_fs) = Ret (0, k') \<and>
     new_process run_rq (boot_kernel file_fs) k' i d \<and>
     mem_read (user_view (page_directory_list (k_paging k') ! d) (k_mem k')) 0 4096 =
       cluster (fs_disk file_fs) 3 @ cluster (fs_disk file_fs) 4"
proof -
  have f: "k_fs (boot_kernel file_fs) = file_fs" by (simp add: boot_kernel_def)
  show ?thesis
    using process_create_succeeds [OF boot_kernel_inv [of file_fs] boot_room(2-4) [of file_fs], unfolded f, OF file_fs_found(1-4,9,7,8)]
    unfolding file_fs_found(5) by auto
qed

subsection \<open>The kernel over time\<close>

text \<open>
  The steps of the kernel on processes: a timer tick, the creation, exit or kill of a process,
  and anything that file system calls, the console and the running processes do to the disk,
  the memory and the screen.
\<close>

inductive kernel_step :: "'d kernel \<Rightarrow> 'd kernel \<Rightarrow> bool" where
  step_tick: "kernel_step k (tick k ctx)"
| step_create: "process_create_user_process rq k = Ret (r, k') \<Longrightarrow> kernel_step k k'"
| step_exit: "terminate_current_process k = Ret k' \<Longrightarrow> kernel_step k k'"
| step_kill: "kill_process p k = Ret (r, k') \<Longrightarrow> kernel_step k k'"
| step_other: "kernel_step k (k\<lparr>k_fs := s, k_mem := m, k_console := c, itoa_buf := b\<rparr>)"

definition kernel_inv :: "'d kernel \<Rightarrow> bool" where
  "kernel_inv k \<longleftrightarrow> procs_inv (k_procs k) \<and> paging_inv (k_paging k)"

definition kernel_init :: "'d kernel \<Rightarrow> bool" where
  "kernel_init k \<longleftrightarrow> k_procs k = initial_process_manager_state \<and> (\<exists>a c. k_paging k = boot_paging a c)"

lemma switch_frame:
  "page_manager_state (k_paging (scheduler_switch_to_next_process k)) = page_manager_state (k_paging k)"
  "page_directory_used (k_paging (scheduler_switch_to_next_process k)) = page_directory_used (k_paging k)"
  "active_process_count (k_procs (scheduler_switch_to_next_process k)) = active_process_count (k_procs k)"
  "paging_inv (k_paging k) \<Longrightarrow> paging_inv (k_paging (scheduler_switch_to_next_process k))"
  by (auto simp: scheduler_switch_to_next_process_def Let_def paging_inv_switch split: prod.splits)

lemma cleared_shrink: "slot_cleared i k k' \<Longrightarrow> resources_shrink k k'"
  by (rule resources_shrinkI) (simp_all add: slot_cleared_def)

lemma exit_keeps:
  assumes "kernel_inv k" "terminate_current_process k = Ret k'"
  shows "kernel_inv k'" "resources_shrink k k'"
proof -
  obtain r where r: "running_process_idx (k_procs k) = int r" "r < 16"
    using assms procs_invD(5) [of "k_procs k"]
    by (auto simp: kernel_inv_def terminate_current_process_def process_get_current_running_pcb_pointer_def split: if_splits)
  have c: "slot_cleared r k k'" using terminate_clears [of k r] r assms by (auto simp: kernel_inv_def)
  then show "resources_shrink k k'" by (rule cleared_shrink)
  have "k' = scheduler_switch_to_next_process (k\<lparr>k_procs := set_pcb r zero_pcb (k_procs k)\<rparr>)"
    using assms(2) r by (auto simp: terminate_current_process_def process_get_current_running_pcb_pointer_def)
  then have "paging_inv (k_paging k')"
    using assms(1) switch_frame(4) [of "k\<lparr>k_procs := set_pcb r zero_pcb (k_procs k)\<rparr>"] by (simp add: kernel_inv_def)
  then show "kernel_inv k'" using c by (auto simp: kernel_inv_def slot_cleared_def)
qed

lemma kill_keeps:
  assumes inv: "kernel_inv k" and "kill_process p k = Ret (r, k')"
  shows "kernel_inv k'" "resources_shrink k k'"
proof -
  have run: "running_process_idx (k_procs k) \<noteq> -1" using assms(2) by (auto simp: kill_process_def Let_def split: if_splits)
  consider "terminate_current_process k = Ret k'" | "k_paging k' = k_paging k"
    using assms(2) by (auto simp: kill_process_def Let_def split: if_splits elim!: run_bind_RetE)
  then have pg: "paging_inv (k_paging k')" using exit_keeps(1) [OF inv] inv by cases (auto simp: kernel_inv_def)
  have "k' = k \<or> (\<exists>i. slot_cleared i k k')"
    using kill_result [OF _ run, of p] inv assms(2) by (auto simp: kernel_inv_def split: if_splits)
  then show "kernel_inv k'" "resources_shrink k k'"
    using pg inv cleared_shrink by (auto simp: kernel_inv_def slot_cleared_def resources_shrinkI)
qed

lemma tick_keeps:
  assumes "kernel_inv k"
  shows "kernel_inv (tick k ctx)" "resources_shrink k (tick k ctx)"
proof -
  define k1 where "k1 = k\<lparr>k_procs := scheduler_save_context_to_current_running_pcb ctx (k_procs k)\<rparr>"
  have t: "tick k ctx = scheduler_switch_to_next_process k1" by (simp add: tick_def k1_def)
  have "procs_inv (k_procs k1)" "paging_inv (k_paging k1)"
    using assms procs_inv_save by (simp_all add: kernel_inv_def k1_def)
  then show "kernel_inv (tick k ctx)" using procs_inv_switch [of k1] switch_frame(4) [of k1] by (simp add: kernel_inv_def t)
  show "resources_shrink k (tick k ctx)"
    by (rule resources_shrinkI; unfold t switch_frame)
      (simp_all add: k1_def scheduler_save_context_to_current_running_pcb_def split: option.split)
qed

lemma kernel_step_keeps:
  assumes "kernel_step k k'" "kernel_inv k"
  shows "kernel_inv k' \<and> resources_shrink k k'"
  using assms
proof (cases rule: kernel_step.cases)
  case (step_tick ctx)
  then show ?thesis using tick_keeps [OF assms(2)] by simp
next
  case (step_create rq r)
  then show ?thesis using create_effect(1,2,8) [of k rq r k'] assms(2) by (simp add: kernel_inv_def)
next
  case step_exit
  then show ?thesis using exit_keeps [OF assms(2)] by simp
next
  case (step_kill p r)
  then show ?thesis using kill_keeps [OF assms(2)] by simp
qed (use assms in \<open>simp add: kernel_inv_def resources_shrinkI\<close>)

interpretation kernel: invariant_system kernel_init kernel_step kernel_inv
  using kernel_step_keeps initial_procs_inv boot_paging_inv
  by unfold_locales (auto simp: kernel_init_def kernel_inv_def)

text \<open>
  C1. From boot on, over every sequence of timer ticks, creations, exits and kills, the process
  table and paging keep their invariants: identifiers are unique, the running process has a
  used slot, no two user pages share a frame; and the unbounded search for a free slot that a
  creation performs stays in the table.
\<close>

theorem kernel_reachable_ok:
  assumes "reachable kernel_init kernel_step k"
  shows "procs_inv (k_procs k) \<and> paging_inv (k_paging k) \<and>
    (active_process_count (k_procs k) < 16 \<longrightarrow> (\<exists>i<16. process_list_get_inactive_index (k_procs k) = Ret i))"
proof -
  have inv: "procs_inv (k_procs k)" "paging_inv (k_paging k)"
    using kernel.reachable_inv [OF assms] by (simp_all add: kernel_inv_def)
  then show ?thesis using inactive_index_result [OF procs_invD(1) free_slot_exists] by metis
qed

lemma boot_kernel_init: "kernel_init (boot_kernel s)"
  by (auto simp: kernel_init_def boot_kernel_def demo_kernel_def)

theorem kernel_reachable_ok_witness:
  "\<exists>k'. process_create_user_process run_rq (boot_kernel file_fs) = Ret (0, k') \<and> procs_inv (k_procs (tick k' (new_context 0)))"
proof -
  obtain k' where r: "process_create_user_process run_rq (boot_kernel file_fs) = Ret (0, k')" using demo_run by blast
  then have "reachable kernel_init kernel_step (tick k' (new_context 0))"
    using reachable_init [of kernel_init, OF boot_kernel_init] by (meson reachable_step step_create step_tick)
  then show ?thesis using kernel_reachable_ok r by blast
qed

text \<open>
  C38. Nothing is given back: over every sequence of kernel steps, exits and kills included, the
  free page frames and page directories only become fewer and the count of active
  processes never drops; at 16 no process can be created any more.
\<close>

theorem process_resources_permanent:
  assumes r: "reachable kernel_init kernel_step k" and later: "kernel_step\<^sup>*\<^sup>* k k'"
  shows "resources_shrink k k' \<and>
    (active_process_count (k_procs k) = 16 \<longrightarrow>
       process_create_user_process rq k' = Ret (PROCESS_CREATE_FAIL_MAX_PROCESS_EXCEEDED, k'))"
proof -
  have "kernel_inv k' \<and> resources_shrink k k'" using later
  proof (induction rule: rtranclp_induct)
    case base
    then show ?case using kernel.reachable_inv [OF r] by (simp add: resources_shrinkI)
  next
    case (step y z)
    then show ?case using kernel_step_keeps [of y z] by (auto simp: resources_shrink_def)
  qed
  then show ?thesis by (auto simp: process_create_user_process_def resources_shrink_def)
qed

theorem process_resources_permanent_witness:
  "\<exists>k' k''. process_create_user_process run_rq (boot_kernel file_fs) = Ret (0, k') \<and>
     terminate_current_process (tick k' (new_context 0)) = Ret k'' \<and> resources_shrink k' k''"
proof -
  obtain k' i d where r: "process_create_user_process run_rq (boot_kernel file_fs) = Ret (0, k')"
    "new_process run_rq (boot_kernel file_fs) k' i d" using demo_run by blast
  have inv: "kernel_inv k'" using create_effect(1,2) [OF boot_kernel_inv r(1)] by (simp add: kernel_inv_def)
  have reach: "reachable kernel_init kernel_step k'"
    using reachable_init [of kernel_init, OF boot_kernel_init] r by (meson reachable_step step_create)
  have idle: "running_process_idx (k_procs k') = -1"
    using create_effect(3) [OF boot_kernel_inv r(1)] by (simp add: others_untouched_def boot_kernel_def initial_process_manager_state_def)
  let ?j = "scan_while (\<lambda>i. state_at (k_procs k') i \<noteq> READY) 0 16"
  have "?j \<noteq> 16" using r(2) scan_while_end_iff [of 0 16 "\<lambda>i. state_at (k_procs k') i \<noteq> READY"] by (auto simp: new_process_def)
  then have j: "?j < 16" using scan_while_le [of 0 16 "\<lambda>i. state_at (k_procs k') i \<noteq> READY"] by simp
  have "tick k' (new_context 0) = scheduler_switch_to_next_process k'"
    using idle by (simp add: tick_def scheduler_save_context_to_current_running_pcb_def process_get_current_running_pcb_pointer_def)
  then have "running_process_idx (k_procs (tick k' (new_context 0))) = int ?j"
    using switch_idle [OF idle] j by (simp add: Let_def run_process_def)
  then obtain k'' where t: "terminate_current_process (tick k' (new_context 0)) = Ret k''"
    using terminate_clears [OF _ j] tick_keeps(1) [OF inv] by (auto simp: kernel_inv_def)
  have "kernel_step\<^sup>*\<^sup>* k' k''"
    using t by (meson rtranclp.rtrancl_refl rtranclp.rtrancl_into_rtrancl step_tick step_exit)
  then show ?thesis using process_resources_permanent [OF reach] r(1) t by blast
qed

subsection \<open>Kill\<close>


lemma demo_procs_inv: "procs_inv demo_procs"
proof -
  have f: "free_slots demo_procs = {..<16} - {0, 5, 9}"
    by (auto simp: slots.free_slots_def demo_state)
  have "pid (process_list demo_procs ! i) = pid (process_list demo_procs ! j) \<Longrightarrow> pid (process_list demo_procs ! i) \<noteq> 0 \<Longrightarrow> i = j"
    if "i < 16" "j < 16" for i j using that by (auto simp: demo_state split: if_splits)
  moreover have "length (virtual_addr_used (process_list demo_procs ! i)) = 8 \<and> (state_at demo_procs i = NEW \<longrightarrow> pid (process_list demo_procs ! i) = 0)"
    if "i < 16" for i using that by (simp add: demo_state) (simp add: demo_pcb_def zero_pcb_def)
  moreover have "running_process_idx demo_procs = int 0" "state_at demo_procs 0 \<noteq> NEW" by (simp_all add: demo_state)
  moreover have "active_process_count demo_procs = 3" "card ({..<16 :: nat} - {0, 5, 9}) = 13"
    by (simp_all add: demo_procs_def)
  ultimately show ?thesis
    unfolding procs_inv_def f PROCESS_COUNT_MAX_def PROCESS_PAGE_FRAME_COUNT_MAX_def
    by (intro conjI allI impI disjI2 exI [of _ 0]) simp_all
qed


text \<open>
  The check for memory before a creation is too weak: with a single free page frame a
  program that needs two is accepted, its second page stays unmapped, and the kernel faults
  when it clears that page.
\<close>

theorem create_short_of_frames:
  assumes pinv: "paging_inv (k_paging k)" and inv: "procs_inv (k_procs k)"
    and free: "active_process_count (k_procs k) < 16" "directories.free_slots (page_directory_used (k_paging k)) \<noteq> {}"
      "card (free_frames (k_paging k)) = 1"
    and rq: "rq_buf rq = 0" "0 < rq_buffer_size rq" "rq_buffer_size rq \<le> 0x400000"
    and fs: "fs_inv D own (k_fs k)" "found_slot (k_fs k) rq \<in> slots D (tables (k_fs k))"
      "\<not> is_dir (ent (tables (k_fs k)) (found_slot (k_fs k) rq))"
      "de_filesize (ent (tables (k_fs k)) (found_slot (k_fs k) rq)) \<le> rq_buffer_size rq"
  shows "process_create_user_process rq k = Fault Page_Fault"
proof -
  note n = frames_needed_small [OF rq(2,3)] and F = frames_okD [OF paging_invD(1) [OF pinv]]
  have "free_page_frame_count (page_manager_state (k_paging k)) \<noteq> 0" using F(3) free(3) by auto
  then have "create_guard rq k = 0"
    using free rq(1) n by (simp add: create_guard_def paging_allocate_check_def word_le_nat_alt Suc_le_eq unat_gt_0)
  then obtain i d dir pg q where C: "i < 16" "address_space rq k d dir pg"
    "process_create_user_process rq k = finish_create rq k i d dir pg q"
    using create_accepted [OF pinv inv, of rq] by metis
  let ?us = "virtual_addr_used (started_pcb rq (process_list (k_procs k) ! i))"
  have "?us ! 1 = 0x400000" using procs_invD(2) [OF inv C(1)] n by (simp add: started_pcb_def nth_record_frames)
  moreover have d: "present_bit (pde_flag (dir ! 0))" "\<not> present_bit (pde_flag (dir ! 1))"
    using C(2) free(3) n by (simp_all add: address_space_def)
  ultimately have "\<not> range_mapped dir (?us ! 1) 0x400000" by (simp add: range_mapped_def)
  then have p: "place_image dir 0 ?us pm = Fault Page_Fault" for pm by (simp add: place_image_def)
  obtain pm where "read_into_space dir rq (k_fs k) (k_mem k) = Ret (0, pm)" using read_low_file [OF d(1) _ fs] rq(1) by simp
  then show ?thesis using C(3) p rq(1) by (simp add: finish_create_def Let_def)
qed

text \<open>The boot kernel with only frame 31 left.\<close>

definition short_kernel :: "unit kernel" where
  "short_kernel = (boot_kernel file_fs)\<lparr>k_paging := (boot_paging 0xC0100000 0)\<lparr>page_manager_state :=
     \<lparr>page_frame_map = (replicate 32 True)[31 := False], free_page_frame_count = 1\<rparr>\<rparr>\<rparr>"

lemma short_kernel_inv: "paging_inv (k_paging short_kernel)" "card (free_frames (k_paging short_kernel)) = 1"
proof -
  have m: "page_manager_state (k_paging short_kernel) = \<lparr>page_frame_map = (replicate 32 True)[31 := False], free_page_frame_count = 1\<rparr>"
    by (simp add: short_kernel_def)
  have f: "free_frames (k_paging short_kernel) = {31}" unfolding m by (auto simp: frames.free_slots_def nth_list_update)
  then show "card (free_frames (k_paging short_kernel)) = 1" by simp
  have "frames_ok (page_manager_state (k_paging short_kernel))" using f by (simp add: frames_ok_def m)
  moreover have "user_pages (k_paging short_kernel) = {}"
    by (auto simp: user_pages_def short_kernel_def boot_paging_def)
  ultimately show "paging_inv (k_paging short_kernel)"
    by (simp add: paging_inv_def) (simp add: directories_ok_def short_kernel_def boot_paging_def)
qed

theorem create_short_of_frames_witness: "process_create_user_process run_rq short_kernel = Fault Page_Fault"
proof -
  have k: "k_fs short_kernel = file_fs" "k_procs short_kernel = initial_process_manager_state"
    "page_directory_used (k_paging short_kernel) = replicate 32 False"
    by (simp_all add: short_kernel_def boot_kernel_def boot_paging_def)
  have "0 \<in> directories.free_slots (page_directory_used (k_paging short_kernel))"
    by (simp add: directories.free_slots_def k(3))
  then show ?thesis
    using create_short_of_frames [of short_kernel run_rq, unfolded k(1,2), OF short_kernel_inv(1) initial_procs_inv _ _
        short_kernel_inv(2) file_fs_found(6-8) file_fs_found(1-4)]
    by (auto simp: initial_process_manager_state_def)
qed

end
