(* ===== verification/Interrupt_Props.thy ===== *)
theory Interrupt_Props
  imports Interrupt Process_Props Paging_Props
begin

text \<open>
  The properties of interrupts: system calls keep the kernel's invariants and the memory of
  other processes, timer interrupts are fair, the kernel starts the shell.
\<close>

unbundle bit_operations_syntax

subsection \<open>The address space of the caller\<close>

definition runs_in :: "'d kernel \<Rightarrow> nat \<Rightarrow> bool" where
  "runs_in k d \<longleftrightarrow> d < 32 \<and> page_directory_used (k_paging k) ! d \<and>
     directory_addr (k_paging k) d = cr3 (k_paging k) + 0xC0000000 \<and> 0 < cr3 (k_paging k) \<and> cr3 (k_paging k) < 0x40000000"

lemma active_directory_runs:
  assumes "runs_in k d"
  shows "active_directory (k_paging k) = page_directory_list (k_paging k) ! d"
proof -
  let ?pg = "k_paging k"
  have d: "d < 32" "directory_addr ?pg d = cr3 ?pg + 0xC0000000" using assms by (simp_all add: runs_in_def)
  have "directory_addr ?pg i - 0xC0000000 \<noteq> cr3 ?pg" if "i < d" for i
  proof
    assume "directory_addr ?pg i - 0xC0000000 = cr3 ?pg"
    then have "directory_addr ?pg i = directory_addr ?pg d" using d(2) by (metis diff_add_cancel)
    then show False using directory_addr_inj [of i d ?pg] that d(1) by simp
  qed
  then have "scan_while (\<lambda>i. directory_addr ?pg i - 0xC0000000 \<noteq> cr3 ?pg) 0 32 = d"
    using d by (intro scan_while_eqI) auto
  then show ?thesis using d(1) by (simp add: active_directory_def Let_def)
qed

text \<open>What a step of the process in directory \<open>d\<close> leaves of the others: their pages and every byte in them.\<close>

definition others_keep :: "nat \<Rightarrow> 'd kernel \<Rightarrow> 'd kernel \<Rightarrow> bool" where
  "others_keep d k k' \<longleftrightarrow> (\<forall>e va. e \<noteq> d \<longrightarrow> (e, page_index va) \<in> user_pages (k_paging k) \<longrightarrow>
     (e, page_index va) \<in> user_pages (k_paging k') \<and>
     user_view (page_directory_list (k_paging k') ! e) (k_mem k') va =
     user_view (page_directory_list (k_paging k) ! e) (k_mem k) va)"

lemma others_keep_trans: "others_keep d k k1 \<Longrightarrow> others_keep d k1 k2 \<Longrightarrow> others_keep d k k2"
  unfolding others_keep_def by metis

lemma others_keep_frame:
  assumes "page_directory_list (k_paging k') = page_directory_list (k_paging k)"
    "page_directory_used (k_paging k') = page_directory_used (k_paging k)" "k_mem k' = k_mem k"
  shows "others_keep d k k'"
  using assms by (simp add: others_keep_def user_pages_def)

lemma others_keep_mem:
  assumes inv: "kernel_inv k" and r: "runs_in k d" and pg: "k_paging k' = k_paging k"
    and o: "only_in (page_directory_list (k_paging k) ! d) (k_mem k) (k_mem k')"
  shows "others_keep d k k'"
  using other_memory [of "k_paging k" _ _ d "k_mem k" "k_mem k'"] inv r o
  by (auto simp: others_keep_def pg kernel_inv_def runs_in_def)

lemma others_untouched_keep: "others_untouched k k' \<Longrightarrow> others_keep d k k'"
  by (simp add: others_untouched_def others_keep_def)

text \<open>One call: the kernel's invariant and the others' memory.\<close>

definition good_call :: "nat \<Rightarrow> 'd kernel \<Rightarrow> 'd kernel \<Rightarrow> bool" where
  "good_call d k k' \<longleftrightarrow> kernel_inv k' \<and> others_keep d k k'"

lemma good_call_mem:
  assumes "kernel_inv k" "runs_in k d" "k_paging k' = k_paging k" "k_procs k' = k_procs k"
    and "only_in (page_directory_list (k_paging k) ! d) (k_mem k) (k_mem k')"
  shows "good_call d k k'" "runs_in k' d"
  using assms others_keep_mem [OF assms(1,2,3,5)] by (simp_all add: good_call_def kernel_inv_def runs_in_def)

lemma good_call_trans: "good_call d k k1 \<Longrightarrow> good_call d k1 k2 \<Longrightarrow> good_call d k k2"
  using others_keep_trans by (auto simp: good_call_def)

lemma store_bytes_only_in: "store_bytes dir a bs pm = Ret pm' \<Longrightarrow> only_in dir pm pm'"
  by (auto simp: store_bytes_def only_in_store split: if_splits)

lemma store_result_good:
  assumes inv: "kernel_inv k" and r: "runs_in k d" and s: "store_result a v k = Ret k'"
  shows "good_call d k k'"
proof -
  obtain pm where "store_bytes (page_directory_list (k_paging k) ! d) a [of_int v] (k_mem k) = Ret pm" "k' = k\<lparr>k_mem := pm\<rparr>"
    using s by (auto simp: store_result_def active_directory_runs [OF r] elim!: run_bind_RetE)
  then show ?thesis using good_call_mem(1) [OF inv r, of k'] store_bytes_only_in by auto
qed

lemma then_store_result:
  assumes "store_result a v k1 = Ret k'" "good_call d k k1" "runs_in k1 d"
  shows "good_call d k k'"
  using assms store_result_good good_call_trans good_call_def by metis

subsection \<open>Every system call\<close>

lemma create_keeps_active:
  assumes pinv: "paging_inv (k_paging k)" and inv: "procs_inv (k_procs k)" and c: "process_create_user_process rq k = Ret (v, k')"
  shows "page_directory_list_addr (k_paging k') = page_directory_list_addr (k_paging k) \<and>
    (0 < cr3 (k_paging k) \<longrightarrow> cr3 (k_paging k) < 0x40000000 \<longrightarrow> cr3 (k_paging k') = cr3 (k_paging k)) \<and>
    (\<forall>d<32. page_directory_used (k_paging k) ! d \<longrightarrow> page_directory_used (k_paging k') ! d)"
proof (cases "create_guard rq k = 0")
  case False
  then show ?thesis using create_refused [OF pinv inv] c by simp
next
  case True
  obtain i d dir pg q where A: "address_space rq k d dir pg" "finish_create rq k i d dir pg q = Ret (v, k')"
    using create_accepted [OF pinv inv True] c by metis
  have p: "k_paging k' = restored d pg" using A(2) by (cases rule: finish_createE) simp_all
  have "page_directory_used (k_paging k') = (page_directory_used (k_paging k))[d := True]"
    "page_directory_list_addr (k_paging k') = page_directory_list_addr (k_paging k)" "cr3 pg = cr3 (k_paging k)" "d < 32"
    using A(1) by (simp_all add: p address_space_def)
  moreover have "cr3 (k_paging k') = cr3 (k_paging k)" if "0 < cr3 (k_paging k)" "cr3 (k_paging k) < 0x40000000"
    unfolding p using that calculation(3) by (intro restore_directory) simp_all
  moreover have "length (page_directory_used (k_paging k)) = 32" using directories_okD(2) [OF paging_invD(2) [OF pinv]] .
  ultimately show ?thesis by (auto simp: nth_list_update)
qed

lemma kill_unswitched:
  assumes inv: "kernel_inv k" and c: "kill_process p k = Ret (v, k')" and l: "length (resumed k') = length (resumed k)"
  shows "k_paging k' = k_paging k"
proof -
  obtain r where r: "running_process_idx (k_procs k) = int r" "r < 16" 
    using c procs_invD(5) [of "k_procs k"] inv by (auto simp: kernel_inv_def kill_process_def Let_def split: if_splits)
  consider (exit) "terminate_current_process k = Ret k'" | (other) "k_paging k' = k_paging k"
    using c by (auto simp: kill_process_def Let_def split: if_splits elim!: run_bind_RetE)
  then show ?thesis
  proof cases
    case exit
    have "procs_inv (k_procs k)" using inv by (simp add: kernel_inv_def)
    from this r(2,1) show ?thesis
      by (cases rule: terminate_result) (use exit l in \<open>auto simp: run_process_def Let_def\<close>)
  qed
qed

lemma file_calls_good:
  assumes inv: "kernel_inv k" and r: "runs_in k d"
  shows "sys_read p ret k = Ret k' \<Longrightarrow> good_call d k k'" "sys_read_directory p ret k = Ret k' \<Longrightarrow> good_call d k k'"
    "sys_write p ret k = Ret k' \<Longrightarrow> good_call d k k'" "sys_delete p ret k = Ret k' \<Longrightarrow> good_call d k k'"
    "sys_getchar p k = Ret k' \<Longrightarrow> good_call d k k'" "sys_puts io p n color k = Ret k' \<Longrightarrow> good_call d k k'"
    "sys_read_cluster p c k = Ret k' \<Longrightarrow> good_call d k k'" "sys_write_cluster p c k = Ret k' \<Longrightarrow> good_call d k k'"
    "sys_clock io after k = Ret k' \<Longrightarrow> good_call d k k'"
proof -
  note A = active_directory_runs [OF r] and M = good_call_mem [OF inv r]
  show "sys_read p ret k = Ret k' \<Longrightarrow> good_call d k k'"
    by (auto simp: sys_read_def A Let_def elim!: run_bind_RetE then_store_result) (rule M; simp add: read_into_space_only_in)+
  show "sys_read_directory p ret k = Ret k' \<Longrightarrow> good_call d k k'"
    by (auto simp: sys_read_directory_def A Let_def elim!: run_bind_RetE then_store_result split: prod.splits if_splits)
      (rule M; simp add: only_in_store)+
  show "sys_write p ret k = Ret k' \<Longrightarrow> good_call d k k'"
    by (auto simp: sys_write_def A Let_def elim!: run_bind_RetE then_store_result split: if_splits) (rule M; simp)+
  show "sys_delete p ret k = Ret k' \<Longrightarrow> good_call d k k'"
    by (auto simp: sys_delete_def elim!: run_bind_RetE then_store_result) (rule M; simp)+
  show "sys_getchar p k = Ret k' \<Longrightarrow> good_call d k k'" "sys_read_cluster p c k = Ret k' \<Longrightarrow> good_call d k k'"
    by (auto simp: sys_getchar_def sys_read_cluster_def get_keyboard_buffer_def A elim!: run_bind_RetE)
      (rule M; simp add: store_bytes_only_in)+
  show "sys_puts io p n color k = Ret k' \<Longrightarrow> good_call d k k'" "sys_write_cluster p c k = Ret k' \<Longrightarrow> good_call d k k'"
    "sys_clock io after k = Ret k' \<Longrightarrow> good_call d k k'"
    by (auto simp: sys_puts_def sys_write_cluster_def sys_clock_def elim!: run_bind_RetE) (rule M; simp)+
qed

lemma exec_good:
  assumes inv: "kernel_inv k" and r: "runs_in k d" and s: "sys_exec p ret k = Ret k'"
  shows "good_call d k k'"
proof -
  obtain rq v k1 where c: "process_create_user_process rq k = Ret (v, k1)" "store_result ret v k1 = Ret k'"
    using s by (auto simp: sys_exec_def elim!: run_bind_RetE)
  note I = inv [unfolded kernel_inv_def]
  note E = create_effect(1-3) [OF conjunct2 [OF I] conjunct1 [OF I] c(1)]
  have "runs_in k1 d" using create_keeps_active [OF conjunct2 [OF I] conjunct1 [OF I] c(1)] r by (simp add: runs_in_def directory_addr_def)
  moreover have "good_call d k k1" using E others_untouched_keep by (simp add: good_call_def kernel_inv_def)
  ultimately show ?thesis using c(2) then_store_result by blast
qed

lemma exit_good:
  assumes inv: "kernel_inv k" and s: "terminate_current_process k = Ret k'"
  shows "good_call d k k'"
proof -
  obtain r where r: "running_process_idx (k_procs k) = int r" "r < 16"
    using s inv procs_invD(5) [of "k_procs k"]
    by (auto simp: kernel_inv_def terminate_current_process_def process_get_current_running_pcb_pointer_def split: if_splits)
  have "slot_cleared r k k'" using terminate_clears [of k r] r s inv by (auto simp: kernel_inv_def)
  then show ?thesis using exit_keeps(1) [OF inv s] by (auto simp: good_call_def slot_cleared_def intro: others_keep_frame)
qed

lemma kill_good:
  assumes inv: "kernel_inv k" and r: "runs_in k d" and s: "sys_kill p ret k = Ret k'"
  shows "good_call d k k'"
proof -
  obtain v k1 where c: "kill_process p k = Ret (v, k1)" "k1 = k' \<or> (length (resumed k1) = length (resumed k) \<and> store_result ret v k1 = Ret k')"
    using s by (auto simp: sys_kill_def elim!: run_bind_RetE split: if_splits)
  consider (exit) "terminate_current_process k = Ret k1" | (other) "k_paging k1 = k_paging k" "k_mem k1 = k_mem k"
    using c(1) by (auto simp: kill_process_def Let_def split: if_splits elim!: run_bind_RetE)
  then have g: "good_call d k k1"
    using exit_good [OF inv] kill_keeps(1) [OF inv c(1)] by cases (auto simp: good_call_def others_keep_frame)
  have "runs_in k1 d" if "length (resumed k1) = length (resumed k)"
  proof -
    have "k_paging k1 = k_paging k" using kill_unswitched [OF inv c(1) that] .
    then show ?thesis using r by (simp add: runs_in_def)
  qed
  then show ?thesis using c(2) g then_store_result by blast
qed

lemma print_processes_frame:
  "print_processes io ps k = Ret k' \<Longrightarrow> k_paging k' = k_paging k \<and> k_procs k' = k_procs k \<and> k_mem k' = k_mem k"
proof (induction ps arbitrary: k)
  case (Cons p ps)
  then show ?case by (fastforce simp: Let_def elim!: run_bind_RetE split: if_splits)
qed simp

lemma interrupt_good:
  assumes inv: "kernel_inv k" and r: "runs_in k d" and s: "interrupt io after cpu k = Ret k'"
  shows "good_call d k k'"
proof -
  note M = good_call_mem(1) [OF inv r]
  let ?G = "\<lambda>x. \<forall>k'. x = Ret k' \<longrightarrow> good_call d k k'"
  have branch: "?G (if b then x else y)" if "?G x" "?G y" for b x y using that by simp
  have "good_call d k k'" if "print_active_processes io k = Ret k'" for k'
    using print_processes_frame [OF that [unfolded print_active_processes_def]] by (intro M) simp_all
  moreover have "good_call d k (k\<lparr>k_console := c\<rparr>)" "good_call d k k" for c by (intro M; simp)+
  ultimately have "?G (interrupt io after cpu k)"
    unfolding interrupt_def
    by (intro branch) (simp_all add: file_calls_good [OF inv r] exec_good [OF inv r] exit_good [OF inv] kill_good [OF inv r])
  then show ?thesis using s by simp
qed

text \<open>A process in the first directory with one page, about to read a key into that page.\<close>

definition call_kernel :: "unit kernel" where
  "call_kernel = demo_kernel\<lparr>k_paging := paging_use_page_directory 0xC0100000 demo_paging\<rparr>"

lemma call_kernel_ok: "kernel_inv call_kernel" "runs_in call_kernel 0"
  using demo_inv demo_procs_inv paging_inv_switch [of demo_paging] demo_entry
  by (simp_all add: kernel_inv_def call_kernel_def runs_in_def)
    (simp_all add: directory_addr_def paging_use_page_directory_def demo_paging_def boot_paging_def store_directory_def frame_taken_def)

subsection \<open>Timer interrupts\<close>

definition run_interrupts :: "'d ports \<Rightarrow> u8 \<Rightarrow> 'd kernel \<Rightarrow> InterruptFrame list \<Rightarrow> 'd kernel run" where
  "run_interrupts io after k frs = foldl (\<lambda>r f. run_bind r (main_interrupt_handler io after f)) (Ret k) frs"

lemma switch_console: "scheduler_switch_to_next_process (k\<lparr>k_console := c\<rparr>) = (scheduler_switch_to_next_process k)\<lparr>k_console := c\<rparr>"
  by (simp add: scheduler_switch_to_next_process_def Let_def split: prod.splits)

lemma tick_console: "tick (k\<lparr>k_console := c\<rparr>) ctx = (tick k ctx)\<lparr>k_console := c\<rparr>"
proof -
  define st where "st = scheduler_save_context_to_current_running_pcb ctx (k_procs k)"
  have "tick (k\<lparr>k_console := c\<rparr>) ctx = scheduler_switch_to_next_process ((k\<lparr>k_procs := st\<rparr>)\<lparr>k_console := c\<rparr>)"
    unfolding tick_def st_def by (rule arg_cong [where f = scheduler_switch_to_next_process]) (cases k, simp)
  then show ?thesis by (simp add: switch_console tick_def st_def)
qed

lemma foldl_tick_console: "foldl tick (k\<lparr>k_console := c\<rparr>) ctxs = (foldl tick k ctxs)\<lparr>k_console := c\<rparr>"
  by (induction ctxs arbitrary: k) (simp_all add: tick_console)

lemma timer_interrupt_tick:
  assumes "int_number f = 0x20"
  obtains ctx c where "main_interrupt_handler io after f k = Ret ((tick k ctx)\<lparr>k_console := c\<rparr>)"
proof -
  let ?ctx = "\<lparr>ctx_cpu = frame_cpu f, ctx_eip = int_eip (int_stack f), ctx_eflags = int_eflags (int_stack f),
    page_directory_virtual_addr = paging_get_current_page_directory_addr (k_paging k)\<rparr>"
  let ?c = "pic_ack io 0 (k_console k)"
  have "main_interrupt_handler io after f k = Ret ((tick k ?ctx)\<lparr>k_console := ?c\<rparr>)"
    using assms by (simp add: main_interrupt_handler_def Let_def tick_def switch_console)
  then show thesis using that by blast
qed

lemma run_interrupts_Cons: "run_interrupts io after k (f # frs) =
    run_bind (main_interrupt_handler io after f k) (\<lambda>k. run_interrupts io after k frs)"
proof -
  have n: "foldl (\<lambda>r f. run_bind r (main_interrupt_handler io after f)) None frs = None"
    "foldl (\<lambda>r f. run_bind r (main_interrupt_handler io after f)) (Fault e) frs = Fault e" for e by (induction frs) simp_all
  show ?thesis
  proof (cases "main_interrupt_handler io after f k")
    case (Some r)
    then show ?thesis by (cases r) (simp_all add: run_interrupts_def n)
  qed (simp add: run_interrupts_def n)
qed

lemma timer_interrupts_ticks:
  assumes "\<forall>f\<in>set frs. int_number f = 0x20"
  shows "\<exists>ctxs. length ctxs = length frs \<and>
    (\<forall>n. \<exists>c. run_interrupts io after k (take n frs) = Ret ((foldl tick k (take n ctxs))\<lparr>k_console := c\<rparr>))"
  using assms
proof (induction frs arbitrary: k)
  case Nil
  then show ?case by (intro exI [of _ "[]"]) (auto simp: run_interrupts_def intro!: exI [of _ "k_console k"])
next
  case (Cons f frs)
  obtain ctx c where f: "main_interrupt_handler io after f k = Ret ((tick k ctx)\<lparr>k_console := c\<rparr>)"
    using timer_interrupt_tick [of f io after k] Cons.prems by force
  obtain ctxs where C: "length ctxs = length frs"
    "\<And>n. \<exists>c'. run_interrupts io after ((tick k ctx)\<lparr>k_console := c\<rparr>) (take n frs) =
       Ret ((foldl tick ((tick k ctx)\<lparr>k_console := c\<rparr>) (take n ctxs))\<lparr>k_console := c'\<rparr>)"
    using Cons.IH [of "(tick k ctx)\<lparr>k_console := c\<rparr>"] Cons.prems by auto
  have "\<exists>c'. run_interrupts io after k (take n (f # frs)) = Ret ((foldl tick k (take n (ctx # ctxs)))\<lparr>k_console := c'\<rparr>)" for n
  proof (cases n)
    case 0
    then show ?thesis by (auto simp: run_interrupts_def intro!: exI [of _ "k_console k"])
  next
    case (Suc m)
    then show ?thesis using C(2) [of m] f by (auto simp: run_interrupts_Cons foldl_tick_console)
  qed
  then show ?case using C(1) by (intro exI [of _ "ctx # ctxs"]) simp
qed

lemma tick_memory: "k_mem (tick k ctx) = k_mem k" "page_directory_list (k_paging (tick k ctx)) = page_directory_list (k_paging k)"
  by (auto simp: tick_def scheduler_switch_to_next_process_def Let_def paging_use_page_directory_def split: prod.splits)

lemma ticks_memory: "k_mem (foldl tick k ctxs) = k_mem k"
    "page_directory_list (k_paging (foldl tick k ctxs)) = page_directory_list (k_paging k)"
  by (induction ctxs arbitrary: k) (simp_all add: tick_memory)

lemma timers_reach:
  assumes r: "running_process_idx (k_procs k) = int r" "r < 16" and len: "length (process_list (k_procs k)) = 16"
    and j: "j < 16" "j \<noteq> r" "state_at (k_procs k) j = READY" and f: "\<forall>f\<in>set frs. int_number f = 0x20" "15 \<le> length frs"
  shows "\<exists>n\<le>15. \<exists>k'. run_interrupts io after k (take n frs) = Ret k' \<and> running_process_idx (k_procs k') = int j \<and>
    hd (resumed k') = pcb_context (process_list (k_procs k) ! j) \<and> k_mem k' = k_mem k \<and>
    page_directory_list (k_paging k') = page_directory_list (k_paging k)"
proof -
  obtain ctxs where C: "length ctxs = length frs"
    "\<And>n. \<exists>c. run_interrupts io after k (take n frs) = Ret ((foldl tick k (take n ctxs))\<lparr>k_console := c\<rparr>)"
    using timer_interrupts_ticks [OF f(1)] by blast
  obtain n where n: "n \<le> 15" "running_process_idx (k_procs (foldl tick k (take n ctxs))) = int j"
    "hd (resumed (foldl tick k (take n ctxs))) = pcb_context (process_list (k_procs k) ! j)"
    using ready_process_runs_within [OF r len j, of ctxs] C(1) f(2) by auto
  from C(2) [of n] obtain c where "run_interrupts io after k (take n frs) = Ret ((foldl tick k (take n ctxs))\<lparr>k_console := c\<rparr>)" by blast
  then show ?thesis
    using n by (intro exI [of _ n] conjI exI [of _ "(foldl tick k (take n ctxs))\<lparr>k_console := c\<rparr>"]) (simp_all add: ticks_memory)
qed

text \<open>
  C4. Timer interrupts are fair: while one process runs, any other ready process is running
  after at most 15 timer interrupts, whatever the interrupted registers were, and it resumes
  in the context it had when it was preempted.
\<close>

theorem timer_interrupts_fair:
  assumes r: "running_process_idx (k_procs k) = int r" "r < 16" and len: "length (process_list (k_procs k)) = 16"
    and j: "j < 16" "j \<noteq> r" "state_at (k_procs k) j = READY"
    and f: "\<forall>f\<in>set frs. int_number f = 0x20" "15 \<le> length frs"
  shows "\<exists>n\<le>15. \<exists>k'. run_interrupts io after k (take n frs) = Ret k' \<and> running_process_idx (k_procs k') = int j \<and>
    hd (resumed k') = pcb_context (process_list (k_procs k) ! j)"
  using timers_reach [OF assms] by blast

definition timer_frame :: InterruptFrame where
  "timer_frame = \<lparr>frame_cpu = zero_registers, int_number = 0x20,
     int_stack = \<lparr>error_code = 0, int_eip = 0x1234, int_cs = 0x1B, int_eflags = 0x202\<rparr>\<rparr>"

theorem timer_interrupts_fair_witness:
  "\<exists>n\<le>15. \<exists>k'. run_interrupts null_ports 0 demo_kernel (replicate n timer_frame) = Ret k' \<and> running_process_idx (k_procs k') = 9"
proof -
  have "int_number timer_frame = 0x20" by (simp add: timer_frame_def)
  then obtain n k' where "n \<le> 15" "run_interrupts null_ports 0 demo_kernel (take n (replicate 15 timer_frame)) = Ret k'"
    "running_process_idx (k_procs k') = 9"
    using timer_interrupts_fair [of demo_kernel 0 9 "replicate 15 timer_frame" null_ports 0] by (auto simp: demo_state)
  then show ?thesis by (intro exI [of _ n]) (auto simp: min_def)
qed

subsection \<open>Start of the kernel\<close>

lemma run_new_process:
  assumes n: "new_process rq k k' i d" and idle: "running_process_idx (k_procs k) = -1" and inv: "procs_inv (k_procs k')"
    and none: "\<And>j. j < 16 \<Longrightarrow> state_at (k_procs k) j \<noteq> READY"
  shows "scheduler_switch_to_next_process k' = run_process i k'"
proof -
  have N: "i < 16" "state_at (k_procs k') i = READY" "running_process_idx (k_procs k') = -1"
    "\<And>j. j < 16 \<Longrightarrow> j \<noteq> i \<Longrightarrow> state_at (k_procs k') j \<noteq> READY"
    using n idle none by (auto simp: new_process_def)
  have "scan_while (\<lambda>i. state_at (k_procs k') i \<noteq> READY) 0 16 = i"
    using N by (intro scan_while_eqI) auto
  then show ?thesis using switch_idle [OF N(3)] N(1) by simp
qed

lemma setup_runs_shell:
  assumes boot: "kernel_init (m_kernel mc)" "resumed (m_kernel mc) = []"
    and disk: "initialize_filesystem_fat32 behind (k_fs (m_kernel mc)) = s"
    and shell: "fs_inv D own s" "found_slot s shell_request \<in> slots D (tables s)"
      "\<not> is_dir (ent (tables s) (found_slot s shell_request))"
      "de_filesize (ent (tables s) (found_slot s shell_request)) \<le> 0x100000"
  shows "\<exists>mc' i d. kernel_setup io stubs tss_addr stack_ptr behind mc = Ret mc' \<and>
    (let k' = m_kernel mc'; p = process_list (k_procs k') ! i; a = directory_addr (k_paging (m_kernel mc)) d in
     running_process_idx (k_procs k') = int i \<and> proc_state p = RUNNING \<and> process_name p = rq_name shell_request \<and>
     k_paging k' = paging_use_page_directory a (k_paging k') \<and> resumed k' = [new_context a] \<and>
     mem_read (user_view (page_directory_list (k_paging k') ! d) (k_mem k')) 0 (2048 * length (own (found_slot s shell_request))) =
       concat (map (cluster (fs_disk s)) (own (found_slot s shell_request)))) \<and>
    m_gdt mc' = gdt_install_tss tss_addr (m_gdt mc) \<and> m_idt mc' = initialize_idt stubs (m_idt mc) \<and> esp0 (m_tss mc') = stack_ptr + 8"
proof -
  obtain a c where b: "k_procs (m_kernel mc) = initial_process_manager_state" "k_paging (m_kernel mc) = boot_paging a c"
    using boot(1) by (auto simp: kernel_init_def)
  define con where "con = framebuffer_set_cursor io 0 0 (framebuffer_clear (activate_keyboard_interrupt io (pic_remap io (k_console (m_kernel mc)))))"
  define k where "k = (m_kernel mc)\<lparr>k_console := con, k_fs := s\<rparr>"
  have k: "paging_inv (k_paging k)" "procs_inv (k_procs k)" "k_fs k = s" "active_process_count (k_procs k) < 16"
    using boot_paging_inv initial_procs_inv b by (simp_all add: k_def initial_process_manager_state_def)
  have "0 \<in> directories.free_slots (page_directory_used (k_paging k))"
    by (simp add: k_def b directories.free_slots_def boot_paging_def)
  then have free: "directories.free_slots (page_directory_used (k_paging k)) \<noteq> {}" "2 \<le> card (free_frames (k_paging k))"
    using boot_frames by (auto simp: k_def b boot_paging_def)
  have rq: "rq_buf shell_request \<le> 0x400000" "0 < rq_buffer_size shell_request" "rq_buffer_size shell_request \<le> 0x400000"
    "rq_buffer_size shell_request = 0x100000"
    by (simp_all add: shell_request_def)
  note L = create_loads [OF k(1,2,4) free, unfolded k(3), OF shell(1-3) _ rq(1-3), unfolded rq(4), OF shell(4)]
  then obtain k1 i d where K: "process_create_user_process shell_request k = Ret (0, k1)" "new_process shell_request k k1 i d"
    "mem_read (user_view (page_directory_list (k_paging k1) ! d) (k_mem k1)) 0 (2048 * length (own (found_slot s shell_request))) =
       concat (map (cluster (fs_disk s)) (own (found_slot s shell_request)))" by blast
  have inv: "procs_inv (k_procs k1)" by (rule create_effect(1) [OF k(1,2) K(1)])
  define k2 where "k2 = run_process i (scheduler_init io k1)"
  have "state_at (k_procs k) j \<noteq> READY" if "j < 16" for j using that by (simp add: k_def b initial_process_manager_state_def)
  then have "scheduler_switch_to_next_process k1 = run_process i k1"
    using run_new_process [OF K(2) _ inv] by (simp add: k_def b initial_process_manager_state_def)
  then have sw: "scheduler_switch_to_next_process (scheduler_init io k1) = k2"
    by (simp add: k2_def scheduler_init_def switch_console run_process_def Let_def)
  have "kernel_setup io stubs tss_addr stack_ptr behind mc =
      Ret (mc\<lparr>m_gdt := gdt_install_tss tss_addr (m_gdt mc), m_idt := initialize_idt stubs (m_idt mc),
              m_tss := set_tss_kernel_current_stack stack_ptr (m_tss mc), m_kernel := k2\<rparr>)"
    using K(1) sw disk by (simp add: kernel_setup_def Let_def k_def con_def)
  moreover have "process_name (process_list (k_procs k1) ! i) = rq_name shell_request"
    "pcb_context (process_list (k_procs k1) ! i) = new_context (directory_addr (k_paging (m_kernel mc)) d)" "i < 16" "resumed k1 = []"
    using K(2) boot(2) by (simp_all add: new_process_def shell_request_def k_def)
  moreover have "length (process_list (k_procs k1)) = 16" by (rule procs_invD(1) [OF inv])
  ultimately show ?thesis
    using K(3) by (intro exI [of _ _] conjI) (auto simp: k2_def run_process_def scheduler_init_def Let_def new_context_def
        set_tss_kernel_current_stack_def paging_use_page_directory_def)
qed

text \<open>
  C5. On a machine whose disk holds the shell, \<open>kernel_setup\<close> ends with the shell as the
  running process: its page directory is active, its initial context is the one resumed, and
  its memory holds the file at address 0; the descriptor tables and the task state segment
  are installed.
\<close>

theorem kernel_setup_runs_shell:
  assumes boot: "kernel_init (m_kernel mc)" "resumed (m_kernel mc) = []"
    and disk: "initialize_filesystem_fat32 behind (k_fs (m_kernel mc)) = s"
    and shell: "fs_inv D own s" "found_slot s shell_request \<in> slots D (tables s)"
      "\<not> is_dir (ent (tables s) (found_slot s shell_request))"
      "de_filesize (ent (tables s) (found_slot s shell_request)) \<le> 0x100000"
  shows "\<exists>mc' i d. kernel_setup io stubs tss_addr stack_ptr behind mc = Ret mc' \<and>
    (let k' = m_kernel mc'; p = process_list (k_procs k') ! i; a = directory_addr (k_paging (m_kernel mc)) d in
     running_process_idx (k_procs k') = int i \<and> proc_state p = RUNNING \<and> process_name p = rq_name shell_request \<and>
     k_paging k' = paging_use_page_directory a (k_paging k') \<and> resumed k' = [new_context a] \<and>
     mem_read (user_view (page_directory_list (k_paging k') ! d) (k_mem k')) 0 (2048 * length (own (found_slot s shell_request))) =
       concat (map (cluster (fs_disk s)) (own (found_slot s shell_request)))) \<and>
    m_gdt mc' = gdt_install_tss tss_addr (m_gdt mc) \<and> m_idt mc' = initialize_idt stubs (m_idt mc) \<and> esp0 (m_tss mc') = stack_ptr + 8"
  using assms by (rule setup_runs_shell)

text \<open>A machine at power-on with the file \<^verbatim>\<open>shell\<close> on its disk.\<close>

definition power_on :: "unit machine" where
  "power_on = \<lparr>m_gdt = global_descriptor_table, m_idt = interrupt_descriptor_table, m_tss = interrupt_tss_entry,
     m_kernel = boot_kernel (blank_fs\<lparr>fs_disk := fs_disk file_fs\<rparr>)\<rparr>"

lemma power_on_shell:
  fixes behind :: "u8 list"
  defines "s \<equiv> initialize_filesystem_fat32 behind (k_fs (m_kernel power_on))"
  shows "kernel_init (m_kernel power_on)" "resumed (m_kernel power_on) = []" "\<exists>own. fs_inv {2} own s"
    "found_slot s shell_request \<in> slots {2} (tables s)" "\<not> is_dir (ent (tables s) (found_slot s shell_request))"
    "de_filesize (ent (tables s) (found_slot s shell_request)) \<le> 0x100000"
proof -
  note F = file_fs_found
  note I = initialize_mounts [OF F(1), of "blank_fs\<lparr>fs_disk := fs_disk file_fs\<rparr>" behind]
  have b: "wf_driver (fs_driver (blank_fs\<lparr>fs_disk := fs_disk file_fs\<rparr>))" using wf_blank(2) by simp
  have q: "rq_name shell_request = rq_name run_rq" "rq_ext shell_request = rq_ext run_rq"
    "rq_parent_cluster_number shell_request = rq_parent_cluster_number run_rq" "rq_buffer_size run_rq \<le> 0x100000"
    by (simp_all add: shell_request_def run_rq_def demo_rq_def)
  show "kernel_init (m_kernel power_on)" "resumed (m_kernel power_on) = []"
    using boot_kernel_init by (simp_all add: power_on_def) (simp_all add: boot_kernel_def demo_kernel_def)
  have s: "s = initialize_filesystem_fat32 behind (blank_fs\<lparr>fs_disk := fs_disk file_fs\<rparr>)"
    by (simp add: s_def power_on_def boot_kernel_def demo_kernel_def)
  show "\<exists>own. fs_inv {2} own s" using I(1) [OF _ b] s by auto
  have f: "found_slot s shell_request = found_slot file_fs run_rq"
    using I(3) [OF _ b] q s by (simp add: find_entry_def entry_matches_def)
  then show "found_slot s shell_request \<in> slots {2} (tables s)" "\<not> is_dir (ent (tables s) (found_slot s shell_request))"
    "de_filesize (ent (tables s) (found_slot s shell_request)) \<le> 0x100000"
    using F(2-4) I(3) [OF _ b] q(4) s by auto
qed

theorem kernel_setup_runs_shell_witness:
  "\<exists>mc' i. kernel_setup null_ports (\<lambda>_. 0) 0xC0110000 0xC0120000 [] power_on = Ret mc' \<and>
     running_process_idx (k_procs (m_kernel mc')) = int i \<and>
     process_name (process_list (k_procs (m_kernel mc')) ! i) = map of_char ''shell'' @ [0, 0, 0]"
proof -
  note P = power_on_shell(3-6) [of "[]"]
  obtain own where "fs_inv {2} own (initialize_filesystem_fat32 [] (k_fs (m_kernel power_on)))" using P(1) by blast
  from kernel_setup_runs_shell [OF power_on_shell(1,2) refl this P(2-4), of null_ports "\<lambda>_. 0" "0xC0110000" "0xC0120000"]
  show ?thesis unfolding Let_def shell_request_def by auto
qed

end
