(* ===== verification/C_Text.thy ===== *)
theory C_Text
  imports OS_Prelude
begin

text \<open>
  Byte arrays and the C strings in them, as the user programs and the host tool use them. A
  \<^verbatim>\<open>char\<close> array is a byte list of its length; an index outside it is a fault.
\<close>

subsection \<open>C strings in arrays\<close>

definition arr_get :: "u8 list \<Rightarrow> nat \<Rightarrow> u8 run" where
  "arr_get bs i = (if i < length bs then Ret (bs ! i) else Fault Out_Of_Bounds)"

definition arr_set :: "u8 list \<Rightarrow> nat \<Rightarrow> u8 \<Rightarrow> u8 list run" where
  "arr_set bs i v = (if i < length bs then Ret (bs[i := v]) else Fault Out_Of_Bounds)"

text \<open>The string that starts at the beginning of the array; its length is \<^verbatim>\<open>strlen\<close>.\<close>

definition c_string :: "u8 list \<Rightarrow> u8 list run" where
  "c_string bs = (if 0 \<in> set bs then Ret (takeWhile (\<lambda>c. c \<noteq> 0) bs) else Fault Out_Of_Bounds)"

definition zero_padded :: "nat \<Rightarrow> u8 list \<Rightarrow> u8 list" where
  "zero_padded n s = s @ replicate (n - length s) 0"

lemma length_zero_padded [simp]: "length s \<le> n \<Longrightarrow> length (zero_padded n s) = n"
  by (simp add: zero_padded_def)

lemma nth_zero_padded: "i < n \<Longrightarrow> zero_padded n s ! i = (if i < length s then s ! i else 0)"
  by (simp add: zero_padded_def nth_append)

lemma zero_padded_snoc: "length s < n \<Longrightarrow> (zero_padded n s)[length s := k] = zero_padded n (s @ [k])"
  by (rule nth_equalityI) (auto simp: nth_zero_padded nth_list_update nth_append less_Suc_eq)

lemma zero_padded_end: "length s < n \<Longrightarrow> (zero_padded n s)[length s := 0] = zero_padded n s"
  by (rule nth_equalityI) (auto simp: nth_zero_padded nth_list_update)

lemma zero_padded_butlast:
  "s \<noteq> [] \<Longrightarrow> length s < n \<Longrightarrow> (zero_padded n s)[length s - 1 := 0] = zero_padded n (butlast s)"
  by (rule nth_equalityI) (auto simp: nth_zero_padded nth_list_update nth_butlast)

lemma takeWhile_nonzero: "0 \<notin> set (s :: u8 list) \<Longrightarrow> takeWhile (\<lambda>c. c \<noteq> 0) (s @ 0 # z) = s"
  by (induction s) auto

lemma c_string_zero_padded: "0 \<notin> set s \<Longrightarrow> length s < n \<Longrightarrow> c_string (zero_padded n s) = Ret s"
proof -
  assume s: "0 \<notin> set s" "length s < n"
  have "zero_padded n s = s @ 0 # replicate (n - Suc (length s)) 0"
    using s(2) by (simp add: zero_padded_def Suc_diff_Suc flip: replicate_Suc)
  then show ?thesis using takeWhile_nonzero [OF s(1)] by (simp add: c_string_def)
qed

end
