(* ===== verification/File_Names.thy ===== *)
theory File_Names
  imports C_Text
begin

text \<open>
  The split of a file name into the 8 + 3 bytes of a directory entry. \<^verbatim>\<open>parse_file_name\<close> exists
  twice with the same text: in \<^verbatim>\<open>src/src/external-inserter.c\<close> and, for the shell, in
  \<^verbatim>\<open>src/src/cp.c\<close>.
\<close>

subsection \<open>File names\<close>

text \<open>
  \<open>file_name\<close> is the C string without its terminator, \<open>name\<close> and \<open>ext\<close> are the arrays of 8 and
  3 bytes the caller passes. The result has the return value and the two arrays.
\<close>

function name_loop :: "u8 list \<Rightarrow> nat \<Rightarrow> nat \<Rightarrow> u8 list \<Rightarrow> nat \<times> nat \<times> u8 list" where
  "name_loop file_name idx1 idx2 name =
     (if idx1 < length file_name \<and> file_name ! idx1 \<noteq> of_char CHR ''.'' \<and> idx2 < 8
      then name_loop file_name (idx1 + 1) (idx2 + 1) (name[idx2 := file_name ! idx1])
      else (idx1, idx2, name))"
  by pat_completeness auto
termination by (relation "measure (\<lambda>(f, i, j, n). length f - i)") auto

function ext_loop :: "u8 list \<Rightarrow> nat \<Rightarrow> nat \<Rightarrow> u8 list \<Rightarrow> nat \<times> u8 list" where
  "ext_loop file_name idx1 idx2 ext =
     (if idx1 < length file_name \<and> idx2 < 3
      then ext_loop file_name (idx1 + 1) (idx2 + 1) (ext[idx2 := file_name ! idx1])
      else (idx1, ext))"
  by pat_completeness auto
termination by (relation "measure (\<lambda>(f, i, j, n). length f - i)") auto

declare name_loop.simps [simp del] ext_loop.simps [simp del]

definition parse_file_name :: "u8 list \<Rightarrow> u8 list \<Rightarrow> u8 list \<Rightarrow> int \<times> u8 list \<times> u8 list" where
  "parse_file_name file_name name ext =
     (let (idx1, idx2, name) = name_loop file_name 0 0 name in
      if idx2 = 8 \<and> idx1 < length file_name \<and> file_name ! idx1 \<noteq> of_char CHR ''.'' then (1, name, ext)
      else
        let (idx1, ext) = ext_loop file_name (idx1 + 1) 0 ext in
        if idx1 < length file_name then (-1, name, ext) else (0, name, ext))"

subsection \<open>Splitting names\<close>

abbreviation dot :: u8 where
  "dot \<equiv> 46"

lemma padded_step: "i < n \<Longrightarrow> i < length f \<Longrightarrow> (zero_padded n (take i f))[i := f ! i] = zero_padded n (take (Suc i) f)"
  using zero_padded_snoc [of "take i f" n "f ! i"] by (simp add: take_Suc_conv_app_nth)

lemma name_loop_result:
  assumes "k = length (takeWhile (\<lambda>c. c \<noteq> dot) f)" "i \<le> min 8 k" "8 \<le> m"
  shows "name_loop f i i (zero_padded m (take i f)) = (min 8 k, min 8 k, zero_padded m (take (min 8 k) f))"
  using assms(2)
proof (induction "min 8 k - i" arbitrary: i)
  case 0
  then have i: "i = min 8 k" by simp
  have "\<not> (i < length f \<and> f ! i \<noteq> dot \<and> i < 8)"
    using nth_length_takeWhile [of "\<lambda>c. c \<noteq> dot" f] i assms(1) by auto
  then show ?case by (subst name_loop.simps) (use i in auto)
next
  case (Suc n)
  then have i: "i < 8" "i < k" by simp_all
  have "i < length f" using i assms(1) length_takeWhile_le [of "\<lambda>c. c \<noteq> dot" f] by simp
  moreover have "f ! i \<noteq> dot"
    using i assms(1) set_takeWhileD [of "f ! i" "\<lambda>c. c \<noteq> dot" f] nth_mem [of i] takeWhile_nth [of i] by metis
  moreover have "name_loop f (i + 1) (i + 1) (zero_padded m (take (Suc i) f)) = (min 8 k, min 8 k, zero_padded m (take (min 8 k) f))"
    using Suc.hyps(1) [of "Suc i"] Suc.hyps(2) i by simp
  ultimately show ?case using i assms(3) by (subst name_loop.simps) (simp add: padded_step)
qed

lemma ext_loop_result:
  "3 \<le> m \<Longrightarrow> j \<le> min 3 (length e) \<Longrightarrow>
   ext_loop (f @ e) (length f + j) j (zero_padded m (take j e)) = (length f + min 3 (length e), zero_padded m (take (min 3 (length e)) e))"
proof (induction "min 3 (length e) - j" arbitrary: j)
  case 0
  then show ?case by (subst ext_loop.simps) auto
next
  case (Suc n)
  then have j: "j < 3" "j < length e" by simp_all
  then have "ext_loop (f @ e) (length f + j + 1) (j + 1) (zero_padded m (take (Suc j) e)) =
      (length f + min 3 (length e), zero_padded m (take (min 3 (length e)) e))"
    using Suc.hyps(1) [of "Suc j"] Suc.hyps(2) Suc.prems by simp
  then show ?case using j Suc.prems by (subst ext_loop.simps) (simp add: padded_step nth_append)
qed

lemma takeWhile_stem: "dot \<notin> set stem \<Longrightarrow> takeWhile (\<lambda>c. c \<noteq> dot) (stem @ dot # e) = stem"
  "dot \<notin> set stem \<Longrightarrow> takeWhile (\<lambda>c. c \<noteq> dot) stem = stem"
  by (auto simp: takeWhile_append takeWhile_eq_all_conv)

lemma parse_file_name_result:
  assumes "dot \<notin> set stem" "8 \<le> n" "3 \<le> m"
  shows "parse_file_name (stem @ dot # e) (replicate n 0) (replicate m 0) =
      (if 8 < length stem then (1, zero_padded n (take 8 stem), replicate m 0)
       else (if 3 < length e then -1 else 0, zero_padded n stem, zero_padded m (take 3 e)))" (is ?ext)
    "parse_file_name stem (replicate n 0) (replicate m 0) =
      (if 8 < length stem then 1 else 0, zero_padded n (take 8 stem), replicate m 0)" (is ?plain)
proof -
  let ?f = "stem @ dot # e" and ?k = "min 8 (length stem)"
  have z: "zero_padded j (take 0 f) = replicate j 0" for f j by (simp add: zero_padded_def)
  have p: "take ?k ?f = take 8 stem" "take ?k stem = take 8 stem" by (auto simp: min_def)
  have l: "length stem = length (takeWhile (\<lambda>c. c \<noteq> dot) ?f)" "length stem = length (takeWhile (\<lambda>c. c \<noteq> dot) stem)"
    by (simp_all only: takeWhile_stem [OF assms(1)])
  have n: "name_loop ?f 0 0 (replicate n 0) = (?k, ?k, zero_padded n (take 8 stem))"
    "name_loop stem 0 0 (replicate n 0) = (?k, ?k, zero_padded n (take 8 stem))"
    using name_loop_result [OF l(1) le0 assms(2)] name_loop_result [OF l(2) le0 assms(2)] by (simp_all only: z p)
  have e: "ext_loop ?f (Suc (length stem)) 0 (replicate m 0) = (Suc (length stem) + min 3 (length e), zero_padded m (take 3 e))"
    using ext_loop_result [OF assms(3), of 0 e "stem @ [dot]"] z [of m e] by (cases "length e \<le> 3") (simp_all add: min_def)
  have x: "ext_loop stem (Suc (length stem)) 0 (replicate m 0) = (Suc (length stem), replicate m 0)"
    by (subst ext_loop.simps) simp
  have d: "stem ! 8 \<noteq> dot" if "8 < length stem" using assms that nth_mem by metis
  show ?ext using d e by (cases "length stem \<le> 8") (auto simp: parse_file_name_def n nth_append min_def)
  show ?plain using d x by (cases "length stem \<le> 8") (auto simp: parse_file_name_def n min_def)
qed

text \<open>
  \<^verbatim>\<open>parse_file_name\<close> on zeroed arrays of at least 8 and 3 bytes: a stem of at most 8 bytes,
  alone or with an extension of at most 3, is split into the two zero-padded fields; a longer
  stem is refused with 1 and a longer extension with -1, and then the arrays hold the
  truncated fields.
\<close>

theorem parse_file_name_spec:
  assumes "dot \<notin> set stem" "8 \<le> n" "3 \<le> m"
  shows "parse_file_name (stem @ dot # e) (replicate n 0) (replicate m 0) =
      (if 8 < length stem then (1, zero_padded n (take 8 stem), replicate m 0)
       else (if 3 < length e then -1 else 0, zero_padded n stem, zero_padded m (take 3 e))) \<and>
    parse_file_name stem (replicate n 0) (replicate m 0) =
      (if 8 < length stem then 1 else 0, zero_padded n (take 8 stem), replicate m 0)"
  using parse_file_name_result [OF assms] by blast

theorem parse_file_name_spec_witness:
  "parse_file_name (map of_char ''readme.text'') (replicate 9 0) (replicate 4 0) =
     (-1, zero_padded 9 (map of_char ''readme''), zero_padded 4 (map of_char ''tex''))"
  using parse_file_name_spec [of "map of_char ''readme''" 9 4 "map of_char ''text''"] by simp

end
