(* ===== verification/Inserter.thy ===== *)
theory Inserter
  imports FAT32_Hazards Interrupt_Props File_Names
begin

text \<open>
  The host tool that puts files on the disk image, \<^verbatim>\<open>src/src/external-inserter.c\<close>: its block
  routines over an image in memory and its main program, which mounts the image with the FAT32 driver of the
  kernel and writes one file. The last property composes the tool with the start of the
  kernel.
\<close>

unbundle bit_operations_syntax

subsection \<open>Block routines over the image\<close>

text \<open>
  The image is a byte array of 4 MiB; an access outside it is a fault. The product
  \<^verbatim>\<open>BLOCK_SIZE*(logical_block_address+i)\<close> is computed in 32 bits.
\<close>

definition IMAGE_SIZE :: nat where [simp]: "IMAGE_SIZE = 4 * 1024 * 1024"

definition image_offset :: "u32 \<Rightarrow> nat \<Rightarrow> nat" where
  "image_offset logical_block_address i = unat (of_nat BLOCK_SIZE * (logical_block_address + of_nat i) :: u32)"

definition image_load :: "u8 list \<Rightarrow> nat \<Rightarrow> u8 list run" where
  "image_load img off =
     (if off + BLOCK_SIZE \<le> length img then Ret (take BLOCK_SIZE (drop off img)) else Fault Out_Of_Bounds)"

definition image_store :: "u8 list \<Rightarrow> nat \<Rightarrow> u8 list \<Rightarrow> u8 list run" where
  "image_store img off bs =
     (if off + BLOCK_SIZE \<le> length img then Ret (take off img @ bs @ drop (off + BLOCK_SIZE) img) else Fault Out_Of_Bounds)"

primrec image_read_loop :: "u8 list \<Rightarrow> u32 \<Rightarrow> nat \<Rightarrow> u8 list run" where
  "image_read_loop img lba 0 = Ret []"
| "image_read_loop img lba (Suc i) =
     run_bind (image_read_loop img lba i) (\<lambda>bs.
     run_bind (image_load img (image_offset lba i)) (\<lambda>b. Ret (bs @ b)))"

definition image_read_blocks :: "u8 list \<Rightarrow> u32 \<Rightarrow> u8 \<Rightarrow> u8 list run" where
  "image_read_blocks img lba block_count = image_read_loop img lba (unat block_count)"

primrec image_write_loop :: "u8 list \<Rightarrow> u32 \<Rightarrow> u8 list \<Rightarrow> nat \<Rightarrow> u8 list run" where
  "image_write_loop img lba bs 0 = Ret img"
| "image_write_loop img lba bs (Suc i) =
     run_bind (image_write_loop img lba bs i) (\<lambda>img.
     image_store img (image_offset lba i) (take BLOCK_SIZE (drop (BLOCK_SIZE * i) bs)))"

definition image_write_blocks :: "u8 list \<Rightarrow> u32 \<Rightarrow> u8 \<Rightarrow> u8 list \<Rightarrow> u8 list run" where
  "image_write_blocks img lba block_count bs = image_write_loop img lba bs (unat block_count)"

subsection \<open>The main program\<close>

text \<open>
  Parameters from the host: the contents of the file to insert (\<open>None\<close> when it cannot be
  opened), the two arguments (the parent as \<^verbatim>\<open>sscanf\<close> reads it), the address and the heap of
  the file buffer. \<^verbatim>\<open>sscanf(argv[1], "%s", filename)\<close> takes the first word of the argument,
  unbounded, into an array of 20 bytes. The result of \<^verbatim>\<open>parse_file_name\<close> is not looked at.
\<close>

definition is_space :: "u8 \<Rightarrow> bool" where
  "is_space c \<longleftrightarrow> c = 32 \<or> (9 \<le> c \<and> c \<le> 13)"

definition scan_word :: "u8 list \<Rightarrow> u8 list" where
  "scan_word s = takeWhile (\<lambda>c. \<not> is_space c) (dropWhile is_space s)"

definition insert_request :: "u8 list \<Rightarrow> u32 \<Rightarrow> u32 \<Rightarrow> nat \<Rightarrow> FAT32DriverRequest" where
  "insert_request filename parent file_buffer filesize =
     (let (ret, name, ext) = parse_file_name filename (replicate 8 0) (replicate 3 0) in
      \<lparr>rq_buf = file_buffer, rq_name = name, rq_ext = ext, rq_parent_cluster_number = parent,
       rq_buffer_size = of_nat filesize\<rparr>)"

definition inserter_main ::
  "u8 list option \<Rightarrow> u8 list \<Rightarrow> u32 \<Rightarrow> u32 \<Rightarrow> mem \<Rightarrow> u8 list \<Rightarrow> fs_state \<Rightarrow> (int \<times> fs_state) run" where
  "inserter_main target arg parent file_buffer m after s =
     (let m = (case target of None \<Rightarrow> m | Some bytes \<Rightarrow> mem_write m file_buffer (take (4 * 1024 * 1024) bytes));
          filesize = (case target of None \<Rightarrow> 0 | Some bytes \<Rightarrow> length bytes);
          s = initialize_filesystem_fat32 after s;
          filename = scan_word arg
      in if 20 \<le> length filename then Fault Out_Of_Bounds
         else fat_write (insert_request filename parent file_buffer filesize) m s)"

definition insert_message :: "int \<Rightarrow> string" where
  "insert_message retcode =
     (if retcode = 0 then ''Write success''
      else if retcode = 1 then ''Error: File/folder name already exist''
      else if retcode = 2 then ''Error: Invalid parent cluster''
      else ''Error: Unknown error'')"

subsection \<open>The image is a block store\<close>

definition image_disk :: "u8 list \<Rightarrow> disk" where
  "image_disk img a =
     (if unat a < length img div BLOCK_SIZE then take BLOCK_SIZE (drop (BLOCK_SIZE * unat a) img) else replicate BLOCK_SIZE 0)"

definition image_ok :: "u8 list \<Rightarrow> bool" where
  "image_ok img \<longleftrightarrow> length img = IMAGE_SIZE"

definition image_reach :: "u32 \<Rightarrow> u8 \<Rightarrow> bool" where
  "image_reach lba n \<longleftrightarrow> unat lba + unat n \<le> IMAGE_SIZE div BLOCK_SIZE"

lemma image_offset_eq: "unat lba + i < 8192 \<Longrightarrow> image_offset lba i = 512 * (unat lba + i)"
  by (simp add: image_offset_def unat_word_ariths unat_of_nat mod_less)

lemma image_block:
  assumes "image_ok img" "unat lba + i < 8192"
  shows "image_load img (image_offset lba i) = Ret (image_disk img (lba + of_nat i))"
proof -
  have "unat (lba + of_nat i) = unat lba + i" using assms(2) by (simp add: unat_word_ariths unat_of_nat)
  then show ?thesis using assms by (simp add: image_load_def image_offset_eq image_disk_def image_ok_def)
qed

lemma image_read_loop_result:
  assumes "image_ok img" "unat lba + n \<le> 8192"
  shows "image_read_loop img lba n = Ret (concat (map (\<lambda>i. image_disk img (lba + of_nat i)) [0..<n]))"
  using assms(2) by (induction n) (simp_all add: image_block [OF assms(1)])

lemma image_read_result:
  "image_ok img \<Longrightarrow> image_reach lba n \<Longrightarrow> image_read_blocks img lba n = Ret (read_blocks (image_disk img) lba n)"
  by (simp add: image_read_blocks_def image_reach_def image_read_loop_result read_blocks_def)

lemma image_store_disk:
  assumes "image_ok img" "length b = 512" "k < 8192"
  shows "image_disk (take (512 * k) img @ b @ drop (512 * k + 512) img) = (image_disk img)(of_nat k := b)"
    (is "image_disk ?img = _")
proof
  fix a :: u32
  have len: "length img = 4194304" "length ?img = 4194304" using assms by (simp_all add: image_ok_def)
  consider (same) "unat a = k" | (less) "unat a < k" | (more) "k < unat a" by linarith
  then show "image_disk ?img a = ((image_disk img)(of_nat k := b)) a"
  proof cases
    case same
    then have "a = of_nat k" by auto
    then show ?thesis using same assms len by (simp add: image_disk_def)
  next
    case less
    then have "a \<noteq> of_nat k" using assms(3) by (auto simp: unat_of_nat)
    moreover have "take 512 (drop (512 * unat a) ?img) = take 512 (drop (512 * unat a) img)"
      using less len assms(3) by (intro nth_equalityI) (auto simp: nth_append)
    ultimately show ?thesis using len less assms(3) by (simp add: image_disk_def)
  next
    case more
    then have "a \<noteq> of_nat k" using assms(3) by (auto simp: unat_of_nat)
    moreover have "drop (512 * unat a) ?img = drop (512 * unat a) img"
      using more len assms by (simp add: drop_drop)
    ultimately show ?thesis using len by (simp add: image_disk_def)
  qed
qed

lemma image_write_loop_result:
  assumes "image_ok img" "unat lba + n \<le> 8192" "length bs = 512 * n'" "n \<le> n'"
  shows "\<exists>img'. image_write_loop img lba bs n = Ret img' \<and> image_ok img' \<and>
    image_disk img' = fold (\<lambda>i d. d(lba + of_nat i := take BLOCK_SIZE (drop (BLOCK_SIZE * i) bs))) [0..<n] (image_disk img)"
  using assms(2,4)
proof (induction n)
  case (Suc n)
  then have "unat lba + n \<le> 8192" "n \<le> n'" by simp_all
  from Suc.IH [OF this] obtain im where IH: "image_write_loop img lba bs n = Ret im" "image_ok im"
    "image_disk im = fold (\<lambda>i d. d(lba + of_nat i := take BLOCK_SIZE (drop (BLOCK_SIZE * i) bs))) [0..<n] (image_disk img)"
    by blast
  let ?k = "unat lba + n" and ?b = "take 512 (drop (512 * n) bs)"
  let ?im = "take (512 * ?k) im @ ?b @ drop (512 * ?k + 512) im"
  have b: "length ?b = 512" using Suc.prems assms(3) by simp
  have k: "?k < 8192" using Suc.prems by simp
  have st: "image_store im (image_offset lba n) ?b = Ret ?im"
    using IH(2) k by (simp add: image_store_def image_offset_eq image_ok_def)
  have ok: "image_ok ?im" using IH(2) k b by (simp add: image_ok_def)
  have "image_disk ?im = (image_disk im)(lba + of_nat n := take BLOCK_SIZE (drop (BLOCK_SIZE * n) bs))"
    using image_store_disk [OF IH(2) b k] by simp
  then have "image_disk ?im =
      fold (\<lambda>i d. d(lba + of_nat i := take BLOCK_SIZE (drop (BLOCK_SIZE * i) bs))) [0..<Suc n] (image_disk img)"
    using IH(3) by (simp only: upt_Suc_append [OF le0] fold_append comp_apply fold_simps)
  moreover have "image_write_loop img lba bs (Suc n) = Ret ?im" using IH(1) st by simp
  ultimately show ?case using ok by blast
qed (use assms(1) in simp)

lemma image_write_result:
  assumes "image_ok img" "image_reach lba n" "length bs = BLOCK_SIZE * unat n"
  shows "\<exists>img'. image_write_blocks img lba n bs = Ret img' \<and> image_ok img' \<and>
    image_disk img' = write_blocks (image_disk img) lba n bs"
  using image_write_loop_result [OF assms(1), of lba "unat n" bs "unat n"] assms(2,3)
  by (simp add: image_write_blocks_def write_blocks_def image_reach_def)

text \<open>The routines of the tool keep the contract of a block device.\<close>

definition image_rd :: "u8 list \<Rightarrow> u32 \<Rightarrow> u8 \<Rightarrow> u8 list" where
  "image_rd img lba n = (case image_read_blocks img lba n of Some (Inr bs) \<Rightarrow> bs | _ \<Rightarrow> [])"

definition image_wr :: "u8 list \<Rightarrow> u32 \<Rightarrow> u8 \<Rightarrow> u8 list \<Rightarrow> u8 list" where
  "image_wr img lba n bs = (case image_write_blocks img lba n bs of Some (Inr img) \<Rightarrow> img | _ \<Rightarrow> img)"

lemma wf_image_disk: "image_ok img \<Longrightarrow> wf_disk (image_disk img)"
  by (simp add: wf_disk_def image_disk_def image_ok_def)

lemma image_rd_eq: "image_ok img \<Longrightarrow> image_reach lba n \<Longrightarrow> image_rd img lba n = read_blocks (image_disk img) lba n"
  by (simp add: image_rd_def image_read_result)

lemma image_wr_eq:
  assumes "image_ok img" "image_reach lba n" "length bs = BLOCK_SIZE * unat n"
  shows "image_ok (image_wr img lba n bs)" "image_disk (image_wr img lba n bs) = write_blocks (image_disk img) lba n bs"
  using image_write_result [OF assms] by (auto simp: image_wr_def)

interpretation image: block_device image_rd image_wr image_ok image_reach
proof
  fix img lba lba' n n' and bs :: "u8 list"
  assume i: "image_ok img" "image_reach lba n"
  show "length (image_rd img lba n) = BLOCK_SIZE * unat n"
    using store.length_rd [OF wf_image_disk [OF i(1)]] by (simp add: image_rd_eq [OF i])
  assume b: "length bs = BLOCK_SIZE * unat n"
  note W = image_wr_eq [OF i b]
  show "image_ok (image_wr img lba n bs)" by (rule W(1))
  show "image_rd (image_wr img lba n bs) lba n = bs"
    using store.rd_wr_same [OF wf_image_disk [OF i(1)] TrueI b] by (simp add: image_rd_eq [OF W(1) i(2)] W(2))
  assume "image_reach lba' n'"
    and "\<And>i j. i < unat n' \<Longrightarrow> j < unat n \<Longrightarrow> lba' + of_nat i \<noteq> lba + of_nat j"
  then show "image_rd (image_wr img lba n bs) lba' n' = image_rd img lba' n'"
    using store.rd_wr_other [OF wf_image_disk [OF i(1)] TrueI b TrueI, of n' lba' lba] i(1)
    by (simp add: image_rd_eq W)
qed

subsection \<open>From the tool to the running shell\<close>

text \<open>The image has room for a file \<^verbatim>\<open>shell\<close> of \<open>n\<close> bytes in its root directory.\<close>

definition shell_room :: "fs_state \<Rightarrow> nat \<Rightarrow> bool" where
  "shell_room s n \<longleftrightarrow>
     0 < n \<and> n \<le> 0x100000 \<and> first_unused (read_table s 2) 2 \<noteq> 64 \<and>
     (\<forall>i<64. \<not> entry_matches (read_table s 2 ! i) shell_request) \<and>
     (n + 2047) div 2048 \<le> length (free_from (fs_fat s) 3)"

abbreviation shell_name :: "u8 list" where
  "shell_name \<equiv> map of_char ''shell''"

lemma shell_insert_request:
  "insert_request (scan_word shell_name) 2 p n = shell_request\<lparr>rq_buf := p, rq_buffer_size := of_nat n\<rparr>"
proof -
  have "46 \<notin> set (shell_name :: u8 list)" by simp
  then have n: "name_loop shell_name 0 0 (replicate 8 0) = (5, 5, shell_name @ [0, 0, 0])"
    using name_loop_result [of 5 shell_name 0] by (simp add: zero_padded_def numeral_3_eq_3)
  have x: "ext_loop shell_name 6 0 (replicate 3 0) = (6, [0, 0, 0])"
    by (subst ext_loop.simps) (simp add: numeral_3_eq_3)
  have "scan_word shell_name = shell_name" by (simp add: scan_word_def is_space_def)
  then show ?thesis using n x
    by (simp add: insert_request_def parse_file_name_def shell_request_def)
qed

lemma shell_can_add:
  fixes p :: u32
  assumes "fs_inv D own s" "shell_room s n"
  defines "rq \<equiv> shell_request\<lparr>rq_buf := p, rq_buffer_size := of_nat n\<rparr>"
  shows "can_add D s rq 0" "rq_buffer_size rq \<noteq> 0"
    "unat (number_of_partition (rq_buffer_size rq)) \<le> length (free_from (fs_fat s) 3)"
    "\<forall>i<64. \<not> entry_matches (rq_table s rq ! i) rq"
proof -
  have n: "unat (of_nat n :: u32) = n" using assms(2) by (simp add: shell_room_def unat_of_nat)
  have rq: "wf_request rq" "rq_parent_cluster_number rq = 2" "rq_buffer_size rq = of_nat n"
    by (simp_all add: rq_def shell_request_def wf_request_def)
  have 2: "2 \<in> D" using tree_invD(3) [OF fs_invD(5) [OF assms(1)]] .
  have wf: "wf_table (read_table s 2)" using table_okD(1) [OF fs_inv_dir(1) [OF assms(1), of 2]] 2 by simp
  show new: "\<forall>i<64. \<not> entry_matches (rq_table s rq ! i) rq"
    using assms(2) by (simp add: shell_room_def rq entry_matches_def) (simp add: rq_def)
  show "rq_buffer_size rq \<noteq> 0" using n assms(2) by (auto simp: rq(3) shell_room_def)
  show "unat (number_of_partition (rq_buffer_size rq)) \<le> length (free_from (fs_fat s) 3)"
    using assms(2) by (simp add: rq(3) number_of_partition_ceil n shell_room_def)
  show "can_add D s rq 0"
    using 2 assms(2) rq new has_key_matches [OF wf rq(1)] by (auto simp: can_add_def shell_room_def)
qed

lemma take_mem_read: "k \<le> n \<Longrightarrow> take k (mem_read m p n) = mem_read m p k"
  by (rule nth_equalityI) auto

lemma inserted_bytes:
  assumes "length bytes \<le> 0x100000" "rq_buf rq = p" "rq_buffer_size rq = of_nat (length bytes)"
  shows "take (length bytes) (concat (file_data rq (mem_write m p bytes))) = bytes"
proof -
  have "length bytes \<le> 2048 * unat (number_of_partition (rq_buffer_size rq))"
    using assms(1) by (simp add: assms(3) number_of_partition_ceil unat_of_nat)
  then show ?thesis
    using mem_read_write_same [of bytes m p] assms(1) by (simp add: file_data_def concat_buffers assms(2) take_mem_read)
qed

text \<open>
  C6. From the build tool to the running shell: inserting a program of at most 1 MiB as \<^verbatim>\<open>shell\<close>
  into the root of an image (mounted, or formatted by the tool) with room for it succeeds, and a
  machine that starts from the resulting disk ends its set-up with the shell running and
  exactly the bytes of the program at address 0 of its address space.
\<close>

theorem inserter_then_boot:
  assumes mount: "fs_inv D own (initialize_filesystem_fat32 after s)"
    and room: "shell_room (initialize_filesystem_fat32 after s) (length bytes)"
    and boot: "kernel_init (m_kernel mc)" "resumed (m_kernel mc) = []" "wf_driver (fs_driver (k_fs (m_kernel mc)))"
  shows "\<exists>s'. inserter_main (Some bytes) shell_name 2 p m after s = Ret (0, s') \<and>
    (fs_disk (k_fs (m_kernel mc)) = fs_disk s' \<longrightarrow>
     (\<exists>mc' i d. kernel_setup io stubs tss_addr stack_ptr behind mc = Ret mc' \<and>
        (let k' = m_kernel mc'; pcb = process_list (k_procs k') ! i; a = directory_addr (k_paging (m_kernel mc)) d in
         running_process_idx (k_procs k') = int i \<and> proc_state pcb = RUNNING \<and> resumed k' = [new_context a] \<and>
         mem_read (user_view (page_directory_list (k_paging k') ! d) (k_mem k')) 0 (length bytes) = bytes)))"
proof -
  let ?s1 = "initialize_filesystem_fat32 after s"
  let ?n = "length bytes"
  define rq where "rq = shell_request\<lparr>rq_buf := p, rq_buffer_size := of_nat ?n\<rparr>"
  define m1 where "m1 = mem_write m p bytes"
  note R = shell_can_add [OF mount room, where p = p, folded rq_def]
  define s' where "s' = file_written rq (rq_table ?s1 rq) (snd (new_slot ?s1 rq)) (file_clusters rq ?s1) m1 ?s1"
  have n: "?n \<le> 0x100000" using room by (simp add: shell_room_def)
  have main: "inserter_main (Some bytes) shell_name 2 p m after s = Ret (0, s')"
    using fat_write_file_result [OF mount R(1-3), of m1] n
    unfolding inserter_main_def shell_insert_request Let_def option.case s'_def rq_def m1_def
    by (simp add: scan_word_def is_space_def)
  note E = file_written_effect [OF mount R(1-3), where m = m1, folded s'_def]
  have q: "rq_name shell_request = rq_name rq" "rq_ext shell_request = rq_ext rq"
    "rq_parent_cluster_number shell_request = rq_parent_cluster_number rq" "rq_buffer_size rq = of_nat ?n" "rq_buf rq = p"
    by (simp_all add: rq_def)
  note F = written_found [OF mount R q(1-3) s'_def]
  have "\<exists>mc' i d. kernel_setup io stubs tss_addr stack_ptr behind mc = Ret mc' \<and>
        (let k' = m_kernel mc'; pcb = process_list (k_procs k') ! i; a = directory_addr (k_paging (m_kernel mc)) d in
         running_process_idx (k_procs k') = int i \<and> proc_state pcb = RUNNING \<and> resumed k' = [new_context a] \<and>
         mem_read (user_view (page_directory_list (k_paging k') ! d) (k_mem k')) 0 ?n = bytes)"
    if disk: "fs_disk (k_fs (m_kernel mc)) = fs_disk s'"
  proof -
    let ?s2 = "initialize_filesystem_fat32 behind (k_fs (m_kernel mc))" and ?p = "new_slot ?s1 rq"
    note M = initialize_mounts [OF E(1) disk boot(3), of behind]
    have f: "found_slot ?s2 shell_request = ?p" using F(1) by (simp add: M(3))
    have "found_slot ?s2 shell_request \<in> slots D (tables ?s2)" "\<not> is_dir (ent (tables ?s2) (found_slot ?s2 shell_request))"
      "de_filesize (ent (tables ?s2) (found_slot ?s2 shell_request)) \<le> 0x100000"
      unfolding f using F(2-4) n by (simp_all add: M(3) q word_le_nat_alt unat_of_nat)
    note B = setup_runs_shell [OF boot(1,2) refl M(1) this, of io stubs tss_addr stack_ptr, unfolded f]
    obtain mc' i d where K: "kernel_setup io stubs tss_addr stack_ptr behind mc = Ret mc'"
      "running_process_idx (k_procs (m_kernel mc')) = int i" "proc_state (process_list (k_procs (m_kernel mc')) ! i) = RUNNING"
      "resumed (m_kernel mc') = [new_context (directory_addr (k_paging (m_kernel mc)) d)]"
      "mem_read (user_view (page_directory_list (k_paging (m_kernel mc')) ! d) (k_mem (m_kernel mc'))) 0 (2048 * length (file_clusters rq ?s1)) =
         concat (file_data rq m1)"
      using B unfolding Let_def M(3) fun_upd_same E(3) by blast
    have "?n \<le> 2048 * length (file_clusters rq ?s1)"
      using room n by (simp add: file_clusters_def q number_of_partition_ceil unat_of_nat shell_room_def)
    from take_mem_read [OF this] show ?thesis
      using K inserted_bytes [OF n q(5,4), of m, folded m1_def] unfolding Let_def by metis
  qed
  with main show ?thesis by blast
qed

text \<open>A machine at power-on with the given disk.\<close>

definition machine_with :: "disk \<Rightarrow> unit machine" where
  "machine_with d = power_on\<lparr>m_kernel := boot_kernel (blank_fs\<lparr>fs_disk := d\<rparr>)\<rparr>"

lemma machine_with_boot:
  "kernel_init (m_kernel (machine_with d))" "resumed (m_kernel (machine_with d)) = []"
  "k_fs (m_kernel (machine_with d)) = blank_fs\<lparr>fs_disk := d\<rparr>" "wf_driver (fs_driver (k_fs (m_kernel (machine_with d))))"
  using boot_kernel_init wf_blank(2) by (simp_all add: machine_with_def) (simp_all add: boot_kernel_def demo_kernel_def)

lemma mounted_shell_room: "shell_room mounted_fs 3000"
proof -
  have t: "read_table mounted_fs 2 = root_table" using fresh_table by (simp add: mounted_inv(2))
  have "rq_name shell_request = rq_name demo_rq" "rq_ext shell_request = rq_ext demo_rq"
    by (simp_all add: shell_request_def demo_rq_def)
  then have "\<not> entry_matches (root_table ! i) shell_request" if "i < 64" for i
    using demo_no_match [OF that] entry_matches_request by blast
  then show ?thesis by (simp add: shell_room_def t root_table_unused mounted_inv(3) formatted_free)
qed

theorem inserter_then_boot_witness:
  "\<exists>s' mc' i d. inserter_main (Some (replicate 3000 7)) shell_name 2 0x1000 (\<lambda>_. 0) [] (blank_fs\<lparr>fs_disk := fs_disk fresh_fs\<rparr>) = Ret (0, s') \<and>
     kernel_setup null_ports (\<lambda>_. 0) 0xC0110000 0xC0120000 [] (machine_with (fs_disk s')) = Ret mc' \<and>
     running_process_idx (k_procs (m_kernel mc')) = int i \<and>
     mem_read (user_view (page_directory_list (k_paging (m_kernel mc')) ! d) (k_mem (m_kernel mc'))) 0 3000 = replicate 3000 7"
proof -
  have m: "fs_inv {2} (\<lambda>_. []) (initialize_filesystem_fat32 [] (blank_fs\<lparr>fs_disk := fs_disk fresh_fs\<rparr>))"
    "shell_room (initialize_filesystem_fat32 [] (blank_fs\<lparr>fs_disk := fs_disk fresh_fs\<rparr>)) (length (replicate 3000 7))"
    using mounted_inv(1) mounted_shell_room by (simp_all add: mounted_fs_def)
  note T = inserter_then_boot [OF m machine_with_boot(1,2,4), where p = "0x1000" and m = "\<lambda>_. 0" and
      io = null_ports and stubs = "\<lambda>_. 0" and tss_addr = "0xC0110000" and stack_ptr = "0xC0120000" and behind = "[]"]
  obtain s' where s': "inserter_main (Some (replicate 3000 7)) shell_name 2 0x1000 (\<lambda>_. 0) [] (blank_fs\<lparr>fs_disk := fs_disk fresh_fs\<rparr>) = Ret (0, s')"
    using T by blast
  show ?thesis using T [of "fs_disk s'"] s' machine_with_boot(3) [of "fs_disk s'"] by (auto simp: Let_def)
qed

end
