(* ===== verification/Shell_Text.thy ===== *)
theory Shell_Text
  imports C_Text Console
begin

text \<open>
  The text processing of the user shell, \<^verbatim>\<open>src/src/user-shell.c\<close>: the line editor, the split of a
  line into a command and two arguments.
\<close>

unbundle bit_operations_syntax

subsection \<open>The line editor\<close>

text \<open>
  The shell polls the keyboard with \<^verbatim>\<open>getchar\<close>. \<open>polls\<close> has, for each of the successive calls, the
  number of keyboard interrupts that come before it: each of them shows its key on the screen
  (\<open>keyboard_isr\<close>), and the call takes the last pending character, 0 if there is none. When the
  calls run out without a line end the shell keeps waiting: \<open>None\<close>.
\<close>

definition poll_key :: "'d ports \<Rightarrow> nat \<Rightarrow> 'd console \<Rightarrow> u8 \<times> 'd console" where
  "poll_key io n c = get_keyboard_buffer ((keyboard_isr io ^^ n) c)"

fun get_input_loop ::
  "'d ports \<Rightarrow> nat list \<Rightarrow> nat \<Rightarrow> u8 list \<Rightarrow> 'd console \<Rightarrow> (u8 list \<times> nat list \<times> 'd console) run" where
  "get_input_loop io [] idx buf c = None"
| "get_input_loop io (n # polls) idx buf c =
     (let (k, c) = poll_key io n c in
     run_bind (arr_set buf idx k) (\<lambda>buf.
     if k = 8 then
       (let buf = buf[idx := 0] in
        if idx > 0 then get_input_loop io polls (idx - 1) (buf[idx - 1 := 0]) c else get_input_loop io polls idx buf c)
     else if k = 10 then Ret (buf[idx := 0], polls, c)
     else if k = 9 then
       run_bind (arr_set (buf[idx := 32]) (idx + 1) 32) (\<lambda>buf. get_input_loop io polls (idx + 2) buf c)
     else if k \<noteq> 0 then get_input_loop io polls (idx + 1) buf c
     else get_input_loop io polls idx buf c))"

definition get_input :: "'d ports \<Rightarrow> nat list \<Rightarrow> u8 list \<Rightarrow> 'd console \<Rightarrow> (u8 list \<times> nat list \<times> 'd console) run" where
  "get_input io polls buf c = get_input_loop io polls 0 buf c"

subsection \<open>Words\<close>

function ignore_blanks :: "u8 list \<Rightarrow> nat \<Rightarrow> nat run" where
  "ignore_blanks str idx =
     (if idx < length str then if str ! idx = 32 then ignore_blanks str (idx + 1) else Ret idx
      else Fault Out_Of_Bounds)"
  by pat_completeness auto
termination by (relation "measure (\<lambda>(s, i). length s - i)") auto

text \<open>The destination is the part of the array \<open>arr\<close> from \<open>dest\<close> on.\<close>

function copy_word :: "u8 list \<Rightarrow> u8 list \<Rightarrow> nat \<Rightarrow> nat \<Rightarrow> nat \<Rightarrow> (u8 list \<times> nat) run" where
  "copy_word str arr dest i idx =
     (if idx < length str then
        if str ! idx \<noteq> 32 \<and> str ! idx \<noteq> 0 then
          if dest + i < length arr then copy_word str (arr[dest + i := str ! idx]) dest (i + 1) (idx + 1)
          else Fault Out_Of_Bounds
        else Ret (arr, idx)
      else Fault Out_Of_Bounds)"
  by pat_completeness auto
termination by (relation "measure (\<lambda>(s, a, d, i, x). length s - x)") auto

function only_blanks :: "u8 list \<Rightarrow> nat \<Rightarrow> int run" where
  "only_blanks buf_input buf_idx =
     (if buf_idx < length buf_input then
        if buf_input ! buf_idx \<noteq> 0 then
          if buf_input ! buf_idx \<noteq> 32 then Ret (-1) else only_blanks buf_input (buf_idx + 1)
        else Ret 0
      else Fault Out_Of_Bounds)"
  by pat_completeness auto
termination by (relation "measure (\<lambda>(s, i). length s - i)") auto

declare ignore_blanks.simps [simp del] copy_word.simps [simp del] only_blanks.simps [simp del]

text \<open>
  \<open>args\<close> is the array \<^verbatim>\<open>char args[2][512]\<close>, its second row at 512. The result has the return
  value, the three texts and the number of arguments.
\<close>

definition parse_input :: "u8 list \<Rightarrow> u8 list \<Rightarrow> u8 list \<Rightarrow> u8 \<Rightarrow> (int \<times> u8 list \<times> u8 list \<times> u8) run" where
  "parse_input buf_input cmd args args_count =
     run_bind (ignore_blanks buf_input 0) (\<lambda>buf_idx.
     run_bind (copy_word buf_input cmd 0 0 buf_idx) (\<lambda>(cmd, buf_idx).
     run_bind (ignore_blanks buf_input buf_idx) (\<lambda>buf_idx.
     run_bind (copy_word buf_input args 0 0 buf_idx) (\<lambda>(args, buf_idx).
     run_bind (ignore_blanks buf_input buf_idx) (\<lambda>buf_idx.
     run_bind (copy_word buf_input args 512 0 buf_idx) (\<lambda>(args, buf_idx).
     let args_count = (if args ! 0 \<noteq> 0 then args_count + 1 else args_count);
         args_count = (if args ! 512 \<noteq> 0 then args_count + 1 else args_count)
     in run_bind (only_blanks buf_input buf_idx) (\<lambda>ret. Ret (ret, cmd, args, args_count))))))))"

subsection \<open>What the line editor computes\<close>

text \<open>The characters that a sequence of polls takes, and the console with their echo.\<close>

primrec poll_keys :: "'d ports \<Rightarrow> nat list \<Rightarrow> 'd console \<Rightarrow> u8 list \<times> 'd console" where
  "poll_keys io [] c = ([], c)"
| "poll_keys io (n # polls) c =
     (let (k, c) = poll_key io n c; (keys, c) = poll_keys io polls c in (k # keys, c))"

lemma poll_keys_ConsE:
  assumes "poll_keys io polls c = (k # keys, c')"
  obtains n polls' c1 where "polls = n # polls'" "poll_key io n c = (k, c1)" "poll_keys io polls' c1 = (keys, c')"
  using assms by (cases polls) (auto split: prod.splits)

fun edit :: "u8 list \<Rightarrow> u8 list \<Rightarrow> u8 list" where
  "edit line [] = line"
| "edit line (k # keys) =
     edit (if k = 8 then butlast line else if k = 9 then line @ [32, 32] else if k = 0 then line else line @ [k]) keys"

text \<open>The longest line while typing.\<close>

fun edit_room :: "nat \<Rightarrow> u8 list \<Rightarrow> u8 list \<Rightarrow> bool" where
  "edit_room n line [] \<longleftrightarrow> length line < n"
| "edit_room n line (k # keys) \<longleftrightarrow> length line < n \<and>
     (k = 9 \<longrightarrow> length line + 1 < n) \<and>
     edit_room n (if k = 8 then butlast line else if k = 9 then line @ [32, 32] else if k = 0 then line else line @ [k]) keys"

lemma get_input_loop_edit:
  "edit_room n line keys \<Longrightarrow> 10 \<notin> set keys \<Longrightarrow> poll_keys io polls c = (keys @ [10], c') \<Longrightarrow>
     get_input_loop io (polls @ rest) (length line) (zero_padded n line) c = Ret (zero_padded n (edit line keys), rest, c')"
proof (induction keys arbitrary: line polls c)
  case Nil
  have "poll_keys io polls c = (10 # [], c')" using Nil.prems(3) by simp
  then obtain p ps c1 where p: "polls = p # ps" "poll_key io p c = (10, c1)" "poll_keys io ps c1 = ([], c')"
    by (rule poll_keys_ConsE)
  have "ps = []" "c1 = c'" using p(3) by (cases ps; auto split: prod.splits)+
  then show ?case using Nil p by (simp add: arr_set_def zero_padded_end)
next
  case (Cons k keys)
  have "poll_keys io polls c = (k # keys @ [10], c')" using Cons.prems(3) by simp
  then obtain p ps c1 where p: "polls = p # ps" "poll_key io p c = (k, c1)" "poll_keys io ps c1 = (keys @ [10], c')"
    by (rule poll_keys_ConsE)
  note IH = Cons.IH [OF _ _ p(3)]
  have l: "length line < n" using Cons.prems by simp
  have z: "(zero_padded n line)[length line := 0] = zero_padded n line"
    using l by (rule zero_padded_end)
  consider (bs) "k = 8" | (tab) "k = 9" | (nul) "k = 0" | (char) "k \<noteq> 8" "k \<noteq> 9" "k \<noteq> 0" by blast
  then show ?case
  proof cases
    case bs
    show ?thesis
    proof (cases "line = []")
      case True
      then show ?thesis using IH [of "[]"] Cons.prems bs l z p(1,2) by (simp add: arr_set_def)
    next
      case False
      have "(zero_padded n line)[length line - 1 := 0] = zero_padded n (butlast line)"
        using zero_padded_butlast [OF False l] .
      then show ?thesis using IH [of "butlast line"] Cons.prems bs l z False p(1,2) by (simp add: arr_set_def)
    qed
  next
    case tab
    have "length line + 1 < n" using Cons.prems tab by simp
    then have "(zero_padded n line)[length line := 32, Suc (length line) := 32] = zero_padded n (line @ [32, 32])"
      using zero_padded_snoc [of "line @ [32]" n 32] by (simp add: zero_padded_snoc)
    then show ?thesis using IH [of "line @ [32, 32]"] Cons.prems tab l p(1,2) by (simp add: arr_set_def)
  next
    case nul
    then show ?thesis using IH [of line] Cons.prems l z p(1,2) by (simp add: arr_set_def)
  next
    case char
    then show ?thesis using IH [of "line @ [k]"] Cons.prems l p(1,2) by (simp add: arr_set_def zero_padded_snoc)
  qed
qed

subsection \<open>What the split into words computes\<close>

function words_of :: "u8 list \<Rightarrow> u8 list list" where
  "words_of s = (let t = dropWhile (\<lambda>c. c = 32) s in
     if t = [] then [] else takeWhile (\<lambda>c. c \<noteq> 32) t # words_of (dropWhile (\<lambda>c. c \<noteq> 32) t))"
  by pat_completeness auto
termination
proof (relation "measure length")
  fix s t :: "u8 list"
  assume t: "t = dropWhile (\<lambda>c. c = 32) s" "t \<noteq> []"
  have "hd t \<noteq> 32" using t hd_dropWhile [of "\<lambda>c. c = 32" s] by simp
  then have "length (dropWhile (\<lambda>c. c \<noteq> 32) t) < length t"
    using t(2) by (cases t) (simp_all add: le_imp_less_Suc length_dropWhile_le)
  also have "\<dots> \<le> length s" by (simp add: t length_dropWhile_le)
  finally show "(dropWhile (\<lambda>c. c \<noteq> 32) t, s) \<in> measure length" by simp
qed simp

declare words_of.simps [simp del]

text \<open>A C string in the array \<open>str\<close>: the bytes \<open>line\<close> and a terminator.\<close>

definition holds_line :: "u8 list \<Rightarrow> u8 list \<Rightarrow> bool" where
  "holds_line str line \<longleftrightarrow> 0 \<notin> set line \<and> (\<exists>z. str = line @ 0 # z)"

lemma holds_lineD:
  assumes "holds_line str line" "i \<le> length line"
  shows "i < length str" "i < length line \<Longrightarrow> str ! i = line ! i" "i < length line \<Longrightarrow> line ! i \<noteq> 0"
    "str ! length line = 0"
  using assms by (auto simp: holds_line_def nth_append) (metis nth_mem)

lemma ignore_blanks_result:
  assumes "holds_line str line"
  shows "i \<le> length line \<Longrightarrow> ignore_blanks str i = Ret (i + length (takeWhile (\<lambda>c. c = 32) (drop i line)))"
proof (induction "length line - i" arbitrary: i)
  case 0
  then show ?case using holds_lineD [OF assms, of i] by (subst ignore_blanks.simps) simp
next
  case (Suc n)
  then have i: "i < length line" by simp
  note H = holds_lineD [OF assms, of i]
  have d: "drop i line = line ! i # drop (Suc i) line" using i by (rule Cons_nth_drop_Suc [symmetric])
  have "ignore_blanks str (Suc i) = Ret (Suc i + length (takeWhile (\<lambda>c. c = 32) (drop (Suc i) line)))"
    using Suc.hyps(1) [of "Suc i"] Suc.hyps(2) i by simp
  then show ?case using H i by (subst ignore_blanks.simps) (simp add: d)
qed

definition put_word :: "u8 list \<Rightarrow> nat \<Rightarrow> u8 list \<Rightarrow> u8 list" where
  "put_word arr dest w = take dest arr @ w @ drop (dest + length w) arr"

lemma length_put_word [simp]: "dest + length w \<le> length arr \<Longrightarrow> length (put_word arr dest w) = length arr"
  by (simp add: put_word_def)

lemma put_word_Nil [simp]: "put_word arr dest [] = arr"
  by (simp add: put_word_def)

lemma put_word_snoc:
  "dest + length w < length arr \<Longrightarrow> (put_word arr dest w)[dest + length w := c] = put_word arr dest (w @ [c])"
  by (rule nth_equalityI) (auto simp: put_word_def nth_append nth_list_update min_def)

lemma copy_word_result:
  assumes h: "holds_line str line" and w: "w = takeWhile (\<lambda>c. c \<noteq> 32) (drop i line)"
    and r: "dest + length w \<le> length arr" and i: "i \<le> length line"
  shows "j \<le> length w \<Longrightarrow>
    copy_word str (put_word arr dest (take j w)) dest j (i + j) = Ret (put_word arr dest w, i + length w)"
proof (induction "length w - j" arbitrary: j)
  case 0
  then have j: "j = length w" by simp
  have le: "i + length w \<le> length line"
    using w i length_takeWhile_le [of "\<lambda>c. c \<noteq> 32" "drop i line"] by simp
  note H = holds_lineD [OF h le]
  have "str ! (i + length w) = 0 \<or> str ! (i + length w) = 32"
  proof (cases "i + length w < length line")
    case True
    then have "line ! (i + length w) = 32"
      using nth_length_takeWhile [of "\<lambda>c. c \<noteq> 32" "drop i line"] by (simp add: w)
    then show ?thesis using H True by simp
  qed (use le H in simp)
  then show ?case using H j by (subst copy_word.simps) auto
next
  case (Suc n)
  then have j: "j < length w" by simp
  have lt: "i + j < length line"
    using j w i length_takeWhile_le [of "\<lambda>c. c \<noteq> 32" "drop i line"] by simp
  have wj: "w ! j = line ! (i + j)" "w ! j \<noteq> 32"
    using j takeWhile_nth [of j "\<lambda>c. c \<noteq> 32" "drop i line"] set_takeWhileD [of "w ! j" "\<lambda>c. c \<noteq> 32" "drop i line"] nth_mem [OF j] lt w
    by auto
  note H = holds_lineD [OF h less_imp_le [OF lt]]
  have "copy_word str (put_word arr dest (take (Suc j) w)) dest (Suc j) (Suc (i + j)) = Ret (put_word arr dest w, i + length w)"
    using Suc.hyps(1) [of "Suc j"] Suc.hyps(2) j by simp
  moreover have "(put_word arr dest (take j w))[dest + j := w ! j] = put_word arr dest (take (Suc j) w)"
    using put_word_snoc [of dest "take j w" arr "w ! j"] j r by (simp add: take_Suc_conv_app_nth)
  ultimately show ?case using H lt wj j r by (subst copy_word.simps) simp
qed

lemma only_blanks_result:
  assumes "holds_line str line"
  shows "i \<le> length line \<Longrightarrow> only_blanks str i = Ret (if \<forall>c\<in>set (drop i line). c = 32 then 0 else -1)"
proof (induction "length line - i" arbitrary: i)
  case 0
  then show ?case using holds_lineD [OF assms, of i] by (subst only_blanks.simps) simp
next
  case (Suc n)
  then have i: "i < length line" by simp
  have d: "drop i line = line ! i # drop (Suc i) line" using i by (rule Cons_nth_drop_Suc [symmetric])
  have "only_blanks str (Suc i) = Ret (if \<forall>c\<in>set (drop (Suc i) line). c = 32 then 0 else -1)"
    using Suc.hyps(1) [of "Suc i"] Suc.hyps(2) i by simp
  then show ?case using holds_lineD [OF assms, of i] i by (subst only_blanks.simps) (simp add: d)
qed

text \<open>One word: skip the blanks from \<open>i\<close>, copy up to the next blank.\<close>

definition word_at :: "u8 list \<Rightarrow> nat \<Rightarrow> nat \<times> u8 list" where
  "word_at line i = (let a = i + length (takeWhile (\<lambda>c. c = 32) (drop i line)) in (a, takeWhile (\<lambda>c. c \<noteq> 32) (drop a line)))"

lemma drop_takeWhile: "drop (length (takeWhile P xs)) xs = dropWhile P xs"
  by (induction xs) auto

lemma drop_add_takeWhile: "drop (i + length (takeWhile P (drop i xs))) xs = dropWhile P (drop i xs)"
  by (subst add.commute) (simp add: drop_takeWhile flip: drop_drop)

lemma word_at_props:
  assumes "word_at line i = (a, w)" "i \<le> length line"
  shows "a + length w \<le> length line"
    "words_of (drop i line) = (if w = [] then [] else w # words_of (drop (a + length w) line))"
    "w = [] \<Longrightarrow> a = length line" "set w \<subseteq> set line"
proof -
  have a: "drop a line = dropWhile (\<lambda>c. c = 32) (drop i line)" "a \<le> length line"
    and w: "w = takeWhile (\<lambda>c. c \<noteq> 32) (drop a line)"
    using assms length_takeWhile_le [of "\<lambda>c. c = 32" "drop i line"]
    by (auto simp: word_at_def Let_def drop_add_takeWhile)
  show "set w \<subseteq> set line" using set_takeWhileD set_drop_subset by (fastforce simp: w)
  have nx: "drop (a + length w) line = dropWhile (\<lambda>c. c \<noteq> 32) (drop a line)"
    by (simp add: w drop_add_takeWhile)
  show "a + length w \<le> length line"
    using length_takeWhile_le [of "\<lambda>c. c \<noteq> 32" "drop a line"] a(2) by (simp add: w)
  have h: "w = [] \<longleftrightarrow> drop a line = []"
  proof (cases "drop a line")
    case (Cons c cs)
    then have "c \<noteq> 32" using hd_dropWhile [of "\<lambda>c. c = 32" "drop i line"] a(1) by (metis list.discI list.sel(1))
    then show ?thesis by (simp add: w Cons)
  qed (simp add: w)
  then show "w = [] \<Longrightarrow> a = length line" using a(2) by simp
  show "words_of (drop i line) = (if w = [] then [] else w # words_of (drop (a + length w) line))"
    by (subst words_of.simps) (simp only: Let_def a(1) [symmetric] nx h w [symmetric])
qed

lemma word_step:
  assumes h: "holds_line str line" and i: "i \<le> length line" and w: "word_at line i = (a, w)"
    and r: "dest + length w \<le> length arr"
  shows "ignore_blanks str i = Ret a" "copy_word str arr dest 0 a = Ret (put_word arr dest w, a + length w)"
proof -
  show "ignore_blanks str i = Ret a" using ignore_blanks_result [OF h i] w by (auto simp: word_at_def Let_def)
  have "w = takeWhile (\<lambda>c. c \<noteq> 32) (drop a line)" using w by (auto simp: word_at_def Let_def)
  moreover have "a \<le> length line" using word_at_props(1) [OF w i] by simp
  ultimately show "copy_word str arr dest 0 a = Ret (put_word arr dest w, a + length w)"
    using copy_word_result [OF h _ r, of a 0] by simp
qed

lemma first_nonzero: "holds_line str line \<Longrightarrow> set w \<subseteq> set line \<Longrightarrow> w \<noteq> [] \<Longrightarrow> w ! 0 \<noteq> 0"
  by (auto simp: holds_line_def) (metis length_greater_0_conv nth_mem subsetD)

definition nth_word :: "u8 list list \<Rightarrow> nat \<Rightarrow> u8 list" where
  "nth_word ws i = (if i < length ws then ws ! i else [])"

lemma words_of_Nil_iff: "words_of s = [] \<longleftrightarrow> (\<forall>c\<in>set s. c = 32)"
  by (subst words_of.simps) (simp add: Let_def dropWhile_eq_Nil_conv)

lemma put_word_zero: "length w \<le> n \<Longrightarrow> put_word (replicate n 0) 0 w = zero_padded n w"
  by (simp add: put_word_def zero_padded_def)

lemma put_word_rows:
  assumes "length v \<le> 512" "length w \<le> 512"
  shows "put_word (put_word (replicate 1024 0) 0 v) 512 w = zero_padded 512 v @ zero_padded 512 w"
proof -
  have "put_word (replicate 1024 0) 0 v = zero_padded 512 v @ replicate 512 0"
    using assms(1) by (simp add: put_word_def zero_padded_def flip: replicate_add)
  then show ?thesis using assms by (simp add: put_word_def zero_padded_def)
qed

lemma parse_input_result:
  assumes h: "holds_line buf line" and r: "\<forall>i<3. length (nth_word (words_of line) i) < 512"
  shows "parse_input buf (replicate 512 0) (replicate 1024 0) 0 =
    (let ws = words_of line in
     Ret (if 3 < length ws then -1 else 0, zero_padded 512 (nth_word ws 0),
          zero_padded 512 (nth_word ws 1) @ zero_padded 512 (nth_word ws 2), of_nat (min 2 (length ws - 1))))"
proof -
  obtain a0 w0 where s0: "word_at line 0 = (a0, w0)" by fastforce
  note p0 = word_at_props [OF s0 le0]
  let ?i1 = "a0 + length w0"
  obtain a1 w1 where s1: "word_at line ?i1 = (a1, w1)" by fastforce
  note p1 = word_at_props [OF s1 p0(1)]
  let ?i2 = "a1 + length w1"
  obtain a2 w2 where s2: "word_at line ?i2 = (a2, w2)" by fastforce
  note p2 = word_at_props [OF s2 p1(1)]
  let ?i3 = "a2 + length w2"
  define ws where "ws = words_of (drop ?i3 line)"
  have e: "w0 = [] \<Longrightarrow> w1 = []" "w1 = [] \<Longrightarrow> w2 = []" "w2 = [] \<Longrightarrow> ws = []"
    using p0 p1 p2 words_of_Nil_iff [of "[]"] by (auto simp: ws_def split: if_splits)
  have W: "words_of line = (if w0 = [] then [] else w0 # (if w1 = [] then [] else w1 # (if w2 = [] then [] else w2 # ws)))"
    using p0(2) p1(2) p2(2) by (simp add: ws_def)
  have n: "nth_word (words_of line) 0 = w0" "nth_word (words_of line) 1 = w1" "nth_word (words_of line) 2 = w2"
    using e by (auto simp: W nth_word_def)
  have l: "length w0 < 512" "length w1 < 512" "length w2 < 512"
    using r n by (metis One_nat_def less_numeral_extra(3) numeral_3_eq_3 lessI less_SucI numeral_2_eq_2 zero_less_Suc)+
  let ?args = "zero_padded 512 w1 @ zero_padded 512 w2"
  note c0 = word_step [OF h le0 s0, of 0 "replicate 512 0"] and c1 = word_step [OF h p0(1) s1, of 0 "replicate 1024 0"]
    and c2 = word_step [OF h p1(1) s2, of 512 "put_word (replicate 1024 0) 0 w1"]
  have nz: "?args ! 0 \<noteq> 0 \<longleftrightarrow> w1 \<noteq> []" "?args ! 512 \<noteq> 0 \<longleftrightarrow> w2 \<noteq> []"
    using l first_nonzero [OF h p1(4)] first_nonzero [OF h p2(4)] by (auto simp: nth_append nth_zero_padded)
  have o: "only_blanks buf ?i3 = Ret (if 3 < length (words_of line) then -1 else 0)"
    using only_blanks_result [OF h p2(1)] words_of_Nil_iff [of "drop ?i3 line"] e by (auto simp: W ws_def)
  show ?thesis
    unfolding Let_def n parse_input_def
    using c0 c1 c2 l nz o put_word_rows [of w1 w2] put_word_zero [of w0 512] e
    by (auto simp: W min_def)
qed

text \<open>
  C32. \<^verbatim>\<open>parse_input\<close> splits a line at runs of blanks: the first three words become the command
  and the two arguments, zero-padded, the count is that of the arguments present, and the
  result is -1 exactly when there are more than three words.
\<close>

theorem parse_input_words:
  assumes h: "holds_line buf line" and r: "\<forall>i<3. length (nth_word (words_of line) i) < 512"
  shows "parse_input buf (replicate 512 0) (replicate 1024 0) 0 =
    (let ws = words_of line in
     Ret (if 3 < length ws then -1 else 0, zero_padded 512 (nth_word ws 0),
          zero_padded 512 (nth_word ws 1) @ zero_padded 512 (nth_word ws 2), of_nat (min 2 (length ws - 1))))"
  using assms by (rule parse_input_result)

theorem parse_input_words_witness:
  "parse_input (zero_padded 2048 (map of_char ''cp  a b'')) (replicate 512 0) (replicate 1024 0) 0 =
     Ret (0, zero_padded 512 (map of_char ''cp''), zero_padded 512 (map of_char ''a'') @ zero_padded 512 (map of_char ''b''), 2)"
proof -
  have w: "words_of (map of_char ''cp  a b'') = [map of_char ''cp'', map of_char ''a'', map of_char ''b'']"
    by (simp add: words_of.simps)
  have "zero_padded 2048 (map of_char ''cp  a b'') = map of_char ''cp  a b'' @ 0 # replicate 2040 0"
    by (simp add: zero_padded_def flip: replicate_Suc)
  then have "holds_line (zero_padded 2048 (map of_char ''cp  a b'')) (map of_char ''cp  a b'')"
    by (auto simp: holds_line_def)
  from parse_input_words [OF this, unfolded w] show ?thesis
    by (simp add: nth_word_def less_Suc_eq numeral_3_eq_3 all_conj_distrib)
qed

text \<open>
  The line editor: on a cleared buffer of 2048 bytes, the keys up to the line end leave the
  edited line in the buffer (a backspace removes the last character, a tab adds two blanks),
  as long as the line never fills the buffer; the screen has their echo, and nothing behind the
  line end is consumed.
\<close>

theorem get_input_edits:
  assumes "edit_room 2048 [] keys" "10 \<notin> set keys" "poll_keys io polls c = (keys @ [10], c')"
  shows "get_input io (polls @ rest) (replicate 2048 0) c = Ret (zero_padded 2048 (edit [] keys), rest, c')"
  using get_input_loop_edit [OF assms, of rest] by (simp add: get_input_def zero_padded_def)

text \<open>A keyboard with a list of scan codes to deliver.\<close>

definition scan_ports :: "u8 list ports" where
  "scan_ports = \<lparr>port_out = (\<lambda>_ _ d. d), port_in = (\<lambda>p d. if p = 0x60 \<and> d \<noteq> [] then (hd d, tl d) else (0xFF, d)),
     port_out16 = (\<lambda>_ _ d. d), port_in16 = (\<lambda>_ d. (0, d))\<rparr>"

definition scan_console :: "u8 list \<Rightarrow> u8 list console" where
  "scan_console codes = \<lparr>keyboard_driver_state = \<lparr>read_extended_mode = False, keyboard_input_on = True, keyboard_input = 0\<rparr>,
     row_now = 3, col_now = 5, typed = 0, vram = (\<lambda>_. 0), device = codes\<rparr>"

text \<open>What of such a console the polls depend on: whether input is on, the pending character, the codes.\<close>

definition scan_abs :: "u8 list console \<Rightarrow> bool \<times> u8 \<times> u8 list" where
  "scan_abs c = (keyboard_input_on (keyboard_driver_state c), keyboard_input (keyboard_driver_state c), device c)"

definition scan_isr :: "bool \<times> u8 \<times> u8 list \<Rightarrow> bool \<times> u8 \<times> u8 list" where
  "scan_isr = (\<lambda>(on, p, codes). case codes of [] \<Rightarrow> (on, p, [])
     | sc # codes \<Rightarrow> if sc AND 0x80 = 0 \<and> on
         then (let ch = keyboard_scancode_1_to_ascii_map ! unat sc in (ch \<noteq> 10, ch, codes)) else (on, p, codes))"

primrec scan_polls :: "nat list \<Rightarrow> bool \<times> u8 \<times> u8 list \<Rightarrow> u8 list \<times> bool \<times> u8 \<times> u8 list" where
  "scan_polls [] st = ([], st)"
| "scan_polls (n # polls) st =
     (let (on, p, codes) = (scan_isr ^^ n) st; (keys, st) = scan_polls polls (on, 0, codes) in (p # keys, st))"

lemma scan_device [simp]: "device (out scan_ports p v c) = device c" "device (framebuffer_set_cursor scan_ports r q c) = device c"
    "device (pic_ack scan_ports i c) = device c" "device (putchar scan_ports ch color c) = device c"
    "device (puts scan_ports str color c) = device c"
proof -
  show o: "device (out scan_ports p v c) = device c" for p v and c :: "u8 list console" by (simp add: out_def scan_ports_def)
  then show f: "device (framebuffer_set_cursor scan_ports r q c) = device c" for r q and c :: "u8 list console"
    by (simp add: framebuffer_set_cursor_def Let_def)
  show "device (pic_ack scan_ports i c) = device c" using o by (simp add: pic_ack_def Let_def)
  show p: "device (putchar scan_ports ch color c) = device c" for ch and c :: "u8 list console" using f by (simp add: putchar_def Let_def)
  show "device (puts scan_ports str color c) = device c"
    unfolding puts_def using p by (induction str arbitrary: c) simp_all
qed

lemma scan_isr_abs: "scan_abs (keyboard_isr scan_ports c) = scan_isr (scan_abs c)"
proof -
  have k: "device (keyboard_key scan_ports ch c) = device c" for ch and c :: "u8 list console"
    by (simp add: keyboard_key_def type_blank_def keyboard_state_deactivate_def Let_def)
  have i: "port_in scan_ports 0x60 [] = (0xFF, [])" "port_in scan_ports 0x60 (x # xs) = (x, xs)" for x xs
    by (simp_all add: scan_ports_def)
  show ?thesis
    using keyboard_key_effect(1) [of scan_ports] k
    by (cases "device c") (auto simp: keyboard_isr_def i scan_isr_def scan_abs_def Let_def)
qed

lemma scan_polls_abs:
  "fst (poll_keys scan_ports polls c) = fst (scan_polls polls (scan_abs c)) \<and>
   scan_abs (snd (poll_keys scan_ports polls c)) = snd (scan_polls polls (scan_abs c))"
proof (induction polls arbitrary: c)
  case (Cons n polls)
  have n: "(scan_isr ^^ n) (scan_abs c) = scan_abs ((keyboard_isr scan_ports ^^ n) c)"
    by (induction n) (simp_all add: scan_isr_abs)
  have "(scan_isr ^^ n) (scan_abs c) = (keyboard_input_on (keyboard_driver_state ((keyboard_isr scan_ports ^^ n) c)),
      fst (poll_key scan_ports n c), device ((keyboard_isr scan_ports ^^ n) c))"
    "scan_abs (snd (poll_key scan_ports n c)) = (keyboard_input_on (keyboard_driver_state ((keyboard_isr scan_ports ^^ n) c)), 0,
      device ((keyboard_isr scan_ports ^^ n) c))"
    unfolding n by (simp_all add: scan_abs_def poll_key_def get_keyboard_buffer_def)
  then show ?case
    using Cons.IH [of "snd (poll_key scan_ports n c)"] by (simp add: case_prod_beta Let_def)
qed simp

text \<open>The keys L, X, backspace, S and Enter, with the release of the first key and a poll without a key.\<close>

theorem get_input_edits_witness:
  "\<exists>c'. get_input scan_ports ([1, 1, 0, 1, 1, 1, 1] @ [1]) (replicate 2048 0) (scan_console [0x26, 0xA6, 0x2D, 0x0E, 0x1F, 0x1C, 0x1E]) =
     Ret (zero_padded 2048 (map of_char ''ls''), [1], c') \<and> device c' = [0x1E]"
proof -
  let ?c = "scan_console [0x26, 0xA6, 0x2D, 0x0E, 0x1F, 0x1C, 0x1E]" and ?k = "map of_char ''l'' @ [0, 0] @ map of_char ''x'' @ [8] @ map of_char ''s'' :: u8 list"
  let ?r = "poll_keys scan_ports [1, 1, 0, 1, 1, 1, 1] ?c"
  have "scan_polls [1, 1, 0, 1, 1, 1, 1] (True, 0, [0x26, 0xA6, 0x2D, 0x0E, 0x1F, 0x1C, 0x1E]) = (?k @ [10], False, 0, [0x1E])"
    by code_simp
  moreover have "scan_abs ?c = (True, 0, [0x26, 0xA6, 0x2D, 0x0E, 0x1F, 0x1C, 0x1E])" by (simp add: scan_abs_def scan_console_def)
  ultimately have k: "fst ?r = ?k @ [10]" "scan_abs (snd ?r) = (False, 0, [0x1E])"
    using scan_polls_abs [of "[1, 1, 0, 1, 1, 1, 1]" ?c] by simp_all
  have e: "edit_room 2048 [] ?k" "10 \<notin> set ?k" "edit [] ?k = map of_char ''ls''" by code_simp+
  have "?r = (?k @ [10], snd ?r)" using k(1) by (simp add: prod_eq_iff)
  from get_input_edits [OF e(1,2) this, of "[1]"] k(2) e(3) show ?thesis by (auto simp: scan_abs_def)
qed

end
