(* ===== verification/Shell_Path.thy ===== *)
theory Shell_Path
  imports Shell_Text
begin

text \<open>
  Paths in the user shell: the split of a path into components (the loops of \<^verbatim>\<open>parse_path\<close>) and
  the text of the current path, extended and shortened in place by \<^verbatim>\<open>append_current_path\<close> and
  \<^verbatim>\<open>retract_current_path\<close>.
\<close>

subsection \<open>Operations\<close>

definition is_sep :: "u8 \<Rightarrow> bool" where
  "is_sep c \<longleftrightarrow> c = of_char CHR ''/'' \<or> c = 92"

text \<open>
  \<open>str\<close> is the C string. The second half of the source's condition, \<^verbatim>\<open>str[idx+1] != '\0' ||
  str[idx+1] != ' '\<close>, always holds.
\<close>

function count_folders :: "u8 list \<Rightarrow> nat \<Rightarrow> u8 \<Rightarrow> u8" where
  "count_folders str idx num_of_folder =
     (if idx < length str then
        count_folders str (idx + 1) (if is_sep (str ! idx) \<and> length str > idx + 1 then num_of_folder + 1 else num_of_folder)
      else num_of_folder)"
  by pat_completeness auto
termination by (relation "measure (\<lambda>(s, i, n). length s - i)") auto

function split_loop :: "u8 list \<Rightarrow> nat \<Rightarrow> nat \<Rightarrow> nat \<Rightarrow> u8 list list \<Rightarrow> u8 list list run" where
  "split_loop str idx path_cnt path_idx paths =
     (if idx < length str then
        if is_sep (str ! idx) then
          if length str > idx + 1 then split_loop str (idx + 1) (path_cnt + 1) 0 paths
          else split_loop str (idx + 1) path_cnt path_idx paths
        else if path_cnt < length paths \<and> path_idx < length (paths ! path_cnt) then
          split_loop str (idx + 1) path_cnt (path_idx + 1)
            (paths[path_cnt := (paths ! path_cnt)[path_idx := str ! idx]])
        else Fault Out_Of_Bounds
      else Ret paths)"
  by pat_completeness auto
termination by (relation "measure (\<lambda>(s, i, c, p, ps). length s - i)") auto

declare count_folders.simps [simp del] split_loop.simps [simp del]

primrec append_loop :: "u8 list \<Rightarrow> nat \<Rightarrow> u8 list \<Rightarrow> u8 list run" where
  "append_loop [] k cur = Ret cur"
| "append_loop (c # cs) k cur = run_bind (arr_set cur k c) (append_loop cs (k + 1))"

definition append_path :: "u8 list \<Rightarrow> u8 list \<Rightarrow> u8 list run" where
  "append_path path cur =
     run_bind (c_string cur) (\<lambda>p.
     run_bind (if length p \<noteq> 1 then arr_set cur (length p) (of_char CHR ''/'') else Ret cur) (\<lambda>cur.
     run_bind (c_string cur) (\<lambda>p. append_loop path (length p) cur)))"

text \<open>Running past the beginning of the array is a fault.\<close>

primrec retract_loop :: "nat \<Rightarrow> u8 list \<Rightarrow> (nat \<times> u8 list) run" where
  "retract_loop 0 cur = (if cur ! 0 \<noteq> of_char CHR ''/'' then Fault Out_Of_Bounds else Ret (0, cur))"
| "retract_loop (Suc i) cur =
     (if cur ! Suc i \<noteq> of_char CHR ''/'' then retract_loop i (cur[Suc i := 0]) else Ret (Suc i, cur))"

definition retract_path :: "u8 list \<Rightarrow> u8 list run" where
  "retract_path cur =
     run_bind (c_string cur) (\<lambda>p.
     if p = [] then Fault Out_Of_Bounds
     else run_bind (retract_loop (length p - 1) cur) (\<lambda>(i, cur). Ret (if i > 0 then cur[i := 0] else cur)))"

subsection \<open>Components\<close>

fun components :: "u8 list \<Rightarrow> u8 list list" where
  "components [] = [[]]"
| "components (c # cs) =
     (if is_sep c then if cs = [] then [[]] else [] # components cs
      else (c # hd (components cs)) # tl (components cs))"

definition rows :: "u8 list list \<Rightarrow> u8 list list" where
  "rows xs = map (zero_padded 512) xs @ replicate (512 - length xs) (replicate 512 0)"

lemma components_nonempty [simp]: "components s \<noteq> []"
  by (cases s) auto

lemma count_folders_result:
  "i \<le> length s \<Longrightarrow> count_folders s i n + 1 = n + of_nat (length (components (drop i s)))"
proof (induction "length s - i" arbitrary: i n)
  case 0
  then show ?case by (subst count_folders.simps) simp
next
  case (Suc k)
  then have i: "i < length s" by simp
  then have d: "drop i s = s ! i # drop (Suc i) s" by (rule Cons_nth_drop_Suc [symmetric])
  have l: "length (tl (components (drop (Suc i) s))) = length (components (drop (Suc i) s)) - 1" by simp
  have "Suc (length (components (drop (Suc i) s)) - 1) = length (components (drop (Suc i) s))"
    using components_nonempty [of "drop (Suc i) s"] by (simp del: components_nonempty)
  then show ?case
    using Suc.hyps(1) [of "Suc i" "if is_sep (s ! i) \<and> Suc i < length s then n + 1 else n"] Suc.hyps(2) i
    by (subst count_folders.simps) (auto simp: d algebra_simps)
qed

lemma rows_nth: "k < length xs \<Longrightarrow> length xs \<le> 512 \<Longrightarrow> rows xs ! k = zero_padded 512 (xs ! k)"
  by (simp add: rows_def nth_append)

lemma length_rows [simp]: "length xs \<le> 512 \<Longrightarrow> length (rows xs) = 512"
  by (simp add: rows_def)

lemma rows_new: "length xs < 512 \<Longrightarrow> rows (xs @ [[]]) = rows xs"
  by (simp add: rows_def zero_padded_def Suc_diff_Suc flip: replicate_Suc)

lemma rows_extend:
  assumes "length w < 512" "length xs < 512"
  shows "(rows (xs @ [w]))[length xs := (rows (xs @ [w]) ! length xs)[length w := c]] = rows (xs @ [w @ [c]])"
  using assms by (simp add: rows_nth zero_padded_snoc) (simp add: rows_def list_update_append)

lemma split_loop_result:
  "i \<le> length s \<Longrightarrow> length w + (length s - i) < 512 \<Longrightarrow> length xs + (length s - i) < 512 \<Longrightarrow>
     split_loop s i (length xs) (length w) (rows (xs @ [w])) =
     Ret (rows (xs @ (w @ hd (components (drop i s))) # tl (components (drop i s))))"
proof (induction "length s - i" arbitrary: i w xs)
  case 0
  then show ?case by (subst split_loop.simps) simp
next
  case (Suc k)
  then have i: "i < length s" by simp
  then have d: "drop i s = s ! i # drop (Suc i) s" by (rule Cons_nth_drop_Suc [symmetric])
  note IH = Suc.hyps(1) [of "Suc i"]
  show ?case
  proof (cases "is_sep (s ! i)")
    case True
    have "split_loop s (Suc i) (length xs + 1) 0 (rows (xs @ [w])) =
        Ret (rows (xs @ w # hd (components (drop (Suc i) s)) # tl (components (drop (Suc i) s))))" if "Suc i < length s"
      using IH [of "[]" "xs @ [w]"] rows_new [of "xs @ [w]"] Suc.hyps(2) Suc.prems that by simp
    moreover have "split_loop s (Suc i) (length xs) (length w) (rows (xs @ [w])) = Ret (rows (xs @ [w]))" if "\<not> Suc i < length s"
      using that by (subst split_loop.simps) simp
    ultimately show ?thesis using True i by (subst split_loop.simps) (auto simp: d)
  next
    case False
    have "split_loop s (Suc i) (length xs) (length (w @ [s ! i])) (rows (xs @ [w @ [s ! i]])) =
        Ret (rows (xs @ (w @ s ! i # hd (components (drop (Suc i) s))) # tl (components (drop (Suc i) s))))"
      using IH [of "w @ [s ! i]" xs] Suc.hyps(2) Suc.prems by simp
    moreover have "length xs < 512" "length w < 512" using Suc.prems i by linarith+
    ultimately show ?thesis using False i rows_extend [of w xs "s ! i"]
      by (subst split_loop.simps) (simp add: d rows_nth)
  qed
qed

lemma split_components:
  "length s < 512 \<Longrightarrow> i \<le> length s \<Longrightarrow> split_loop s i 0 0 (replicate 512 (replicate 512 0)) = Ret (rows (components (drop i s)))"
  using split_loop_result [of i s "[]" "[]"] by (simp add: rows_def zero_padded_def flip: replicate_Suc)

subsection \<open>The current path\<close>

definition path_string :: "u8 list list \<Rightarrow> u8 list" where
  "path_string names = (if names = [] then [47] else concat (map (\<lambda>n. 47 # n) names))"

definition good_name :: "u8 list \<Rightarrow> bool" where
  "good_name n \<longleftrightarrow> n \<noteq> [] \<and> 0 \<notin> set n \<and> 47 \<notin> set n"

lemma path_string_nonzero: "\<forall>n\<in>set names. good_name n \<Longrightarrow> 0 \<notin> set (path_string names)"
  by (auto simp: path_string_def good_name_def)

lemma path_string_snoc: "path_string (names @ [n]) = (if names = [] then [] else path_string names) @ 47 # n"
  by (simp add: path_string_def)

lemma path_string_length_1:
  assumes "\<forall>n\<in>set names. good_name n"
  shows "length (path_string names) = 1 \<longleftrightarrow> names = []" "path_string names \<noteq> []"
  using assms by (cases names; auto simp: path_string_def good_name_def)+

lemma append_loop_result:
  "length s + length cs \<le> n \<Longrightarrow> append_loop cs (length s) (zero_padded n s) = Ret (zero_padded n (s @ cs))"
proof (induction cs arbitrary: s)
  case (Cons c cs)
  have "append_loop cs (length (s @ [c])) (zero_padded n (s @ [c])) = Ret (zero_padded n ((s @ [c]) @ cs))"
    using Cons.prems by (intro Cons.IH) simp
  then show ?case using Cons.prems by (simp add: arr_set_def zero_padded_snoc)
qed simp

lemma append_path_result:
  assumes g: "\<forall>m\<in>set (names @ [n]). good_name m" and l: "length (path_string (names @ [n])) < k"
  shows "append_path n (zero_padded k (path_string names)) = Ret (zero_padded k (path_string (names @ [n])))"
proof -
  let ?p = "path_string names"
  have p: "0 \<notin> set ?p" "length ?p < k" "length ?p = 1 \<longleftrightarrow> names = []"
    using g l path_string_nonzero [of names] path_string_length_1 [of names]
    by (auto simp: path_string_snoc split: if_splits)
  show ?thesis
  proof (cases "names = []")
    case True
    then show ?thesis using p l c_string_zero_padded [OF p(1,2)] append_loop_result [of "[47]" n k]
      by (simp add: append_path_def path_string_def)
  next
    case False
    then have l': "length (?p @ [47]) + length n \<le> k" "length (?p @ [47]) < k" and z: "0 \<notin> set (?p @ [47])"
      using l p g by (auto simp: path_string_snoc good_name_def)
    then show ?thesis
      using False p c_string_zero_padded [OF p(1,2)] append_loop_result [OF l'(1)] c_string_zero_padded [OF z l'(2)]
      by (simp add: append_path_def arr_set_def zero_padded_snoc path_string_snoc)
  qed
qed

lemma retract_loop_result:
  "47 \<notin> set n \<Longrightarrow> Suc (length s + length n) < k \<Longrightarrow>
     retract_loop (length s + length n) (zero_padded k (s @ 47 # n)) = Ret (length s, zero_padded k (s @ [47]))"
proof (induction n rule: rev_induct)
  case Nil
  have "zero_padded k (s @ [47]) ! length s = 47" using Nil by (simp add: nth_zero_padded nth_append)
  then show ?case by (cases "length s") simp_all
next
  case (snoc c n)
  let ?i = "length s + length n"
  have c: "zero_padded k (s @ 47 # n @ [c]) ! Suc ?i = c"
    using snoc.prems by (simp add: nth_zero_padded nth_append)
  have "(zero_padded k (s @ 47 # n @ [c]))[Suc ?i := 0] = zero_padded k (s @ 47 # n)"
    using zero_padded_butlast [of "s @ 47 # n @ [c]" k] snoc.prems by (simp add: butlast_append)
  then show ?case using snoc c by simp
qed

lemma retract_path_result:
  assumes g: "\<forall>m\<in>set (names @ [n]). good_name m" and l: "length (path_string (names @ [n])) < k"
  shows "retract_path (zero_padded k (path_string (names @ [n]))) = Ret (zero_padded k (path_string names))"
proof -
  let ?s = "if names = [] then [] else path_string names"
  have z: "0 \<notin> set (path_string (names @ [n]))" using g path_string_nonzero by blast
  have r: "retract_loop (length ?s + length n) (zero_padded k (?s @ 47 # n)) = Ret (length ?s, zero_padded k (?s @ [47]))"
    using g l by (intro retract_loop_result) (auto simp: good_name_def path_string_snoc)
  have e: "(zero_padded k (?s @ [47]))[length ?s := 0] = zero_padded k ?s" if "length ?s < k - 1"
    using zero_padded_butlast [of "?s @ [47]" k] that by simp
  have "length ?s < k - 1" using l g by (auto simp: path_string_snoc good_name_def)
  note e = e [OF this]
  show ?thesis
    unfolding retract_path_def c_string_zero_padded [OF z l]
    using r e path_string_length_1 [of names] g by (auto simp: path_string_snoc) (simp add: path_string_def)
qed

end
