(* ===== verification/Shell.thy ===== *)
theory Shell
  imports Shell_Path File_Names Interrupt
begin

text \<open>
  The user shell: its globals, its output and the change of directories
  (\<^verbatim>\<open>src/src/user-shell.c\<close>, \<^verbatim>\<open>src/src/cd.c\<close>). A system call is the kernel operation it names, on the C values the shell passes; the shell runs between two
  calls without interference. A local array that a call fills is a memory with the array at
  address 0.
\<close>

subsection \<open>State\<close>

record 'd shell =
  current_directory :: u32
  current_path :: "u8 list"
  current_dir_table :: dir_table
  temp_dir_table :: dir_table
  sh_kernel :: "'d kernel"

abbreviation sh_fs :: "'d shell \<Rightarrow> fs_state" where
  "sh_fs s \<equiv> k_fs (sh_kernel s)"

definition set_sh_fs :: "fs_state \<Rightarrow> 'd shell \<Rightarrow> 'd shell" where
  "set_sh_fs f s = s\<lparr>sh_kernel := (sh_kernel s)\<lparr>k_fs := f\<rparr>\<rparr>"

definition LIGHT_GREY :: u8 where "LIGHT_GREY = 7"
definition DARK_GREY :: u8 where "DARK_GREY = 8"
definition LIGHT_BLUE :: u8 where "LIGHT_BLUE = 9"
definition LIGHT_GREEN :: u8 where "LIGHT_GREEN = 10"
definition LIGHT_RED :: u8 where "LIGHT_RED = 12"
definition WHITE :: u8 where "WHITE = 15"

subsection \<open>Output\<close>

definition put :: "'d ports \<Rightarrow> u8 list \<Rightarrow> u8 \<Rightarrow> 'd shell \<Rightarrow> 'd shell" where
  "put io str color s =
     s\<lparr>sh_kernel := (sh_kernel s)\<lparr>k_console := puts io str (ucast color) (k_console (sh_kernel s))\<rparr>\<rparr>"

abbreviation put_text :: "'d ports \<Rightarrow> string \<Rightarrow> u8 \<Rightarrow> 'd shell \<Rightarrow> 'd shell" where
  "put_text io str color \<equiv> put io (map of_char str) color"

definition put_array :: "'d ports \<Rightarrow> u8 list \<Rightarrow> u8 \<Rightarrow> 'd shell \<Rightarrow> 'd shell run" where
  "put_array io arr color s = run_bind (c_string arr) (\<lambda>str. Ret (put io str color s))"

text \<open>The name in entry \<open>i\<close> of a table, as a C string: without a terminator it runs on into the rest of the entry.\<close>

definition name_bytes :: "dir_table \<Rightarrow> nat \<Rightarrow> u8 list" where
  "name_bytes t i = drop (DIR_ENTRY_SIZE * i) (enc_table t)"

definition path_row :: "u8 list list \<Rightarrow> nat \<Rightarrow> u8 list run" where
  "path_row path i = (if i < length path then Ret (path ! i) else Fault Out_Of_Bounds)"

primrec print_path_rest :: "'d ports \<Rightarrow> u8 list list \<Rightarrow> nat \<Rightarrow> u8 \<Rightarrow> 'd shell \<Rightarrow> 'd shell run" where
  "print_path_rest io path 0 color s = Ret s"
| "print_path_rest io path (Suc i) color s =
     run_bind (print_path_rest io path i color s) (\<lambda>s.
     run_bind (path_row path (Suc i)) (\<lambda>row. put_array io row color (put_text io ''/'' color s)))"

definition print_path :: "'d ports \<Rightarrow> u8 list list \<Rightarrow> nat \<Rightarrow> u8 \<Rightarrow> 'd shell \<Rightarrow> 'd shell run" where
  "print_path io path idx color s =
     run_bind (path_row path 0) (\<lambda>row.
     run_bind (if row ! 0 \<noteq> 0 then put_array io row color s else Ret s) (print_path_rest io path idx color))"

subsection \<open>Directories\<close>

text \<open>\<^verbatim>\<open>update_directory_table\<close> is the cluster-read system call into a table.\<close>

definition update_directory_table :: "u32 \<Rightarrow> 'd shell \<Rightarrow> dir_table" where
  "update_directory_table directory_cluster_number s = read_table (sh_fs s) directory_cluster_number"

definition cancel_change_path :: "u32 \<Rightarrow> u8 list \<Rightarrow> 'd shell \<Rightarrow> 'd shell" where
  "cancel_change_path current_directory_temp path_temp s =
     s\<lparr>current_directory := current_directory_temp,
       current_dir_table := update_directory_table current_directory_temp s, current_path := path_temp\<rparr>"

definition parse_path :: "u8 list \<Rightarrow> 'd shell \<Rightarrow> (u8 list list \<times> u32 \<times> 'd shell) run" where
  "parse_path str s =
     run_bind (c_string str) (\<lambda>cs.
     let absolute = (cs \<noteq> [] \<and> is_sep (cs ! 0));
         s = (if absolute
              then s\<lparr>current_dir_table := update_directory_table ROOT_CLUSTER_NUMBER s,
                     current_directory := ROOT_CLUSTER_NUMBER,
                     current_path := (replicate 512 0)[0 := of_char CHR ''/'']\<rparr>
              else s);
         idx = (if absolute then 1 else 0)
     in run_bind (split_loop cs idx 0 0 (replicate 512 (replicate 512 0))) (\<lambda>paths.
        Ret (paths, ucast (count_folders cs idx 1), s)))"

definition change_directory :: "u8 list \<Rightarrow> u32 \<Rightarrow> 'd shell \<Rightarrow> (int \<times> u32 \<times> 'd shell) run" where
  "change_directory directory_name parent_cluster_number s =
     (let rq = \<lparr>rq_buf = 0, rq_name = take 8 directory_name, rq_ext = [0, 0, 0],
                rq_parent_cluster_number = parent_cluster_number, rq_buffer_size = of_nat CLUSTER_SIZE\<rparr>;
          (ret_val, m) = read_directory rq (sh_fs s) (mem_write (\<lambda>_. 0) 0 (enc_table (temp_dir_table s)));
          s = s\<lparr>temp_dir_table := dec_table (mem_read m 0 CLUSTER_SIZE)\<rparr>
      in if ret_val \<noteq> 0 then Ret (ret_val, parent_cluster_number, s)
         else
           run_bind (c_string (name_bytes (temp_dir_table s) 0)) (\<lambda>name.
           run_bind (append_path name (current_path s)) (\<lambda>p.
           Ret (0, entry_cluster (temp_dir_table s ! 0), s\<lparr>current_path := p\<rparr>))))"

text \<open>The two characters that a string literal cannot hold.\<close>

abbreviation quote :: string where "quote \<equiv> [CHR 0x27]"
abbreviation newline :: string where "newline \<equiv> [CHR 0x0A]"

definition change_path_error :: "'d ports \<Rightarrow> int \<Rightarrow> u8 list list \<Rightarrow> nat \<Rightarrow> 'd shell \<Rightarrow> 'd shell run" where
  "change_path_error io err_val path idx s =
     (if err_val = 1 then
        run_bind (print_path io path idx LIGHT_RED (put_text io (''error: '' @ quote) LIGHT_RED s)) (\<lambda>s.
        Ret (put_text io (quote @ '' is a file, not a directory'' @ newline) LIGHT_RED s))
      else if err_val = 2 then
        run_bind (put_array io (path ! idx) LIGHT_RED
          (put_text io (''error: no such directory with the name '' @ quote) LIGHT_RED s)) (\<lambda>s.
        let s = put_text io (quote @ '' in '') LIGHT_RED s in
        run_bind
          (if idx > 0 then
             run_bind (print_path io path (idx - 1) LIGHT_RED (put_text io quote LIGHT_RED s)) (\<lambda>s.
             Ret (put_text io quote LIGHT_RED s))
           else Ret (put_text io ''current directory'' LIGHT_RED s)) (\<lambda>s.
        Ret (put_text io newline LIGHT_RED s)))
      else Ret s)"

definition is_dots :: "u8 list \<Rightarrow> nat \<Rightarrow> bool" where
  "is_dots str n \<longleftrightarrow> length str = n \<and> memcmp_bytes str (replicate n (of_char CHR ''.'')) = 0"

definition at_root :: "u8 list \<Rightarrow> bool" where
  "at_root p \<longleftrightarrow> length p = 1 \<and> memcmp_bytes p (map of_char ''/'') = 0"

lemma run_bind_mono [partial_function_mono]:
  assumes "mono_option B" "\<And>y. mono_option (\<lambda>f. C y f)"
  shows "mono_option (\<lambda>f. run_bind (B f) (\<lambda>y. C y f))"
proof -
  have "run_bind (B f) (\<lambda>y. C y f) =
      Option.bind (B f) (\<lambda>r. case r of Inl e \<Rightarrow> Some (Inl e) | Inr x \<Rightarrow> C x f)" for f
    by (simp add: run_bind_def split: option.split sum.split)
  moreover have "mono_option (\<lambda>f. Option.bind (B f) (\<lambda>r. case r of Inl e \<Rightarrow> Some (Inl e) | Inr x \<Rightarrow> C x f))"
  proof (rule bind_mono [OF assms(1)])
    show "mono_option (\<lambda>f. case r of Inl e \<Rightarrow> Some (Inl e) | Inr x \<Rightarrow> C x f)" for r
      by (cases r) (simp_all add: assms(2) option.const_mono)
  qed
  ultimately show ?thesis by simp
qed

text \<open>
  The loop of \<^verbatim>\<open>change_path\<close>; \<open>idx\<close> counts the components done. On \<^verbatim>\<open>..\<close> at the root the source
  continues without advancing: the loop does not end.
\<close>

partial_function (option) change_path_loop ::
  "'d ports \<Rightarrow> u8 list list \<Rightarrow> int \<Rightarrow> nat \<Rightarrow> u32 \<Rightarrow> 'd shell \<Rightarrow> (int \<times> u32 \<times> 'd shell) run" where
  "change_path_loop io path num_of_directory idx parent s =
     (if int idx < num_of_directory then
        run_bind (path_row path idx) (\<lambda>row.
        run_bind (c_string row) (\<lambda>name.
        if is_dots name 2 then
          run_bind (c_string (current_path s)) (\<lambda>cur.
          if at_root cur then change_path_loop io path num_of_directory idx parent s
          else
            run_bind (retract_path (current_path s)) (\<lambda>p.
            let parent = entry_cluster (temp_dir_table s ! 1)
            in change_path_loop io path num_of_directory (idx + 1) parent
                 (s\<lparr>temp_dir_table := update_directory_table parent s, current_path := p\<rparr>)))
        else if \<not> is_dots name 1 then
          run_bind (change_directory row parent s) (\<lambda>(err_val, parent, s).
          run_bind (change_path_error io err_val path idx s) (\<lambda>s.
          if err_val = 0 then change_path_loop io path num_of_directory (idx + 1) parent s
          else Ret (err_val, parent, s)))
        else change_path_loop io path num_of_directory (idx + 1) parent s))
      else Ret (0, parent, s))"

definition change_path :: "'d ports \<Rightarrow> u8 list list \<Rightarrow> int \<Rightarrow> 'd shell \<Rightarrow> (int \<times> 'd shell) run" where
  "change_path io path num_of_directory s =
     (if num_of_directory = 0 then Ret (0, s)
      else
        let path_temp = current_path s;
            s = s\<lparr>temp_dir_table := current_dir_table s\<rparr>
        in run_bind (change_path_loop io path num_of_directory 0 (current_directory s) s) (\<lambda>(err_val, parent, s).
           Ret (err_val,
             if err_val = 0 then s\<lparr>current_dir_table := temp_dir_table s, current_directory := parent\<rparr>
             else s\<lparr>current_path := path_temp\<rparr>)))"

definition put_usage :: "'d ports \<Rightarrow> string \<Rightarrow> string \<Rightarrow> u8 \<Rightarrow> 'd shell \<Rightarrow> 'd shell" where
  "put_usage io msg usage color s =
     put_text io (''Usage: '' @ usage @ newline) color (put_text io (''error: '' @ msg @ newline) LIGHT_RED s)"

text \<open>\<open>args\<close> are the two rows of the argument array.\<close>

definition cd :: "'d ports \<Rightarrow> u8 list list \<Rightarrow> u8 \<Rightarrow> 'd shell \<Rightarrow> 'd shell run" where
  "cd io args args_count s =
     (if args_count = 0 then Ret (put_usage io ''missing argument'' ''cd <directory_path>'' LIGHT_GREY s)
      else if args_count = 1 then
        run_bind (parse_path (args ! 0) s) (\<lambda>(path, num_of_directory, s).
        run_bind (change_path io path (sint num_of_directory) s) (\<lambda>(_, s). Ret s))
      else Ret (put_usage io ''too many arguments, expected 1 argument'' ''cd <directory_path>'' LIGHT_GREY s))"

end
