(* ===== verification/Shell_Files.thy ===== *)
theory Shell_Files
  imports Shell
begin

text \<open>
  The commands of the shell on files, directories and processes: \<^verbatim>\<open>mkdir\<close>, \<^verbatim>\<open>rm\<close>, \<^verbatim>\<open>cat\<close>, \<^verbatim>\<open>cp\<close>, \<^verbatim>\<open>ls\<close>,
  \<^verbatim>\<open>exec\<close>, \<^verbatim>\<open>ps\<close> and \<^verbatim>\<open>kill\<close>, with the routines they share.
\<close>

subsection \<open>Files\<close>

definition shell_parse_file_name :: "'d ports \<Rightarrow> u8 list \<Rightarrow> 'd shell \<Rightarrow> (int \<times> u8 list \<times> u8 list \<times> 'd shell) run" where
  "shell_parse_file_name io arr s =
     run_bind (c_string arr) (\<lambda>file_name.
     let (ret, name, ext) = parse_file_name file_name (replicate 9 0) (replicate 4 0);
         s = (if ret = 1 then put_text io ''error: filename length must not exceed 8!'' LIGHT_RED s
              else if ret = -1 then put_text io ''error: file ext length must not exceed 3!'' LIGHT_RED s
              else s)
     in Ret (ret, name, ext, s))"

text \<open>The directory an error message speaks of.\<close>

definition put_place :: "'d ports \<Rightarrow> u8 list list \<Rightarrow> u32 \<Rightarrow> 'd shell \<Rightarrow> 'd shell run" where
  "put_place io path num_of_directory s =
     (if num_of_directory \<ge> 2
      then print_path io path (unat (num_of_directory - 2)) LIGHT_RED (put_text io quote LIGHT_RED s)
      else put_array io (name_bytes (current_dir_table s) 0) LIGHT_RED
             (put_text io (''current directory '' @ quote) LIGHT_RED s))"

definition read_file_error :: "'d ports \<Rightarrow> int \<Rightarrow> u8 list \<Rightarrow> u8 list list \<Rightarrow> u32 \<Rightarrow> 'd shell \<Rightarrow> 'd shell run" where
  "read_file_error io ret_val file_name path num_of_directory s =
     (if ret_val = 0 then Ret s
      else
        run_bind (put_array io file_name LIGHT_RED (put_text io (''error: '' @ quote) LIGHT_RED s)) (\<lambda>s.
        if ret_val = 1 then Ret (put_text io (quote @ '' is a folder, not a file'' @ newline) LIGHT_RED s)
        else if ret_val = 2 then
          run_bind (put_place io path num_of_directory (put_text io (quote @ '' not found in '') LIGHT_RED s)) (\<lambda>s.
          Ret (put_text io (quote @ newline) LIGHT_RED s))
        else Ret s))"

text \<open>\<open>m\<close> is the buffer of 32 clusters, at address 0.\<close>

definition read_file ::
  "'d ports \<Rightarrow> u8 list list \<Rightarrow> u32 \<Rightarrow> mem \<Rightarrow> 'd shell \<Rightarrow> (int \<times> mem \<times> 'd shell) run" where
  "read_file io path num_of_directory m s =
     (let current_directory_temp = current_directory s; path_temp = current_path s in
      run_bind (change_path io path (sint (num_of_directory - 1)) s) (\<lambda>(ret_val, s).
      if ret_val \<noteq> 0 then Ret (ret_val, m, cancel_change_path current_directory_temp path_temp s)
      else
        run_bind (path_row path (unat (num_of_directory - 1))) (\<lambda>row.
        run_bind (shell_parse_file_name io row s) (\<lambda>(ret_val, file_name, ext, s).
        if ret_val \<noteq> 0 then Ret (ret_val, m, cancel_change_path current_directory_temp path_temp s)
        else
          let rq = \<lparr>rq_buf = 0, rq_name = take 8 file_name, rq_ext = take 3 ext,
                    rq_parent_cluster_number = current_directory s, rq_buffer_size = of_nat (CLUSTER_SIZE * 32)\<rparr>
          in run_bind (fat_read rq (sh_fs s) m) (\<lambda>(ret_val, m).
             run_bind (read_file_error io ret_val file_name path num_of_directory s) (\<lambda>s.
             Ret (ret_val, m, cancel_change_path current_directory_temp path_temp s)))))))"

definition write_to_error :: "'d ports \<Rightarrow> int \<Rightarrow> u8 list \<Rightarrow> u8 list list \<Rightarrow> u32 \<Rightarrow> bool \<Rightarrow> 'd shell \<Rightarrow> 'd shell run" where
  "write_to_error io ret_val name path num_of_directory is_directory s =
     (if ret_val = -1 then
        run_bind (put_place io path num_of_directory (put_text io ''error: cannot add new entry, '' LIGHT_RED s)) (\<lambda>s.
        Ret (put_text io (quote @ '' is full'' @ newline) LIGHT_RED s))
      else if ret_val = 1 then
        (let s = put_text io (''error: there'' @ quote @ ''s already a '') LIGHT_RED s in
         run_bind (put_array io name LIGHT_RED
           (put_text io ('' with the name '' @ quote) LIGHT_RED
           (put_text io (if is_directory then ''folder'' else ''file'') LIGHT_RED s))) (\<lambda>s.
         run_bind (put_place io path num_of_directory (put_text io (quote @ '' in '') LIGHT_RED s)) (\<lambda>s.
         Ret (put_text io (quote @ newline) LIGHT_RED s))))
      else Ret s)"

definition write_to ::
  "'d ports \<Rightarrow> u8 list \<Rightarrow> u8 list list \<Rightarrow> u32 \<Rightarrow> mem \<Rightarrow> u32 \<Rightarrow> bool \<Rightarrow> 'd shell \<Rightarrow> (int \<times> 'd shell) run" where
  "write_to io name path num_of_directory buf buffer_size is_directory s =
     (let current_directory_temp = current_directory s; path_temp = current_path s in
      run_bind (change_path io path (sint (if is_directory then num_of_directory - 1 else num_of_directory)) s) (\<lambda>(ret_val, s).
      if ret_val \<noteq> 0 then Ret (ret_val, cancel_change_path current_directory_temp path_temp s)
      else
        run_bind (if is_directory then Ret (0, replicate 9 0, replicate 4 0, s) else shell_parse_file_name io name s)
          (\<lambda>(_, file_name, ext, s).
        let rq = \<lparr>rq_buf = 0, rq_name = (if is_directory then take 8 name else take 8 file_name),
                  rq_ext = (if is_directory then [0, 0, 0] else take 3 ext),
                  rq_parent_cluster_number = current_directory s, rq_buffer_size = buffer_size\<rparr>
        in run_bind (fat_write rq buf (sh_fs s)) (\<lambda>(ret_val, f).
           run_bind (write_to_error io ret_val name path num_of_directory is_directory (set_sh_fs f s)) (\<lambda>s.
           Ret (ret_val, cancel_change_path current_directory_temp path_temp s))))))"

definition contains_invalid_character :: "'d ports \<Rightarrow> u8 list \<Rightarrow> 'd shell \<Rightarrow> (bool \<times> 'd shell) run" where
  "contains_invalid_character io dir_name s =
     run_bind (c_string dir_name) (\<lambda>name.
     if of_char CHR ''.'' \<in> set name then
       Ret (True, put_text io (quote @ '' cannot contain invalid character '' @ quote @ ''.'' @ quote @ newline) LIGHT_RED
                   (put io name LIGHT_RED (put_text io (''error: name of the new directory '' @ quote) LIGHT_RED s)))
     else Ret (False, s))"

definition create_directory :: "'d ports \<Rightarrow> mem \<Rightarrow> u8 list list \<Rightarrow> u32 \<Rightarrow> 'd shell \<Rightarrow> 'd shell run" where
  "create_directory io buf path num_of_directory s =
     run_bind (path_row path (unat (num_of_directory - 1))) (\<lambda>row.
     run_bind (contains_invalid_character io row s) (\<lambda>(bad, s).
     if bad then Ret s
     else run_bind (write_to io row path num_of_directory buf 0 True s) (\<lambda>(_, s). Ret s)))"

definition mkdir :: "'d ports \<Rightarrow> mem \<Rightarrow> u8 list list \<Rightarrow> u8 \<Rightarrow> 'd shell \<Rightarrow> 'd shell run" where
  "mkdir io buf args args_count s =
     (if args_count = 0 then Ret (put_usage io ''missing argument'' ''mkdir <directory_path>'' WHITE s)
      else if args_count = 1 then
        run_bind (parse_path (args ! 0) s) (\<lambda>(path, num_of_directory, s). create_directory io buf path num_of_directory s)
      else Ret (put_usage io ''too many arguments, expected 1 argument'' ''mkdir <directory_path>'' WHITE s))"

definition rm_error :: "'d ports \<Rightarrow> int \<Rightarrow> u8 list \<Rightarrow> u8 list list \<Rightarrow> u32 \<Rightarrow> 'd shell \<Rightarrow> 'd shell run" where
  "rm_error io ret_val file_name path num_of_directory s =
     (if ret_val = 1 then
        run_bind (put_array io file_name LIGHT_RED (put_text io (''error: '' @ quote) LIGHT_RED s)) (\<lambda>s.
        run_bind (put_place io path num_of_directory (put_text io (quote @ '' not found in '') LIGHT_RED s)) (\<lambda>s.
        Ret (put_text io (quote @ newline) LIGHT_RED s)))
      else if ret_val = 2 then
        run_bind (print_path io path (unat (num_of_directory - 1)) LIGHT_RED
          (put_text io (''error: Folder '' @ quote) LIGHT_RED s)) (\<lambda>s.
        Ret (put_text io (quote @ '' is not empty'' @ newline) LIGHT_RED s))
      else Ret s)"

definition rm :: "'d ports \<Rightarrow> u8 list list \<Rightarrow> u8 \<Rightarrow> 'd shell \<Rightarrow> 'd shell run" where
  "rm io args args_count s =
     (if args_count = 0 then Ret (put_usage io ''missing argument'' ''rm <directory_path_to_file><ext>'' LIGHT_GREY s)
      else if args_count = 1 then
        (let current_directory_temp = current_directory s; path_temp = current_path s in
         run_bind (parse_path (args ! 0) s) (\<lambda>(path, num_of_directory, s).
         run_bind (change_path io path (sint (num_of_directory - 1)) s) (\<lambda>(ret_val, s).
         if ret_val \<noteq> 0 then Ret (cancel_change_path current_directory_temp path_temp s)
         else
           run_bind (path_row path (unat (num_of_directory - 1))) (\<lambda>row.
           run_bind (shell_parse_file_name io row s) (\<lambda>(_, file_name, ext, s).
           let rq = \<lparr>rq_buf = 0, rq_name = take 8 file_name, rq_ext = take 3 ext,
                     rq_parent_cluster_number = current_directory s, rq_buffer_size = 0\<rparr>
           in run_bind (Delete rq (sh_fs s)) (\<lambda>(ret_val, f).
              run_bind (rm_error io ret_val file_name path num_of_directory (set_sh_fs f s)) (\<lambda>s.
              Ret (cancel_change_path current_directory_temp path_temp s))))))))
      else Ret (put_usage io ''too many arguments, expected 1 argument'' ''rm <directory_path_to_file><ext>'' LIGHT_GREY s))"

definition cat :: "'d ports \<Rightarrow> mem \<Rightarrow> u8 list list \<Rightarrow> u8 \<Rightarrow> 'd shell \<Rightarrow> 'd shell run" where
  "cat io buffer args args_count s =
     (if args_count = 0 then Ret (put_usage io ''missing argument'' ''cat <directory_path_to_file><ext>'' LIGHT_GREY s)
      else if args_count = 1 then
        run_bind (parse_path (args ! 0) s) (\<lambda>(path, num_of_directory, s).
        run_bind (read_file io path num_of_directory buffer s) (\<lambda>(ret_val, buffer, s).
        if ret_val \<noteq> 0 then Ret s
        else
          run_bind (put_array io (mem_read buffer 0 (CLUSTER_SIZE * 32)) WHITE s) (\<lambda>s.
          Ret (put_text io newline WHITE s))))
      else Ret (put_usage io ''too many arguments, expected 1 argument'' ''cat <directory_path_to_file><ext>'' LIGHT_GREY s))"

text \<open>The scan runs to 64 clusters, but the buffer has 32.\<close>

function find_buffer_size :: "mem \<Rightarrow> nat \<Rightarrow> u32 run" where
  "find_buffer_size buf idx =
     (if idx < 64 then
        if idx \<ge> 32 then Fault Out_Of_Bounds
        else if mem_read buf (of_nat (CLUSTER_SIZE * idx)) CLUSTER_SIZE = replicate CLUSTER_SIZE 0
          then Ret (of_nat (idx * CLUSTER_SIZE))
        else find_buffer_size buf (idx + 1)
      else Ret (of_nat (idx * CLUSTER_SIZE)))"
  by pat_completeness auto
termination by (relation "measure (\<lambda>(b, i). 64 - i)") auto

declare find_buffer_size.simps [simp del]

definition copy_file ::
  "'d ports \<Rightarrow> mem \<Rightarrow> u8 list list \<Rightarrow> u32 \<Rightarrow> u8 list list \<Rightarrow> u32 \<Rightarrow> 'd shell \<Rightarrow> 'd shell run" where
  "copy_file io buffer file_path file_num_of_directory dest_path dest_num_of_directory s =
     run_bind (read_file io file_path file_num_of_directory buffer s) (\<lambda>(ret_val, buffer, s).
     if ret_val \<noteq> 0 then Ret s
     else
       run_bind (find_buffer_size buffer 0) (\<lambda>buffer_size.
       run_bind (path_row file_path (unat (file_num_of_directory - 1))) (\<lambda>row.
       run_bind (write_to io row dest_path dest_num_of_directory buffer buffer_size False s) (\<lambda>(_, s). Ret s))))"

definition cp :: "'d ports \<Rightarrow> mem \<Rightarrow> u8 list list \<Rightarrow> u8 \<Rightarrow> 'd shell \<Rightarrow> 'd shell run" where
  "cp io buffer args args_count s =
     (let usage = ''cp <source_file_directory_path> <dest_directory_path>'' in
      if args_count = 0 then Ret (put_usage io ''missing argument'' usage LIGHT_GREY s)
      else if args_count = 1 then Ret (put_usage io ''too few arguments, expected 2 arguments'' usage LIGHT_GREY s)
      else if args_count = 2 then
        run_bind (parse_path (args ! 0) s) (\<lambda>(file_path, file_num, s).
        run_bind (parse_path (args ! 1) s) (\<lambda>(dest_path, dest_num, s).
        copy_file io buffer file_path file_num dest_path dest_num s))
      else Ret (put_usage io ''too many arguments, expected 2 arguments'' usage LIGHT_GREY s))"

subsection \<open>Listing\<close>

definition print_directory_entry :: "'d ports \<Rightarrow> nat \<Rightarrow> bool \<Rightarrow> 'd shell \<Rightarrow> 'd shell run" where
  "print_directory_entry io idx spaces s =
     (let s = (if spaces then put_text io ''    '' WHITE s else s);
          e = current_dir_table s ! idx
      in if de_attribute e = ATTR_SUBDIRECTORY then put_array io (name_bytes (current_dir_table s) idx) LIGHT_BLUE s
         else
           run_bind (put_array io (zero_padded 9 (take 8 (de_name e))) WHITE s) (\<lambda>s.
           if memcmp_bytes (de_ext e) [0, 0, 0] \<noteq> 0
           then put_array io (zero_padded 4 (take 3 (de_ext e))) WHITE (put_text io ''.'' WHITE s)
           else Ret s))"

function print_entries_from :: "'d ports \<Rightarrow> nat \<Rightarrow> bool \<Rightarrow> 'd shell \<Rightarrow> (bool \<times> 'd shell) run" where
  "print_entries_from io idx found s =
     (if idx < DIR_ENTRY_COUNT then
        if de_user_attribute (current_dir_table s ! idx) = UATTR_NOT_EMPTY
        then run_bind (print_directory_entry io idx True s) (\<lambda>s. print_entries_from io (idx + 1) True s)
        else print_entries_from io (idx + 1) found s
      else Ret (found, s))"
  by pat_completeness auto
termination by (relation "measure (\<lambda>(io, i, f, s). DIR_ENTRY_COUNT - i)") auto

declare print_entries_from.simps [simp del]

definition print_directory_entries :: "'d ports \<Rightarrow> 'd shell \<Rightarrow> 'd shell run" where
  "print_directory_entries io s =
     (let idx = scan_while (\<lambda>i. de_user_attribute (current_dir_table s ! i) \<noteq> UATTR_NOT_EMPTY) 2 DIR_ENTRY_COUNT in
      run_bind
        (if idx < DIR_ENTRY_COUNT
         then run_bind (print_directory_entry io idx False s) (\<lambda>s. print_entries_from io (idx + 1) True s)
         else print_entries_from io idx False s) (\<lambda>(found, s).
      run_bind
        (if \<not> found then
           run_bind (put_array io (name_bytes (current_dir_table s) 0) LIGHT_GREY
             (put_text io (''Current directory '' @ quote) LIGHT_GREY s)) (\<lambda>s.
           Ret (put_text io (quote @ '' is empty'') LIGHT_GREY s))
         else Ret s) (\<lambda>s.
      Ret (put_text io newline WHITE s))))"

definition ls :: "'d ports \<Rightarrow> u8 \<Rightarrow> 'd shell \<Rightarrow> 'd shell run" where
  "ls io args_count s =
     (if args_count = 0 then print_directory_entries io s
      else Ret (put_usage io ''too many arguments, expected 0 argument'' ''ls'' LIGHT_GREY s))"

subsection \<open>Processes\<close>

definition execute_error :: "'d ports \<Rightarrow> int \<Rightarrow> u8 list \<Rightarrow> u8 list \<Rightarrow> u8 list list \<Rightarrow> u32 \<Rightarrow> 'd shell \<Rightarrow> 'd shell run" where
  "execute_error io ret_val file_name ext path num_of_directory s =
     (if ret_val = 0 then Ret s
      else
        let s = put_text io ''error: '' LIGHT_RED s in
        if ret_val = 1 then Ret (put_text io (''maximum active processes exceeded, need to terminate another active process first'' @ newline) LIGHT_RED s)
        else if ret_val = 2 then Ret (put_text io (''invalid entrypoint, access to kernel section is forbidden'' @ newline) LIGHT_RED s)
        else if ret_val = 3 then Ret (put_text io (''not enough available memory, file is too big'' @ newline) LIGHT_RED s)
        else if ret_val = 4 then
          run_bind (put_array io file_name LIGHT_RED
            (put_text io (''read executable file failed, make sure there'' @ quote @ ''s a file named '' @ quote @ newline) LIGHT_RED s)) (\<lambda>s.
          run_bind (c_string ext) (\<lambda>e.
          let s = (if length e \<noteq> 0 then put io e LIGHT_RED (put_text io ''.'' LIGHT_RED s) else s);
              s = put_text io (quote @ '' in '') LIGHT_RED s
          in run_bind
               (if num_of_directory > 2 then
                  run_bind (print_path io path (unat (num_of_directory - 2)) LIGHT_RED (put_text io quote LIGHT_RED s)) (\<lambda>s.
                  Ret (put_text io quote LIGHT_RED s))
                else Ret (put_text io ''current directory'' LIGHT_RED s)) (\<lambda>s.
             Ret (put_text io newline LIGHT_RED s))))
        else Ret s)"

text \<open>\<open>buffer\<close> is the address of the local buffer on the stack of the shell.\<close>

definition execute_program :: "'d ports \<Rightarrow> u32 \<Rightarrow> u8 list list \<Rightarrow> u32 \<Rightarrow> 'd shell \<Rightarrow> 'd shell run" where
  "execute_program io buffer file_path num_of_directory s =
     run_bind (change_path io file_path (sint (num_of_directory - 1)) s) (\<lambda>(ret_val, s).
     if ret_val \<noteq> 0 then Ret s
     else
       run_bind (path_row file_path (unat (num_of_directory - 1))) (\<lambda>row.
       run_bind (shell_parse_file_name io row s) (\<lambda>(ret_val, file_name, ext, s).
       if ret_val \<noteq> 0 then Ret s
       else
         let rq = \<lparr>rq_buf = buffer, rq_name = take 8 file_name, rq_ext = take 3 ext,
                   rq_parent_cluster_number = current_directory s, rq_buffer_size = 0x100000\<rparr>
         in run_bind (process_create_user_process rq (sh_kernel s)) (\<lambda>(ret_val, k).
            execute_error io ret_val file_name ext file_path num_of_directory (s\<lparr>sh_kernel := k\<rparr>)))))"

definition exec :: "'d ports \<Rightarrow> u32 \<Rightarrow> u8 list list \<Rightarrow> u8 \<Rightarrow> 'd shell \<Rightarrow> 'd shell run" where
  "exec io buffer args args_count s =
     (if args_count = 0 then Ret (put_usage io ''missing argument'' ''exec <file_directory_path>'' LIGHT_GREY s)
      else if args_count = 1 then
        run_bind (parse_path (args ! 0) s) (\<lambda>(path, num_of_directory, s). execute_program io buffer path num_of_directory s)
      else Ret (put_usage io ''too many arguments, expected 1 argument'' ''exec <file_directory_path>'' LIGHT_GREY s))"

definition ps :: "'d ports \<Rightarrow> u8 \<Rightarrow> 'd shell \<Rightarrow> 'd shell run" where
  "ps io args_count s =
     (if args_count = 0 then run_bind (print_active_processes io (sh_kernel s)) (\<lambda>k. Ret (s\<lparr>sh_kernel := k\<rparr>))
      else Ret (put_usage io ''too many arguments, expected 0 argument'' ''ps'' LIGHT_GREY s))"

text \<open>\<^verbatim>\<open>char\<close> is signed. A shell that kills itself does not come back from the call.\<close>

definition pid_digit :: "u8 \<Rightarrow> bool" where
  "pid_digit c \<longleftrightarrow> 48 < sint c \<and> sint c \<le> 57"

definition kill :: "'d ports \<Rightarrow> u8 list list \<Rightarrow> u8 \<Rightarrow> 'd shell \<Rightarrow> 'd shell run" where
  "kill io args args_count s =
     (let usage = ''kill <active_process_pid>'' in
      if args_count = 0 then Ret (put_usage io ''missing argument'' usage LIGHT_GREY s)
      else if args_count = 1 then
        run_bind (c_string (args ! 0)) (\<lambda>a.
        if length a > 2 \<or> \<not> pid_digit (args ! 0 ! 0) \<or> (length a = 2 \<and> \<not> pid_digit (args ! 0 ! 1))
        then Ret (put_usage io ''invalid argument'' usage LIGHT_GREY s)
        else
          let pid = args ! 0 ! 0 - 48;
              pid = (if length a > 2 then pid * 10 + (args ! 0 ! 1 - 48) else pid)
          in run_bind (kill_process (scast pid) (sh_kernel s)) (\<lambda>(ret_val, k).
             if length (resumed k) \<noteq> length (resumed (sh_kernel s)) then None
             else
               let s = s\<lparr>sh_kernel := k\<rparr> in
               Ret (if ret_val \<noteq> 0 then put_text io (''error: no such active process with that pid'' @ newline) LIGHT_RED s else s)))
      else Ret (put_usage io ''too many arguments, expected 1 argument'' usage LIGHT_GREY s))"

end
