(* ===== verification/Shell_Move.thy ===== *)
theory Shell_Move
  imports Shell_Files
begin

text \<open>
  The commands \<^verbatim>\<open>find\<close> (\<^verbatim>\<open>src/src/find.c\<close>) and \<^verbatim>\<open>mv\<close> (\<^verbatim>\<open>src/src/mv.c\<close>). Both use variables before they
  are set: the queue of \<^verbatim>\<open>find\<close> and the flag \<^verbatim>\<open>isfile\<close> of \<^verbatim>\<open>mv\<close>; their initial contents are
  parameters.
\<close>

subsection \<open>Find\<close>

definition low_cluster :: "FAT32DirectoryEntry \<Rightarrow> u32" where
  "low_cluster e = ucast (de_cluster_low e)"

partial_function (option) track_loop ::
  "fs_state \<Rightarrow> u32 \<Rightarrow> dir_table \<Rightarrow> nat \<Rightarrow> u8 list list \<Rightarrow> (nat \<times> u8 list list) run" where
  "track_loop f currCluster currDirectory idxListPath listPath =
     (if low_cluster (currDirectory ! 0) \<noteq> 2 then
        let currDirectory = read_table f currCluster in
        if idxListPath < length listPath then
          track_loop f (low_cluster (currDirectory ! 1)) currDirectory (idxListPath + 1)
            (listPath[idxListPath := zero_padded 512 (take 8 (de_name (currDirectory ! 0)))])
        else Fault Out_Of_Bounds
      else Ret (idxListPath, listPath))"

primrec put_track :: "'d ports \<Rightarrow> u8 list list \<Rightarrow> nat \<Rightarrow> 'd shell \<Rightarrow> 'd shell run" where
  "put_track io listPath 0 s = Ret s"
| "put_track io listPath (Suc i) s =
     run_bind (path_row listPath i) (\<lambda>row.
     run_bind (put_array io row WHITE s) (\<lambda>s.
     put_track io listPath i (put_text io ''/'' WHITE s)))"

definition trackToParent :: "'d ports \<Rightarrow> u32 \<Rightarrow> u8 list \<Rightarrow> 'd shell \<Rightarrow> 'd shell run" where
  "trackToParent io currCluster goal s =
     run_bind (track_loop (sh_fs s) currCluster (replicate DIR_ENTRY_COUNT empty_entry) 0 (replicate 512 (replicate 512 0)))
       (\<lambda>(idxListPath, listPath).
     run_bind (put_track io listPath (Suc idxListPath) s) (\<lambda>s.
     run_bind (put_array io goal WHITE s) (\<lambda>s.
     Ret (put_text io newline WHITE s))))"

text \<open>
  The scan of one directory. \<^verbatim>\<open>strlen(currName)\<close> on the 8-byte copy of a name of 8 characters reads
  past the array. New directories are queued from \<^verbatim>\<open>idxQueue + 1\<close> on, over the pending ones.
\<close>

function find_entries ::
  "'d ports \<Rightarrow> u8 list \<Rightarrow> u32 \<Rightarrow> dir_table \<Rightarrow> nat \<Rightarrow> nat \<Rightarrow> int \<Rightarrow> u32 list \<Rightarrow> 'd shell \<Rightarrow> (int \<times> u32 list \<times> 'd shell) run" where
  "find_entries io goal currCluster t index tempIdx count queue s =
     (if index < DIR_ENTRY_COUNT then
        run_bind (c_string (take 8 (de_name (t ! index)))) (\<lambda>currName.
        run_bind (c_string goal) (\<lambda>g.
        run_bind (if length currName = length g \<and> memcmp_bytes currName g = 0
                  then run_bind (trackToParent io currCluster goal s) (\<lambda>s. Ret (count + 1, s)) else Ret (count, s)) (\<lambda>(count, s).
        if de_user_attribute (t ! index) = UATTR_NOT_EMPTY \<and> de_attribute (t ! index) = ATTR_SUBDIRECTORY then
          if tempIdx < length queue
          then find_entries io goal currCluster t (index + 1) (tempIdx + 1) count (queue[tempIdx := low_cluster (t ! index)]) s
          else Fault Out_Of_Bounds
        else find_entries io goal currCluster t (index + 1) tempIdx count queue s)))
      else Ret (count, queue, s))"
  by pat_completeness auto
termination by (relation "measure (\<lambda>(io, g, c, t, i, x, n, q, s). DIR_ENTRY_COUNT - i)") auto

declare find_entries.simps [simp del]

partial_function (option) find_loop ::
  "'d ports \<Rightarrow> u8 list \<Rightarrow> nat \<Rightarrow> int \<Rightarrow> u32 list \<Rightarrow> 'd shell \<Rightarrow> (int \<times> 'd shell) run" where
  "find_loop io goal idxQueue count queue s =
     (if idxQueue < length queue then
        if queue ! idxQueue \<noteq> 0 then
          run_bind (find_entries io goal (queue ! idxQueue) (read_table (sh_fs s) (queue ! idxQueue)) 2 (idxQueue + 1) count queue s)
            (\<lambda>(count, queue, s). find_loop io goal (idxQueue + 1) count queue s)
        else Ret (count, s)
      else Fault Out_Of_Bounds)"

text \<open>\<open>queue\<close> is what the 2048 cells of the local array hold before \<^verbatim>\<open>find\<close> sets its first one.\<close>

definition QUEUE_SIZE :: nat where "QUEUE_SIZE = 2048"

definition find :: "'d ports \<Rightarrow> (nat \<Rightarrow> u32) \<Rightarrow> u8 list list \<Rightarrow> u8 \<Rightarrow> 'd shell \<Rightarrow> 'd shell run" where
  "find io queue args args_count s =
     (if args_count = 0 then Ret (put_usage io ''missing argument'' ''mkdir <directory_path>'' WHITE s)
      else if args_count = 1 then
        run_bind (find_loop io (args ! 0) 0 0 ((map queue [0..<QUEUE_SIZE])[0 := 2]) s) (\<lambda>(count, s).
        if count = 0 then
          run_bind (put_array io (args ! 0) LIGHT_RED
            (put_text io (''error: there are no folder or file with the name '' @ quote) LIGHT_RED s)) (\<lambda>s.
          Ret (put_text io (quote @ newline) LIGHT_RED s))
        else Ret s)
      else Ret (put_usage io ''too many arguments, expected 1 argument'' ''find <file/directory_name>'' WHITE s))"

subsection \<open>Move and rename\<close>

text \<open>
  \<^verbatim>\<open>change_path_mv\<close> declares a local \<^verbatim>\<open>temp_dir_table\<close> (here \<open>t\<close>); \<^verbatim>\<open>change_directory\<close> fills the global one.
\<close>

partial_function (option) change_path_mv_loop ::
  "u8 list list \<Rightarrow> int \<Rightarrow> nat \<Rightarrow> u32 \<Rightarrow> dir_table \<Rightarrow> 'd shell \<Rightarrow> (int \<times> u32 \<times> dir_table \<times> 'd shell) run" where
  "change_path_mv_loop path num_of_directory idx parent t s =
     (if int idx < num_of_directory then
        run_bind (path_row path idx) (\<lambda>row.
        run_bind (c_string row) (\<lambda>name.
        if is_dots name 2 then
          run_bind (c_string (current_path s)) (\<lambda>cur.
          if at_root cur then change_path_mv_loop path num_of_directory idx parent t s
          else
            run_bind (retract_path (current_path s)) (\<lambda>p.
            let parent = entry_cluster (t ! 1)
            in change_path_mv_loop path num_of_directory (idx + 1) parent (update_directory_table parent s) (s\<lparr>current_path := p\<rparr>)))
        else if \<not> is_dots name 1 then
          run_bind (change_directory row parent s) (\<lambda>(err_val, parent, s).
          if err_val = 0 then change_path_mv_loop path num_of_directory (idx + 1) parent t s
          else Ret (err_val, parent, t, s))
        else change_path_mv_loop path num_of_directory (idx + 1) parent t s))
      else Ret (0, parent, t, s))"

definition change_path_mv :: "u8 list list \<Rightarrow> int \<Rightarrow> 'd shell \<Rightarrow> (int \<times> 'd shell) run" where
  "change_path_mv path num_of_directory s =
     (if num_of_directory = 0 then Ret (0, s)
      else
        run_bind (change_path_mv_loop path num_of_directory 0 (current_directory s) (current_dir_table s) s)
          (\<lambda>(err_val, parent, t, s).
        Ret (err_val, if err_val = 0 then s\<lparr>current_dir_table := t, current_directory := parent\<rparr> else s)))"

definition write_table :: "dir_table \<Rightarrow> u32 \<Rightarrow> 'd shell \<Rightarrow> 'd shell" where
  "write_table t c s = set_sh_fs (write_cluster (enc_table t) c (sh_fs s)) s"

definition contains_invalid_char :: "u8 list \<Rightarrow> u8 \<Rightarrow> bool run" where
  "contains_invalid_char dir_name invalid_char = run_bind (c_string dir_name) (\<lambda>n. Ret (invalid_char \<in> set n))"

definition rename :: "'d ports \<Rightarrow> u8 list \<Rightarrow> u8 list \<Rightarrow> 'd shell \<Rightarrow> 'd shell run" where
  "rename io path newName s =
     run_bind (contains_invalid_char newName (of_char CHR ''.'')) (\<lambda>bad.
     if bad then Ret (put_text io (''error: new filename must not contain '' @ quote @ ''.'' @ quote @ newline) LIGHT_RED s)
     else
       run_bind (parse_path path s) (\<lambda>(listPath, num_of_directory, s).
       let clusterInitial = current_directory s; temPath = current_path s in
       run_bind (change_path io listPath (sint (num_of_directory - 1)) s) (\<lambda>(_, s).
       let indexTable = scan_while (\<lambda>i. memcmp_bytes (de_name (current_dir_table s ! i)) (take 8 path) \<noteq> 0) 0 DIR_ENTRY_COUNT in
       run_bind
         (if indexTable = DIR_ENTRY_COUNT then
            run_bind (path_row listPath (unat (num_of_directory - 1))) (\<lambda>row.
            run_bind (put_array io row WHITE (put_text io ''Error: no file/directory '' LIGHT_RED s)) (\<lambda>s.
            Ret (put_text io newline LIGHT_RED s)))
          else
            let t = current_dir_table s;
                t = t[indexTable := (t ! indexTable)\<lparr>de_name := take 8 newName\<rparr>];
                s = write_table t (current_directory s) (s\<lparr>current_dir_table := t\<rparr>)
            in if de_attribute (t ! indexTable) = ATTR_SUBDIRECTORY then
                 let cluster = low_cluster (t ! indexTable);
                     t = update_directory_table cluster s;
                     t = t[0 := (t ! 0)\<lparr>de_name := take 8 newName\<rparr>]
                 in Ret (write_table t cluster (s\<lparr>current_dir_table := t\<rparr>))
               else Ret s) (\<lambda>s.
       Ret (cancel_change_path clusterInitial temPath s)))))"

text \<open>Where the source is: the table and the cluster of its parent directory.\<close>

definition move_parent :: "'d ports \<Rightarrow> u8 list list \<Rightarrow> u32 \<Rightarrow> 'd shell \<Rightarrow> (dir_table \<times> u32 \<times> 'd shell) run" where
  "move_parent io srcPath num_src_directory s =
     (let temPath = current_path s; initialCluster = current_directory s in
      if num_src_directory = 1 then Ret (current_dir_table s, current_directory s, s)
      else
        run_bind (change_path io srcPath (sint (num_src_directory - 1)) s) (\<lambda>(_, s).
        let parentSrc = current_dir_table s; parentSrcCluster = current_directory s in
        run_bind (put_array io (name_bytes parentSrc 0) WHITE s) (\<lambda>s.
        Ret (parentSrc, parentSrcCluster, cancel_change_path initialCluster temPath (put_text io newline WHITE s)))))"

text \<open>The table and the cluster a path leads to, and the state of the shell taken back.\<close>

definition move_target :: "'d ports \<Rightarrow> u8 list list \<Rightarrow> u32 \<Rightarrow> 'd shell \<Rightarrow> (int \<times> dir_table \<times> u32 \<times> 'd shell) run" where
  "move_target io path num_of_directory s =
     (let temPath = current_path s; initialCluster = current_directory s in
      run_bind (change_path io path (sint num_of_directory) s) (\<lambda>(ret, s).
      Ret (ret, current_dir_table s, current_directory s, cancel_change_path initialCluster temPath s)))"

text \<open>The slot search compares the attribute with \<^verbatim>\<open>UATTR_NOT_EMPTY\<close>.\<close>

definition move_slot :: "dir_table \<Rightarrow> nat \<Rightarrow> nat" where
  "move_slot t i = scan_while (\<lambda>i. de_attribute (t ! i) = UATTR_NOT_EMPTY) i DIR_ENTRY_COUNT"

definition move_entries ::
  "bool \<Rightarrow> nat \<Rightarrow> dir_table \<Rightarrow> u32 \<Rightarrow> dir_table \<Rightarrow> u32 \<Rightarrow> dir_table \<Rightarrow> u32 \<Rightarrow> 'd shell \<Rightarrow> 'd shell run" where
  "move_entries isfile idx parentSrc parentSrcCluster srcDirectory srcCluster destDirectory destCluster s =
     (let srcDirectory = (if isfile then srcDirectory else srcDirectory[1 := destDirectory ! 0]);
          s = (if isfile then s else write_table srcDirectory srcCluster s);
          indexTable = move_slot destDirectory 2
      in if indexTable = DIR_ENTRY_COUNT \<or> idx = DIR_ENTRY_COUNT then Fault Out_Of_Bounds
         else
           let destDirectory = destDirectory[indexTable := if isfile then parentSrc ! idx else srcDirectory ! 0];
               parentSrc = parentSrc[idx := empty_entry];
               s = write_table parentSrc parentSrcCluster s
           in Ret (write_table destDirectory destCluster s))"

definition move :: "'d ports \<Rightarrow> bool \<Rightarrow> u8 list \<Rightarrow> u8 list \<Rightarrow> 'd shell \<Rightarrow> 'd shell run" where
  "move io isfile args0 args1 s =
     run_bind (parse_path args1 s) (\<lambda>(destPath, num_dest_directory, s).
     run_bind (parse_path args0 s) (\<lambda>(srcPath, num_src_directory, s).
     run_bind (move_parent io srcPath num_src_directory s) (\<lambda>(parentSrc, parentSrcCluster, s).
     run_bind (path_row srcPath (unat (num_src_directory - 1))) (\<lambda>row.
     let idx = scan_while (\<lambda>i. memcmp_bytes (de_name (parentSrc ! i)) (take 8 row) \<noteq> 0) 2 DIR_ENTRY_COUNT;
         isfile = (if idx < DIR_ENTRY_COUNT then de_attribute (parentSrc ! idx) \<noteq> ATTR_SUBDIRECTORY else isfile)
     in run_bind (if isfile then Ret (0, replicate DIR_ENTRY_COUNT empty_entry, 0, s)
                  else move_target io srcPath num_src_directory s) (\<lambda>(_, srcDirectory, srcCluster, s).
        run_bind (move_target io destPath num_dest_directory s) (\<lambda>(ret, destDirectory, destCluster, s).
        if ret \<noteq> 0 then Ret s
        else
          run_bind
            (if move_slot destDirectory 1 = DIR_ENTRY_COUNT
             then run_bind (put_array io args1 WHITE s) (\<lambda>s. Ret (put_text io ('' is full, mv failed'' @ newline) LIGHT_RED s))
             else move_entries isfile idx parentSrc parentSrcCluster srcDirectory srcCluster destDirectory destCluster s) (\<lambda>s.
          Ret (s\<lparr>current_dir_table := update_directory_table (current_directory s) s\<rparr>))))))))"

definition mv :: "'d ports \<Rightarrow> bool \<Rightarrow> u8 list list \<Rightarrow> u8 \<Rightarrow> 'd shell \<Rightarrow> 'd shell run" where
  "mv io isfile args args_count s =
     (let usage = ''mv <src_directory_path> <dest_directory_path>'' in
      if args_count = 0 then Ret (put_usage io ''missing argument, expected 2 arguments'' usage WHITE s)
      else if args_count = 1 then Ret (put_usage io ''too few arguments, expected 2 arguments'' usage WHITE s)
      else if args_count = 2 then
        (let temPath = current_path s; initialCluster = current_directory s in
         run_bind (parse_path (args ! 1) s) (\<lambda>(destPath, num_dest_directory, s).
         run_bind (change_path_mv destPath (sint num_dest_directory) s) (\<lambda>(ret, s).
         let s = cancel_change_path initialCluster temPath s in
         if ret = 2 then
           if low_cluster (current_dir_table s ! 0) = initialCluster then
             run_bind (path_row destPath (unat (num_dest_directory - 1))) (\<lambda>row. rename io (args ! 0) row s)
           else Ret (put_text io (''error: no such directory with the name '' @ newline) LIGHT_RED s)
         else move io isfile (args ! 0) (args ! 1) s)))
      else Ret (put_usage io ''too many arguments, expected 2 arguments'' usage WHITE s))"

end
