(* ===== verification/Shell_Main.thy ===== *)
theory Shell_Main
  imports Shell_Move
begin

text \<open>
  The command loop of the shell: the prompt, the split of the line and the choice of the
  command.
\<close>

subsection \<open>The command loop\<close>

definition is_command :: "u8 list \<Rightarrow> string \<Rightarrow> nat \<Rightarrow> bool" where
  "is_command c name n \<longleftrightarrow> length c = length name \<and> memcmp_bytes (take n c) (take n (map of_char name)) = 0"

text \<open>
  Contents that no code sets before they are used: the byte behind the buffer of \<^verbatim>\<open>itoa\<close>, the
  local buffer of \<^verbatim>\<open>cat\<close> and \<^verbatim>\<open>cp\<close>, the address of that of \<^verbatim>\<open>exec\<close>, the queue of \<^verbatim>\<open>find\<close>, the flag of \<^verbatim>\<open>mv\<close>.
\<close>

record shell_locals =
  l_after :: u8
  l_buffer :: mem
  l_buffer_addr :: u32
  l_queue :: "nat \<Rightarrow> u32"
  l_isfile :: bool

definition run_command ::
  "'d ports \<Rightarrow> shell_locals \<Rightarrow> int \<Rightarrow> u8 list \<Rightarrow> u8 list list \<Rightarrow> u8 \<Rightarrow> 'd shell \<Rightarrow> 'd shell run" where
  "run_command io l ret_val cmd args args_count s =
     run_bind (c_string cmd) (\<lambda>c.
     if ret_val \<noteq> 0 then Ret (put_text io (''error: too many arguments'' @ newline) LIGHT_RED s)
     else if is_command c ''cd'' 2 then cd io args args_count s
     else if is_command c ''clear'' 5 then
       if args ! 0 ! 0 \<noteq> 0 then Ret (put_usage io ''too many arguments, expected 0 argument'' ''clear'' LIGHT_GREY s)
       else Ret (s\<lparr>sh_kernel := (sh_kernel s)\<lparr>k_console := reset_write_position (framebuffer_clear (k_console (sh_kernel s)))\<rparr>\<rparr>)
     else if is_command c ''ls'' 2 then ls io args_count s
     else if is_command c ''mkdir'' 5 then mkdir io (l_buffer l) args args_count s
     else if is_command c ''cat'' 3 then cat io (l_buffer l) args args_count s
     else if is_command c ''cp'' 2 then cp io (l_buffer l) args args_count s
     else if is_command c ''rm'' 2 then rm io args args_count s
     else if is_command c ''find'' 4 then find io (l_queue l) args args_count s
     else if is_command c ''mv'' 2 then mv io (l_isfile l) args args_count s
     else if is_command c ''exec'' 2 then exec io (l_buffer_addr l) args args_count s
     else if is_command c ''ps'' 2 then ps io args_count s
     else if is_command c ''kill'' 2 then kill io args args_count s
     else if is_command c ''clock'' 5 then
       run_bind (sys_clock io (l_after l) (sh_kernel s)) (\<lambda>k. Ret (s\<lparr>sh_kernel := k\<rparr>))
     else if c \<noteq> [] then
       Ret (put_text io (quote @ newline) LIGHT_RED (put io c LIGHT_RED
             (put_text io (''error: no such command with the name '' @ quote) LIGHT_RED s)))
     else Ret s)"

definition prompt :: "'d ports \<Rightarrow> 'd shell \<Rightarrow> 'd shell run" where
  "prompt io s =
     run_bind (put_array io (current_path s) LIGHT_BLUE
       (put_text io '':'' DARK_GREY (put_text io ''os2024-semogakelar'' LIGHT_GREEN s))) (\<lambda>s.
     let s = put_text io ''$ '' DARK_GREY s in
     Ret (s\<lparr>sh_kernel := (sh_kernel s)\<lparr>k_console := keyboard_state_activate (k_console (sh_kernel s))\<rparr>\<rparr>))"

text \<open>
  The input of a round are the polls of the keyboard (\<open>Shell_Text\<close>); the echo of the keys is on the
  screen before the command runs. Input is off from the line end to the next prompt: the driver
  drops the keys that come in between without showing them.
\<close>

definition main_iteration ::
  "'d ports \<Rightarrow> shell_locals \<Rightarrow> nat list \<times> 'd shell \<Rightarrow> (nat list \<times> 'd shell) run" where
  "main_iteration io l = (\<lambda>(polls, s).
     run_bind (prompt io s) (\<lambda>s.
     run_bind (get_input io polls (replicate 2048 0) (k_console (sh_kernel s))) (\<lambda>(buf_input, polls, c).
     let s = s\<lparr>sh_kernel := (sh_kernel s)\<lparr>k_console := c\<rparr>\<rparr> in
     run_bind (parse_input buf_input (replicate 512 0) (replicate 1024 0) 0) (\<lambda>(ret_val, cmd, args, args_count).
     run_bind (run_command io l ret_val cmd [take 512 args, drop 512 args] args_count s) (\<lambda>s.
     Ret (polls, s))))))"

definition main_start :: "'d kernel \<Rightarrow> 'd shell" where
  "main_start k = \<lparr>current_directory = ROOT_CLUSTER_NUMBER, current_path = (replicate 512 0)[0 := of_char CHR ''/''],
     current_dir_table = read_table (k_fs k) ROOT_CLUSTER_NUMBER, temp_dir_table = replicate DIR_ENTRY_COUNT empty_entry,
     sh_kernel = k\<rparr>"

text \<open>Some rounds of the endless loop; what the locals of the commands hold differs from round to round.\<close>

primrec main_loop ::
  "'d ports \<Rightarrow> shell_locals list \<Rightarrow> nat list \<times> 'd shell \<Rightarrow> (nat list \<times> 'd shell) run" where
  "main_loop io [] x = Ret x"
| "main_loop io (l # locals) x = run_bind (main_iteration io l x) (main_loop io locals)"

end
