(* ===== verification/Shell_Line.thy ===== *)
theory Shell_Line
  imports Shell_Main
begin

text \<open>
  From the keyboard to a command: one round of the command loop on the keys of one line.
\<close>

lemma edit_no_nul: "0 \<notin> set line \<Longrightarrow> 0 \<notin> set (edit line keys)"
  by (induction keys arbitrary: line) (auto dest: in_set_butlastD)

lemma edit_length: "edit_room n line keys \<Longrightarrow> length (edit line keys) < n"
  by (induction keys arbitrary: line) auto

lemma holds_padded: "0 \<notin> set line \<Longrightarrow> length line < n \<Longrightarrow> holds_line (zero_padded n line) line"
  by (auto simp: holds_line_def zero_padded_def Suc_diff_Suc simp flip: replicate_Suc intro!: exI [of _ "replicate (n - Suc (length line)) 0"])

lemma main_iteration_line:
  assumes "edit_room 2048 [] keys" "10 \<notin> set keys" and pr: "prompt io s = Ret s0"
    and polls: "poll_keys io polls (k_console (sh_kernel s0)) = (keys @ [10], c)" and ws: "words_of (edit [] keys) = ws"
    and short: "\<forall>i<3. length (nth_word ws i) < 512"
  shows "main_iteration io l (polls @ rest, s) =
    run_bind (run_command io l (if 3 < length ws then -1 else 0) (zero_padded 512 (nth_word ws 0))
        [zero_padded 512 (nth_word ws 1), zero_padded 512 (nth_word ws 2)] (of_nat (min 2 (length ws - 1)))
        (s0\<lparr>sh_kernel := (sh_kernel s0)\<lparr>k_console := c\<rparr>\<rparr>)) (\<lambda>s. Ret (rest, s))"
proof -
  have g: "get_input io (polls @ rest) (replicate 2048 0) (k_console (sh_kernel s0)) = Ret (zero_padded 2048 (edit [] keys), rest, c)"
    using get_input_loop_edit [OF assms(1,2) polls, of rest] by (simp add: get_input_def zero_padded_def)
  have "holds_line (zero_padded 2048 (edit [] keys)) (edit [] keys)"
    using edit_no_nul [of "[]" keys] edit_length [OF assms(1)] by (intro holds_padded) simp_all
  from parse_input_result [OF this] ws short
  have p: "parse_input (zero_padded 2048 (edit [] keys)) (replicate 512 0) (replicate 1024 0) 0 =
     Ret (if 3 < length ws then -1 else 0, zero_padded 512 (nth_word ws 0),
          zero_padded 512 (nth_word ws 1) @ zero_padded 512 (nth_word ws 2), of_nat (min 2 (length ws - 1)))"
    by (simp add: Let_def)
  have "length (nth_word ws 1) \<le> 512" using short by (simp add: order.strict_implies_order)
  then show ?thesis unfolding main_iteration_def split_conv pr g p run_bind_simps Let_def by simp
qed

lemma words_of_word: "w \<noteq> [] \<Longrightarrow> 32 \<notin> set w \<Longrightarrow> words_of (w @ 32 # s) = w # words_of s"
proof -
  assume w: "w \<noteq> []" "32 \<notin> set w"
  have "takeWhile (\<lambda>c. c \<noteq> 32) (w @ 32 # s) = w" "dropWhile (\<lambda>c. c \<noteq> 32) (w @ 32 # s) = 32 # s"
    using w(2) by (auto simp: takeWhile_append dropWhile_append intro!: takeWhile_eq_all_conv [THEN iffD2])
  moreover have "dropWhile (\<lambda>c. c = 32) (w @ 32 # s) = w @ 32 # s" using w by (cases w) auto
  moreover have "words_of (32 # s) = words_of s"
    by (subst (1 2) words_of.simps) simp
  ultimately show ?thesis using w by (subst words_of.simps) (simp add: Let_def)
qed

lemma words_of_last: "w \<noteq> [] \<Longrightarrow> 32 \<notin> set w \<Longrightarrow> words_of w = [w]"
proof -
  assume w: "w \<noteq> []" "32 \<notin> set w"
  have "takeWhile (\<lambda>c. c \<noteq> 32) w = w" "dropWhile (\<lambda>c. c \<noteq> 32) w = []"
    using w(2) by (auto simp: takeWhile_eq_all_conv dropWhile_eq_Nil_conv)
  moreover have "dropWhile (\<lambda>c. c = 32) w = w" using w by (cases w) auto
  moreover have "words_of [] = []" by (subst words_of.simps) simp
  ultimately show ?thesis using w by (subst words_of.simps) (simp add: Let_def del: dropWhile_eq_Nil_conv takeWhile_eq_all_conv)
qed

end
