(* ===== verification/Shell_Walk.thy ===== *)
theory Shell_Walk
  imports Shell_Main Process_Props
begin

text \<open>
  Changing directories against an abstract walk through the directory tables of a
  well-formed file system: what \<^verbatim>\<open>change_path\<close> does with a list of components, on every outcome.
\<close>

subsection \<open>The walk\<close>

definition dir_name :: "dir_table \<Rightarrow> u8 list" where
  "dir_name t = takeWhile (\<lambda>c. c \<noteq> 0) (enc_table t)"

definition lookup_dir :: "dir_table \<Rightarrow> u8 list \<Rightarrow> int + nat" where
  "lookup_dir t x =
     (let i = scan_while (\<lambda>i. de_name (t ! i) \<noteq> take 8 (zero_padded 512 x)) 2 64 in
      if i = 64 then Inl 2 else if \<not> is_dir (t ! i) then Inl 1 else Inr (unat (entry_cluster (t ! i))))"

datatype outcome = Arrived "u8 list list" nat | Refused int | Endless

text \<open>A place is a path, as the names on the way from the root, and a directory.\<close>

fun walk :: "tables \<Rightarrow> u8 list list \<Rightarrow> u8 list list \<Rightarrow> nat \<Rightarrow> outcome" where
  "walk T [] ns d = Arrived ns d"
| "walk T (x # xs) ns d =
     (if x = [46, 46] then if ns = [] then Endless else walk T xs (butlast ns) (unat (entry_cluster (T d ! 1)))
      else if x = [46] then walk T xs ns d
      else case lookup_dir (T d) x of
             Inl e \<Rightarrow> Refused e
           | Inr c \<Rightarrow> walk T xs (ns @ [dir_name (T c)]) c)"

text \<open>The path leads to the directory: every step is a folder entry of the directory before.\<close>

inductive dir_path :: "nat set \<Rightarrow> tables \<Rightarrow> u8 list list \<Rightarrow> nat \<Rightarrow> bool" for D T where
  root: "dir_path D T [] 2"
| step: "dir_path D T ns d \<Longrightarrow> (d, i) \<in> slots D T \<Longrightarrow> is_dir (T d ! i) \<Longrightarrow> entry_cluster (T d ! i) = of_nat c \<Longrightarrow> c \<in> D \<Longrightarrow>
     dir_path D T (ns @ [dir_name (T c)]) c"

inductive_cases dir_path_NilE: "dir_path D T [] d"
inductive_cases dir_path_snocE: "dir_path D T (ns @ [n]) d"

definition plain_names :: "nat set \<Rightarrow> tables \<Rightarrow> bool" where
  "plain_names D T \<longleftrightarrow> (\<forall>c\<in>D. c \<noteq> 2 \<longrightarrow> good_name (dir_name (T c)))"

definition short_paths :: "nat set \<Rightarrow> tables \<Rightarrow> bool" where
  "short_paths D T \<longleftrightarrow> (\<forall>ns d. dir_path D T ns d \<longrightarrow> length (path_string ns) < 512)"

lemma unat_dir: "fs_inv D own f \<Longrightarrow> c \<in> D \<Longrightarrow> unat (of_nat c :: u32) = c"
  using tree_invD(4) [OF fs_invD(5)] by (fastforce simp: unat_of_nat)

lemma lookup_dir_step:
  assumes inv: "fs_inv D own f" and d: "d \<in> D" and l: "lookup_dir (tables f d) x = Inr c"
  obtains i where "(d, i) \<in> slots D (tables f)" "is_dir (tables f d ! i)" "entry_cluster (tables f d ! i) = of_nat c" "c \<in> D"
    "c \<noteq> 2"
proof -
  define i where "i = scan_while (\<lambda>i. de_name (tables f d ! i) \<noteq> take 8 (zero_padded 512 x)) 2 64"
  have e: "i \<noteq> 64" "is_dir (tables f d ! i)" "c = unat (entry_cluster (tables f d ! i))"
    using l by (auto simp: lookup_dir_def i_def Let_def split: if_splits)
  have i: "2 \<le> i" "i < 64" unfolding i_def using scan_while_bounds [of 2 64] e(1) by (auto simp: i_def le_neq_implies_less)
  note e = e(2,3)
  have u: "used (tables f d ! i)"
  proof (rule ccontr)
    assume "\<not> used (tables f d ! i)"
    from table_okD(4) [OF tree_invD(5) [OF fs_invD(5) [OF inv] d] i this] e(1) show False
      by (simp add: is_dir_def empty_entry_def)
  qed
  then have s: "(d, i) \<in> slots D (tables f)" using i d by (simp add: slots_def)
  note ok = entry_okD [OF tree_invD(6) [OF fs_invD(5) [OF inv] s]]
  have "hd (own (d, i)) \<in> D" using tree_invD(8) [OF fs_invD(5) [OF inv] s] e(1) by simp
  moreover have "hd (own (d, i)) \<noteq> 2" using ok(2,3) hd_in_set by fastforce
  moreover have "hd (own (d, i)) = c" using ok(7) unat_dir [OF inv] e(2) calculation(1) by simp
  ultimately show thesis using that s e(1) ok(7) by simp
qed

lemma parent_step:
  assumes inv: "fs_inv D own f" and s: "(d, i) \<in> slots D (tables f)" "is_dir (tables f d ! i)" "entry_cluster (tables f d ! i) = of_nat c" "c \<in> D"
  shows "entry_cluster (tables f c ! 1) = of_nat d" "d \<in> D"
proof -
  note ok = entry_okD [OF tree_invD(6) [OF fs_invD(5) [OF inv] s(1)]]
  have "hd (own (d, i)) \<in> D" using tree_invD(8) [OF fs_invD(5) [OF inv] s(1)] s(2) by simp
  moreover have "hd (own (d, i)) = c" using ok(7) unat_dir [OF inv] s calculation by (metis fst_conv snd_conv)
  ultimately show "entry_cluster (tables f c ! 1) = of_nat d" using tree_invD(9) [OF fs_invD(5) [OF inv] s(1)] s(2) by simp
  show "d \<in> D" using s(1) by (simp add: slots_def)
qed

lemma dir_path_in: "fs_inv D own f \<Longrightarrow> dir_path D (tables f) ns d \<Longrightarrow> d \<in> D"
  by (erule dir_path.cases) (use tree_invD(3) [OF fs_invD(5)] in auto)

lemma dir_path_up:
  assumes inv: "fs_inv D own f" and p: "dir_path D (tables f) ns d" "ns \<noteq> []"
  shows "dir_path D (tables f) (butlast ns) (unat (entry_cluster (tables f d ! 1)))"
    "of_nat (unat (entry_cluster (tables f d ! 1))) = entry_cluster (tables f d ! 1)"
  using p(1)
proof cases
  case (step ns' d' i)
  note P = parent_step [OF inv step(3-6)]
  then show "dir_path D (tables f) (butlast ns) (unat (entry_cluster (tables f d ! 1)))"
    using step unat_dir [OF inv P(2)] by simp
qed (use p(2) in simp_all)

lemma dir_path_names:
  assumes inv: "fs_inv D own f" and pl: "plain_names D (tables f)" and p: "dir_path D (tables f) ns d"
  shows "\<forall>n\<in>set ns. good_name n"
  using p
proof induction
  case (step ns d i c)
  have "c \<noteq> 2"
    using entry_okD(3,7) [OF tree_invD(6) [OF fs_invD(5) [OF inv] step(2)]] tree_invD(8) [OF fs_invD(5) [OF inv] step(2)] step(3,4)
      unat_dir [OF inv] step(5) entry_okD(2) [OF tree_invD(6) [OF fs_invD(5) [OF inv] step(2)]]
    by (metis fst_conv hd_in_set snd_conv)
  then show ?case using step pl by (auto simp: plain_names_def)
qed simp

subsection \<open>Entering a directory\<close>

lemma high_half: "entry_cluster e = of_nat c \<Longrightarrow> c < 65536 \<Longrightarrow> de_cluster_high e = 0"
proof -
  assume e: "entry_cluster e = of_nat c" and c: "c < 65536"
  have "ucast (de_cluster_high e) = drop_bit 16 (entry_cluster e)"
    unfolding entry_cluster_def by (rule bit_word_eqI) (auto simp: bit_simps dest: bit_imp_le_length)
  also have "\<dots> = 0"
    using c by (simp add: e word_unat_eq_iff unat_drop_bit_eq unat_of_nat drop_bit_eq_div unat_div)
  finally have "ucast (de_cluster_high e) = (0 :: u32)" .
  moreover have "de_cluster_high e = ucast (ucast (de_cluster_high e) :: u32)"
    by (rule bit_word_eqI) (auto simp: bit_simps)
  ultimately show ?thesis by simp
qed

lemma dir_name_string:
  assumes inv: "fs_inv D own f" and c: "c \<in> D"
  shows "c_string (name_bytes (tables f c) 0) = Ret (dir_name (tables f c))"
proof -
  have t: "table_ok c (tables f c)" using tree_invD(5) [OF fs_invD(5) [OF inv] c] .
  have "c < 512" using tree_invD(4) [OF fs_invD(5) [OF inv]] c by auto
  then have "de_cluster_high (tables f c ! 0) = 0" using high_half [OF table_okD(3) [OF t]] by simp
  then have "0 \<in> set (enc_entry (tables f c ! 0))" by (simp add: enc_entry_def enc_u16_def)
  moreover have "tables f c ! 0 \<in> set (tables f c)" using wf_table_length [OF table_okD(1) [OF t]] by (intro nth_mem) simp
  ultimately have "0 \<in> set (enc_table (tables f c))" by (auto simp: enc_array_def)
  then show ?thesis by (simp add: c_string_def name_bytes_def dir_name_def)
qed

lemma table_in_buffer:
  "wf_table t \<Longrightarrow> dec_table (mem_read (mem_write m 0 (enc_table t)) 0 CLUSTER_SIZE) = t"
  using mem_read_write_same [of "enc_table t" m 0] by (simp add: layout_simps)

lemma change_directory_result:
  fixes s :: "'d shell"
  assumes inv: "fs_inv D own (sh_fs s)" and d: "d \<in> D" and temp: "wf_table (temp_dir_table s)"
    and x: "length x < 512"
    and path: "current_path s = zero_padded 512 (path_string ns)" "\<forall>n\<in>set ns. good_name n" "plain_names D (tables (sh_fs s))"
    and short: "\<And>c. lookup_dir (tables (sh_fs s) d) x = Inr c \<Longrightarrow> length (path_string (ns @ [dir_name (tables (sh_fs s) c)])) < 512"
  shows "change_directory (zero_padded 512 x) (of_nat d) s =
    (case lookup_dir (tables (sh_fs s) d) x of
       Inl e \<Rightarrow> Ret (e, of_nat d, s)
     | Inr c \<Rightarrow> Ret (0, of_nat c, s\<lparr>temp_dir_table := tables (sh_fs s) c,
         current_path := zero_padded 512 (path_string (ns @ [dir_name (tables (sh_fs s) c)]))\<rparr>))"
proof -
  let ?T = "tables (sh_fs s)" and ?m = "mem_write (\<lambda>_. 0) 0 (enc_table (temp_dir_table s))"
  define rq where "rq = \<lparr>rq_buf = 0, rq_name = take 8 (zero_padded 512 x), rq_ext = [0, 0, 0],
      rq_parent_cluster_number = of_nat d, rq_buffer_size = of_nat CLUSTER_SIZE\<rparr>"
  define i where "i = scan_while (\<lambda>i. de_name (?T d ! i) \<noteq> take 8 (zero_padded 512 x)) 2 64"
  have t: "table_ok d (?T d)" using tree_invD(5) [OF fs_invD(5) [OF inv] d] .
  have m: "name_matches (?T d ! j) rq \<longleftrightarrow> de_name (?T d ! j) = take 8 (zero_padded 512 x)" if "j < 64" for j
    using wf_table_nth [OF table_okD(1) [OF t]] that x by (simp add: name_matches_def rq_def wf_entry_def)
  have sc: "scan_while (\<lambda>i. \<not> name_matches (?T d ! i) rq) 2 64 = i"
    unfolding i_def by (rule scan_while_cong) (use m in auto)
  have rd: "read_directory rq (sh_fs s) ?m = (case lookup_dir (?T d) x of Inl e \<Rightarrow> (e, ?m)
      | Inr c \<Rightarrow> (0, mem_write ?m 0 (read_clusters (entry_cluster (?T d ! i)) 1 (fs_disk (sh_fs s)))))"
    using table_okD(2) [OF t] sc
    by (simp add: read_directory_def lookup_dir_def is_dir_def Let_def flip: i_def) (simp add: rq_def)
  show ?thesis
  proof (cases "lookup_dir (?T d) x")
    case (Inl e)
    then have "e \<noteq> 0" by (auto simp: lookup_dir_def Let_def split: if_splits)
    then show ?thesis unfolding change_directory_def Let_def rq_def [symmetric] rd
      using Inl table_in_buffer [OF temp] by simp
  next
    case (Inr c)
    obtain k where k: "(d, k) \<in> slots D ?T" "is_dir (?T d ! k)" "entry_cluster (?T d ! k) = of_nat c" "c \<in> D" "c \<noteq> 2"
      by (rule lookup_dir_step [OF inv d Inr])
    have ec: "entry_cluster (?T d ! i) = of_nat c"
      using Inr unat_dir [OF inv k(4)] by (auto simp: lookup_dir_def Let_def i_def [symmetric] split: if_splits)
    have tc: "table_ok c (?T c)" using tree_invD(5) [OF fs_invD(5) [OF inv] k(4)] .
    have buf: "dec_table (mem_read (mem_write ?m 0 (read_clusters (of_nat c) 1 (fs_disk (sh_fs s)))) 0 CLUSTER_SIZE) = ?T c"
      using mem_read_write_same [of "read_clusters (of_nat c) 1 (fs_disk (sh_fs s))" ?m 0] length_read_cluster [OF fs_invD(1) [OF inv]]
      by (simp)
    have app: "append_path (dir_name (?T c)) (current_path s) = Ret (zero_padded 512 (path_string (ns @ [dir_name (?T c)])))"
      unfolding path(1) using path(2,3) k(4,5) short [OF Inr] by (intro append_path_result) (auto simp: plain_names_def)
    show ?thesis unfolding change_directory_def Let_def rq_def [symmetric] rd
      using Inr ec buf app dir_name_string [OF inv k(4)] table_okD(3) [OF tc] by simp
  qed
qed

subsection \<open>Messages\<close>

text \<open>Output changes nothing but the console.\<close>

definition same_shell :: "'d shell \<Rightarrow> 'd shell \<Rightarrow> bool" where
  "same_shell s s' \<longleftrightarrow> (\<exists>c. s' = s\<lparr>sh_kernel := (sh_kernel s)\<lparr>k_console := c\<rparr>\<rparr>)"

lemma same_shellD:
  assumes "same_shell s s'"
  shows "current_directory s' = current_directory s" "current_path s' = current_path s"
    "current_dir_table s' = current_dir_table s" "temp_dir_table s' = temp_dir_table s" "sh_fs s' = sh_fs s"
  using assms by (auto simp: same_shell_def)

lemma same_shell_refl [simp]: "same_shell s s"
  unfolding same_shell_def by (rule exI [of _ "k_console (sh_kernel s)"]) simp

lemma same_shell_put: "same_shell s s' \<Longrightarrow> same_shell s (put io str color s')"
  by (auto simp: same_shell_def put_def)

definition plain_rows :: "u8 list list \<Rightarrow> bool" where
  "plain_rows cs \<longleftrightarrow> length cs \<le> 512 \<and> (\<forall>x\<in>set cs. length x < 512 \<and> 0 \<notin> set x)"

lemma row_string:
  assumes "plain_rows cs" "i < length cs"
  shows "path_row (rows cs) i = Ret (zero_padded 512 (cs ! i))" "c_string (zero_padded 512 (cs ! i)) = Ret (cs ! i)"
  using assms nth_mem [OF assms(2)]
  by (auto simp: plain_rows_def path_row_def rows_nth intro!: c_string_zero_padded)

lemma put_row:
  assumes "plain_rows cs" "i < length cs" "same_shell s s'"
  shows "\<exists>s''. put_array io (zero_padded 512 (cs ! i)) color s' = Ret s'' \<and> same_shell s s''"
  using row_string(2) [OF assms(1,2)] assms(3) by (simp add: put_array_def same_shell_put)

lemma print_path_rest_same:
  assumes "plain_rows cs" "same_shell s s'"
  shows "i < length cs \<Longrightarrow> \<exists>s''. print_path_rest io (rows cs) i color s' = Ret s'' \<and> same_shell s s''"
proof (induction i)
  case (Suc i)
  then obtain s1 where s1: "print_path_rest io (rows cs) i color s' = Ret s1" "same_shell s s1" by auto
  obtain s2 where "put_array io (zero_padded 512 (cs ! Suc i)) color (put_text io ''/'' color s1) = Ret s2" "same_shell s s2"
    using put_row [OF assms(1) Suc.prems same_shell_put [OF s1(2)]] by blast
  then show ?case using s1 row_string(1) [OF assms(1) Suc.prems] by simp
qed (use assms in simp)

lemma print_path_same:
  assumes "plain_rows cs" "i < length cs" "same_shell s s'"
  shows "\<exists>s''. print_path io (rows cs) i color s' = Ret s'' \<and> same_shell s s''"
proof -
  have 0: "0 < length cs" using assms(2) by linarith
  obtain s1 where s1: "put_array io (zero_padded 512 (cs ! 0)) color s' = Ret s1" "same_shell s s1"
    using put_row [OF assms(1) 0 assms(3)] by blast
  obtain s2 where s2: "print_path_rest io (rows cs) i color s1 = Ret s2" "same_shell s s2"
    using print_path_rest_same [OF assms(1) s1(2) assms(2)] by blast
  obtain s3 where s3: "print_path_rest io (rows cs) i color s' = Ret s3" "same_shell s s3"
    using print_path_rest_same [OF assms(1,3,2)] by blast
  show ?thesis
    using row_string(1) [OF assms(1) 0] s1 s2 s3 by (simp add: print_path_def)
qed

lemma change_path_error_same:
  assumes "plain_rows cs" "i < length cs"
  shows "\<exists>s'. change_path_error io e (rows cs) i s = Ret s' \<and> same_shell s s'"
proof -
  have row: "rows cs ! i = zero_padded 512 (cs ! i)" using assms by (simp add: rows_nth plain_rows_def)
  let ?p = "\<lambda>str. put_text io str LIGHT_RED"
  obtain a where a: "print_path io (rows cs) i LIGHT_RED (?p (''error: '' @ quote) s) = Ret a" "same_shell s a"
    using print_path_same [OF assms same_shell_put [OF same_shell_refl]] by blast
  obtain b where b: "put_array io (rows cs ! i) LIGHT_RED (?p (''error: no such directory with the name '' @ quote) s) = Ret b"
      "same_shell s b"
    using put_row [OF assms same_shell_put [OF same_shell_refl]] unfolding row by blast
  have "\<exists>c. print_path io (rows cs) (i - 1) LIGHT_RED (?p quote (?p (quote @ '' in '') b)) = Ret c \<and> same_shell s c"
    using print_path_same [OF assms(1) _ same_shell_put [OF same_shell_put [OF b(2)]]] assms(2) by simp
  then obtain c where c: "print_path io (rows cs) (i - 1) LIGHT_RED (?p quote (?p (quote @ '' in '') b)) = Ret c" "same_shell s c"
    by blast
  show ?thesis unfolding change_path_error_def
    using a b c by (auto simp: Let_def same_shell_put)
qed

subsection \<open>The loop follows the walk\<close>

definition stuck_at_root :: "u8 list list \<Rightarrow> int \<Rightarrow> nat \<Rightarrow> 'd shell \<Rightarrow> bool" where
  "stuck_at_root path n idx s \<longleftrightarrow> int idx < n \<and>
     (\<exists>row x cur. path_row path idx = Ret row \<and> c_string row = Ret x \<and> is_dots x 2 \<and>
        c_string (current_path s) = Ret cur \<and> at_root cur)"

lemma change_path_loop_stuck:
  assumes "stuck_at_root path n idx s"
  shows "change_path_loop io path n idx parent s = None"
proof (cases "change_path_loop io path n idx parent s")
  case (Some y)
  then have "\<not> stuck_at_root path n idx s"
    by (rule change_path_loop.raw_induct [where P = "\<lambda>io path n idx parent s y. \<not> stuck_at_root path n idx s", rotated])
      (auto simp: stuck_at_root_def)
  then show ?thesis using assms by simp
qed

definition keeps_place :: "'d shell \<Rightarrow> 'd shell \<Rightarrow> bool" where
  "keeps_place s s' \<longleftrightarrow> current_directory s' = current_directory s \<and> current_dir_table s' = current_dir_table s \<and> sh_fs s' = sh_fs s"

definition loop_outcome :: "nat set \<Rightarrow> 'd shell \<Rightarrow> outcome \<Rightarrow> (int \<times> u32 \<times> 'd shell) run \<Rightarrow> bool" where
  "loop_outcome D s w r \<longleftrightarrow>
     (case w of
        Endless \<Rightarrow> r = None
      | Refused e \<Rightarrow> e \<noteq> 0 \<and> (\<exists>p s'. r = Ret (e, p, s') \<and> keeps_place s s')
      | Arrived ns d \<Rightarrow> \<exists>s'. r = Ret (0, of_nat d, s') \<and> keeps_place s s' \<and> sh_kernel s' = sh_kernel s \<and> temp_dir_table s' = tables (sh_fs s) d \<and>
          current_path s' = zero_padded 512 (path_string ns) \<and> dir_path D (tables (sh_fs s)) ns d)"

lemma loop_outcome_keeps: "keeps_place s s' \<Longrightarrow> sh_kernel s' = sh_kernel s \<Longrightarrow> loop_outcome D s' w r \<Longrightarrow> loop_outcome D s w r"
  by (auto simp: loop_outcome_def keeps_place_def split: outcome.splits)

lemma is_dots_iff: "is_dots x 2 \<longleftrightarrow> x = [46, 46]" "is_dots x 1 \<longleftrightarrow> x = [46]"
proof -
  have "replicate 2 (of_char CHR ''.'') = [46, 46 :: u8]" "replicate 1 (of_char CHR ''.'') = [46 :: u8]"
    by (simp_all add: numeral_2_eq_2)
  then show "is_dots x 2 \<longleftrightarrow> x = [46, 46]" "is_dots x 1 \<longleftrightarrow> x = [46]"
    by (auto simp: is_dots_def)
qed

lemma at_root_iff:
  assumes "\<forall>n\<in>set ns. good_name n"
  shows "at_root (path_string ns) \<longleftrightarrow> ns = []"
  using path_string_length_1 [OF assms] by (auto simp: at_root_def path_string_def)

text \<open>The file system, the names in it and the components are fixed for the walk.\<close>

definition walk_setting :: "nat set \<Rightarrow> (slot \<Rightarrow> nat list) \<Rightarrow> fs_state \<Rightarrow> u8 list list \<Rightarrow> bool" where
  "walk_setting D own f cs \<longleftrightarrow> fs_inv D own f \<and> plain_names D (tables f) \<and> short_paths D (tables f) \<and> plain_rows cs"

text \<open>One round of the loop, for each kind of component.\<close>

lemma loop_up:
  assumes R: "plain_rows cs" "idx < length cs" "cs ! idx = [46, 46]" "idx < n"
    and g: "\<forall>n\<in>set ns. good_name n" "length (path_string ns) < 512" "current_path s = zero_padded 512 (path_string ns)"
  shows "change_path_loop io (rows cs) (int n) idx parent s =
    (if ns = [] then None
     else change_path_loop io (rows cs) (int n) (Suc idx) (entry_cluster (temp_dir_table s ! 1))
       (s\<lparr>temp_dir_table := read_table (sh_fs s) (entry_cluster (temp_dir_table s ! 1)),
          current_path := zero_padded 512 (path_string (butlast ns))\<rparr>))"
proof -
  note row = row_string [OF R(1,2)]
  have cur: "c_string (current_path s) = Ret (path_string ns)"
    unfolding g(3) by (rule c_string_zero_padded [OF path_string_nonzero [OF g(1)] g(2)])
  show ?thesis
  proof (cases "ns = []")
    case True
    then have "stuck_at_root (rows cs) (int n) idx s"
      unfolding stuck_at_root_def using row cur R at_root_iff [OF g(1)] is_dots_iff(1) by auto
    from change_path_loop_stuck [OF this] show ?thesis using True by simp
  next
    case False
    have "retract_path (current_path s) = Ret (zero_padded 512 (path_string (butlast ns)))"
      unfolding g(3) using retract_path_result [of "butlast ns" "last ns" 512] g False by simp
    then show ?thesis using row cur R False at_root_iff [OF g(1)] is_dots_iff(1)
      by (subst change_path_loop.simps) (simp add: Let_def update_directory_table_def)
  qed
qed

lemma loop_here:
  assumes "plain_rows cs" "idx < length cs" "cs ! idx = [46]" "idx < n"
  shows "change_path_loop io (rows cs) (int n) idx parent s =
    change_path_loop io (rows cs) (int n) (Suc idx) parent s"
  using row_string [OF assms(1,2)] assms is_dots_iff by (subst change_path_loop.simps) simp

lemma loop_down:
  assumes R: "plain_rows cs" "idx < length cs" "cs ! idx \<noteq> [46, 46]" "cs ! idx \<noteq> [46]" "idx < n"
  shows "change_directory (zero_padded 512 (cs ! idx)) parent s = Ret (0, parent', s') \<Longrightarrow>
      change_path_loop io (rows cs) (int n) idx parent s =
      change_path_loop io (rows cs) (int n) (Suc idx) parent' s'"
    "change_directory (zero_padded 512 (cs ! idx)) parent s = Ret (e, parent', s') \<Longrightarrow> e \<noteq> 0 \<Longrightarrow>
      \<exists>s''. change_path_loop io (rows cs) (int n) idx parent s = Ret (e, parent', s'') \<and> same_shell s' s''"
proof -
  note row = row_string [OF R(1,2)]
  have "change_path_error io 0 (rows cs) idx s' = Ret s'" by (simp add: change_path_error_def)
  then show "change_directory (zero_padded 512 (cs ! idx)) parent s = Ret (0, parent', s') \<Longrightarrow>
      change_path_loop io (rows cs) (int n) idx parent s =
      change_path_loop io (rows cs) (int n) (Suc idx) parent' s'"
    using row R is_dots_iff by (subst change_path_loop.simps) simp
  assume c: "change_directory (zero_padded 512 (cs ! idx)) parent s = Ret (e, parent', s')" "e \<noteq> 0"
  obtain s'' where "change_path_error io e (rows cs) idx s' = Ret s''" "same_shell s' s''"
    using change_path_error_same [OF R(1,2)] by blast
  then show "\<exists>s''. change_path_loop io (rows cs) (int n) idx parent s = Ret (e, parent', s'') \<and> same_shell s' s''"
    using c row R is_dots_iff by (subst change_path_loop.simps) simp
qed

lemma change_path_loop_walk:
  assumes W: "walk_setting D own (sh_fs s) cs" and p: "dir_path D (tables (sh_fs s)) ns d"
    and t: "temp_dir_table s = tables (sh_fs s) d" and c: "current_path s = zero_padded 512 (path_string ns)"
    and n: "n \<le> length cs" and i: "idx \<le> n"
  shows "loop_outcome D s (walk (tables (sh_fs s)) (drop idx (take n cs)) ns d)
    (change_path_loop io (rows cs) (int n) idx (of_nat d) s)"
  using W p t c i
proof (induction "n - idx" arbitrary: idx ns d s)
  case 0
  then show ?case
    by (subst change_path_loop.simps) (simp add: loop_outcome_def keeps_place_def)
next
  case (Suc k)
  let ?T = "tables (sh_fs s)" and ?x = "cs ! idx"
  have inv: "fs_inv D own (sh_fs s)" and pl: "plain_names D ?T" and sp: "short_paths D ?T" and pr: "plain_rows cs"
    using Suc.prems(1) by (simp_all add: walk_setting_def)
  have i: "idx < length cs" and m: "idx < n" using Suc.hyps(2) n by simp_all
  have dr: "drop idx (take n cs) = ?x # drop (Suc idx) (take n cs)" using Cons_nth_drop_Suc [of idx "take n cs"] i m by simp
  have g: "\<forall>n\<in>set ns. good_name n" using dir_path_names [OF inv pl Suc.prems(2)] .
  have len: "length (path_string ns) < 512" using sp Suc.prems(2) by (auto simp: short_paths_def)
  have dD: "d \<in> D" using dir_path_in [OF inv Suc.prems(2)] .
  have k: "k = n - Suc idx" "Suc idx \<le> n" using Suc.hyps(2) by simp_all
  have next_round: "loop_outcome D s (walk ?T (drop (Suc idx) (take n cs)) ns' d')
      (change_path_loop io (rows cs) (int n) (Suc idx) (of_nat d')
        (s\<lparr>temp_dir_table := ?T d', current_path := zero_padded 512 (path_string ns')\<rparr>))"
    if "dir_path D ?T ns' d'" for ns' d'
    using Suc.hyps(1) [OF k(1), of "s\<lparr>temp_dir_table := ?T d', current_path := zero_padded 512 (path_string ns')\<rparr>" ns' d'] Suc.prems(1) that k(2)
    by (intro loop_outcome_keeps [OF _ _ _, of s]) (simp_all add: keeps_place_def)
  consider (up) "?x = [46, 46]" | (here) "?x = [46]" | (down) "?x \<noteq> [46, 46]" "?x \<noteq> [46]" by blast
  then show ?case
  proof cases
    case up
    show ?thesis
    proof (cases "ns = []")
      case False
      note U = dir_path_up [OF inv Suc.prems(2) False]
      show ?thesis using next_round [OF U(1)] loop_up [OF pr i up m g len Suc.prems(4)] up dr False by (simp add: U(2) Suc.prems(3))
    qed (use loop_up [OF pr i up m g len Suc.prems(4)] up dr in \<open>simp add: loop_outcome_def\<close>)
  next
    case here
    then show ?thesis
      using Suc.hyps(1) [OF k(1) Suc.prems(1-4) k(2)] loop_here [OF pr i here m, of io "of_nat d" s] dr by simp
  next
    case down
    have wt: "wf_table (temp_dir_table s)"
      unfolding Suc.prems(3) using table_okD(1) [OF tree_invD(5) [OF fs_invD(5) [OF inv] dD]] .
    have enter: "dir_path D ?T (ns @ [dir_name (?T c)]) c" if "lookup_dir (?T d) ?x = Inr c" for c
      using lookup_dir_step [OF inv dD that] dir_path.step [OF Suc.prems(2)] by metis
    have short: "length (path_string (ns @ [dir_name (?T c)])) < 512" if "lookup_dir (?T d) ?x = Inr c" for c
      using enter [OF that] sp unfolding short_paths_def by blast
    have x: "length ?x < 512" using pr nth_mem [OF i] by (simp add: plain_rows_def)
    note C = change_directory_result [OF inv dD wt x Suc.prems(4) g pl short]
    show ?thesis
    proof (cases "lookup_dir (?T d) ?x")
      case (Inl e)
      then have "e \<noteq> 0" by (auto simp: lookup_dir_def Let_def split: if_splits)
      with loop_down(2) [OF pr i down m, of "of_nat d" s e "of_nat d" s io] C Inl
      show ?thesis using down Inl dr same_shellD by (fastforce simp: loop_outcome_def keeps_place_def)
    next
      case (Inr c)
      from C Inr have "change_directory (zero_padded 512 ?x) (of_nat d) s = Ret (0, of_nat c, s\<lparr>temp_dir_table := ?T c,
          current_path := zero_padded 512 (path_string (ns @ [dir_name (?T c)]))\<rparr>)" by simp
      from loop_down(1) [OF pr i down m this, of io] show ?thesis using next_round [OF enter [OF Inr]] Inr down dr by simp
    qed
  qed
qed

subsection \<open>The command\<close>

lemma components_length: "length (components a) \<le> Suc (length a)"
  by (induction a rule: components.induct) auto

lemma components_sub: "x \<in> set (components a) \<Longrightarrow> length x \<le> length a \<and> set x \<subseteq> set a"
proof (induction a arbitrary: x rule: components.induct)
  case (2 c cs)
  show ?case
  proof (cases "is_sep c")
    case True
    then show ?thesis using 2 by (fastforce split: if_splits)
  next
    case False
    then have "x = c # hd (components cs) \<or> x \<in> set (tl (components cs))" using "2.prems" by simp
    moreover have "length (hd (components cs)) \<le> length cs \<and> set (hd (components cs)) \<subseteq> set cs"
      using 2(2) [OF False] by simp
    moreover have "length x \<le> length cs \<and> set x \<subseteq> set cs" if "x \<in> set (tl (components cs))"
      using 2(2) [OF False] that by (metis components_nonempty list.set_sel(2))
    ultimately show ?thesis by fastforce
  qed
qed simp

lemma components_plain: "length a < 512 \<Longrightarrow> 0 \<notin> set a \<Longrightarrow> plain_rows (components a)"
  unfolding plain_rows_def using components_length [of a] components_sub [of _ a] by (auto dest!: components_sub)

text \<open>The globals of the shell describe one place of the file system.\<close>

definition shell_at :: "nat set \<Rightarrow> u8 list list \<Rightarrow> nat \<Rightarrow> 'd shell \<Rightarrow> bool" where
  "shell_at D ns d s \<longleftrightarrow> current_directory s = of_nat d \<and> current_dir_table s = tables (sh_fs s) d \<and>
     current_path s = zero_padded 512 (path_string ns) \<and> dir_path D (tables (sh_fs s)) ns d"

definition path_outcome :: "nat set \<Rightarrow> u8 list list \<Rightarrow> nat \<Rightarrow> 'd shell \<Rightarrow> outcome \<Rightarrow> (int \<times> 'd shell) run \<Rightarrow> bool" where
  "path_outcome D ns d s w r \<longleftrightarrow>
     (case w of
        Endless \<Rightarrow> r = None
      | Refused e \<Rightarrow> e \<noteq> 0 \<and> (\<exists>s'. r = Ret (e, s') \<and> shell_at D ns d s' \<and> sh_fs s' = sh_fs s)
      | Arrived ns' d' \<Rightarrow> \<exists>s'. r = Ret (0, s') \<and> shell_at D ns' d' s' \<and> sh_kernel s' = sh_kernel s)"

lemma change_path_prefix:
  assumes W: "walk_setting D own (sh_fs s) cs" and n: "n \<le> length cs" and a: "shell_at D ns d s"
  shows "path_outcome D ns d s (walk (tables (sh_fs s)) (take n cs) ns d) (change_path io (rows cs) (int n) s)"
proof (cases "n = 0")
  case True
  then show ?thesis using a by (simp add: path_outcome_def change_path_def)
next
  case False
  define s1 where "s1 = s\<lparr>temp_dir_table := current_dir_table s\<rparr>"
  have cd: "current_directory s = of_nat d" using a by (simp add: shell_at_def)
  have "loop_outcome D s1 (walk (tables (sh_fs s1)) (drop 0 (take n cs)) ns d) (change_path_loop io (rows cs) (int n) 0 (of_nat d) s1)"
    by (rule change_path_loop_walk) (use W a n in \<open>simp_all add: s1_def shell_at_def\<close>)
  moreover have "change_path io (rows cs) (int n) s =
      run_bind (change_path_loop io (rows cs) (int n) 0 (of_nat d) s1) (\<lambda>(err_val, parent, s').
        Ret (err_val, if err_val = 0 then s'\<lparr>current_dir_table := temp_dir_table s', current_directory := parent\<rparr>
          else s'\<lparr>current_path := current_path s\<rparr>))"
    using False cd by (simp add: change_path_def s1_def Let_def)
  ultimately show ?thesis
    using a by (auto simp: loop_outcome_def path_outcome_def keeps_place_def shell_at_def s1_def split: outcome.splits)
qed

lemmas change_path_walk = change_path_prefix [OF _ le_refl, simplified]

text \<open>An absolute path starts at the root, whatever comes of it.\<close>

definition start_place :: "u8 list \<Rightarrow> u8 list list \<Rightarrow> nat \<Rightarrow> u8 list list \<times> u8 list list \<times> nat" where
  "start_place a ns d = (if a \<noteq> [] \<and> is_sep (a ! 0) then (components (drop 1 a), [], 2) else (components a, ns, d))"

text \<open>The components are counted in a \<^verbatim>\<open>uint8_t\<close>.\<close>

lemma parse_path_counts:
  assumes a: "length a < 512" "0 \<notin> set a" and at: "shell_at D ns d s" and sp: "start_place a ns d = (cs, ns', d')"
  shows "\<exists>s'. parse_path (zero_padded 512 a) s = Ret (rows cs, of_nat (length cs mod 256), s') \<and> shell_at D ns' d' s' \<and> sh_kernel s' = sh_kernel s"
proof -
  let ?i = "if a \<noteq> [] \<and> is_sep (a ! 0) then 1 else 0 :: nat"
  have i: "?i \<le> length a" by (cases a) auto
  have cs: "cs = components (drop ?i a)" using sp by (auto simp: start_place_def split: if_splits)
  have "count_folders a ?i 1 + 1 = 1 + of_nat (length cs)" using count_folders_result [OF i] by (simp add: cs)
  then have c: "count_folders a ?i 1 = of_nat (length cs)" by simp
  have "length cs mod 256 < 2 ^ 32" by (rule less_le_trans [of _ 256]) simp_all
  then have u: "(ucast (of_nat (length cs) :: u8) :: u32) = of_nat (length cs mod 256)"
    by (simp add: word_unat_eq_iff unat_of_nat unsigned_ucast_eq take_bit_nat_eq_self)
  have root: "zero_padded 512 (path_string []) = (replicate 512 0)[0 := 47]"
    using zero_padded_snoc [of "[]" 512 47] by (simp add: zero_padded_def path_string_def)
  have str: "c_string (zero_padded 512 a) = Ret a" using c_string_zero_padded [OF a(2,1)] .
  have sl: "split_loop a ?i 0 0 (replicate 512 (replicate 512 0)) = Ret (rows cs)"
    using split_components [OF a(1) i] by (simp add: cs)
  define s' where "s' = (if a \<noteq> [] \<and> is_sep (a ! 0)
      then s\<lparr>current_dir_table := update_directory_table ROOT_CLUSTER_NUMBER s,
             current_directory := ROOT_CLUSTER_NUMBER, current_path := (replicate 512 0)[0 := of_char CHR ''/'']\<rparr>
      else s)"
  have "parse_path (zero_padded 512 a) s = Ret (rows cs, of_nat (length cs mod 256), s')"
    unfolding parse_path_def str run_bind_simps Let_def s'_def [symmetric] sl c u by simp
  moreover have "shell_at D ns' d' s'" "sh_kernel s' = sh_kernel s"
    using at sp root dir_path.root [of D "tables (sh_fs s)"]
    by (auto simp: s'_def shell_at_def start_place_def update_directory_table_def split: if_splits)
  ultimately show ?thesis by blast
qed

lemma parse_path_result:
  assumes "length a < 512" "0 \<notin> set a" "shell_at D ns d s" "start_place a ns d = (cs, ns', d')" "length cs < 256"
  shows "\<exists>s'. parse_path (zero_padded 512 a) s = Ret (rows cs, of_nat (length cs), s') \<and> shell_at D ns' d' s' \<and> sh_kernel s' = sh_kernel s"
  using parse_path_counts [OF assms(1-4)] assms(5) by simp

lemma cd_result:
  assumes inv: "fs_inv D own (sh_fs s)" "plain_names D (tables (sh_fs s))" "short_paths D (tables (sh_fs s))"
    and at: "shell_at D ns d s"
    and arg: "length a < 512" "0 \<notin> set a" "start_place a ns d = (cs, ns0, d0)"
  shows "case walk (tables (sh_fs s)) (take (length cs mod 256) cs) ns0 d0 of
      Endless \<Rightarrow> cd io [zero_padded 512 a, b] 1 s = None
    | Refused e \<Rightarrow> e \<noteq> 0 \<and> (\<exists>s'. cd io [zero_padded 512 a, b] 1 s = Ret s' \<and> shell_at D ns0 d0 s' \<and> sh_fs s' = sh_fs s)
    | Arrived ns' d' \<Rightarrow> \<exists>s'. cd io [zero_padded 512 a, b] 1 s = Ret s' \<and> shell_at D ns' d' s' \<and> sh_fs s' = sh_fs s"
proof -
  let ?n = "length cs mod 256"
  obtain s1 where s1: "parse_path (zero_padded 512 a) s = Ret (rows cs, of_nat ?n, s1)" "shell_at D ns0 d0 s1" "sh_fs s1 = sh_fs s"
    using parse_path_counts [OF arg(1,2) at arg(3)] by auto
  have tl: "length (drop 1 a) < 512" "0 \<notin> set (drop 1 a)" using arg(1,2) by (auto dest: in_set_dropD)
  have "plain_rows cs"
    using components_plain [OF arg(1,2)] components_plain [OF tl] arg(3) by (auto simp: start_place_def split: if_splits)
  then have "walk_setting D own (sh_fs s1) cs" using inv s1(3) by (simp add: walk_setting_def)
  note P = change_path_prefix [OF this _ s1(2), of ?n io]
  have "?n < 2 ^ 31" by (rule less_le_trans [of _ 256]) simp_all
  then have "sint (of_nat ?n :: u32) = int ?n" by (simp add: signed_of_nat signed_take_bit_int_eq_self)
  then have "cd io [zero_padded 512 a, b] 1 s = run_bind (change_path io (rows cs) (int ?n) s1) (\<lambda>(_, s). Ret s)"
    using s1(1) by (simp add: cd_def)
  then show ?thesis using P s1(3) by (auto simp: path_outcome_def split: outcome.splits)
qed

text \<open>
  C13. \<^verbatim>\<open>cd\<close> follows the directory tree of a well-formed file system whose folder names are plain
  (non-empty, without \<^verbatim>\<open>/\<close>) and whose paths fit the path buffer. From a place where the
  current path names the current directory, on every path argument: \<^verbatim>\<open>cd\<close> walks along the components
  of the path, but since it counts them modulo 256 only along the first \<open>length cs mod 256\<close>: all of them
  on a path of fewer than 256 components, none on one of exactly 256. When this walk arrives,
  \<^verbatim>\<open>cd\<close> returns with directory, table and path of the new place, again in agreement; when a
  component is missing (2) or a file (1), it returns at the place where the walk started; when the walk goes up from
  the root, \<^verbatim>\<open>cd\<close> never returns. The file system does not change.
\<close>

theorem cd_follows_walk:
  assumes inv: "fs_inv D own (sh_fs s)" "plain_names D (tables (sh_fs s))" "short_paths D (tables (sh_fs s))"
    and at: "shell_at D ns d s"
    and arg: "length a < 512" "0 \<notin> set a" "start_place a ns d = (cs, ns0, d0)"
  shows "case walk (tables (sh_fs s)) (take (length cs mod 256) cs) ns0 d0 of
      Endless \<Rightarrow> cd io [zero_padded 512 a, b] 1 s = None
    | Refused e \<Rightarrow> e \<noteq> 0 \<and> (\<exists>s'. cd io [zero_padded 512 a, b] 1 s = Ret s' \<and> shell_at D ns0 d0 s' \<and> sh_fs s' = sh_fs s)
    | Arrived ns' d' \<Rightarrow> \<exists>s'. cd io [zero_padded 512 a, b] 1 s = Ret s' \<and> shell_at D ns' d' s' \<and> sh_fs s' = sh_fs s"
  using assms by (rule cd_result)

lemma fresh_no_slots: "slots {2} (tables fresh_fs) = {}"
  using root_table_empty not_used_empty_entry fresh_table by (auto simp: slots_def)

lemma fresh_dir_path: "dir_path {2} (tables fresh_fs) ns d \<Longrightarrow> ns = [] \<and> d = 2"
  by (erule dir_path.cases) (auto simp: fresh_no_slots)

lemma fresh_shell:
  "fs_inv {2} (\<lambda>_. []) (sh_fs (main_start (boot_kernel fresh_fs)))" "plain_names {2} (tables fresh_fs)"
  "short_paths {2} (tables fresh_fs)" "shell_at {2} [] 2 (main_start (boot_kernel fresh_fs))"
  "sh_fs (main_start (boot_kernel fresh_fs)) = fresh_fs"
proof -
  show fs: "sh_fs (main_start (boot_kernel fresh_fs)) = fresh_fs" by (simp add: main_start_def boot_kernel_def)
  then show "fs_inv {2} (\<lambda>_. []) (sh_fs (main_start (boot_kernel fresh_fs)))" using fresh_inv by simp
  show "plain_names {2} (tables fresh_fs)" by (simp add: plain_names_def)
  show "short_paths {2} (tables fresh_fs)"
    unfolding short_paths_def using fresh_dir_path by (fastforce simp: path_string_def)
  show "shell_at {2} [] 2 (main_start (boot_kernel fresh_fs))"
    using zero_padded_snoc [of "[]" 512 47] dir_path.root fs
    by (simp add: shell_at_def main_start_def path_string_def zero_padded_def boot_kernel_def)
qed

theorem cd_follows_walk_witness:
  "cd null_ports [zero_padded 512 (map of_char ''..''), []] 1 (main_start (boot_kernel fresh_fs)) = None"
proof -
  have c: "start_place (map of_char ''..'') [] 2 = ([[46, 46]], [], 2)"
    by (simp add: start_place_def is_sep_def)
  show ?thesis
    using cd_follows_walk [OF fresh_shell(1), unfolded fresh_shell(5), OF fresh_shell(2-4) _ _ c, of null_ports "[]"] by simp
qed

end
