(* ===== verification/Shell_Props.thy ===== *)
theory Shell_Props
  imports Shell_Walk
begin

text \<open>
  Commands of the shell on a well-formed file system: a folder made by \<^verbatim>\<open>mkdir\<close> can be entered and
  left again; what \<^verbatim>\<open>mv\<close> and \<^verbatim>\<open>kill\<close> do to the entry and the process they should not touch.
\<close>

subsection \<open>A new folder in the tree\<close>

definition plain_word :: "u8 list \<Rightarrow> bool" where
  "plain_word a \<longleftrightarrow> a \<noteq> [] \<and> length a \<le> 8 \<and> 0 \<notin> set a \<and> 46 \<notin> set a \<and> (\<forall>c\<in>set a. \<not> is_sep c)"

definition folder_request :: "u8 list \<Rightarrow> nat \<Rightarrow> FAT32DriverRequest" where
  "folder_request a d = \<lparr>rq_buf = 0, rq_name = zero_padded 8 a, rq_ext = [0, 0, 0],
     rq_parent_cluster_number = of_nat d, rq_buffer_size = 0\<rparr>"

lemma plain_word_good: "plain_word a \<Longrightarrow> good_name a"
  by (auto simp: plain_word_def good_name_def is_sep_def)

lemma plain_word_components: "\<forall>c\<in>set a. \<not> is_sep c \<Longrightarrow> components a = [a]"
  by (induction a) auto

lemma dir_name_entry:
  assumes "table_ok d t" "d < 512"
  shows "dir_name t = takeWhile (\<lambda>c. c \<noteq> 0) (enc_entry (t ! 0))"
proof -
  have "de_cluster_high (t ! 0) = 0" using high_half [OF table_okD(3) [OF assms(1)]] assms(2) by simp
  then have z: "0 \<in> set (enc_entry (t ! 0))" by (simp add: enc_entry_def enc_u16_def)
  have "t \<noteq> []" using wf_table_length [OF table_okD(1) [OF assms(1)]] by auto
  then have "enc_table t = enc_entry (t ! 0) @ enc_table (tl t)" by (cases t) (simp_all add: enc_array_def)
  then show ?thesis using z by (auto simp: dir_name_def takeWhile_append)
qed

lemma takeWhile_zero_padded: "0 \<notin> set a \<Longrightarrow> takeWhile (\<lambda>c. c \<noteq> 0) (zero_padded n a @ 0 # z) = a"
  using takeWhile_nonzero [of a] by (cases "n - length a") (auto simp: zero_padded_def)

text \<open>The directory tables before and after a folder \<open>a\<close> was made in \<open>d\<close>, in the cluster \<open>c\<close>.\<close>

definition folder_made :: "nat set \<Rightarrow> tables \<Rightarrow> tables \<Rightarrow> u8 list \<Rightarrow> nat \<Rightarrow> nat \<Rightarrow> nat \<Rightarrow> bool" where
  "folder_made D T T' a d j c \<longleftrightarrow>
     d \<in> D \<and> c \<notin> D \<and> slots (insert c D) T' = insert (d, j) (slots D T) \<and> (d, j) \<notin> slots D T \<and>
     (\<forall>p\<in>slots D T. ent T' p = ent T p) \<and> (\<forall>e\<in>D. dir_name (T' e) = dir_name (T e)) \<and>
     is_dir (T' d ! j) \<and> entry_cluster (T' d ! j) = of_nat c \<and> dir_name (T' c) = a"

lemma folder_made_path:
  assumes "folder_made D T T' a d j c"
  shows "dir_path D T ns e \<Longrightarrow> dir_path (insert c D) T' ns e"
proof (induction rule: dir_path.induct)
  case root
  show ?case by (rule dir_path.root)
next
  case (step ns e i e')
  have "ent T' (e, i) = ent T (e, i)" using assms step(2) unfolding folder_made_def by blast
  then have "dir_path (insert c D) T' (ns @ [dir_name (T' e')]) e'"
    using step assms by (intro dir_path.step [of _ _ _ e i]) (auto simp: folder_made_def)
  then show ?case using assms step(5) by (simp add: folder_made_def)
qed

lemma of_nat_512: "i < 512 \<Longrightarrow> j < 512 \<Longrightarrow> (of_nat i :: u32) = of_nat j \<Longrightarrow> i = j"
  by (auto dest: arg_cong [where f = unat] simp: unat_of_nat)

definition closed_dirs :: "nat set \<Rightarrow> tables \<Rightarrow> bool" where
  "closed_dirs D T \<longleftrightarrow> (\<forall>p\<in>slots D T. \<forall>e<512. is_dir (ent T p) \<and> entry_cluster (ent T p) = of_nat e \<longrightarrow> e \<in> D)"

lemma folder_made_paths:
  assumes F: "folder_made D T T' a d j c" and D: "2 \<in> D" "insert c D \<subseteq> {2..<512}"
    and closed: "closed_dirs D T"
  shows "dir_path (insert c D) T' ns e \<Longrightarrow> (dir_path D T ns e \<and> e \<in> D) \<or> (\<exists>ns'. dir_path D T ns' d \<and> ns = ns' @ [a] \<and> e = c)"
proof (induction rule: dir_path.induct)
  case root
  show ?case using D(1) dir_path.root by blast
next
  case (step ns e i e')
  have e': "e' < 512" using step(5) D(2) by auto
  have sl: "(e, i) = (d, j) \<or> (e, i) \<in> slots D T" using step(2) F unfolding folder_made_def by blast
  then have eD: "e \<in> D" using F by (auto simp: folder_made_def slots_def)
  with step.IH F have p: "dir_path D T ns e" by (auto simp: folder_made_def)
  show ?case
  proof (cases "(e, i) = (d, j)")
    case True
    have "entry_cluster (T' d ! j) = of_nat c" "dir_name (T' c) = a" using F by (simp_all add: folder_made_def)
    then have w: "(of_nat e' :: u32) = of_nat c" using step(4) True by simp
    have "c < 512" using D(2) by simp
    then have "e' = c" using of_nat_512 [OF e' _ w] by blast
    moreover have "dir_path D T ns d" using p True by simp
    ultimately show ?thesis using \<open>dir_name (T' c) = a\<close> by blast
  next
    case False
    then have s: "(e, i) \<in> slots D T" using sl by blast
    then have ent: "ent T' (e, i) = ent T (e, i)" using F unfolding folder_made_def by blast
    then have "e' \<in> D" using closed s e' step(3,4) unfolding closed_dirs_def by fastforce
    then show ?thesis using dir_path.step [OF p s] ent step(3,4) F by (simp add: folder_made_def)
  qed
qed

lemma folder_made_settings:
  assumes F: "folder_made D T T' a d j c" and D: "2 \<in> D" "insert c D \<subseteq> {2..<512}"
    and closed: "closed_dirs D T"
    and pl: "plain_names D T" "good_name a" "length a \<le> 8" and sh: "\<forall>ns e. dir_path D T ns e \<longrightarrow> length (path_string ns) < 503"
  shows "plain_names (insert c D) T'" "short_paths (insert c D) T'"
proof -
  show "plain_names (insert c D) T'" using F pl by (auto simp: plain_names_def folder_made_def)
  have "length (path_string (ns @ [a])) < 512" if "dir_path D T ns e" for ns e
    using sh that pl(3) by (fastforce simp: path_string_snoc)
  moreover have "length (path_string ns) < 512" if "dir_path D T ns e" for ns e using sh that by fastforce
  ultimately show "short_paths (insert c D) T'"
    unfolding short_paths_def using folder_made_paths [OF F D closed] by blast
qed

text \<open>The driver makes a folder in this sense.\<close>

lemma closed_dirs_inv:
  assumes inv: "fs_inv D own f"
  shows "closed_dirs D (tables f)"
  unfolding closed_dirs_def
proof (intro ballI allI impI, elim conjE)
  fix p e
  note T = fs_invD(5) [OF inv]
  assume p: "p \<in> slots D (tables f)" "is_dir (ent (tables f) p)" and e: "entry_cluster (ent (tables f) p) = of_nat e" "e < 512"
  have h: "hd (own p) \<in> D" using tree_invD(8) [OF T p] .
  then have "hd (own p) < 512" using tree_invD(4) [OF T] by auto
  moreover have "of_nat e = (of_nat (hd (own p)) :: u32)" using entry_okD(7) [OF tree_invD(6) [OF T p(1)]] e(1) by simp
  ultimately show "e \<in> D" using of_nat_512 [of e "hd (own p)"] e(2) h by simp
qed

lemma folder_written_made:
  assumes inv: "fs_inv D own f" and a: "plain_word a" and d: "d \<in> D"
    and add: "can_add D f (folder_request a d) ATTR_SUBDIRECTORY" and c: "free_from (fs_fat f) 3 = c # cs"
  defines "j \<equiv> first_unused (tables f d) 2"
  defines "f' \<equiv> folder_written (folder_request a d) (tables f d) j c f"
  shows "folder_made D (tables f) (tables f') a d j c" "fs_inv (insert c D) (own((d, j) := [c])) f'"
    "de_name (tables f' d ! j) = zero_padded 8 a" "\<And>i. i \<noteq> j \<Longrightarrow> tables f' d ! i = tables f d ! i" "2 \<le> j" "j < 64"
proof -
  let ?rq = "folder_request a d" and ?T = "tables f" and ?T' = "tables f'"
  let ?e = "new_entry ?rq (?T d) j ATTR_SUBDIRECTORY c"
  have u: "unat (of_nat d :: u32) = d" using unat_dir [OF inv d] .
  have rq: "rq_parent_cluster_number ?rq = of_nat d" "rq_buffer_size ?rq = 0" "rq_name ?rq = zero_padded 8 a" "wf_request ?rq"
    using a by (simp_all add: folder_request_def wf_request_def plain_word_def)
  note E = folder_written_effect [OF inv add rq(2) c, unfolded rq(1) u fst_conv snd_conv, folded j_def, folded f'_def]
  show "fs_inv (insert c D) (own((d, j) := [c])) f'" by (rule E(1))
  note S = can_add_scan(4-6) [OF inv add, unfolded rq(1), folded j_def]
  show j: "2 \<le> j" "j < 64" by (rule S)+
  have ok: "table_ok e (?T e)" "e < 512" if "e \<in> D" for e
    using tree_invD(4,5) [OF fs_invD(5) [OF inv]] that by auto
  have len: "length (?T d) = 64" using wf_table_length [OF table_okD(1) [OF ok(1) [OF d]]] by simp
  have td: "?T' d = (?T d)[j := ?e]" using E(2) [OF d] by (simp add: set_slot_def)
  show "de_name (?T' d ! j) = zero_padded 8 a" using td len j new_entry_key [OF rq(4)] rq(3) by simp
  show "?T' d ! i = ?T d ! i" if "i \<noteq> j" for i using td that by simp
  have C: "c < 512" "c \<notin> D" using find_empty_cluster_inv(4,5) [OF inv c] dir_not_free [OF fs_invD(5) [OF inv]] by auto
  have nm: "length (rq_name ?rq) = 8" using rq(4) by (simp add: wf_request_def)
  note FT = folder_table [OF inv c nm, where parent = "of_nat d"]
  have "slots (insert c D) ?T' = slots D ?T'"
    using FT(2) not_used_empty_entry E(3) by (auto simp: slots_def)
  also have "\<dots> = slots D (set_slot ?T (d, j) ?e)" using E(2) by (intro slots_cong)
  also have "\<dots> = insert (d, j) (slots D ?T)" using slots_set_slot [of ?T "(d, j)" D ?e] len j d by simp
  finally have sl: "slots (insert c D) ?T' = insert (d, j) (slots D ?T)" .
  have new: "(d, j) \<notin> slots D ?T" using S(3) by (simp add: slots_def)
  have ents: "ent ?T' p = ent ?T p" if "p \<in> slots D ?T" for p
  proof -
    have "fst p \<in> D" "p \<noteq> (d, j)" using that new by (auto simp: slots_def)
    then show ?thesis using E(2) [of "fst p"] ent_set_slot [of ?T "(d, j)" ?e p] len j by simp
  qed
  have hd0: "?T' e ! 0 = ?T e ! 0" if "e \<in> D" for e using E(2) [OF that] j by simp
  have ok': "table_ok e (?T' e)" if "e \<in> insert c D" for e using tree_invD(5) [OF fs_invD(5) [OF E(1)] that] .
  have names: "dir_name (?T' e) = dir_name (?T e)" if "e \<in> D" for e
    using dir_name_entry [OF ok(1,2) [OF that]] dir_name_entry [OF ok' [of e] ok(2) [OF that]] hd0 [OF that] that by simp
  have x: "de_ext (?T' c ! 0) = [0, 0, 0]"
    unfolding E(3) using find_empty_cluster_inv(1,2) [OF inv c] by (simp add: init_directory_table_def Let_def nul_ext_def)
  have "dir_name (?T' c) = takeWhile (\<lambda>c. c \<noteq> 0) (enc_entry (?T' c ! 0))"
    using dir_name_entry [OF ok' [of c] C(1)] by simp
  also have "\<dots> = a"
    using FT(4) x takeWhile_zero_padded [of a 8] a by (simp add: enc_entry_def E(3) rq(3) plain_word_def)
  finally show "folder_made D ?T ?T' a d j c"
    using d C sl new ents names td len j by (simp add: folder_made_def)
qed

subsection \<open>The command\<close>

definition room_for_folder :: "nat set \<Rightarrow> fs_state \<Rightarrow> u8 list \<Rightarrow> nat \<Rightarrow> nat \<Rightarrow> bool" where
  "room_for_folder D f a d c \<longleftrightarrow> can_add D f (folder_request a d) ATTR_SUBDIRECTORY \<and>
     (\<exists>cs. free_from (fs_fat f) 3 = c # cs) \<and> (\<forall>i\<in>{2..<64}. de_name (tables f d ! i) \<noteq> zero_padded 8 a)"

lemma take_zero_padded: "length a \<le> k \<Longrightarrow> k \<le> n \<Longrightarrow> take k (zero_padded n a) = zero_padded k a"
  by (simp add: zero_padded_def min_def)

lemma rows_single: "length a < 512 \<Longrightarrow> path_row (rows [a]) 0 = Ret (zero_padded 512 a)"
  by (simp add: path_row_def rows_nth)

lemma sh_fs_set [simp]: "sh_fs (set_sh_fs f s) = f"
  by (simp add: set_sh_fs_def)

lemma mkdir_result:
  assumes inv: "fs_inv D own (sh_fs s)" and at: "shell_at D ns d s" and a: "plain_word a"
    and room: "can_add D (sh_fs s) (folder_request a d) ATTR_SUBDIRECTORY" "free_from (fs_fat (sh_fs s)) 3 = c # cs"
  defines "f' \<equiv> folder_written (folder_request a d) (tables (sh_fs s) d) (first_unused (tables (sh_fs s) d) 2) c (sh_fs s)"
  shows "\<exists>s1. mkdir io buf [zero_padded 512 a, b] 1 s = Ret s1 \<and> sh_fs s1 = f' \<and> current_directory s1 = of_nat d \<and>
    current_dir_table s1 = tables f' d \<and> current_path s1 = zero_padded 512 (path_string ns)"
proof -
  let ?rq = "folder_request a d"
  have w: "length a < 512" "0 \<notin> set a" "a \<noteq> []" "46 \<notin> set a" "\<forall>c\<in>set a. \<not> is_sep c"
    using a by (auto simp: plain_word_def)
  have sp: "start_place a ns d = ([a], ns, d)"
    using w(3,5) plain_word_components [OF w(5)] by (simp add: start_place_def)
  obtain s0 where s0: "parse_path (zero_padded 512 a) s = Ret (rows [a], 1, s0)" "shell_at D ns d s0" "sh_fs s0 = sh_fs s"
    using parse_path_result [OF w(1,2) at sp] by auto
  have cd: "current_directory s0 = of_nat d" "current_path s0 = zero_padded 512 (path_string ns)"
    using s0(2) by (simp_all add: shell_at_def)
  have p: "rq_parent_cluster_number ?rq = of_nat d" "rq_buffer_size ?rq = 0" by (simp_all add: folder_request_def)
  have fw: "fat_write ?rq buf (sh_fs s) = Ret (0, f')"
    using fat_write_folder_result [OF inv room(1) p(2) room(2), of buf] by (simp add: p f'_def)
  have rq: "\<lparr>rq_buf = 0, rq_name = take 8 (zero_padded 512 a), rq_ext = [0, 0, 0],
      rq_parent_cluster_number = current_directory s0, rq_buffer_size = 0\<rparr> = ?rq"
    using a by (simp add: folder_request_def cd take_zero_padded plain_word_def)
  have wt: "write_to io (zero_padded 512 a) (rows [a]) 1 buf 0 True s0 =
      Ret (0, cancel_change_path (current_directory s0) (current_path s0) (set_sh_fs f' s0))"
    using fw rq s0(3) by (simp add: write_to_def change_path_def write_to_error_def Let_def)
  have inval: "contains_invalid_character io (zero_padded 512 a) s0 = Ret (False, s0)"
    using c_string_zero_padded [OF w(2,1)] w(4) by (simp add: contains_invalid_character_def)
  have "mkdir io buf [zero_padded 512 a, b] 1 s = Ret (cancel_change_path (of_nat d) (current_path s0) (set_sh_fs f' s0))"
    using s0(1) rows_single [OF w(1)] inval wt cd by (simp add: mkdir_def create_directory_def)
  then show ?thesis using cd by (simp add: cancel_change_path_def update_directory_table_def set_sh_fs_def)
qed

lemma lookup_new_folder:
  assumes "2 \<le> j" "j < 64" "\<And>i. 2 \<le> i \<Longrightarrow> i < j \<Longrightarrow> de_name (t ! i) \<noteq> zero_padded 8 a"
    and "length a \<le> 8" "de_name (t ! j) = zero_padded 8 a" "is_dir (t ! j)" "entry_cluster (t ! j) = of_nat c" "c < 512"
  shows "lookup_dir t a = Inr c"
proof -
  have "scan_while (\<lambda>i. de_name (t ! i) \<noteq> take 8 (zero_padded 512 a)) 2 64 = j"
    using assms by (intro scan_while_eqI) (simp_all add: take_zero_padded)
  then show ?thesis using assms by (simp add: lookup_dir_def unat_of_nat)
qed

lemma mkdir_cd:
  assumes inv: "fs_inv D own (sh_fs s)" "plain_names D (tables (sh_fs s))"
    and sh: "\<forall>ns e. dir_path D (tables (sh_fs s)) ns e \<longrightarrow> length (path_string ns) < 503"
    and at: "shell_at D ns d s" and a: "plain_word a" and room: "room_for_folder D (sh_fs s) a d c"
  shows "\<exists>s1 s2 own'. mkdir io buf [zero_padded 512 a, b] 1 s = Ret s1 \<and> fs_inv (insert c D) own' (sh_fs s1) \<and>
    shell_at (insert c D) ns d s1 \<and>
    cd io [zero_padded 512 a, b] 1 s1 = Ret s2 \<and> shell_at (insert c D) (ns @ [a]) c s2 \<and> sh_fs s2 = sh_fs s1"
proof -
  let ?f = "sh_fs s" and ?j = "first_unused (tables (sh_fs s) d) 2"
  let ?f' = "folder_written (folder_request a d) (tables ?f d) ?j c ?f"
  obtain cs where R: "can_add D ?f (folder_request a d) ATTR_SUBDIRECTORY" "free_from (fs_fat ?f) 3 = c # cs"
    "\<And>i. 2 \<le> i \<Longrightarrow> i < 64 \<Longrightarrow> de_name (tables ?f d ! i) \<noteq> zero_padded 8 a"
    using room by (auto simp: room_for_folder_def)
  have dp: "dir_path D (tables ?f) ns d" using at by (simp add: shell_at_def)
  have d: "d \<in> D" using dir_path_in [OF inv(1) dp] .
  note F = folder_written_made [OF inv(1) a d R(1,2)]
  note T = fs_invD(5) [OF F(2)]
  have D: "2 \<in> D" "insert c D \<subseteq> {2..<512}" using tree_invD(3) [OF fs_invD(5) [OF inv(1)]] tree_invD(4) [OF T] by simp_all
  note L = plain_word_good [OF a]
  have l8: "length a \<le> 8" "0 \<notin> set a" "a \<noteq> []" "46 \<notin> set a" "\<forall>c\<in>set a. \<not> is_sep c" using a by (simp_all add: plain_word_def)
  note S = folder_made_settings [OF F(1) D closed_dirs_inv [OF inv(1)] inv(2) L l8(1) sh]
  obtain s1 where s1: "mkdir io buf [zero_padded 512 a, b] 1 s = Ret s1" "sh_fs s1 = ?f'" "current_directory s1 = of_nat d"
    "current_dir_table s1 = tables ?f' d" "current_path s1 = zero_padded 512 (path_string ns)"
    using mkdir_result [OF inv(1) at a R(1,2), of io buf b] by blast
  have at1: "shell_at (insert c D) ns d s1"
    using s1 folder_made_path [OF F(1) dp] by (simp add: shell_at_def)
  have old: "de_name (tables ?f' d ! i) \<noteq> zero_padded 8 a" if "2 \<le> i" "i < ?j" for i
    using that F(4) [of i] R(3) [of i] F(6) by simp
  have new: "is_dir (tables ?f' d ! ?j)" "entry_cluster (tables ?f' d ! ?j) = of_nat c" "dir_name (tables ?f' c) = a"
    using F(1) by (simp_all add: folder_made_def)
  have look: "lookup_dir (tables ?f' d) a = Inr c"
    by (rule lookup_new_folder [OF F(5,6) old l8(1) F(3) new(1,2)]) (use D in simp_all)
  have nd: "a \<noteq> [46, 46]" "a \<noteq> [46]" using l8(4) by auto
  have sp: "start_place a ns d = ([a], ns, d)" using l8(3,5) plain_word_components [OF l8(5)] by (simp add: start_place_def)
  have W: "walk (tables (sh_fs s1)) [a] ns d = Arrived (ns @ [a]) c" using nd look new(3) by (simp add: s1(2))
  have "\<exists>s2. cd io [zero_padded 512 a, b] 1 s1 = Ret s2 \<and> shell_at (insert c D) (ns @ [a]) c s2 \<and> sh_fs s2 = sh_fs s1"
    using cd_result [of "insert c D" _ s1 ns d a "[a]" ns d io b] F(2) S at1 l8 sp W s1(2) by simp
  then show ?thesis using s1(1,2) at1 F(2) by metis
qed

text \<open>
  C14. A folder that \<^verbatim>\<open>mkdir\<close> makes can be entered by \<^verbatim>\<open>cd\<close>: on a well-formed file system with plain folder names and
  paths that leave room for one more name, when the current directory has a free entry and no entry of that
  name and the file allocation table a free cluster, \<^verbatim>\<open>mkdir\<close> of a word of at most eight characters without dot
  and slash returns at the same place, in a well-formed file system with one more directory in the
  first free cluster; \<^verbatim>\<open>cd\<close> with the same word then returns inside that directory, with the path extended by the
  word and the file system unchanged.
\<close>

theorem mkdir_then_cd:
  assumes "fs_inv D own (sh_fs s)" "plain_names D (tables (sh_fs s))"
    and "\<forall>ns e. dir_path D (tables (sh_fs s)) ns e \<longrightarrow> length (path_string ns) < 503"
    and "shell_at D ns d s" and "plain_word a" and "room_for_folder D (sh_fs s) a d c"
  shows "\<exists>s1 s2 own'. mkdir io buf [zero_padded 512 a, b] 1 s = Ret s1 \<and> fs_inv (insert c D) own' (sh_fs s1) \<and>
    shell_at (insert c D) ns d s1 \<and>
    cd io [zero_padded 512 a, b] 1 s1 = Ret s2 \<and> shell_at (insert c D) (ns @ [a]) c s2 \<and> sh_fs s2 = sh_fs s1"
  using assms by (rule mkdir_cd)

lemma fresh_names: "2 \<le> i \<Longrightarrow> i < 64 \<Longrightarrow> de_name (tables fresh_fs 2 ! i) = replicate 8 0"
  using root_table_empty [of i] fresh_table by (simp add: empty_entry_def)

lemma fresh_room: "room_for_folder {2} fresh_fs (map of_char ''shell'') 2 3"
proof -
  let ?a = "map of_char ''shell'' :: u8 list"
  have z: "zero_padded 8 ?a = map of_char ''shell'' @ [0, 0, 0]" by (simp add: zero_padded_def numeral_eq_Suc)
  then have "folder_request ?a 2 = demo_dir_rq\<lparr>rq_buf := 0\<rparr>" by (simp add: folder_request_def demo_dir_rq_def demo_rq_def)
  then have "can_add {2} fresh_fs (folder_request ?a 2) ATTR_SUBDIRECTORY"
    using demo_can_add(2) by (simp add: can_add_def has_key_def wf_request_def)
  moreover have "\<forall>i\<in>{2..<64}. de_name (tables fresh_fs 2 ! i) \<noteq> zero_padded 8 ?a"
    using demo_name(1) fresh_names z by (simp add: demo_rq_def)
  ultimately show ?thesis using fresh_fat formatted_free by (simp add: room_for_folder_def upt_rec [of 3])
qed

theorem mkdir_then_cd_witness:
  "\<exists>s1 s2. mkdir null_ports (\<lambda>_. 0) [zero_padded 512 (map of_char ''shell''), []] 1 (main_start (boot_kernel fresh_fs)) = Ret s1 \<and>
     cd null_ports [zero_padded 512 (map of_char ''shell''), []] 1 s1 = Ret s2 \<and> shell_at {3, 2} [map of_char ''shell''] 3 s2"
proof -
  have a: "plain_word (map of_char ''shell'')" by (simp add: plain_word_def is_sep_def)
  have sh: "\<forall>ns e. dir_path {2} (tables fresh_fs) ns e \<longrightarrow> length (path_string ns) < 503"
    using fresh_dir_path by (fastforce simp: path_string_def)
  show ?thesis
    using mkdir_then_cd [OF fresh_shell(1), unfolded fresh_shell(5), OF fresh_shell(2) sh fresh_shell(4) a fresh_room,
        of null_ports "\<lambda>_. 0" "[]"] by auto
qed

subsection \<open>Two commands that miss their aim\<close>

text \<open>
  \<^verbatim>\<open>mv\<close> looks for a destination entry whose attribute is not \<^verbatim>\<open>UATTR_NOT_EMPTY\<close>. Attributes are 0 or
  \<^verbatim>\<open>ATTR_SUBDIRECTORY\<close>, so a moved file always replaces entry 2 of the destination, used or not.
\<close>

lemma move_slot_2: "de_attribute (t ! 2) \<in> {0, ATTR_SUBDIRECTORY} \<Longrightarrow> move_slot t 2 = 2"
  unfolding move_slot_def by (intro scan_while_eqI) auto

lemma mv_replaces_entry_2:
  assumes inv: "fs_inv D own (sh_fs s)" and d: "p \<in> D" "q \<in> D" and i: "i < 64"
    and att: "de_attribute (tables (sh_fs s) q ! 2) \<in> {0, ATTR_SUBDIRECTORY}"
  shows "\<exists>s'. move_entries True i (tables (sh_fs s) p) (of_nat p) t c (tables (sh_fs s) q) (of_nat q) s = Ret s' \<and>
    tables (sh_fs s') q = (tables (sh_fs s) q)[2 := tables (sh_fs s) p ! i]"
proof -
  let ?T = "tables (sh_fs s)"
  have wf: "wf_table (?T e)" if "e \<in> D" for e using table_okD(1) [OF tree_invD(5) [OF fs_invD(5) [OF inv] that]] .
  have "length (enc_table ((?T q)[2 := ?T p ! i])) = 2048" "wf_table ((?T q)[2 := ?T p ! i])"
    using wf d i by (auto intro!: length_enc_table wf_table_update wf_table_nth)
  then show ?thesis
    using i move_slot_2 [OF att]
    by (simp add: move_entries_def write_table_def set_sh_fs_def Let_def read_write_cluster_same dec_enc_table)
qed

text \<open>\<^verbatim>\<open>kill\<close> of a two-digit process id kills the process of its first digit.\<close>

lemma kill_first_digit:
  assumes "pid_digit x" "pid_digit y"
  shows "kill io [zero_padded 512 [x, y], b] 1 s = kill io [zero_padded 512 [x], b] 1 s"
proof -
  have z: "0 \<notin> {x, y}" using assms by (auto simp: pid_digit_def)
  have "c_string (zero_padded 512 [x, y]) = Ret [x, y]" "c_string (zero_padded 512 [x]) = Ret [x]"
    using z by (auto intro!: c_string_zero_padded)
  moreover have "zero_padded 512 [x, y] ! 0 = x" "zero_padded 512 [x, y] ! 1 = y" "zero_padded 512 [x] ! 0 = x"
    by (simp_all add: nth_zero_padded)
  ultimately show ?thesis using assms by (simp add: kill_def Let_def)
qed

end
