(* ===== verification/Shell_Commands.thy ===== *)
theory Shell_Commands
  imports Shell_Props FAT32_Folders
begin

text \<open>
  The commands of the shell on files, over the abstract file system: \<^verbatim>\<open>rm\<close>, \<^verbatim>\<open>cat\<close> and \<^verbatim>\<open>cp\<close> with
  arbitrary paths, and their composition.
\<close>

subsection \<open>Changes of files leave the directories as they are\<close>

definition dir_slots :: "nat set \<Rightarrow> tables \<Rightarrow> slot set" where
  "dir_slots D T = {p \<in> slots D T. is_dir (ent T p)}"

definition same_dirs :: "nat set \<Rightarrow> tables \<Rightarrow> tables \<Rightarrow> bool" where
  "same_dirs D T T' \<longleftrightarrow> (\<forall>e\<in>D. T' e ! 0 = T e ! 0) \<and> dir_slots D T = dir_slots D T' \<and>
     (\<forall>p\<in>dir_slots D T. ent T' p = ent T p)"

lemma same_dirs_sym: "same_dirs D T T' \<Longrightarrow> same_dirs D T' T"
  by (simp add: same_dirs_def)

lemma same_dirs_name:
  assumes "fs_inv D own f" "fs_inv D own' f'" "same_dirs D (tables f) (tables f')" "e \<in> D"
  shows "dir_name (tables f' e) = dir_name (tables f e)"
proof -
  note T = fs_invD(5) [OF assms(1)] and T' = fs_invD(5) [OF assms(2)]
  have "e < 512" using tree_invD(4) [OF T] assms(4) by auto
  then show ?thesis
    using dir_name_entry [OF tree_invD(5) [OF T assms(4)]] dir_name_entry [OF tree_invD(5) [OF T' assms(4)]] assms(3,4)
    by (simp add: same_dirs_def)
qed

lemma same_dirs_path:
  assumes "fs_inv D own f" "fs_inv D own' f'" "same_dirs D (tables f) (tables f')"
  shows "dir_path D (tables f) ns d \<Longrightarrow> dir_path D (tables f') ns d"
proof (induction rule: dir_path.induct)
  case (step ns d i c)
  have "(d, i) \<in> dir_slots D (tables f)" using step by (simp add: dir_slots_def)
  then have "(d, i) \<in> slots D (tables f')" "ent (tables f') (d, i) = ent (tables f) (d, i)"
    using assms(3) unfolding same_dirs_def dir_slots_def by blast+
  then show ?case
    using dir_path.step [OF step.IH, of i c] step same_dirs_name [OF assms step(5)] by simp
qed (rule dir_path.root)

lemma same_dirs_setting:
  assumes "fs_inv D own f" "fs_inv D own' f'" "same_dirs D (tables f) (tables f')"
    and "plain_names D (tables f)" "short_paths D (tables f)"
  shows "plain_names D (tables f')" "short_paths D (tables f')"
  using assms(4,5) same_dirs_name [OF assms(1-3)] same_dirs_path [OF assms(2,1) same_dirs_sym [OF assms(3)]]
  by (simp_all add: plain_names_def short_paths_def) blast

lemma same_dirs_set_slot:
  assumes T: "\<And>e. e \<in> D \<Longrightarrow> T' e = set_slot T p en e" and p: "2 \<le> snd p" "snd p < 64" "length (T (fst p)) = 64"
    and nd: "\<not> is_dir en" "p \<notin> dir_slots D T"
  shows "same_dirs D T T'"
proof -
  have "ent T' q = (if q = p then en else ent T q)" if "fst q \<in> D" for q
    using T [OF that] p by (auto simp: set_slot_def prod_eq_iff)
  then have "dir_slots D T = dir_slots D T' \<and> (\<forall>q\<in>dir_slots D T. ent T' q = ent T q)"
    using nd by (auto simp: dir_slots_def slots_def split: if_splits)
  then show ?thesis using T p(1) by (simp add: same_dirs_def)
qed

subsection \<open>Files in a path\<close>

definition file_stem :: "u8 list \<Rightarrow> u8 list" where
  "file_stem x = takeWhile (\<lambda>c. c \<noteq> dot) x"

definition file_ext :: "u8 list \<Rightarrow> u8 list" where
  "file_ext x = drop (Suc (length (file_stem x))) x"

definition plain_file :: "u8 list \<Rightarrow> bool" where
  "plain_file x \<longleftrightarrow> length (file_stem x) \<le> 8 \<and> length (file_ext x) \<le> 3"

definition name_request :: "u8 list \<Rightarrow> nat \<Rightarrow> u32 \<Rightarrow> FAT32DriverRequest" where
  "name_request x d n = \<lparr>rq_buf = 0, rq_name = zero_padded 8 (file_stem x), rq_ext = zero_padded 3 (file_ext x),
     rq_parent_cluster_number = of_nat d, rq_buffer_size = n\<rparr>"

lemma stem_no_dot: "dot \<notin> set (file_stem x)"
  by (auto simp: file_stem_def dest: set_takeWhileD)

lemma stem_ext:
  assumes "dot \<notin> set st"
  shows "file_stem (st @ dot # ys) = st" "file_ext (st @ dot # ys) = ys" "file_stem st = st" "file_ext st = []"
  unfolding file_ext_def file_stem_def takeWhile_stem [OF assms] by simp_all

lemma stem_ext_split: "x = file_stem x \<or> x = file_stem x @ dot # file_ext x"
proof (cases "dot \<in> set x")
  case True
  then obtain st ys where "x = st @ dot # ys" "dot \<notin> set st" by (metis split_list_first)
  then show ?thesis by (simp add: stem_ext)
qed (simp add: stem_ext)

lemma shell_parse_file_name_plain:
  assumes "plain_file x" "0 \<notin> set x" "length x < 512"
  shows "shell_parse_file_name io (zero_padded 512 x) s = Ret (0, zero_padded 9 (file_stem x), zero_padded 4 (file_ext x), s)"
proof -
  have "parse_file_name x (replicate 9 0) (replicate 4 0) = (0, zero_padded 9 (file_stem x), zero_padded 4 (file_ext x))"
    using stem_ext_split [of x]
  proof
    assume x: "x = file_stem x"
    then have "file_ext x = []" by (metis file_ext_def drop_all lessI less_imp_le)
    then show ?thesis using parse_file_name_result(2) [OF stem_no_dot [of x], of 9 4] assms(1) x
      by (simp add: plain_file_def zero_padded_def)
  next
    assume x: "x = file_stem x @ dot # file_ext x"
    show ?thesis using parse_file_name_result(1) [OF stem_no_dot [of x], of 9 4 "file_ext x"] assms(1)
      by (simp add: plain_file_def flip: x)
  qed
  then show ?thesis using c_string_zero_padded [OF assms(2,3)] by (simp add: shell_parse_file_name_def)
qed

subsection \<open>Walking to the directory of a path\<close>

text \<open>What the commands assume of the file system, of the place of the shell and of the argument.\<close>

definition shell_ready :: "nat set \<Rightarrow> (slot \<Rightarrow> nat list) \<Rightarrow> u8 list list \<Rightarrow> nat \<Rightarrow> 'd shell \<Rightarrow> bool" where
  "shell_ready D own ns d s \<longleftrightarrow> fs_inv D own (sh_fs s) \<and> plain_names D (tables (sh_fs s)) \<and> short_paths D (tables (sh_fs s)) \<and>
     shell_at D ns d s"

definition path_arg :: "u8 list \<Rightarrow> bool" where
  "path_arg a \<longleftrightarrow> length a < 512 \<and> 0 \<notin> set a \<and> length (components a) < 256"

definition target :: "tables \<Rightarrow> u8 list \<Rightarrow> u8 list list \<Rightarrow> nat \<Rightarrow> outcome \<times> u8 list" where
  "target T a ns d = (let (cs, ns0, d0) = start_place a ns d in (walk T (butlast cs) ns0 d0, last cs))"

lemma start_place_components:
  assumes "path_arg a" "start_place a ns d = (cs, ns0, d0)"
  shows "plain_rows cs" "cs \<noteq> []" "length cs < 256"
proof -
  have a: "length a < 512" "0 \<notin> set a" "length (components a) < 256" using assms(1) by (simp_all add: path_arg_def)
  have tl: "length (drop 1 a) < 512" "0 \<notin> set (drop 1 a)" using a(1,2) by (auto dest: in_set_dropD)
  show "plain_rows cs" "cs \<noteq> []"
    using components_plain [OF a(1,2)] components_plain [OF tl] assms(2) by (auto simp: start_place_def split: if_splits)
  have "length (components (drop 1 a)) \<le> length (components a)" by (cases a) (auto split: if_splits)
  then show "length cs < 256" using a(3) assms(2) by (auto simp: start_place_def split: if_splits)
qed

lemma last_plain:
  assumes "plain_rows cs" "cs \<noteq> []"
  shows "length (last cs) < 512" "0 \<notin> set (last cs)"
  using assms last_in_set [OF assms(2)] by (auto simp: plain_rows_def)

lemma count_word:
  assumes "cs \<noteq> []" "length cs < 256"
  shows "unat (of_nat (length cs) - 1 :: u32) = length cs - 1" "sint (of_nat (length cs) - 1 :: u32) = int (length cs - 1)"
proof -
  have "(of_nat (length cs) - 1 :: u32) = of_nat (length cs - 1)" using assms(1) by (cases cs) simp_all
  then show "unat (of_nat (length cs) - 1 :: u32) = length cs - 1" "sint (of_nat (length cs) - 1 :: u32) = int (length cs - 1)"
    using assms(2) by (simp_all add: unat_of_nat signed_of_nat signed_take_bit_int_eq_self)
qed

lemma visit:
  assumes R: "shell_ready D own ns d s" and a: "path_arg a" and sp: "start_place a ns d = (cs, ns0, d0)"
    and w: "walk (tables (sh_fs s)) (butlast cs) ns0 d0 = Arrived ns1 d1"
  obtains s1 s2 where "parse_path (zero_padded 512 a) s = Ret (rows cs, of_nat (length cs), s1)"
    "shell_at D ns0 d0 s1" "sh_kernel s1 = sh_kernel s"
    "change_path io (rows cs) (int (length cs - 1)) s1 = Ret (0, s2)" "shell_at D ns1 d1 s2" "sh_kernel s2 = sh_kernel s"
proof -
  note C = start_place_components [OF a sp]
  have S: "fs_inv D own (sh_fs s)" "plain_names D (tables (sh_fs s))" "short_paths D (tables (sh_fs s))" "shell_at D ns d s"
    using R by (simp_all add: shell_ready_def)
  obtain s1 where s1: "parse_path (zero_padded 512 a) s = Ret (rows cs, of_nat (length cs), s1)" "shell_at D ns0 d0 s1" "sh_kernel s1 = sh_kernel s"
    using parse_path_result [OF _ _ S(4) sp C(3)] a by (auto simp: path_arg_def)
  have W: "walk_setting D own (sh_fs s1) cs" using S C(1) s1(3) by (simp add: walk_setting_def)
  have "path_outcome D ns0 d0 s1 (Arrived ns1 d1) (change_path io (rows cs) (int (length cs - 1)) s1)"
    using change_path_prefix [OF W _ s1(2), of "length cs - 1" io] w s1(3) by (simp add: butlast_conv_take)
  then show thesis using that s1 by (auto simp: path_outcome_def)
qed

lemma row_last:
  assumes "plain_rows cs" "cs \<noteq> []"
  shows "path_row (rows cs) (length cs - 1) = Ret (zero_padded 512 (last cs))"
  using row_string(1) [OF assms(1), of "length cs - 1"] assms(2) by (simp add: last_conv_nth)

lemma put_place_same:
  assumes "plain_rows cs" "length cs < 256" "fs_inv D own f" "d \<in> D" "current_dir_table s = tables f d"
  shows "\<exists>s'. put_place io (rows cs) (of_nat (length cs)) s = Ret s' \<and> same_shell s s'"
proof -
  have n: "unat (of_nat (length cs) :: u32) = length cs" using assms(2) by (simp add: unat_of_nat)
  show ?thesis
  proof (cases "2 \<le> length cs")
    case True
    have ge: "(2 :: u32) \<le> of_nat (length cs)" using True n by (simp add: word_le_nat_alt)
    then have "unat (of_nat (length cs) - 2 :: u32) = length cs - 2" using n by (simp add: unat_sub)
    moreover have "length cs - 2 < length cs" using True by simp
    ultimately show ?thesis using ge print_path_same [OF assms(1) _ same_shell_put [OF same_shell_refl], of "length cs - 2"]
      by (simp add: put_place_def)
  next
    case False
    then have "\<not> (2 :: u32) \<le> of_nat (length cs)" using n by (simp add: word_le_nat_alt)
    then show ?thesis using dir_name_string [OF assms(3,4)] assms(5) by (simp add: put_place_def put_array_def same_shell_put)
  qed
qed

subsection \<open>Removing\<close>

lemma rm_error_same:
  assumes "plain_rows cs" "cs \<noteq> []" "length cs < 256" "fs_inv D own f" "d \<in> D" "current_dir_table s = tables f d"
    and x: "0 \<notin> set x" "length x \<le> 8"
  shows "\<exists>s'. rm_error io r (zero_padded 9 x) (rows cs) (of_nat (length cs)) s = Ret s' \<and> same_shell s s'"
proof -
  let ?p = "\<lambda>str. put_text io str LIGHT_RED"
  have c: "c_string (zero_padded 9 x) = Ret x" using x by (intro c_string_zero_padded) simp_all
  define s1 where "s1 = ?p (quote @ '' not found in '') (put io x LIGHT_RED (?p (''error: '' @ quote) s))"
  have s1: "same_shell s s1" unfolding s1_def by (intro same_shell_put) simp
  obtain s2 where s2: "put_place io (rows cs) (of_nat (length cs)) s1 = Ret s2" "same_shell s1 s2"
    using put_place_same [OF assms(1,3,4,5), of s1] same_shellD(3) [OF s1] assms(6) by metis
  have s: "same_shell s s2" using s1 s2(2) by (auto simp: same_shell_def)
  obtain s3 where s3: "print_path io (rows cs) (length cs - 1) LIGHT_RED (?p (''error: Folder '' @ quote) s) = Ret s3" "same_shell s s3"
    using print_path_same [OF assms(1) _ same_shell_put [OF same_shell_refl]] assms(2) by (metis diff_less length_greater_0_conv zero_less_one)
  show ?thesis
    using c s2(1) s s3 count_word(1) [OF assms(2,3)]
    by (auto simp: rm_error_def put_array_def same_shell_put s1_def)
qed

lemma rm_result:
  assumes R: "shell_ready D own ns d s" and a: "path_arg a" and t: "target (tables (sh_fs s)) a ns d = (Arrived ns1 d1, x)"
    and x: "plain_file x" and del: "Delete (name_request x d1 0) (sh_fs s) = Ret (r, f')"
  shows "\<exists>s'. rm io [zero_padded 512 a, b] 1 s = Ret s' \<and> sh_fs s' = f' \<and> current_directory s' = of_nat d \<and>
    current_dir_table s' = tables f' d \<and> current_path s' = current_path s"
proof -
  obtain cs ns0 d0 where sp: "start_place a ns d = (cs, ns0, d0)" by (metis prod_cases3)
  have w: "walk (tables (sh_fs s)) (butlast cs) ns0 d0 = Arrived ns1 d1" and l: "last cs = x"
    using t sp by (simp_all add: target_def)
  have inv: "fs_inv D own (sh_fs s)" "shell_at D ns d s" using R by (simp_all add: shell_ready_def)
  note C = start_place_components [OF a sp] and L = last_plain [OF start_place_components(1,2) [OF a sp], unfolded l]
  obtain s1 s2 where V: "parse_path (zero_padded 512 a) s = Ret (rows cs, of_nat (length cs), s1)"
      "change_path io (rows cs) (int (length cs - 1)) s1 = Ret (0, s2)" "shell_at D ns1 d1 s2" "sh_kernel s2 = sh_kernel s"
    by (rule visit [OF R a sp w])
  have at: "current_directory s2 = of_nat d1" "current_dir_table s2 = tables (sh_fs s) d1" "d1 \<in> D"
    using V(3,4) dir_path_in [OF inv(1)] by (auto simp: shell_at_def)
  have len: "length (file_stem x) \<le> 8" "length (file_ext x) \<le> 3" "0 \<notin> set (file_stem x)"
    using x L(2) by (auto simp: plain_file_def file_stem_def dest: set_takeWhileD)
  obtain s3 where s3: "rm_error io r (zero_padded 9 (file_stem x)) (rows cs) (of_nat (length cs)) (set_sh_fs f' s2) = Ret s3"
      "same_shell (set_sh_fs f' s2) s3"
    using rm_error_same [OF C inv(1) at(3) _ len(3,1), of "set_sh_fs f' s2" io r] at(2) by (auto simp: set_sh_fs_def)
  have rq: "\<lparr>rq_buf = 0, rq_name = take 8 (zero_padded 9 (file_stem x)), rq_ext = take 3 (zero_padded 4 (file_ext x)),
      rq_parent_cluster_number = current_directory s2, rq_buffer_size = 0\<rparr> = name_request x d1 0"
    using len at(1) by (simp add: name_request_def take_zero_padded)
  have "rm io [zero_padded 512 a, b] 1 s = Ret (cancel_change_path (current_directory s) (current_path s) s3)"
    using V shell_parse_file_name_plain [OF x L(2,1), of io s2] del s3(1) row_last [OF C(1,2)] l
    by (simp add: rm_def count_word [OF C(2,3)] rq)
  moreover have "sh_fs s3 = f'" using same_shellD(5) [OF s3(2)] by simp
  ultimately show ?thesis using inv(2) by (simp add: cancel_change_path_def update_directory_table_def shell_at_def)
qed

lemma shell_ready_files:
  assumes R: "shell_ready D own ns d s" and inv: "fs_inv D own' (sh_fs s')" and S: "same_dirs D (tables (sh_fs s)) (tables (sh_fs s'))"
    and p: "current_directory s' = of_nat d" "current_dir_table s' = tables (sh_fs s') d" "current_path s' = current_path s"
  shows "shell_ready D own' ns d s'"
proof -
  have r: "fs_inv D own (sh_fs s)" "plain_names D (tables (sh_fs s))" "short_paths D (tables (sh_fs s))" "shell_at D ns d s"
    using R by (simp_all add: shell_ready_def)
  have "dir_path D (tables (sh_fs s)) ns d" "current_path s = zero_padded 512 (path_string ns)" using r(4) by (simp_all add: shell_at_def)
  then show ?thesis
    using same_dirs_setting [OF r(1) inv S r(2,3)] same_dirs_path [OF r(1) inv S] inv p
    by (simp add: shell_ready_def shell_at_def)
qed

lemma Delete_file_dirs:
  assumes inv: "fs_inv D own s" and p: "found_slot s rq \<in> slots D (tables s)" and f: "\<not> is_dir (ent (tables s) (found_slot s rq))"
    and del: "Delete rq s = Ret (r, s')"
  shows "same_dirs D (tables s) (tables s')"
proof -
  let ?p = "found_slot s rq"
  note F = found_slotD [OF inv p] and I = fs_invD [OF inv]
  have nd: "unat (rq_parent_cluster_number rq) \<notin> set (own ?p)" using F(12) f by auto
  have s': "s' = deleted rq (rq_table s rq) (snd ?p) (own ?p) s" using Delete_file_result [OF inv p f] del by simp
  show ?thesis
  proof (rule same_dirs_set_slot [where p = ?p and en = empty_entry])
    show "tables s' e = set_slot (tables s) ?p empty_entry e" if "e \<in> D" for e
      unfolding s' using deleted_effect(2) [OF inv p nd that] owned_dir [OF I(5) p _ that] f by auto
    show "length (tables s (fst ?p)) = 64" using wf_table_length [OF table_okD(1) [OF tree_invD(5) [OF I(5) F(1)]]] by simp
  qed (use F(3,4) f in \<open>simp_all add: dir_slots_def is_dir_def empty_entry_def\<close>)
qed

lemma abs_file:
  assumes "abs_fs D own s p = Some (File_Node nm ex sz bytes)"
  shows "p \<in> slots D (tables s)" "\<not> is_dir (ent (tables s) p)" "de_filesize (ent (tables s) p) = sz"
    "concat (map (cluster (fs_disk s)) (own p)) = bytes"
  using assms by (auto simp: abs_fs_def node_of_def split: if_splits)

lemma rm_file:
  assumes R: "shell_ready D own ns d s" and a: "path_arg a" and t: "target (tables (sh_fs s)) a ns d = (Arrived ns1 d1, x)"
    and x: "plain_file x" and p: "found_slot (sh_fs s) (name_request x d1 0) = p"
    and f: "abs_fs D own (sh_fs s) p = Some (File_Node nm ex sz bytes)"
  shows "\<exists>s'. rm io [zero_padded 512 a, b] 1 s = Ret s' \<and> shell_ready D own ns d s' \<and>
    abs_fs D own (sh_fs s') = (abs_fs D own (sh_fs s))(p := None) \<and> fs_fat (sh_fs s') = clear_cells (fs_fat (sh_fs s)) (own p)"
proof -
  have inv: "fs_inv D own (sh_fs s)" using R by (simp add: shell_ready_def)
  note A = abs_file [OF f, folded p]
  obtain f' where D: "Delete (name_request x d1 0) (sh_fs s) = Ret (0, f')" "fs_inv D own f'"
      "fs_fat f' = clear_cells (fs_fat (sh_fs s)) (own p)" "abs_fs D own f' = (abs_fs D own (sh_fs s))(p := None)"
    using Delete_file_refines [OF inv A(1,2)] p by blast
  obtain s' where s': "rm io [zero_padded 512 a, b] 1 s = Ret s'" "sh_fs s' = f'" "current_directory s' = of_nat d"
      "current_dir_table s' = tables f' d" "current_path s' = current_path s"
    using rm_result [OF R a t x D(1), of io b] by blast
  have "shell_ready D own ns d s'"
    using shell_ready_files [OF R, of own s'] Delete_file_dirs [OF inv A(1,2) D(1)] s' D(2) by simp
  then show ?thesis using s' D by auto
qed

subsection \<open>Reading\<close>

text \<open>A file as the shell finds it at the end of a path, and what the shell can hold of it.\<close>

definition file_at :: "nat set \<Rightarrow> (slot \<Rightarrow> nat list) \<Rightarrow> fs_state \<Rightarrow> u8 list \<Rightarrow> nat \<Rightarrow> u8 list \<Rightarrow> bool" where
  "file_at D own f x d bytes \<longleftrightarrow> plain_file x \<and>
     (\<exists>nm ex sz. abs_fs D own f (found_slot f (name_request x d 0)) = Some (File_Node nm ex sz bytes) \<and> sz \<le> 0x10000)"

lemma found_slot_size: "found_slot f (name_request x d n) = found_slot f (name_request x d 0)"
proof -
  have "entry_matches e (name_request x d n) = entry_matches e (name_request x d 0)" for e
    by (rule entry_matches_request) (simp_all add: name_request_def)
  then have "find_entry t (name_request x d n) = find_entry t (name_request x d 0)" for t by (simp add: find_entry_def)
  moreover have "rq_parent_cluster_number (name_request x d n) = of_nat d" "rq_parent_cluster_number (name_request x d 0) = of_nat d"
    by (simp_all add: name_request_def)
  ultimately show ?thesis by simp
qed

lemma file_bytes_length:
  assumes inv: "fs_inv D own f" and a: "abs_fs D own f p = Some (File_Node nm ex sz bytes)"
  shows "length bytes = 2048 * unat (number_of_partition sz)"
proof -
  note A = abs_file [OF a]
  have "length (own p) = unat (number_of_partition sz)"
    using tree_invD(6) [OF fs_invD(5) [OF inv] A(1)] A(2,3) by (simp add: entry_ok_def)
  moreover have "length (concat (map (cluster (fs_disk f)) cs)) = 2048 * length cs" for cs
    using length_read_cluster [OF fs_invD(1) [OF inv]] by (induction cs) simp_all
  ultimately show ?thesis using A(4) by metis
qed

lemma file_at_read:
  assumes inv: "fs_inv D own f" and a: "file_at D own f x d bytes"
  shows "fat_read (name_request x d 0x10000) f m = Ret (0, mem_write m 0 bytes)" "length bytes \<le> 0x10000" "2048 dvd length bytes"
proof -
  obtain nm ex sz where A: "abs_fs D own f (found_slot f (name_request x d 0x10000)) = Some (File_Node nm ex sz bytes)" "sz \<le> 0x10000"
    using a unfolding file_at_def found_slot_size [where n = "0x10000"] by blast
  note F = abs_file [OF A(1)]
  have z: "rq_buffer_size (name_request x d 0x10000) = 0x10000" "rq_buf (name_request x d 0x10000) = 0" by (simp_all add: name_request_def)
  show "fat_read (name_request x d 0x10000) f m = Ret (0, mem_write m 0 bytes)"
    using fat_read_file [OF inv F(1,2), of m] F(3,4) A(2) z by simp
  have "unat sz \<le> 0x10000" using A(2) by (simp add: word_le_nat_alt)
  then show "length bytes \<le> 0x10000" "2048 dvd length bytes"
    using file_bytes_length [OF inv A(1)] by (simp_all add: number_of_partition_ceil)
qed

lemma read_file_result:
  assumes R: "shell_ready D own ns d s" and C: "plain_rows cs" "cs \<noteq> []" "length cs < 256"
    and w: "walk (tables (sh_fs s)) (butlast cs) ns d = Arrived ns1 d1" and f: "file_at D own (sh_fs s) (last cs) d1 bytes"
  shows "\<exists>s'. read_file io (rows cs) (of_nat (length cs)) m s = Ret (0, mem_write m 0 bytes, s') \<and>
    shell_ready D own ns d s' \<and> sh_kernel s' = sh_kernel s"
proof -
  let ?x = "last cs"
  have S: "fs_inv D own (sh_fs s)" "plain_names D (tables (sh_fs s))" "short_paths D (tables (sh_fs s))" "shell_at D ns d s"
    using R by (simp_all add: shell_ready_def)
  note L = last_plain [OF C(1,2)]
  have W: "walk_setting D own (sh_fs s) cs" using S C(1) by (simp add: walk_setting_def)
  have "path_outcome D ns d s (Arrived ns1 d1) (change_path io (rows cs) (int (length cs - 1)) s)"
    using change_path_prefix [OF W _ S(4), of "length cs - 1" io] w by (simp add: butlast_conv_take)
  then obtain s2 where s2: "change_path io (rows cs) (int (length cs - 1)) s = Ret (0, s2)" "shell_at D ns1 d1 s2" "sh_kernel s2 = sh_kernel s"
    by (auto simp: path_outcome_def)
  have x: "plain_file ?x" "length (file_stem ?x) \<le> 8" "length (file_ext ?x) \<le> 3" using f by (auto simp: file_at_def plain_file_def)
  have rq: "\<lparr>rq_buf = 0, rq_name = take 8 (zero_padded 9 (file_stem ?x)), rq_ext = take 3 (zero_padded 4 (file_ext ?x)),
      rq_parent_cluster_number = current_directory s2, rq_buffer_size = 0x10000\<rparr> = name_request ?x d1 0x10000"
    using x s2(2) by (simp add: name_request_def take_zero_padded shell_at_def)
  have "read_file io (rows cs) (of_nat (length cs)) m s =
      Ret (0, mem_write m 0 bytes, cancel_change_path (current_directory s) (current_path s) s2)"
    using s2 shell_parse_file_name_plain [OF x(1) L(2,1), of io s2] row_last [OF C(1,2)] file_at_read(1) [OF S(1) f, of m] rq
    by (simp add: read_file_def count_word [OF C(2,3)] read_file_error_def)
  moreover have "shell_ready D own ns d (cancel_change_path (current_directory s) (current_path s) s2)"
    using S s2(3) by (simp add: shell_ready_def shell_at_def cancel_change_path_def update_directory_table_def)
  ultimately show ?thesis using s2(3) by (simp add: cancel_change_path_def)
qed

lemma text_in_buffer:
  assumes "length bytes \<le> n" "n \<le> 2 ^ 32" "0 \<in> set bytes"
  shows "c_string (mem_read (mem_write m 0 bytes) 0 n) = Ret (takeWhile (\<lambda>c. c \<noteq> 0) bytes)"
proof -
  have "mem_read (mem_write m 0 bytes) 0 n = bytes @ mem_read (mem_write m 0 bytes) (of_nat (length bytes)) (n - length bytes)"
    using mem_read_add [of "mem_write m 0 bytes" 0 "length bytes" "n - length bytes"] mem_read_write_same [of bytes m 0] assms by simp
  then show ?thesis using assms(3) by (simp add: c_string_def takeWhile_append1 [of 0])
qed

lemma cat_result:
  assumes R: "shell_ready D own ns d s" and a: "path_arg a" and sp: "start_place a ns d = (cs, ns0, d0)"
    and t: "target (tables (sh_fs s)) a ns d = (Arrived ns1 d1, x)" and f: "file_at D own (sh_fs s) x d1 bytes" and z: "0 \<in> set bytes"
  shows "\<exists>s'. cat io m [zero_padded 512 a, b] 1 s = Ret s' \<and> shell_ready D own ns0 d0 s' \<and>
    sh_kernel s' = (sh_kernel s)\<lparr>k_console := puts io [10] 15 (puts io (takeWhile (\<lambda>c. c \<noteq> 0) bytes) 15 (k_console (sh_kernel s)))\<rparr>"
proof -
  have w: "walk (tables (sh_fs s)) (butlast cs) ns0 d0 = Arrived ns1 d1" and l: "last cs = x"
    using t sp by (simp_all add: target_def)
  note C = start_place_components [OF a sp]
  have inv: "fs_inv D own (sh_fs s)" using R by (simp add: shell_ready_def)
  obtain s1 where s1: "parse_path (zero_padded 512 a) s = Ret (rows cs, of_nat (length cs), s1)" "shell_at D ns0 d0 s1"
      "sh_kernel s1 = sh_kernel s"
    by (rule visit [OF R a sp w])
  have R1: "shell_ready D own ns0 d0 s1" using R s1(2,3) by (simp add: shell_ready_def)
  obtain s2 where s2: "read_file io (rows cs) (of_nat (length cs)) m s1 = Ret (0, mem_write m 0 bytes, s2)"
      "shell_ready D own ns0 d0 s2" "sh_kernel s2 = sh_kernel s"
    using read_file_result [OF R1 C, of ns1 d1 bytes io m] w f l s1(3) by auto
  have t: "c_string (mem_read (mem_write m 0 bytes) 0 65536) = Ret (takeWhile (\<lambda>c. c \<noteq> 0) bytes)"
    using file_at_read(2) [OF inv f] z by (intro text_in_buffer) simp_all
  have "cat io m [zero_padded 512 a, b] 1 s = Ret (put io [10] WHITE (put io (takeWhile (\<lambda>c. c \<noteq> 0) bytes) WHITE s2))"
    using s1(1) s2(1) t by (simp add: cat_def put_array_def)
  then show ?thesis using s2(2,3) by (simp add: put_def shell_ready_def shell_at_def WHITE_def)
qed

subsection \<open>Copying\<close>

definition relative :: "u8 list \<Rightarrow> bool" where
  "relative a \<longleftrightarrow> a = [] \<or> \<not> is_sep (a ! 0)"

lemma start_place_relative: "relative a \<Longrightarrow> start_place a ns d = (components a, ns, d)"
  by (auto simp: start_place_def relative_def)

text \<open>
  \<^verbatim>\<open>find_buffer_size\<close> takes the first cluster of zeros for the end of the file; behind the file
  lies what the stack held.
\<close>

definition size_visible :: "u8 list \<Rightarrow> mem \<Rightarrow> bool" where
  "size_visible bytes m \<longleftrightarrow> bytes \<noteq> [] \<and> length bytes \<le> 31 * 2048 \<and>
     (\<forall>i<length bytes div 2048. take 2048 (drop (2048 * i) bytes) \<noteq> replicate 2048 0) \<and>
     mem_read m (of_nat (length bytes)) 2048 = replicate 2048 0"

lemma find_buffer_size_stop:
  assumes "k < 32" "mem_read m (of_nat (2048 * k)) 2048 = replicate 2048 0"
    and "\<And>i. i < k \<Longrightarrow> mem_read m (of_nat (2048 * i)) 2048 \<noteq> replicate 2048 0"
  shows "i \<le> k \<Longrightarrow> find_buffer_size m i = Ret (of_nat (2048 * k))"
proof (induction "k - i" arbitrary: i)
  case 0
  then show ?case using assms(1,2) by (subst find_buffer_size.simps) (simp add: mult.commute)
next
  case (Suc n)
  then have "find_buffer_size m (i + 1) = Ret (of_nat (2048 * k))" "i < k" by simp_all
  then show ?case using assms(1) assms(3) [of i] by (subst find_buffer_size.simps) simp
qed

lemma mem_read_written:
  assumes "k + n \<le> length bs" "length bs \<le> 2 ^ 32"
  shows "mem_read (mem_write m 0 bs) (of_nat k) n = take n (drop k bs)"
  using assms by (intro nth_equalityI) (auto simp: mem_write_def unat_of_nat_u32 simp flip: of_nat_add)

lemma mem_read_behind:
  assumes "length bs + n \<le> 2 ^ 32"
  shows "mem_read (mem_write m 0 bs) (of_nat (length bs)) n = mem_read m (of_nat (length bs)) n"
  using assms by (intro nth_equalityI) (auto simp: mem_write_def unat_of_nat_u32 simp flip: of_nat_add)

lemma find_buffer_size_file:
  assumes "size_visible bytes m" "2048 dvd length bytes"
  shows "find_buffer_size (mem_write m 0 bytes) 0 = Ret (of_nat (length bytes))"
proof -
  obtain k where k: "length bytes = 2048 * k" using assms(2) by blast
  have b: "k \<le> 31" "\<And>i. i < k \<Longrightarrow> take 2048 (drop (2048 * i) bytes) \<noteq> replicate 2048 0"
    "mem_read m (of_nat (2048 * k)) 2048 = replicate 2048 0"
    using assms(1) by (simp_all add: size_visible_def k)
  have r: "mem_read (mem_write m 0 bytes) (of_nat (2048 * i)) 2048 = take 2048 (drop (2048 * i) bytes)" if "i < k" for i
    using that b(1) k by (intro mem_read_written) simp_all
  show ?thesis unfolding k
    by (rule find_buffer_size_stop) (use b r k mem_read_behind [of bytes 2048 m] in simp_all)
qed

lemma file_written_dirs:
  assumes inv: "fs_inv D own s" and a: "can_add D s rq 0" and sz: "rq_buffer_size rq \<noteq> 0"
    and room: "unat (number_of_partition (rq_buffer_size rq)) \<le> length (free_from (fs_fat s) 3)"
    and w: "fat_write rq m s = Ret (r, s')"
  shows "same_dirs D (tables s) (tables s')"
proof -
  let ?p = "new_slot s rq"
  have s': "s' = file_written rq (rq_table s rq) (snd ?p) (file_clusters rq s) m s"
    using fat_write_file_result [OF inv a sz room, of m] w by simp
  note S = can_add_scan(4-6) [OF inv a]
  show ?thesis
    by (rule same_dirs_set_slot [where p = ?p and en = "new_entry rq (rq_table s rq) (snd ?p) 0 (hd (file_clusters rq s))"])
      (use file_written_effect(2) [OF inv a sz room, of _ m] s' S fs_inv_dir(2) [OF inv can_addD(2) [OF a]] in
        \<open>simp_all add: dir_slots_def slots_def\<close>)
qed

text \<open>Room for a file of \<open>n\<close> bytes under the name \<open>x\<close> in the directory \<open>d\<close>.\<close>

definition room_for_file :: "nat set \<Rightarrow> fs_state \<Rightarrow> u8 list \<Rightarrow> nat \<Rightarrow> u32 \<Rightarrow> bool" where
  "room_for_file D f x d n \<longleftrightarrow> can_add D f (name_request x d n) 0 \<and>
     unat (number_of_partition n) \<le> length (free_from (fs_fat f) 3)"

abbreviation copy_slot :: "fs_state \<Rightarrow> u8 list \<Rightarrow> nat \<Rightarrow> u32 \<Rightarrow> slot" where
  "copy_slot f x d n \<equiv> new_slot f (name_request x d n)"

abbreviation copy_own :: "fs_state \<Rightarrow> u8 list \<Rightarrow> nat \<Rightarrow> u32 \<Rightarrow> (slot \<Rightarrow> nat list) \<Rightarrow> slot \<Rightarrow> nat list" where
  "copy_own f x d n own \<equiv> own(copy_slot f x d n := file_clusters (name_request x d n) f)"

lemma write_to_file_result:
  assumes R: "shell_ready D own ns d s" and C: "plain_rows cs" "length cs < 256"
    and w: "walk (tables (sh_fs s)) cs ns d = Arrived ns1 d1"
    and x: "plain_file x" "0 \<notin> set x" "length x < 512" and room: "room_for_file D (sh_fs s) x d1 n" "n \<noteq> 0"
  shows "\<exists>s'. write_to io (zero_padded 512 x) (rows cs) (of_nat (length cs)) m n False s = Ret (0, s') \<and>
    shell_ready D (copy_own (sh_fs s) x d1 n own) ns d s' \<and> fat_write (name_request x d1 n) m (sh_fs s) = Ret (0, sh_fs s') \<and>
    sh_kernel s' = (sh_kernel s)\<lparr>k_fs := sh_fs s'\<rparr>"
proof -
  have S: "fs_inv D own (sh_fs s)" "plain_names D (tables (sh_fs s))" "short_paths D (tables (sh_fs s))" "shell_at D ns d s"
    using R by (simp_all add: shell_ready_def)
  have W: "walk_setting D own (sh_fs s) cs" using S C(1) by (simp add: walk_setting_def)
  obtain s2 where s2: "change_path io (rows cs) (int (length cs)) s = Ret (0, s2)" "shell_at D ns1 d1 s2" "sh_kernel s2 = sh_kernel s"
    using change_path_walk [OF W S(4), of io] w by (auto simp: path_outcome_def)
  have l: "length (file_stem x) \<le> 8" "length (file_ext x) \<le> 3" using x(1) by (simp_all add: plain_file_def)
  have rq: "\<lparr>rq_buf = 0, rq_name = take 8 (zero_padded 9 (file_stem x)), rq_ext = take 3 (zero_padded 4 (file_ext x)),
      rq_parent_cluster_number = current_directory s2, rq_buffer_size = n\<rparr> = name_request x d1 n"
    using l s2(2) by (simp add: name_request_def take_zero_padded shell_at_def)
  have sz: "rq_buffer_size (name_request x d1 n) = n" by (simp add: name_request_def)
  have rm: "can_add D (sh_fs s) (name_request x d1 n) 0" "rq_buffer_size (name_request x d1 n) \<noteq> 0"
      "unat (number_of_partition (rq_buffer_size (name_request x d1 n))) \<le> length (free_from (fs_fat (sh_fs s)) 3)"
    using room sz by (simp_all add: room_for_file_def)
  obtain f' where f': "fat_write (name_request x d1 n) m (sh_fs s) = Ret (0, f')" "fs_inv D (copy_own (sh_fs s) x d1 n own) f'"
    using fat_write_file_refines [OF S(1) rm, of m] by blast
  have c: "sint (of_nat (length cs) :: u32) = int (length cs)" using C(2) by (simp add: signed_of_nat signed_take_bit_int_eq_self)
  define s' where "s' = cancel_change_path (current_directory s) (current_path s) (set_sh_fs f' s2)"
  have "write_to io (zero_padded 512 x) (rows cs) (of_nat (length cs)) m n False s = Ret (0, s')"
    using s2 shell_parse_file_name_plain [OF x, of io s2] f'(1) rq by (simp add: write_to_def c Let_def write_to_error_def s'_def)
  moreover have s': "sh_fs s' = f'" "current_directory s' = of_nat d" "current_dir_table s' = tables f' d" "current_path s' = current_path s"
    using S(4) by (simp_all add: s'_def cancel_change_path_def update_directory_table_def shell_at_def set_sh_fs_def)
  moreover have "shell_ready D (copy_own (sh_fs s) x d1 n own) ns d s'"
    using shell_ready_files [OF R, of _ s'] f'(2) file_written_dirs [OF S(1) rm f'(1)] s' by simp
  moreover have "sh_kernel s' = (sh_kernel s)\<lparr>k_fs := f'\<rparr>"
    using s2(3) by (simp add: s'_def cancel_change_path_def update_directory_table_def set_sh_fs_def)
  ultimately show ?thesis using f'(1) by simp
qed

lemma cp_result:
  assumes R: "shell_ready D own ns d s" and a: "path_arg a" "relative a" "path_arg b" "relative b"
    and t: "target (tables (sh_fs s)) a ns d = (Arrived ns1 d1, x)" and f: "file_at D own (sh_fs s) x d1 bytes"
    and w: "walk (tables (sh_fs s)) (components b) ns d = Arrived ns2 d2"
    and v: "size_visible bytes m" and room: "room_for_file D (sh_fs s) x d2 (of_nat (length bytes))"
  defines "n \<equiv> of_nat (length bytes) :: u32"
  shows "\<exists>s'. cp io m [zero_padded 512 a, zero_padded 512 b] 2 s = Ret s' \<and>
    shell_ready D (copy_own (sh_fs s) x d2 n own) ns d s' \<and>
    fat_write (name_request x d2 n) (mem_write m 0 bytes) (sh_fs s) = Ret (0, sh_fs s') \<and>
    sh_kernel s' = (sh_kernel s)\<lparr>k_fs := sh_fs s'\<rparr>"
proof -
  note sp = start_place_relative [OF a(2), of ns d] start_place_relative [OF a(4), of ns d]
  note C = start_place_components [OF a(1) sp(1)] and C' = start_place_components [OF a(3) sp(2)]
  have W: "walk (tables (sh_fs s)) (butlast (components a)) ns d = Arrived ns1 d1" and l: "last (components a) = x"
    using t sp by (simp_all add: target_def)
  note L = last_plain [OF C(1,2), unfolded l]
  have inv: "fs_inv D own (sh_fs s)" "shell_at D ns d s" using R by (simp_all add: shell_ready_def)
  obtain s1 where s1: "parse_path (zero_padded 512 a) s = Ret (rows (components a), of_nat (length (components a)), s1)"
      "shell_at D ns d s1" "sh_kernel s1 = sh_kernel s"
    using parse_path_result [OF _ _ inv(2) sp(1) C(3)] a(1) by (auto simp: path_arg_def)
  obtain s2 where s2: "parse_path (zero_padded 512 b) s1 = Ret (rows (components b), of_nat (length (components b)), s2)"
      "shell_at D ns d s2" "sh_kernel s2 = sh_kernel s"
    using parse_path_result [OF _ _ s1(2) sp(2) C'(3)] a(3) s1(3) by (auto simp: path_arg_def)
  have R2: "shell_ready D own ns d s2" using R s2(2,3) by (simp add: shell_ready_def)
  obtain s3 where s3: "read_file io (rows (components a)) (of_nat (length (components a))) m s2 = Ret (0, mem_write m 0 bytes, s3)"
      "shell_ready D own ns d s3" "sh_kernel s3 = sh_kernel s"
    using read_file_result [OF R2 C, of ns1 d1 bytes io m] W f l s2(3) by auto
  note B = file_at_read(2,3) [OF inv(1) f]
  have "n \<noteq> 0" using v B(1) by (auto simp: n_def size_visible_def word_unat_eq_iff unat_of_nat)
  then obtain s4 where s4: "write_to io (zero_padded 512 x) (rows (components b)) (of_nat (length (components b))) (mem_write m 0 bytes) n False s3 = Ret (0, s4)"
      "shell_ready D (copy_own (sh_fs s) x d2 n own) ns d s4"
      "fat_write (name_request x d2 n) (mem_write m 0 bytes) (sh_fs s) = Ret (0, sh_fs s4)" "sh_kernel s4 = (sh_kernel s)\<lparr>k_fs := sh_fs s4\<rparr>"
    using write_to_file_result [OF s3(2) C'(1,3), of ns2 d2 x n io "mem_write m 0 bytes"] w f L room s3(3)
    by (auto simp: file_at_def n_def)
  have "cp io m [zero_padded 512 a, zero_padded 512 b] 2 s = Ret s4"
    using s1(1) s2(1) s3(1) s4(1) find_buffer_size_file [OF v B(2)] row_last [OF C(1,2)] l
    by (simp add: cp_def copy_file_def count_word [OF C(2,3)] n_def)
  then show ?thesis using s4(2-4) by blast
qed

subsection \<open>Walking past a new file\<close>

text \<open>\<^verbatim>\<open>b/x\<close> is a path to a file of its own: nothing in the way has its name.\<close>

definition copy_names :: "tables \<Rightarrow> u8 list \<Rightarrow> u8 list \<Rightarrow> nat \<Rightarrow> bool" where
  "copy_names T b x d \<longleftrightarrow> b \<noteq> [] \<and> \<not> is_sep (last b) \<and> x \<noteq> [] \<and>
     (\<forall>i<64. \<not> entry_matches (T d ! i) (name_request x d 0)) \<and>
     (\<forall>y\<in>set (components b). zero_padded 8 (file_stem x) \<noteq> take 8 (zero_padded 512 y))"

lemma scan_while_hit:
  assumes "scan_while P i n = k" "k < n" "i \<le> n" "\<And>l. i \<le> l \<Longrightarrow> l < n \<Longrightarrow> P l \<Longrightarrow> Q l" "\<not> Q k"
  shows "scan_while Q i n = k"
proof (rule scan_while_eqI)
  show "i \<le> k" "k \<le> n" using scan_while_bounds [OF assms(3), of P] assms(1) by auto
  show "Q l" if "i \<le> l" "l < k" for l using assms(2,4) scan_while_skipped [of i l P n] assms(1) that by simp
qed (use assms(5) in simp)

lemma lookup_dir_new_file:
  assumes l: "lookup_dir t x = Inr c" and j: "j < length t" "\<not> is_dir (t ! j)" "de_name e \<noteq> take 8 (zero_padded 512 x)"
    and t: "length t = 64"
  shows "lookup_dir (t[j := e]) x = Inr c"
proof -
  define i where "i = scan_while (\<lambda>i. de_name (t ! i) \<noteq> take 8 (zero_padded 512 x)) 2 64"
  have i: "i \<noteq> 64" "is_dir (t ! i)" "c = unat (entry_cluster (t ! i))"
    using l by (auto simp: lookup_dir_def i_def Let_def split: if_splits)
  have b: "i < 64" using i(1) scan_while_bounds [of 2 64] by (auto simp: i_def le_neq_implies_less)
  have ij: "i \<noteq> j" using i(2) j(2) by auto
  have "de_name (t ! i) = take 8 (zero_padded 512 x)" using scan_while_stop [of "\<lambda>i. de_name (t ! i) \<noteq> take 8 (zero_padded 512 x)" 2 64] b by (simp add: i_def)
  then have "scan_while (\<lambda>i. de_name (t[j := e] ! i) \<noteq> take 8 (zero_padded 512 x)) 2 64 = i"
    using b ij j(1,3) by (intro scan_while_hit [OF i_def [symmetric]]) (auto simp: nth_list_update)
  then show ?thesis using i b ij by (simp add: lookup_dir_def)
qed

lemma walk_new_file:
  assumes inv: "fs_inv D own f" "fs_inv D own' f'" "same_dirs D (tables f) (tables f')"
    and T: "\<And>e. e \<in> D \<Longrightarrow> tables f' e = set_slot (tables f) (q, j) en e" and j: "2 \<le> j" "j < 64" "\<not> is_dir (tables f q ! j)"
    and names: "\<forall>x\<in>set xs. de_name en \<noteq> take 8 (zero_padded 512 x)"
    and p: "dir_path D (tables f) ns d" and w: "walk (tables f) xs ns d = Arrived ns' d'"
  shows "walk (tables f') xs ns d = Arrived ns' d'"
  using names p w
proof (induction xs arbitrary: ns d)
  case (Cons x xs)
  have d: "d \<in> D" using dir_path_in [OF inv(1) Cons.prems(2)] .
  have t: "tables f' d ! Suc 0 = tables f d ! Suc 0" using T [OF d] j(1) by simp
  have len: "length (tables f d) = 64" using wf_table_length [OF table_okD(1) [OF tree_invD(5) [OF fs_invD(5) [OF inv(1)] d]]] .
  consider (up) "x = [46, 46]" | (here) "x = [46]" | (down) "x \<noteq> [46, 46]" "x \<noteq> [46]" by blast
  then show ?case
  proof cases
    case up
    then have n: "ns \<noteq> []" using Cons.prems(3) by auto
    show ?thesis using Cons.IH [OF _ dir_path_up(1) [OF inv(1) Cons.prems(2) n]] Cons.prems(1,3) up n t by simp
  next
    case here
    then show ?thesis using Cons.IH Cons.prems by simp
  next
    case down
    then obtain c where c: "lookup_dir (tables f d) x = Inr c" using Cons.prems(3) by (auto split: sum.splits)
    obtain k where k: "(d, k) \<in> slots D (tables f)" "is_dir (tables f d ! k)" "entry_cluster (tables f d ! k) = of_nat c" "c \<in> D"
      by (rule lookup_dir_step [OF inv(1) d c])
    have "lookup_dir (tables f' d) x = Inr c"
      using T [OF d] c lookup_dir_new_file [OF c, of j en] j len Cons.prems(1) by (cases "d = q") (auto simp: set_slot_def)
    moreover have "dir_name (tables f' c) = dir_name (tables f c)" using same_dirs_name [OF inv k(4)] .
    ultimately show ?thesis
      using Cons.IH [OF _ dir_path.step [OF Cons.prems(2) k]] Cons.prems(1,3) c down by simp
  qed
qed simp

end
