(* ===== verification/Shell_Demo.thy ===== *)
theory Shell_Demo
  imports Shell_Commands
begin

text \<open>
  A file system with a text file \<^verbatim>\<open>shell\<close> in the root and an empty folder \<^verbatim>\<open>bin\<close>, on which the
  properties of the shell are applied.
\<close>

definition text_mem :: mem where
  "text_mem = (\<lambda>a. if unat a < 7096 then 65 else 0)"

definition demo_text :: "u8 list" where
  "demo_text = replicate 3000 65 @ replicate 1096 0"

definition text_own :: "slot \<Rightarrow> nat list" where
  "text_own = (\<lambda>_. [])((2, 2) := [3, 4])"

definition text_fs :: fs_state where
  "text_fs = file_written demo_rq root_table 2 [3, 4] text_mem fresh_fs"

abbreviation file_word :: "u8 list" where "file_word \<equiv> map of_char ''shell''"
abbreviation dir_word :: "u8 list" where "dir_word \<equiv> map of_char ''bin''"

lemma demo_text_stored: "stored_bytes demo_rq text_mem = demo_text"
proof -
  have "unat (number_of_partition (rq_buffer_size demo_rq)) = 2" "rq_buf demo_rq = 0x1000"
    by (simp_all add: number_of_partition_ceil demo_rq_def)
  then have s: "stored_bytes demo_rq text_mem = mem_read text_mem 0x1000 4096" by (simp add: stored_bytes_def)
  show ?thesis unfolding s
  proof (rule nth_equalityI)
    fix i assume "i < length (mem_read text_mem 0x1000 4096)"
    then have i: "i < 4096" by simp
    have "unat (0x1000 + of_nat i :: u32) = 4096 + i" using unat_of_nat_u32 [of "4096 + i"] i by simp
    then show "mem_read text_mem 0x1000 4096 ! i = demo_text ! i" using i by (simp add: text_mem_def demo_text_def nth_append)
  qed (simp add: demo_text_def)
qed

lemma demo_slot: "new_slot fresh_fs demo_rq = (2, 2)" "rq_table fresh_fs demo_rq = root_table" "tables fresh_fs 2 = root_table"
proof -
  have p: "rq_parent_cluster_number demo_rq = 2" by (simp add: demo_rq_def)
  show "new_slot fresh_fs demo_rq = (2, 2)" "rq_table fresh_fs demo_rq = root_table" "tables fresh_fs 2 = root_table"
    using fresh_table by (simp_all add: p root_table_unused)
qed

lemma text_fs_state:
  "fs_inv {2} text_own text_fs" "tables text_fs 2 = root_table[2 := new_entry demo_rq root_table 2 0 3]"
  "abs_fs {2} text_own text_fs = [(2, 2) \<mapsto> File_Node (rq_name demo_rq) (rq_ext demo_rq) 3000 demo_text]"
  "fs_fat text_fs = link_chain formatted_fat [3, 4]"
proof -
  have w: "fat_write demo_rq text_mem fresh_fs = Ret (0, text_fs)"
    using fat_write_file_result [OF demo_write, of text_mem] demo_slot by (simp add: text_fs_def demo_clusters)
  have ab: "abs_fs {2} (\<lambda>_. []) fresh_fs = Map.empty" by (simp add: abs_fs_def fresh_no_slots fun_eq_iff)
  have sz: "rq_buffer_size demo_rq = 3000" by (simp add: demo_rq_def)
  from fat_write_file_refines [OF demo_write, of text_mem] w
  have "fs_inv {2} ((\<lambda>_. [])((2, 2) := [3, 4])) text_fs" "fs_fat text_fs = link_chain (fs_fat fresh_fs) [3, 4]"
    "abs_fs {2} ((\<lambda>_. [])((2, 2) := [3, 4])) text_fs =
      (abs_fs {2} (\<lambda>_. []) fresh_fs)((2, 2) \<mapsto> File_Node (rq_name demo_rq) (rq_ext demo_rq) (rq_buffer_size demo_rq) (stored_bytes demo_rq text_mem))"
    unfolding demo_slot(1) demo_clusters by auto
  then show "fs_inv {2} text_own text_fs" "fs_fat text_fs = link_chain formatted_fat [3, 4]"
    "abs_fs {2} text_own text_fs = [(2, 2) \<mapsto> File_Node (rq_name demo_rq) (rq_ext demo_rq) 3000 demo_text]"
    by (simp_all add: text_own_def ab sz demo_text_stored fresh_fat)
  show "tables text_fs 2 = root_table[2 := new_entry demo_rq root_table 2 0 3]"
    using file_written_effect(2) [OF demo_write, of 2 text_mem] demo_slot by (simp add: demo_clusters text_fs_def set_slot_def)
qed

lemma text_free: "free_from (fs_fat text_fs) 3 = [5..<512]"
proof -
  have l: "link_chain formatted_fat [3, 4] = formatted_fat[3 := 4, 4 := FAT32_FAT_END_OF_FILE]" by (simp add: link_chain_def)
  have "formatted_fat ! c = 0" if "5 \<le> c" "c < 512" for c
    using that by (simp add: formatted_fat_def initial_fat_def nth_append nth_Cons')
  then have "free_from (link_chain formatted_fat [3, 4]) 5 = [5..<512]" by (simp add: free_from_def filter_id_conv l)
  moreover have "length formatted_fat = 512" by (simp add: formatted_fat_def initial_fat_def)
  ultimately show ?thesis
    unfolding text_fs_state(4) by (simp add: free_from_step [of 3] free_from_step [of 4] l)
qed

definition bin_fs :: fs_state where
  "bin_fs = folder_written (folder_request dir_word 2) (tables text_fs 2) 3 5 text_fs"

definition bin_own :: "slot \<Rightarrow> nat list" where
  "bin_own = text_own((2, 3) := [5])"

definition bin_shell :: "unit shell" where
  "bin_shell = main_start (boot_kernel bin_fs)"

lemma demo_words:
  "plain_word dir_word" "plain_file file_word" "file_stem file_word = file_word" "file_ext file_word = []"
  "zero_padded 8 dir_word \<noteq> rq_name demo_rq" "zero_padded 8 dir_word \<noteq> replicate 8 0" "zero_padded 8 dir_word \<noteq> root_name"
  "zero_padded 8 file_word = rq_name demo_rq" "take 8 (zero_padded 512 dir_word) = zero_padded 8 dir_word"
  by code_simp+

lemma name_request_demo: "name_request file_word 2 3000 = demo_rq\<lparr>rq_buf := 0\<rparr>"
  unfolding name_request_def demo_words(3,4,8) by (simp add: demo_rq_def zero_padded_def numeral_3_eq_3)

lemma text_table:
  "first_unused (tables text_fs 2) 2 = 3" "2 \<le> i \<Longrightarrow> i < 64 \<Longrightarrow> de_name (tables text_fs 2 ! i) \<in> {rq_name demo_rq, replicate 8 0}"
proof -
  let ?e = "new_entry demo_rq root_table 2 0 3"
  have l: "length root_table = 64" using wf_table_length [OF table_okD(1) [OF root_table_ok]] .
  show "first_unused (tables text_fs 2) 2 = 3"
    unfolding first_unused_def
    by (rule scan_while_eqI) (use l root_table_empty [of 3] text_fs_state(2) in \<open>auto simp: less_Suc_eq_le le_antisym numeral_3_eq_3 dest!: le_antisym\<close>)
  show "de_name (tables text_fs 2 ! i) \<in> {rq_name demo_rq, replicate 8 0}" if "2 \<le> i" "i < 64"
    using that l root_table_empty [of i] new_entry_key [OF demo_name(2)] text_fs_state(2)
    by (cases "i = 2") (simp_all add: empty_entry_def)
qed

lemma bin_room: "can_add {2} text_fs (folder_request dir_word 2) ATTR_SUBDIRECTORY"
proof -
  have t: "read_table text_fs 2 = tables text_fs 2" by simp
  have w: "wf_request (folder_request dir_word 2)" using demo_words(1) by (simp add: wf_request_def folder_request_def plain_word_def)
  have n: "rq_name (folder_request dir_word 2) = zero_padded 8 dir_word" "rq_parent_cluster_number (folder_request dir_word 2) = 2"
    by (simp_all add: folder_request_def)
  have "\<not> has_key (tables text_fs 2) (folder_request dir_word 2) ATTR_SUBDIRECTORY i" if "2 \<le> i" "i < 64" for i
    using text_table(2) [OF that] demo_words(5,6) n(1) by (auto simp: has_key_def)
  then show ?thesis using w n text_table(1) by (simp add: can_add_def Let_def)
qed

lemma bin_fs_made:
  "folder_made {2} (tables text_fs) (tables bin_fs) dir_word 2 3 5" "fs_inv {5, 2} bin_own bin_fs"
  "de_name (tables bin_fs 2 ! 3) = zero_padded 8 dir_word" "\<And>i. i \<noteq> 3 \<Longrightarrow> tables bin_fs 2 ! i = tables text_fs 2 ! i"
  using folder_written_made [OF text_fs_state(1) demo_words(1) _ bin_room, of 5 "[6..<512]"] text_free text_table(1)
  by (simp_all add: bin_fs_def bin_own_def upt_rec [of 5])

lemma bin_abs:
  "abs_fs {5, 2} bin_own bin_fs (2, 2) = Some (File_Node (rq_name demo_rq) (rq_ext demo_rq) 3000 demo_text)"
  "fs_fat bin_fs = (fs_fat text_fs)[5 := FAT32_FAT_END_OF_FILE]" "folder_empty (tables bin_fs 5)"
proof -
  have c: "free_from (fs_fat text_fs) 3 = 5 # [6..<512]" using text_free by (simp add: upt_rec [of 5])
  have sz: "rq_buffer_size (folder_request dir_word 2) = 0" "rq_parent_cluster_number (folder_request dir_word 2) = 2"
    by (simp_all add: folder_request_def)
  have sl: "new_slot text_fs (folder_request dir_word 2) = (2, 3)" using text_table(1) sz by simp
  have w: "fat_write (folder_request dir_word 2) text_mem text_fs = Ret (0, bin_fs)"
    using fat_write_folder_result [OF text_fs_state(1) bin_room sz(1) c, of text_mem] sz text_table(1) by (simp add: bin_fs_def)
  note X = fat_write_folder_refines [OF text_fs_state(1) bin_room sz(1) c, of text_mem, unfolded sl w, folded bin_own_def]
  show "abs_fs {5, 2} bin_own bin_fs (2, 2) = Some (File_Node (rq_name demo_rq) (rq_ext demo_rq) 3000 demo_text)"
    "fs_fat bin_fs = (fs_fat text_fs)[5 := FAT32_FAT_END_OF_FILE]" "folder_empty (tables bin_fs 5)"
    using X text_fs_state(3) by auto
qed

lemma text_no_dirs: "dir_path {2} (tables text_fs) ns d \<Longrightarrow> ns = [] \<and> d = 2"
proof (erule dir_path.cases)
  fix ns' d' i c assume "(d', i) \<in> slots {2} (tables text_fs)" "is_dir (tables text_fs d' ! i)"
  then have "abs_fs {2} text_own text_fs (d', i) = Some (Dir_Node (de_name (tables text_fs d' ! i)) (de_ext (tables text_fs d' ! i)) (hd (text_own (d', i))))"
    by (simp add: abs_fs_def node_of_def)
  then show "ns = [] \<and> d = 2" unfolding text_fs_state(3) by (simp split: if_splits)
qed simp

lemma bin_ready: "shell_ready {5, 2} bin_own [] 2 bin_shell" "sh_fs bin_shell = bin_fs"
proof -
  show fs: "sh_fs bin_shell = bin_fs" by (simp add: bin_shell_def main_start_def boot_kernel_def)
  have p: "plain_names {2} (tables text_fs)" "\<forall>ns e. dir_path {2} (tables text_fs) ns e \<longrightarrow> length (path_string ns) < 503"
    using text_no_dirs by (auto simp: plain_names_def path_string_def)
  have a: "good_name dir_word" "length dir_word \<le> 8" using plain_word_good [OF demo_words(1)] by simp_all
  note S = folder_made_settings [OF bin_fs_made(1) _ _ closed_dirs_inv [OF text_fs_state(1)] p(1) a p(2)]
  have "shell_at {5, 2} [] 2 bin_shell"
    using zero_padded_snoc [of "[]" 512 47] dir_path.root fs
    by (simp add: shell_at_def bin_shell_def main_start_def path_string_def zero_padded_def boot_kernel_def)
  then show "shell_ready {5, 2} bin_own [] 2 bin_shell"
    using S bin_fs_made(2) unfolding shell_ready_def fs by simp
qed

lemma bin_lookup: "lookup_dir (tables bin_fs 2) dir_word = Inr 5"
proof -
  have "de_name (tables bin_fs 2 ! i) \<noteq> zero_padded 8 dir_word" if "2 \<le> i" "i < 3" for i
    using bin_fs_made(4) [of i] text_table(2) [of i] demo_words(5,6) that by auto
  then show ?thesis
    using bin_fs_made(1,3) demo_words(1) by (intro lookup_new_folder [of 3]) (simp_all add: folder_made_def plain_word_def)
qed

lemma bin_target:
  "target (tables bin_fs) file_word [] 2 = (Arrived [] 2, file_word)"
  "walk (tables bin_fs) (components dir_word) [] 2 = Arrived [dir_word] 5"
proof -
  have c: "components file_word = [file_word]" "components dir_word = [dir_word]" "relative file_word" by code_simp+
  show "target (tables bin_fs) file_word [] 2 = (Arrived [] 2, file_word)"
    unfolding target_def start_place_relative [OF c(3)] c(1) by simp
  note bin_lookup
  moreover have "dir_name (tables bin_fs 5) = dir_word" using bin_fs_made(1) unfolding folder_made_def by blast
  moreover have "dir_word \<noteq> [46, 46]" "dir_word \<noteq> [46]" by code_simp+
  ultimately show "walk (tables bin_fs) (components dir_word) [] 2 = Arrived [dir_word] 5"
    unfolding c(2) walk.simps by simp
qed

lemma bin_found: "found_slot bin_fs (name_request file_word 2 0) = (2, 2)"
proof -
  let ?rq = "name_request file_word 2 3000"
  have m: "entry_matches e ?rq = entry_matches e demo_rq" for e
    by (rule entry_matches_request) (simp_all only: name_request_demo, simp_all)
  have l: "length root_table = 64" using wf_table_length [OF table_okD(1) [OF root_table_ok]] .
  have "find_entry (tables bin_fs 2) ?rq = 2"
    unfolding find_entry_def
  proof (rule scan_while_eqI)
    have t: "tables bin_fs 2 ! 2 = new_entry demo_rq root_table 2 0 3" using bin_fs_made(4) [of 2] text_fs_state(2) l by simp
    show "\<not> \<not> entry_matches (tables bin_fs 2 ! 2) ?rq"
      unfolding m t using new_entry_key [OF demo_name(2)] wf_new_entry [OF demo_name(2)] demo_name(2) by (simp add: entry_matches_iff)
    show "\<not> entry_matches (tables bin_fs 2 ! k) ?rq" if "k < 2" for k
      unfolding m using bin_fs_made(4) [of k] text_fs_state(2) that demo_no_match [of k] by simp
  qed simp_all
  then have "found_slot bin_fs ?rq = (2, 2)" unfolding name_request_demo by (simp add: demo_rq_def)
  then show ?thesis unfolding found_slot_size [where n = 3000] .
qed

lemma bin_file: "file_at {5, 2} bin_own bin_fs file_word 2 demo_text"
  unfolding file_at_def bin_found using bin_abs(1) demo_words(2) by simp

lemma demo_text_visible: "size_visible demo_text (\<lambda>_. 0)" "0 \<in> set demo_text" "takeWhile (\<lambda>c. c \<noteq> 0) demo_text = replicate 3000 65"
proof -
  have "take 2048 (drop (2048 * i) demo_text) \<noteq> replicate 2048 0" if "i < 2" for i
  proof
    assume "take 2048 (drop (2048 * i) demo_text) = replicate 2048 0"
    then have "take 2048 (drop (2048 * i) demo_text) ! 0 = replicate 2048 0 ! 0" by (rule arg_cong)
    moreover have "take 2048 (drop (2048 * i) demo_text) ! 0 = 65" using that by (simp add: demo_text_def nth_append)
    ultimately show False by simp
  qed
  then show "size_visible demo_text (\<lambda>_. 0)" by (simp add: size_visible_def demo_text_def mem_read_def map_replicate_const)
  show "0 \<in> set demo_text" "takeWhile (\<lambda>c. c \<noteq> 0) demo_text = replicate 3000 65" by (simp_all add: demo_text_def takeWhile_append)
qed

lemma bin_copy_room: "room_for_file {5, 2} bin_fs file_word 5 (of_nat (length demo_text))"
proof -
  let ?rq = "name_request file_word 5 (of_nat (length demo_text))"
  have q: "rq_parent_cluster_number ?rq = 5" "rq_name ?rq = rq_name demo_rq" "wf_request ?rq"
    unfolding name_request_def demo_words(3,4) using demo_words(8) demo_name(2) by (simp_all add: wf_request_def)
  have len: "length demo_text = 4096" by (simp add: demo_text_def)
  have "can_add {5, 2} bin_fs ?rq 0"
    using folder_empty_can_add(1) [OF bin_fs_made(2), of ?rq] q demo_name(1) bin_abs(3) by simp
  moreover have "{6, 7} \<subseteq> set (free_from (fs_fat bin_fs) 3)"
  proof -
    have "6 \<in> set (free_from (fs_fat text_fs) 3)" "7 \<in> set (free_from (fs_fat text_fs) 3)" using text_free by simp_all
    then have "fs_fat text_fs ! 6 = 0" "fs_fat text_fs ! 7 = 0" unfolding set_free_from by blast+
    then show ?thesis unfolding bin_abs(2) set_free_from by simp
  qed
  then have "card {6, 7 :: nat} \<le> card (set (free_from (fs_fat bin_fs) 3))" by (rule card_mono [OF finite_set])
  then have "2 \<le> length (free_from (fs_fat bin_fs) 3)" using card_length [of "free_from (fs_fat bin_fs) 3"] by simp
  ultimately show ?thesis by (simp add: room_for_file_def len number_of_partition_ceil)
qed

lemma bin_own_entries: "j < 2 \<Longrightarrow> de_name (tables bin_fs 5 ! j) \<in> {zero_padded 8 dir_word, root_name}"
proof -
  have c: "free_from (fs_fat text_fs) 3 = 5 # [6..<512]" using text_free by (simp add: upt_rec [of 5])
  have sz: "rq_buffer_size (folder_request dir_word 2) = 0" "rq_parent_cluster_number (folder_request dir_word 2) = 2"
      "rq_name (folder_request dir_word 2) = zero_padded 8 dir_word" by (simp_all add: folder_request_def)
  have t: "tables bin_fs 5 = init_directory_table (zero_padded 8 dir_word) 2 text_fs"
    using folder_written_effect(3) [OF text_fs_state(1) bin_room sz(1) c] sz text_table(1) by (simp add: bin_fs_def)
  have l: "length (zero_padded 8 dir_word) = 8" "length root_name = 8" by code_simp+
  assume "j < 2"
  then have "j = 0 \<or> j = 1" by auto
  then show "de_name (tables bin_fs 5 ! j) \<in> {zero_padded 8 dir_word, root_name}"
    unfolding t using find_empty_cluster_inv(1,2) [OF text_fs_state(1) c] l
    by (auto simp: init_directory_table_def Let_def)
qed

lemma bin_copy_names: "copy_names (tables bin_fs) dir_word file_word 5"
proof -
  have "\<not> entry_matches (tables bin_fs 5 ! i) (name_request file_word 5 0)" if i: "i < 64" for i
  proof -
    have q: "wf_request (name_request file_word 5 0)" "rq_name (name_request file_word 5 0) = rq_name demo_rq"
      unfolding name_request_def demo_words(3,4) using demo_words(8) demo_name(2) by (simp_all add: wf_request_def)
    have t: "table_ok 5 (tables bin_fs 5)" using tree_invD(5) [OF fs_invD(5) [OF bin_fs_made(2)], of 5] by simp
    have "de_name (tables bin_fs 5 ! i) \<in> {zero_padded 8 dir_word, root_name, replicate 8 0}"
    proof (cases "i < 2")
      case False
      then have "tables bin_fs 5 ! i = empty_entry" using table_okD(4) [OF t, of i] bin_abs(3) i by (simp add: folder_empty_def)
      then show ?thesis by (simp add: empty_entry_def)
    qed (use bin_own_entries in blast)
    then show ?thesis
      using entry_matches_iff [OF wf_table_nth [OF table_okD(1) [OF t] i] q(1)] q(2) demo_words(5) demo_name(1,3) by auto
  qed
  moreover have "dir_word \<noteq> []" "\<not> is_sep (last dir_word)" "file_word \<noteq> []" "components dir_word = [dir_word]" by code_simp+
  ultimately show ?thesis
    unfolding copy_names_def demo_words(3) using demo_words(5,8,9) by simp
qed

lemma demo_path_arg:
  "path_arg file_word" "relative file_word" "path_arg dir_word" "relative dir_word" "path_arg (dir_word @ 47 # file_word)"
  by code_simp+

end
