(* ===== verification/Shell_Effects.thy ===== *)
theory Shell_Effects
  imports Shell_Demo
begin

text \<open>
  What the file commands of the shell do to the abstract file system and to the screen, one
  by one and in sequence.
\<close>

subsection \<open>A copy and its original\<close>

lemma stored_copy:
  assumes "2048 dvd length bytes" "length bytes \<le> 0x10000"
  shows "stored_bytes (name_request x d (of_nat (length bytes))) (mem_write m 0 bytes) = bytes"
proof -
  obtain k where k: "length bytes = 2048 * k" using assms(1) by blast
  have "unat (of_nat (length bytes) :: u32) = 2048 * k" using unat_of_nat_u32 [of "length bytes"] assms(2) k by simp
  then have "unat (number_of_partition (of_nat (length bytes))) = k" by (simp add: number_of_partition_ceil)
  then show ?thesis using mem_read_write_same [of bytes m 0] k assms(2) by (simp add: stored_bytes_def name_request_def)
qed

lemma copy_found:
  assumes inv: "fs_inv D own f" and room: "room_for_file D f x d n" "n \<noteq> 0" "n \<le> 0x10000" and x: "plain_file x"
    and new: "\<forall>i<64. \<not> entry_matches (tables f d ! i) (name_request x d 0)" and d: "d \<in> D"
    and w: "fat_write (name_request x d n) m f = Ret (0, f')"
    and ab: "abs_fs D own' f' = (abs_fs D own f)(copy_slot f x d n \<mapsto> File_Node nm ex n bytes)"
  shows "file_at D own' f' x d bytes"
proof -
  let ?rq = "name_request x d n"
  have q: "rq_buffer_size ?rq = n" "rq_parent_cluster_number ?rq = of_nat d" by (simp_all add: name_request_def)
  have u: "unat (of_nat d :: u32) = d" using unat_dir [OF inv d] .
  have A: "can_add D f ?rq 0" "rq_buffer_size ?rq \<noteq> 0" "unat (number_of_partition (rq_buffer_size ?rq)) \<le> length (free_from (fs_fat f) 3)"
    using room q by (simp_all add: room_for_file_def)
  have "entry_matches e ?rq = entry_matches e (name_request x d 0)" for e
    by (rule entry_matches_request) (simp_all add: name_request_def)
  then have N: "\<forall>i<64. \<not> entry_matches (rq_table f ?rq ! i) ?rq" using new q u by simp
  have f': "f' = file_written ?rq (rq_table f ?rq) (snd (new_slot f ?rq)) (file_clusters ?rq f) m f"
    using fat_write_file_result [OF inv A, of m] w by simp
  have "found_slot f' (name_request x d 0) = new_slot f ?rq"
    by (rule written_found(1) [OF inv A N _ _ _ f']) (simp_all add: name_request_def)
  then show ?thesis using ab room(3) x unfolding file_at_def by auto
qed

lemma components_join:
  assumes "b \<noteq> []" "\<not> is_sep (last b)" "x \<noteq> []" "\<forall>c\<in>set x. \<not> is_sep c"
  shows "components (b @ 47 # x) = components b @ [x]"
  using assms(1,2)
proof (induction b rule: components.induct)
  case (2 c cs)
  have x: "components x = [x]" using plain_word_components [OF assms(4)] .
  show ?case
  proof (cases "cs = []")
    case True
    then show ?thesis using 2 x assms(3) by (simp add: is_sep_def)
  next
    case False
    then show ?thesis using 2 by simp
  qed
qed simp

lemma components_no_sep: "y \<in> set (components a) \<Longrightarrow> \<forall>c\<in>set y. \<not> is_sep c"
proof (induction a arbitrary: y rule: components.induct)
  case (2 c cs)
  have h: "\<forall>c\<in>set (hd (components cs)). \<not> is_sep c" if "\<not> is_sep c" using 2(2) [OF that] hd_in_set [OF components_nonempty] by blast
  have t: "\<forall>c\<in>set y. \<not> is_sep c" if "\<not> is_sep c" "y \<in> set (tl (components cs))"
    using 2(2) [OF that(1)] that(2) by (metis components_nonempty list.set_sel(2))
  show ?case
  proof (cases "is_sep c")
    case True
    then have "y = [] \<or> (cs \<noteq> [] \<and> y \<in> set (components cs))" using "2.prems" by (simp split: if_splits)
    then show ?thesis using 2(1) [OF True] by fastforce
  next
    case False
    then have "y = c # hd (components cs) \<or> y \<in> set (tl (components cs))" using "2.prems" by simp
    then show ?thesis using h t False by auto
  qed
qed simp

text \<open>
  C15. \<^verbatim>\<open>rm\<close> of a file, on a relative or absolute path of fewer than 256 components: the command returns to the place where the shell was, the
  file at the end of the path is gone from the abstract file system, exactly its clusters are
  free again, every other file and folder is unchanged, and the file system is well-formed.
\<close>

theorem rm_removes_file:
  assumes "shell_ready D own ns d s" "path_arg a" "target (tables (sh_fs s)) a ns d = (Arrived ns1 d1, x)"
    and "plain_file x" "found_slot (sh_fs s) (name_request x d1 0) = p"
    and "abs_fs D own (sh_fs s) p = Some (File_Node nm ex sz bytes)"
  shows "\<exists>s'. rm io [zero_padded 512 a, b] 1 s = Ret s' \<and> shell_ready D own ns d s' \<and>
    abs_fs D own (sh_fs s') = (abs_fs D own (sh_fs s))(p := None) \<and> fs_fat (sh_fs s') = clear_cells (fs_fat (sh_fs s)) (own p)"
  using assms by (rule rm_file)

theorem rm_removes_file_witness:
  "\<exists>s'. rm null_ports [zero_padded 512 file_word, []] 1 bin_shell = Ret s' \<and> abs_fs {5, 2} bin_own (sh_fs s') (2, 2) = None"
  using rm_removes_file [OF bin_ready(1), unfolded bin_ready(2), OF demo_path_arg(1) bin_target(1) demo_words(2) bin_found bin_abs(1), of null_ports "[]"]
  by auto

text \<open>
  \<^verbatim>\<open>cat\<close> of a file of at most 64 KiB with a NUL in its clusters, on any path, prints the
  bytes before the first NUL and a line feed in white and changes nothing else; the shell
  is then where the path started.
\<close>

theorem cat_prints_file:
  assumes "shell_ready D own ns d s" "path_arg a" "start_place a ns d = (cs, ns0, d0)"
    and "target (tables (sh_fs s)) a ns d = (Arrived ns1 d1, x)" "file_at D own (sh_fs s) x d1 bytes" "0 \<in> set bytes"
  shows "\<exists>s'. cat io m [zero_padded 512 a, b] 1 s = Ret s' \<and> shell_ready D own ns0 d0 s' \<and>
    sh_kernel s' = (sh_kernel s)\<lparr>k_console := puts io [10] 15 (puts io (takeWhile (\<lambda>c. c \<noteq> 0) bytes) 15 (k_console (sh_kernel s)))\<rparr>"
  using assms by (rule cat_result)

theorem cat_prints_file_witness:
  "\<exists>s'. cat null_ports (\<lambda>_. 0) [zero_padded 512 file_word, []] 1 bin_shell = Ret s' \<and>
     k_console (sh_kernel s') = puts null_ports [10] 15 (puts null_ports (replicate 3000 65) 15 (k_console (sh_kernel bin_shell)))"
  using cat_prints_file [OF bin_ready(1), unfolded bin_ready(2), OF demo_path_arg(1) start_place_relative [OF demo_path_arg(2)]
      bin_target(1) bin_file demo_text_visible(2), of null_ports "\<lambda>_. 0" "[]"]
  unfolding demo_text_visible(3) by auto

lemma cp_abstract:
  assumes R: "shell_ready D own ns d s" and a: "path_arg a" "relative a" "path_arg b" "relative b"
    and t: "target (tables (sh_fs s)) a ns d = (Arrived ns1 d1, x)" and f: "file_at D own (sh_fs s) x d1 bytes"
    and w: "walk (tables (sh_fs s)) (components b) ns d = Arrived ns2 d2"
    and v: "size_visible bytes m" and room: "room_for_file D (sh_fs s) x d2 (of_nat (length bytes))"
  defines "n \<equiv> of_nat (length bytes) :: u32"
  shows "\<exists>s'. cp io m [zero_padded 512 a, zero_padded 512 b] 2 s = Ret s' \<and>
    shell_ready D (copy_own (sh_fs s) x d2 n own) ns d s' \<and>
    abs_fs D (copy_own (sh_fs s) x d2 n own) (sh_fs s') = (abs_fs D own (sh_fs s))
      (copy_slot (sh_fs s) x d2 n \<mapsto> File_Node (zero_padded 8 (file_stem x)) (zero_padded 3 (file_ext x)) n bytes) \<and>
    fat_write (name_request x d2 n) (mem_write m 0 bytes) (sh_fs s) = Ret (0, sh_fs s') \<and>
    sh_kernel s' = (sh_kernel s)\<lparr>k_fs := sh_fs s'\<rparr>"
proof -
  let ?rq = "name_request x d2 n"
  have inv: "fs_inv D own (sh_fs s)" using R by (simp add: shell_ready_def)
  obtain s' where s': "cp io m [zero_padded 512 a, zero_padded 512 b] 2 s = Ret s'"
      "shell_ready D (copy_own (sh_fs s) x d2 n own) ns d s'" "fat_write ?rq (mem_write m 0 bytes) (sh_fs s) = Ret (0, sh_fs s')"
      "sh_kernel s' = (sh_kernel s)\<lparr>k_fs := sh_fs s'\<rparr>"
    using cp_result [OF R a t f w v room] unfolding n_def by blast
  note B = file_at_read(2,3) [OF inv f]
  have q: "rq_buffer_size ?rq = n" "rq_name ?rq = zero_padded 8 (file_stem x)" "rq_ext ?rq = zero_padded 3 (file_ext x)"
    by (simp_all add: name_request_def)
  have "n \<noteq> 0" using v B(1) by (auto simp: n_def size_visible_def word_unat_eq_iff unat_of_nat)
  then have A: "can_add D (sh_fs s) ?rq 0" "rq_buffer_size ?rq \<noteq> 0"
      "unat (number_of_partition (rq_buffer_size ?rq)) \<le> length (free_from (fs_fat (sh_fs s)) 3)"
    using room q by (simp_all add: room_for_file_def n_def)
  have "stored_bytes ?rq (mem_write m 0 bytes) = bytes" unfolding n_def by (rule stored_copy [OF B(2,1)])
  then show ?thesis using fat_write_file_refines [OF inv A, of "mem_write m 0 bytes"] s' q by auto
qed

text \<open>
  C16. \<^verbatim>\<open>cp\<close> of a file to a folder, both by relative paths of fewer than 256 components, for a file of
  at most 31 clusters none of which is all zeros, and when the uninitialised local buffer of the code
  holds a cluster of zeros behind the bytes of the file (the code takes the first such cluster
  for the end). Then one file is added to the abstract file system, with the name of the original
  and all bytes of its clusters, its size being that of the whole clusters and not that of the original;
  the shell is where it was, and the rest of the kernel, the screen included, does not change.
\<close>

theorem cp_copies_file:
  assumes "shell_ready D own ns d s" "path_arg a" "relative a" "path_arg b" "relative b"
    and "target (tables (sh_fs s)) a ns d = (Arrived ns1 d1, x)" "file_at D own (sh_fs s) x d1 bytes"
    and "walk (tables (sh_fs s)) (components b) ns d = Arrived ns2 d2"
    and "size_visible bytes m" "room_for_file D (sh_fs s) x d2 (of_nat (length bytes))"
  shows "\<exists>s' own'. cp io m [zero_padded 512 a, zero_padded 512 b] 2 s = Ret s' \<and> shell_ready D own' ns d s' \<and>
    abs_fs D own' (sh_fs s') = (abs_fs D own (sh_fs s))
      (copy_slot (sh_fs s) x d2 (of_nat (length bytes)) \<mapsto>
         File_Node (zero_padded 8 (file_stem x)) (zero_padded 3 (file_ext x)) (of_nat (length bytes)) bytes) \<and>
    sh_kernel s' = (sh_kernel s)\<lparr>k_fs := sh_fs s'\<rparr>"
  using cp_abstract [OF assms, of io] by blast

theorem cp_copies_file_witness:
  "\<exists>s' own'. cp null_ports (\<lambda>_. 0) [zero_padded 512 file_word, zero_padded 512 dir_word] 2 bin_shell = Ret s' \<and>
     shell_ready {5, 2} own' [] 2 s'"
  using cp_copies_file [OF bin_ready(1), unfolded bin_ready(2), OF demo_path_arg(1-4) bin_target(1) bin_file bin_target(2)
      demo_text_visible(1) bin_copy_room, of null_ports] by blast

lemma walk_in:
  "fs_inv D own f \<Longrightarrow> dir_path D (tables f) ns d \<Longrightarrow> walk (tables f) xs ns d = Arrived ns' d' \<Longrightarrow> d' \<in> D"
proof (induction xs arbitrary: ns d)
  case Nil
  then show ?case using dir_path_in by simp
next
  case (Cons x xs)
  have d: "d \<in> D" using dir_path_in Cons.prems(1,2) .
  show ?case
  proof (cases "x = [46, 46]")
    case True
    then show ?thesis using Cons.IH [OF Cons.prems(1) dir_path_up(1) [OF Cons.prems(1,2)]] Cons.prems(3) by (auto split: if_splits)
  next
    case False
    show ?thesis
    proof (cases "x = [46] \<or> (\<exists>e. lookup_dir (tables f d) x = Inl e)")
      case True
      then show ?thesis using Cons.IH [OF Cons.prems(1,2)] Cons.prems(3) False by (auto split: if_splits)
    next
      case l: False
      then obtain c where c: "lookup_dir (tables f d) x = Inr c" by (cases "lookup_dir (tables f d) x") auto
      obtain k where "(d, k) \<in> slots D (tables f)" "is_dir (tables f d ! k)" "entry_cluster (tables f d ! k) = of_nat c" "c \<in> D"
        by (rule lookup_dir_step [OF Cons.prems(1) d c])
      then show ?thesis using Cons.IH [OF Cons.prems(1) dir_path.step [OF Cons.prems(2)]] Cons.prems(3) False l c by simp
    qed
  qed
qed

lemma cp_leaves_copy:
  assumes R: "shell_ready D own ns d s" and a: "path_arg a" "relative a" "path_arg b" "relative b"
    and t: "target (tables (sh_fs s)) a ns d = (Arrived ns1 d1, x)" and f: "file_at D own (sh_fs s) x d1 bytes"
    and w: "walk (tables (sh_fs s)) (components b) ns d = Arrived ns2 d2"
    and v: "size_visible bytes m" and room: "room_for_file D (sh_fs s) x d2 (of_nat (length bytes))"
    and nm: "copy_names (tables (sh_fs s)) b x d2"
  shows "\<exists>s1 own'. cp io m [zero_padded 512 a, zero_padded 512 b] 2 s = Ret s1 \<and> shell_ready D own' ns d s1 \<and>
    start_place (b @ 47 # x) ns d = (components (b @ 47 # x), ns, d) \<and>
    target (tables (sh_fs s1)) (b @ 47 # x) ns d = (Arrived ns2 d2, x) \<and> file_at D own' (sh_fs s1) x d2 bytes \<and>
    k_console (sh_kernel s1) = k_console (sh_kernel s)"
proof -
  define n where "n = (of_nat (length bytes) :: u32)"
  let ?f = "sh_fs s" and ?rq = "name_request x d2 n" and ?own = "copy_own (sh_fs s) x d2 n own"
  have S: "fs_inv D own ?f" "shell_at D ns d s" using R by (simp_all add: shell_ready_def)
  have dp: "dir_path D (tables ?f) ns d" using S(2) by (simp add: shell_at_def)
  have d2: "d2 \<in> D" using walk_in [OF S(1) dp w] .
  note B = file_at_read(2,3) [OF S(1) f]
  obtain s1 where s1: "cp io m [zero_padded 512 a, zero_padded 512 b] 2 s = Ret s1" "shell_ready D ?own ns d s1"
      "abs_fs D ?own (sh_fs s1) = (abs_fs D own ?f)
        (copy_slot ?f x d2 n \<mapsto> File_Node (zero_padded 8 (file_stem x)) (zero_padded 3 (file_ext x)) n bytes)"
      "fat_write ?rq (mem_write m 0 bytes) ?f = Ret (0, sh_fs s1)" "sh_kernel s1 = (sh_kernel s)\<lparr>k_fs := sh_fs s1\<rparr>"
    using cp_abstract [OF R a t f w v room, of io] unfolding n_def by blast
  have n: "n \<noteq> 0" "n \<le> 0x10000"
    using v B(1) by (auto simp: n_def size_visible_def word_unat_eq_iff unat_of_nat word_le_nat_alt)
  have N: "\<forall>i<64. \<not> entry_matches (tables ?f d2 ! i) (name_request x d2 0)" using nm by (simp add: copy_names_def)
  have F: "file_at D ?own (sh_fs s1) x d2 bytes"
    using copy_found [OF S(1) _ n _ N d2 s1(4,3)] room f by (simp add: n_def file_at_def)
  have q: "rq_buffer_size ?rq = n" "rq_parent_cluster_number ?rq = of_nat d2" "rq_name ?rq = zero_padded 8 (file_stem x)"
    by (simp_all add: name_request_def)
  have A: "can_add D ?f ?rq 0" "rq_buffer_size ?rq \<noteq> 0" "unat (number_of_partition (rq_buffer_size ?rq)) \<le> length (free_from (fs_fat ?f) 3)"
    using room n q by (simp_all add: room_for_file_def n_def)
  have f1: "sh_fs s1 = file_written ?rq (rq_table ?f ?rq) (snd (new_slot ?f ?rq)) (file_clusters ?rq ?f) (mem_write m 0 bytes) ?f"
    using fat_write_file_result [OF S(1) A, of "mem_write m 0 bytes"] s1(4) by simp
  let ?j = "first_unused (rq_table ?f ?rq) 2" and ?e = "new_entry ?rq (rq_table ?f ?rq) (snd (new_slot ?f ?rq)) 0 (hd (file_clusters ?rq ?f))"
  note J = can_add_scan(4-6) [OF S(1) A(1)]
  have W: "walk (tables (sh_fs s1)) (components b) ns d = Arrived ns2 d2"
  proof (rule walk_new_file [OF S(1) _ file_written_dirs [OF S(1) A s1(4)] _ J(1,2) _ _ dp w, of ?own])
    show "tables (sh_fs s1) e = set_slot (tables ?f) (unat (of_nat d2 :: u32), ?j) ?e e" if "e \<in> D" for e
      unfolding f1 using file_written_effect(2) [OF S(1) A that, of "mem_write m 0 bytes"] q by simp
    show "fs_inv D ?own (sh_fs s1)" using s1(2) by (simp add: shell_ready_def)
    have "tables ?f d2 ! ?j = empty_entry"
      using table_okD(4) [OF tree_invD(5) [OF fs_invD(5) [OF S(1)] d2] J(1,2)] J(3) q by simp
    then show "\<not> is_dir (tables ?f (unat (of_nat d2 :: u32)) ! ?j)" using unat_dir [OF S(1) d2] by (simp add: is_dir_def empty_entry_def)
    show "\<forall>y\<in>set (components b). de_name ?e \<noteq> take 8 (zero_padded 512 y)"
      using nm new_entry_key [OF can_addD(1) [OF A(1)]] q by (simp add: copy_names_def)
  qed
  have x: "\<forall>c\<in>set x. \<not> is_sep c"
    using t components_no_sep [OF last_in_set [OF components_nonempty [of a]]] start_place_relative [OF a(2)] by (simp add: target_def)
  have cj: "components (b @ 47 # x) = components b @ [x]" using nm x by (intro components_join) (simp_all add: copy_names_def)
  have rel: "relative (b @ 47 # x)" using a(4) nm by (cases b) (auto simp: relative_def copy_names_def)
  have T: "target (tables (sh_fs s1)) (b @ 47 # x) ns d = (Arrived ns2 d2, x)"
    using W cj start_place_relative [OF rel] by (simp add: target_def)
  have "k_console (sh_kernel s1) = k_console (sh_kernel s)" by (subst s1(5)) simp
  then show ?thesis using s1(1,2) start_place_relative [OF rel] T F by blast
qed

end
