(* ===== verification/Shell_Session.thy ===== *)
theory Shell_Session
  imports Shell_Line Shell_Effects
begin

text \<open>
  A session at the prompt: lines typed with the keyboard, through the line editor, the split
  into words and the dispatch, down to the abstract file system.
\<close>

subsection \<open>One line\<close>

text \<open>The prompt changes the console only: it shows the path and listens to the keyboard.\<close>

definition prompted :: "'d ports \<Rightarrow> u8 list list \<Rightarrow> 'd console \<Rightarrow> 'd console" where
  "prompted io ns c =
     keyboard_state_activate (puts io (map of_char ''$ '') 8 (puts io (path_string ns) 9
       (puts io (map of_char '':'') 8 (puts io (map of_char ''os2024-semogakelar'') 10 c))))"

abbreviation at_prompt :: "'d ports \<Rightarrow> u8 list list \<Rightarrow> 'd shell \<Rightarrow> 'd shell" where
  "at_prompt io ns s \<equiv> s\<lparr>sh_kernel := (sh_kernel s)\<lparr>k_console := prompted io ns (k_console (sh_kernel s))\<rparr>\<rparr>"

lemma prompt_ready:
  assumes R: "shell_ready D own ns d s"
  shows "prompt io s = Ret (at_prompt io ns s)"
proof -
  have s: "current_path s = zero_padded 512 (path_string ns)" "dir_path D (tables (sh_fs s)) ns d"
      "plain_names D (tables (sh_fs s))" "short_paths D (tables (sh_fs s))" "fs_inv D own (sh_fs s)"
    using R by (simp_all add: shell_ready_def shell_at_def)
  have "c_string (current_path s) = Ret (path_string ns)"
    unfolding s(1) using s by (intro c_string_zero_padded path_string_nonzero dir_path_names [OF s(5,3,2)]) (auto simp: short_paths_def)
  then show ?thesis
    by (simp add: prompt_def put_array_def put_def Let_def prompted_def LIGHT_GREEN_def LIGHT_BLUE_def DARK_GREY_def del: list.map)
qed

lemma ready_console [simp]: "shell_ready D own ns d (s\<lparr>sh_kernel := (sh_kernel s)\<lparr>k_console := c\<rparr>\<rparr>) \<longleftrightarrow> shell_ready D own ns d s"
  by (simp add: shell_ready_def shell_at_def)

definition types_line :: "u8 list \<Rightarrow> u8 list \<Rightarrow> bool" where
  "types_line keys line \<longleftrightarrow> edit_room 2048 [] keys \<and> 10 \<notin> set keys \<and> edit [] keys = line"

lemma dispatch_command:
  "run_command io l 0 (zero_padded 512 (map of_char ''cp'')) args n s = cp io (l_buffer l) args n s"
  "run_command io l 0 (zero_padded 512 (map of_char ''cat'')) args n s = cat io (l_buffer l) args n s"
  "run_command io l 0 (zero_padded 512 (map of_char ''rm'')) args n s = rm io args n s"
proof -
  have "c_string (zero_padded 512 (map of_char ''cp'')) = Ret (map of_char ''cp'')"
    "c_string (zero_padded 512 (map of_char ''cat'')) = Ret (map of_char ''cat'')"
    "c_string (zero_padded 512 (map of_char ''rm'')) = Ret (map of_char ''rm'')"
    by (rule c_string_zero_padded; simp)+
  then show "run_command io l 0 (zero_padded 512 (map of_char ''cp'')) args n s = cp io (l_buffer l) args n s"
    "run_command io l 0 (zero_padded 512 (map of_char ''cat'')) args n s = cat io (l_buffer l) args n s"
    "run_command io l 0 (zero_padded 512 (map of_char ''rm'')) args n s = rm io args n s"
    by (simp_all add: run_command_def is_command_def)
qed

definition word_arg :: "u8 list \<Rightarrow> bool" where
  "word_arg a \<longleftrightarrow> a \<noteq> [] \<and> 32 \<notin> set a \<and> length a < 512"

text \<open>The shell when the line end of a line has been read from the prompt: the screen is \<open>c\<close>, with the echo.\<close>

abbreviation on_screen :: "'d console \<Rightarrow> 'd shell \<Rightarrow> 'd shell" where
  "on_screen c s \<equiv> s\<lparr>sh_kernel := (sh_kernel s)\<lparr>k_console := c\<rparr>\<rparr>"

definition line_at_prompt :: "'d ports \<Rightarrow> u8 list list \<Rightarrow> nat list \<Rightarrow> 'd console \<Rightarrow> u8 list \<Rightarrow> 'd console \<Rightarrow> bool" where
  "line_at_prompt io ns polls c line c' \<longleftrightarrow> (\<exists>keys. poll_keys io polls (prompted io ns c) = (keys @ [10], c') \<and> types_line keys line)"

lemma line_one:
  assumes R: "shell_ready D own ns d s" and t: "line_at_prompt io ns polls (k_console (sh_kernel s)) (w @ 32 # a) c"
    and w: "word_arg w" "word_arg a"
  shows "main_iteration io l (polls @ rest, s) =
    run_bind (run_command io l 0 (zero_padded 512 w) [zero_padded 512 a, replicate 512 0] 1 (on_screen c s)) (\<lambda>s. Ret (rest, s))"
proof -
  obtain keys where k: "poll_keys io polls (prompted io ns (k_console (sh_kernel s))) = (keys @ [10], c)" "types_line keys (w @ 32 # a)"
    using t by (auto simp: line_at_prompt_def)
  have ws: "words_of (edit [] keys) = [w, a]"
    using k(2) w words_of_word [of w a] words_of_last [of a] by (simp add: types_line_def word_arg_def)
  have "\<forall>i<3. length (nth_word [w, a] i) < 512" using w by (simp add: nth_word_def word_arg_def nth_Cons' less_Suc_eq numeral_3_eq_3)
  then show ?thesis
    using main_iteration_line [OF _ _ prompt_ready [OF R] _ ws, where polls = polls and c = c and l = l and rest = rest] k
    by (simp add: types_line_def nth_word_def zero_padded_def)
qed

lemma line_two:
  assumes R: "shell_ready D own ns d s" and t: "line_at_prompt io ns polls (k_console (sh_kernel s)) (w @ 32 # a @ 32 # b) c"
    and w: "word_arg w" "word_arg a" "word_arg b"
  shows "main_iteration io l (polls @ rest, s) =
    run_bind (run_command io l 0 (zero_padded 512 w) [zero_padded 512 a, zero_padded 512 b] 2 (on_screen c s)) (\<lambda>s. Ret (rest, s))"
proof -
  obtain keys where k: "poll_keys io polls (prompted io ns (k_console (sh_kernel s))) = (keys @ [10], c)" "types_line keys (w @ 32 # a @ 32 # b)"
    using t by (auto simp: line_at_prompt_def)
  have ws: "words_of (edit [] keys) = [w, a, b]"
    using k(2) w words_of_word [of w "a @ 32 # b"] words_of_word [of a b] words_of_last [of b] by (simp add: types_line_def word_arg_def)
  have "\<forall>i<3. length (nth_word [w, a, b] i) < 512" using w by (simp add: nth_word_def word_arg_def less_Suc_eq numeral_3_eq_3)
  then show ?thesis
    using main_iteration_line [OF _ _ prompt_ready [OF R] _ ws, where polls = polls and c = c and l = l and rest = rest] k
    by (simp add: types_line_def nth_word_def)
qed

subsection \<open>A session\<close>

text \<open>
  C11. A session at the keyboard: \<^verbatim>\<open>cp a b\<close> and then \<^verbatim>\<open>cat b/x\<close>, where \<^verbatim>\<open>a\<close> leads to the file \<^verbatim>\<open>x\<close>, typed with any
  corrections and any pauses. The screen of the first line is the prompt with the echo of its
  keys and nothing else; the screen at the end is the second prompt with the echo of the second
  line, then the text of the file up to its first NUL and a line feed. The shell is in the same
  directory of a well-formed file system, and no input behind the second line is consumed. Both
  paths are relative, with fewer than 256 components; the file has at most 31 clusters, none of them all
  zeros, and a NUL; the folder has room and nothing of that name; and the uninitialised buffer of
  \<^verbatim>\<open>cp\<close> holds a cluster of zeros behind the file, while that of \<^verbatim>\<open>cat\<close> holds anything.
\<close>

theorem session_copy_prints:
  assumes R: "shell_ready D own ns d s" and a: "path_arg a" "relative a" "path_arg b" "relative b"
    and t: "target (tables (sh_fs s)) a ns d = (Arrived ns1 d1, x)" and f: "file_at D own (sh_fs s) x d1 bytes"
    and w: "walk (tables (sh_fs s)) (components b) ns d = Arrived ns2 d2"
    and v: "size_visible bytes (l_buffer l)" and room: "room_for_file D (sh_fs s) x d2 (of_nat (length bytes))"
    and nm: "copy_names (tables (sh_fs s)) b x d2" and j: "path_arg (b @ 47 # x)" and z: "0 \<in> set bytes"
    and blank: "a \<noteq> []" "32 \<notin> set a" "32 \<notin> set b" "32 \<notin> set x"
    and line: "line_at_prompt io ns polls (k_console (sh_kernel s)) (map of_char ''cp '' @ a @ 32 # b) c"
      "line_at_prompt io ns polls' c (map of_char ''cat '' @ b @ 47 # x) c'"
  shows "\<exists>s1 s2 own'. main_loop io [l] (polls @ polls' @ rest, s) = Ret (polls' @ rest, s1) \<and> k_console (sh_kernel s1) = c \<and>
    main_loop io [l, l'] (polls @ polls' @ rest, s) = Ret (rest, s2) \<and> shell_ready D own' ns d s2 \<and>
    k_console (sh_kernel s2) = puts io [10] 15 (puts io (takeWhile (\<lambda>c. c \<noteq> 0) bytes) 15 c')"
proof -
  let ?s = "on_screen c s"
  have wa: "word_arg (map of_char ''cp'')" "word_arg (map of_char ''cat'')" "word_arg a" "word_arg b" "word_arg (b @ 47 # x)"
    using blank a j nm by (auto simp: word_arg_def path_arg_def copy_names_def)
  have R': "shell_ready D own ns d ?s" using R by simp
  obtain s1 own' where s1: "cp io (l_buffer l) [zero_padded 512 a, zero_padded 512 b] 2 ?s = Ret s1" "shell_ready D own' ns d s1"
      "start_place (b @ 47 # x) ns d = (components (b @ 47 # x), ns, d)"
      "target (tables (sh_fs s1)) (b @ 47 # x) ns d = (Arrived ns2 d2, x)" "file_at D own' (sh_fs s1) x d2 bytes" "k_console (sh_kernel s1) = c"
    using cp_leaves_copy [OF R' a, of ns1 d1 x bytes ns2 d2 "l_buffer l" io] t f w v room nm by auto
  have R1: "shell_ready D own' ns d (on_screen c' s1)" using s1(2) by simp
  obtain s2 where s2: "cat io (l_buffer l') [zero_padded 512 (b @ 47 # x), replicate 512 0] 1 (on_screen c' s1) = Ret s2"
      "shell_ready D own' ns d s2" "k_console (sh_kernel s2) = puts io [10] 15 (puts io (takeWhile (\<lambda>c. c \<noteq> 0) bytes) 15 c')"
    using cat_result [OF R1 j s1(3) _ _ z, of ns2 d2 x io "l_buffer l'" "replicate 512 0"] s1(4,5) by auto
  have "main_iteration io l (polls @ polls' @ rest, s) = Ret (polls' @ rest, s1)"
    using line_two [OF R, of io polls "map of_char ''cp''" a b c l "polls' @ rest"] wa line(1) s1(1) dispatch_command(1) [of io l] by simp
  moreover have "main_iteration io l' (polls' @ rest, s1) = Ret (rest, s2)"
    using line_one [OF s1(2), of io polls' "map of_char ''cat''" "b @ 47 # x" c' l' rest] wa line(2) s1(6) s2(1) dispatch_command(2) [of io l'] by simp
  ultimately show ?thesis using s1(6) s2(2,3) by auto
qed

text \<open>
  The keys of \<^verbatim>\<open>cp shell bin\<close> and, with a correction, of \<^verbatim>\<open>cat bin/shell\<close>: a \<^verbatim>\<open>k\<close> is typed, released and
  removed first.
\<close>

definition cp_codes :: "u8 list" where
  "cp_codes = [0x2E, 0x19, 0x39, 0x1F, 0x23, 0x12, 0x26, 0x26, 0x39, 0x30, 0x17, 0x31, 0x1C]"

definition cat_codes :: "u8 list" where
  "cat_codes = [0x25, 0xA5, 0x0E, 0x2E, 0x1E, 0x14, 0x39, 0x30, 0x17, 0x31, 0x35, 0x1F, 0x23, 0x12, 0x26, 0x26, 0x1C]"

definition scan_kernel :: "u8 list kernel" where
  "scan_kernel = \<lparr>k_fs = bin_fs, k_paging = k_paging (boot_kernel bin_fs), k_procs = k_procs (boot_kernel bin_fs), k_mem = (\<lambda>_. 0),
     k_console = scan_console (cp_codes @ cat_codes), itoa_buf = replicate 32 0, resumed = []\<rparr>"

lemma scan_ready: "shell_ready {5, 2} bin_own [] 2 (main_start scan_kernel)" "sh_fs (main_start scan_kernel) = bin_fs"
proof -
  have e: "current_directory (main_start scan_kernel) = current_directory bin_shell" "current_path (main_start scan_kernel) = current_path bin_shell"
      "current_dir_table (main_start scan_kernel) = current_dir_table bin_shell" "sh_fs (main_start scan_kernel) = sh_fs bin_shell"
    by (simp_all add: bin_shell_def main_start_def scan_kernel_def boot_kernel_def)
  then show "sh_fs (main_start scan_kernel) = bin_fs" using bin_ready(2) by simp
  show "shell_ready {5, 2} bin_own [] 2 (main_start scan_kernel)"
    using bin_ready(1) unfolding shell_ready_def shell_at_def e .
qed

lemma scan_line:
  assumes "scan_polls polls (True, 0, device c) = (keys @ [10], False, 0, codes)" "types_line keys line"
  shows "\<exists>c'. line_at_prompt scan_ports ns polls c line c' \<and> device c' = codes"
proof -
  have "scan_abs (prompted scan_ports ns c) = (True, 0, device c)"
    by (simp add: scan_abs_def prompted_def keyboard_state_activate_def)
  then have p: "fst (poll_keys scan_ports polls (prompted scan_ports ns c)) = keys @ [10]"
      "scan_abs (snd (poll_keys scan_ports polls (prompted scan_ports ns c))) = (False, 0, codes)"
    using scan_polls_abs [of polls "prompted scan_ports ns c"] assms(1) by simp_all
  then show ?thesis
    using assms(2) unfolding line_at_prompt_def scan_abs_def
    by (intro exI [of _ "snd (poll_keys scan_ports polls (prompted scan_ports ns c))"]) (auto simp: prod_eq_iff)
qed

theorem session_copy_prints_witness:
  "\<exists>c' s2. main_loop scan_ports [\<lparr>l_after = 0, l_buffer = \<lambda>_. 0, l_buffer_addr = 0, l_queue = \<lambda>_. 0, l_isfile = False\<rparr>,
       \<lparr>l_after = 1, l_buffer = \<lambda>_. 1, l_buffer_addr = 1, l_queue = \<lambda>_. 1, l_isfile = True\<rparr>] (replicate 30 1, main_start scan_kernel) =
     Ret ([], s2) \<and>
     k_console (sh_kernel s2) = puts scan_ports [10] 15 (puts scan_ports (replicate 3000 65) 15 c') \<and> device c' = []"
proof -
  let ?l = "\<lparr>l_after = 0, l_buffer = \<lambda>_. 0, l_buffer_addr = 0, l_queue = \<lambda>_. 0, l_isfile = False\<rparr>"
  let ?k = "map of_char ''cp '' @ file_word @ 32 # dir_word" and ?k' = "[107, 0, 8] @ map of_char ''cat '' @ dir_word @ 47 # file_word"
  let ?c0 = "k_console (sh_kernel (main_start scan_kernel))"
  have v: "size_visible demo_text (l_buffer ?l)" using demo_text_visible(1) by simp
  have b: "file_word \<noteq> []" "32 \<notin> set file_word" "32 \<notin> set dir_word" "32 \<notin> set file_word"
    by code_simp+
  have k: "types_line ?k (map of_char ''cp '' @ file_word @ 32 # dir_word)" "types_line ?k' (map of_char ''cat '' @ dir_word @ 47 # file_word)"
    unfolding types_line_def by code_simp+
  have p: "scan_polls (replicate 13 1) (True, 0, cp_codes @ cat_codes) = (?k @ [10], False, 0, cat_codes)"
    "scan_polls (replicate 17 1) (True, 0, cat_codes) = (?k' @ [10], False, 0, [])" by code_simp+
  have d: "device ?c0 = cp_codes @ cat_codes" by (simp add: main_start_def scan_kernel_def scan_console_def)
  obtain c where c: "line_at_prompt scan_ports [] (replicate 13 1) ?c0 (map of_char ''cp '' @ file_word @ 32 # dir_word) c" "device c = cat_codes"
    using scan_line [OF _ k(1), of "replicate 13 1" ?c0 cat_codes "[]"] p(1) d by auto
  obtain c' where c': "line_at_prompt scan_ports [] (replicate 17 1) c (map of_char ''cat '' @ dir_word @ 47 # file_word) c'" "device c' = []"
    using scan_line [OF _ k(2), of "replicate 17 1" c "[]" "[]"] p(2) c(2) by auto
  have r: "replicate 30 1 = replicate 13 1 @ replicate 17 (1 :: nat) @ []" by code_simp
  from session_copy_prints [OF scan_ready(1), unfolded scan_ready(2), OF demo_path_arg(1-4) bin_target(1) bin_file bin_target(2)
      v bin_copy_room bin_copy_names demo_path_arg(5) demo_text_visible(2) b c(1) c'(1), of "[]"]
  show ?thesis using c'(2) unfolding r demo_text_visible(3) by blast
qed

end
