(* ===== verification/Shell_Rename.thy ===== *)
theory Shell_Rename
  imports Shell_Session
begin

text \<open>
  \<^verbatim>\<open>mv a b\<close> where \<^verbatim>\<open>b\<close> does not exist: the branch of \<^verbatim>\<open>mv\<close> (\<^verbatim>\<open>src/src/mv.c\<close>) that renames an entry of the
  current directory.
\<close>

subsection \<open>A new name for an entry\<close>

definition renames :: "nat set \<Rightarrow> tables \<Rightarrow> slot \<Rightarrow> u8 list \<Rightarrow> bool" where
  "renames D T p nm \<longleftrightarrow> p \<in> slots D T \<and> length nm = 8 \<and> (\<forall>i\<in>{2..<64}. de_name (T (fst p) ! i) \<noteq> nm)"

lemma rename_entry_fields [simp]:
  "used (e\<lparr>de_name := nm\<rparr>) = used e" "is_dir (e\<lparr>de_name := nm\<rparr>) = is_dir e"
  "entry_cluster (e\<lparr>de_name := nm\<rparr>) = entry_cluster e" "entry_ok fat (e\<lparr>de_name := nm\<rparr>) cs = entry_ok fat e cs"
  by (simp_all add: used_def is_dir_def entry_cluster_def entry_ok_def)

lemma rename_tree:
  assumes inv: "tree_inv D own fat T" and r: "renames D T p nm"
  defines "T' \<equiv> set_slot T p ((ent T p)\<lparr>de_name := nm\<rparr>)"
  shows "slots D T' = slots D T" "ent T' q = (if q = p then (ent T p)\<lparr>de_name := nm\<rparr> else ent T q)" "tree_inv D own fat T'"
proof -
  let ?e = "(ent T p)\<lparr>de_name := nm\<rparr>"
  have p: "fst p \<in> D" "2 \<le> snd p" "snd p < 64" "used (ent T p)" and nm: "length nm = 8" "\<And>i. 2 \<le> i \<Longrightarrow> i < 64 \<Longrightarrow> de_name (T (fst p) ! i) \<noteq> nm"
    using r by (auto simp: renames_def slots_def)
  have ok: "table_ok (fst p) (T (fst p))" by (rule tree_invD(5) [OF inv p(1)])
  have len: "length (T (fst p)) = 64" using table_okD(1) [OF ok] by simp
  have E: "ent T' q = (if q = p then ?e else ent T q)" for q
    unfolding T'_def using ent_set_slot [of T p ?e q] len p(3) by simp
  then show "ent T' q = (if q = p then ?e else ent T q)" .
  show S: "slots D T' = slots D T" using E by (auto simp: slots_def)
  have "table_ok (fst p) ((T (fst p))[snd p := ?e])"
  proof (rule table_okI)
    have "wf_entry ?e" using wf_table_nth [OF table_okD(1) [OF ok] p(3)] nm(1) by (simp add: wf_entry_def)
    then show "wf_table ((T (fst p))[snd p := ?e])" using table_okD(1) [OF ok] by simp
    show "is_dir ((T (fst p))[snd p := ?e] ! 0)" "entry_cluster ((T (fst p))[snd p := ?e] ! 0) = of_nat (fst p)"
      using table_okD(2,3) [OF ok] p(2) by simp_all
    show "(T (fst p))[snd p := ?e] ! i = empty_entry" if "2 \<le> i" "i < 64" "\<not> used ((T (fst p))[snd p := ?e] ! i)" for i
      using that table_okD(4) [OF ok] p(4) len by (cases "i = snd p") simp_all
    show "i = j" if "2 \<le> i" "i < 64" "2 \<le> j" "j < 64" "used ((T (fst p))[snd p := ?e] ! i)" "used ((T (fst p))[snd p := ?e] ! j)"
        "same_key ((T (fst p))[snd p := ?e] ! i) ((T (fst p))[snd p := ?e] ! j)" for i j
      using that table_ok_unique [OF ok that(1-4)] nm(2) [OF that(1,2)] nm(2) [OF that(3,4)] len
      by (cases "i = snd p"; cases "j = snd p") (auto simp: same_key_def)
  qed
  then have "table_ok d (T' d)" if "d \<in> D" for d
    using tree_invD(5) [OF inv that] by (auto simp: T'_def set_slot_def)
  moreover have "T' d ! 1 = T d ! 1" for d using p(2) by (simp add: T'_def)
  moreover have "is_dir (ent T' q) = is_dir (ent T q)" "entry_ok fat (ent T' q) cs = entry_ok fat (ent T q) cs" for q cs
    using E by simp_all
  ultimately show "tree_inv D own fat T'" using inv unfolding tree_inv_def S by simp
qed

text \<open>What writing a directory table changes on the disk.\<close>

lemma write_table_disk:
  assumes t: "wf_table t" and d: "d < 512" and f: "f' = write_cluster (enc_table t) (of_nat d) f"
  shows "x < 512 \<Longrightarrow> tables f' x = (if x = d then t else tables f x)" "fs_fat f' = fs_fat f"
    "x < 512 \<Longrightarrow> x \<noteq> d \<Longrightarrow> cluster (fs_disk f') x = cluster (fs_disk f) x"
    "wf_disk (fs_disk f) \<Longrightarrow> wf_disk (fs_disk f')" "2 \<le> d \<Longrightarrow> is_empty_storage (fs_disk f') = is_empty_storage (fs_disk f)"
    "fs_driver f' = fs_driver f"
proof -
  have l: "length (enc_table t) = 2048" using length_enc_table [OF t] by simp
  show o: "cluster (fs_disk f') x = cluster (fs_disk f) x" if "x < 512" "x \<noteq> d" for x
    unfolding f using cluster_write_other [OF d that(1)] that(2) by simp
  show "x < 512 \<Longrightarrow> tables f' x = (if x = d then t else tables f x)"
    using o [of x] l dec_enc_table [OF t] by (cases "x = d") (simp_all add: f read_write_cluster_same)
  show "fs_fat f' = fs_fat f" "wf_disk (fs_disk f) \<Longrightarrow> wf_disk (fs_disk f')" "fs_driver f' = fs_driver f"
    "2 \<le> d \<Longrightarrow> is_empty_storage (fs_disk f') = is_empty_storage (fs_disk f)"
    using l d by (simp_all add: f)
qed

text \<open>The driver state after the new table was written.\<close>

lemma rename_fs:
  assumes inv: "fs_inv D own f" and r: "renames D (tables f) (d, i) nm" and nd: "\<not> is_dir (tables f d ! i)"
  defines "f' \<equiv> write_cluster (enc_table ((tables f d)[i := (tables f d ! i)\<lparr>de_name := nm\<rparr>])) (of_nat d) f"
  shows "fs_inv D own f'" "tables f' d = (tables f d)[i := (tables f d ! i)\<lparr>de_name := nm\<rparr>]"
    "same_dirs D (tables f) (tables f')"
    "abs_fs D own f' = (abs_fs D own f)((d, i) \<mapsto> File_Node nm (de_ext (tables f d ! i)) (de_filesize (tables f d ! i))
       (concat (map (cluster (fs_disk f)) (own (d, i)))))"
proof -
  let ?e = "(tables f d ! i)\<lparr>de_name := nm\<rparr>" and ?T = "tables f"
  note T = fs_invD(5) [OF inv]
  have d: "d \<in> D" "2 \<le> d" "d < 512" "2 \<le> i" "i < 64" "(d, i) \<in> slots D ?T"
    using r tree_invD(4) [OF T] by (auto simp: renames_def slots_def)
  note R = rename_tree [OF T r, unfolded fst_conv snd_conv]
  have ok: "table_ok d (?T d)" by (rule tree_invD(5) [OF T d(1)])
  have len: "length (?T d) = 64" using table_okD(1) [OF ok] by simp
  have wf: "wf_table ((?T d)[i := ?e])"
    using tree_invD(5) [OF R(3) d(1)] table_okD(1) by (simp add: set_slot_def)
  note W = write_table_disk [OF wf d(3) meta_eq_to_obj_eq [OF f'_def]]
  show td: "tables f' d = (?T d)[i := ?e]" using W(1) [OF d(3)] by simp
  note other = W(3)
  have tabs: "tables f' e = set_slot ?T (d, i) ?e e" if "e \<in> D" for e
    using td other [of e] tree_invD(4) [OF T] that by (cases "e = d") (auto simp: set_slot_def)
  have "tree_inv D own (fs_fat f') (tables f')"
    unfolding W(2) by (rule tree_inv_cong [OF R(3) tabs])
  then show fs: "fs_inv D own f'"
    using inv W(2) other [of 1] W(4-6) d unfolding fs_inv_def by simp
  show "same_dirs D ?T (tables f')"
    using tabs d len nd by (intro same_dirs_set_slot [of D "tables f'" ?T "(d, i)" ?e]) (auto simp: dir_slots_def)
  have sl: "slots D (tables f') = slots D ?T" using slots_cong [of D "tables f'" "set_slot ?T (d, i) ?e"] tabs R(1) by simp
  show "abs_fs D own f' = (abs_fs D own f)((d, i) \<mapsto> File_Node nm (de_ext (tables f d ! i)) (de_filesize (tables f d ! i))
       (concat (map (cluster (fs_disk f)) (own (d, i)))))"
  proof
    fix q
    have fr: "cluster (fs_disk f') x = cluster (fs_disk f) x" if "x < 512" "x \<notin> D" for x using other [OF that(1)] that(2) d(1) by auto
    consider "q = (d, i)" | "q \<noteq> (d, i)" "q \<in> slots D ?T" | "q \<noteq> (d, i)" "q \<notin> slots D ?T" by blast
    then show "abs_fs D own f' q = ((abs_fs D own f)((d, i) \<mapsto> File_Node nm (de_ext (?T d ! i)) (de_filesize (?T d ! i))
       (concat (map (cluster (fs_disk f)) (own (d, i)))))) q"
    proof cases
      case 1
      have "map (cluster (fs_disk f')) (own (d, i)) = map (cluster (fs_disk f)) (own (d, i))"
        using file_cluster_range [OF inv d(6)] nd fr by auto
      moreover have "ent (tables f') (d, i) = ?e" using td len d(5) by simp
      ultimately show ?thesis using 1 sl d(6) nd by (simp add: abs_fs_def node_of_def del: map_eq_conv)
    next
      case 2
      have "ent (tables f') q = ent ?T q" using tabs [of "fst q"] R(2) [of q] 2 by (simp add: slots_def)
      then have "Some (node_of (fs_disk f') (ent (tables f') q) (own q)) = abs_fs D own f q"
        by (intro abs_fs_unchanged [OF inv 2(2)]) (use fr in simp_all)
      then show ?thesis using 2 sl by (simp add: abs_fs_def)
    qed (use sl in \<open>simp add: abs_fs_def\<close>)
  qed
qed

subsection \<open>The command\<close>

lemma parse_path_word:
  assumes a: "plain_word a" and at: "shell_at D ns d s"
  shows "parse_path (zero_padded 512 a) s = Ret (rows [a], 1, s)"
proof -
  have w: "length a < 512" "0 \<notin> set a" "a \<noteq> []" "\<forall>c\<in>set a. \<not> is_sep c" using a by (auto simp: plain_word_def)
  have sp: "start_place a ns d = ([a], ns, d)" using w(3,4) plain_word_components [OF w(4)] by (simp add: start_place_def)
  obtain s' where s': "parse_path (zero_padded 512 a) s = Ret (rows [a], 1, s')"
    using parse_path_result [OF w(1,2) at sp] by auto
  moreover have "s' = s" using s' w(3,4) c_string_zero_padded [OF w(2,1)]
    by (auto simp: parse_path_def elim!: run_bind_RetE)
  ultimately show ?thesis by simp
qed

lemma plain_word_dots: "plain_word b \<Longrightarrow> \<not> is_dots b (Suc n)"
  by (auto simp: plain_word_def is_dots_def)

text \<open>The lookup of a name that is not there: \<^verbatim>\<open>change_path_mv\<close> returns 2 and leaves everything in place.\<close>

lemma change_path_mv_missing:
  assumes inv: "fs_inv D own (sh_fs s)" "plain_names D (tables (sh_fs s))" and at: "shell_at D ns d s" and t: "wf_table (temp_dir_table s)"
    and b: "plain_word b" and new: "\<forall>j\<in>{2..<64}. de_name (tables (sh_fs s) d ! j) \<noteq> zero_padded 8 b"
  shows "change_path_mv (rows [b]) 1 s = Ret (2, s)"
proof -
  have A: "current_directory s = of_nat d" "current_path s = zero_padded 512 (path_string ns)" "dir_path D (tables (sh_fs s)) ns d"
    using at by (simp_all add: shell_at_def)
  have d: "d \<in> D" by (rule dir_path_in [OF inv(1) A(3)])
  have w: "length b < 512" "length b \<le> 8" "0 \<notin> set b" using b by (auto simp: plain_word_def)
  have l: "lookup_dir (tables (sh_fs s) d) b = Inl 2"
  proof -
    have "scan_while (\<lambda>i. de_name (tables (sh_fs s) d ! i) \<noteq> take 8 (zero_padded 512 b)) 2 64 = 64"
      using new take_zero_padded [OF w(2), of 512] by (intro scan_while_eqI) auto
    then show ?thesis by (simp add: lookup_dir_def)
  qed
  have c: "change_directory (zero_padded 512 b) (of_nat d) s = Ret (2, of_nat d, s)"
    using change_directory_result [OF inv(1) d t w(1) A(2) dir_path_names [OF inv A(3)] inv(2)] l by simp
  show ?thesis
    unfolding change_path_mv_def using rows_single [OF w(1)] c_string_zero_padded [OF w(3,1)] plain_word_dots [OF b, of 0]
      plain_word_dots [OF b, of 1] c A(1) by (subst change_path_mv_loop.simps) (simp add: numeral_2_eq_2)
qed

lemma rename_file:
  assumes R: "shell_ready D own ns d s" and a: "plain_word a" and b: "plain_word b"
    and i: "i < 64" "de_name (tables (sh_fs s) d ! i) = zero_padded 8 a" "\<forall>j<i. de_name (tables (sh_fs s) d ! j) \<noteq> zero_padded 8 a"
    and nd: "\<not> is_dir (tables (sh_fs s) d ! i)"
  defines "f' \<equiv> write_cluster (enc_table ((tables (sh_fs s) d)[i := (tables (sh_fs s) d ! i)\<lparr>de_name := zero_padded 8 b\<rparr>])) (of_nat d) (sh_fs s)"
  shows "\<exists>s'. rename io (zero_padded 512 a) (zero_padded 512 b) s = Ret s' \<and> sh_fs s' = f' \<and> current_directory s' = of_nat d \<and>
    current_dir_table s' = tables f' d \<and> current_path s' = current_path s"
proof -
  have at: "shell_at D ns d s" and inv: "fs_inv D own (sh_fs s)" using R by (simp_all add: shell_ready_def)
  have A: "current_directory s = of_nat d" "current_dir_table s = tables (sh_fs s) d" "dir_path D (tables (sh_fs s)) ns d"
    using at by (simp_all add: shell_at_def)
  have d: "d \<in> D" by (rule dir_path_in [OF inv A(3)])
  have w: "length a < 512" "length a \<le> 8" using a by (auto simp: plain_word_def)
  have wb: "length b < 512" "length b \<le> 8" "0 \<notin> set b" "46 \<notin> set b" using b by (auto simp: plain_word_def)
  have ok: "wf_table (tables (sh_fs s) d)" using tree_invD(5) [OF fs_invD(5) [OF inv] d] table_okD(1) by blast
  have len: "length (tables (sh_fs s) d) = 64" using ok by simp
  have cmp: "memcmp_bytes (de_name (tables (sh_fs s) d ! j)) (zero_padded 8 a) = 0 \<longleftrightarrow> de_name (tables (sh_fs s) d ! j) = zero_padded 8 a"
    if "j < 64" for j using wf_table_nth [OF ok that] w(2) by (simp add: wf_entry_def)
  have sc: "scan_while (\<lambda>i. memcmp_bytes (de_name (tables (sh_fs s) d ! i)) (zero_padded 8 a) \<noteq> 0) 0 64 = i"
    using i cmp by (intro scan_while_eqI) auto
  have "rename io (zero_padded 512 a) (zero_padded 512 b) s =
      Ret (cancel_change_path (of_nat d) (current_path s) (set_sh_fs f' (s\<lparr>current_dir_table :=
        (tables (sh_fs s) d)[i := (tables (sh_fs s) d ! i)\<lparr>de_name := zero_padded 8 b\<rparr>]\<rparr>)))"
    using c_string_zero_padded [OF wb(3,1)] wb(4) parse_path_word [OF a at] A(1,2) sc i(1) nd len
      take_zero_padded [OF w(2), of 512] take_zero_padded [OF wb(2), of 512]
    by (simp add: rename_def contains_invalid_char_def change_path_def Let_def write_table_def f'_def is_dir_def set_sh_fs_def)
  then show ?thesis by (simp add: cancel_change_path_def update_directory_table_def set_sh_fs_def)
qed

text \<open>
  C17. \<^verbatim>\<open>mv a b\<close> on bare words renames: when the first entry of the current directory with the name \<^verbatim>\<open>a\<close>,
  counted from entry 0, is a file
  and no entry has the name \<^verbatim>\<open>b\<close>, the abstract file system is the old one with the new name in the
  slot of the file; extension, size and contents are kept, the file system stays well-formed,
  and the shell stays where it is.
\<close>

theorem mv_renames_file:
  assumes R: "shell_ready D own ns d s" and t: "wf_table (temp_dir_table s)" and a: "plain_word a" and b: "plain_word b"
    and f: "abs_fs D own (sh_fs s) (d, i) = Some (File_Node (zero_padded 8 a) ex sz bytes)"
    and first: "\<forall>j<i. de_name (tables (sh_fs s) d ! j) \<noteq> zero_padded 8 a"
    and new: "\<forall>j\<in>{2..<64}. de_name (tables (sh_fs s) d ! j) \<noteq> zero_padded 8 b"
  shows "\<exists>s'. mv io isfile [zero_padded 512 a, zero_padded 512 b] 2 s = Ret s' \<and> shell_ready D own ns d s' \<and>
    abs_fs D own (sh_fs s') = (abs_fs D own (sh_fs s))((d, i) \<mapsto> File_Node (zero_padded 8 b) ex sz bytes)"
proof -
  have at: "shell_at D ns d s" and inv: "fs_inv D own (sh_fs s)" "plain_names D (tables (sh_fs s))"
    using R by (simp_all add: shell_ready_def)
  have A: "current_directory s = of_nat d" "current_dir_table s = tables (sh_fs s) d" "dir_path D (tables (sh_fs s)) ns d"
    using at by (simp_all add: shell_at_def)
  have d: "d \<in> D" by (rule dir_path_in [OF inv(1) A(3)])
  note F = abs_file [OF f]
  have e: "de_name (tables (sh_fs s) d ! i) = zero_padded 8 a" "de_ext (tables (sh_fs s) d ! i) = ex"
    using f F(1,2) by (auto simp: abs_fs_def node_of_def)
  have i: "i < 64" using F(1) by (simp add: slots_def)
  have w: "length b < 512" "length b \<le> 8" using b by (auto simp: plain_word_def)
  have ren: "renames D (tables (sh_fs s)) (d, i) (zero_padded 8 b)" using F(1) new w(2) by (simp add: renames_def)
  have same: "cancel_change_path (current_directory s) (current_path s) s = s"
    using A(1,2) by (simp add: cancel_change_path_def update_directory_table_def)
  have "table_ok d (tables (sh_fs s) d)" "d < 512" using tree_invD(4,5) [OF fs_invD(5) [OF inv(1)]] d by auto
  then have low: "low_cluster (current_dir_table s ! 0) = of_nat d"
    using table_okD(3) [of d "tables (sh_fs s) d"] high_half [of "tables (sh_fs s) d ! 0" d] A(2) by (simp add: low_cluster_def entry_cluster_def)
  obtain s' where s': "rename io (zero_padded 512 a) (zero_padded 512 b) s = Ret s'"
      "sh_fs s' = write_cluster (enc_table ((tables (sh_fs s) d)[i := (tables (sh_fs s) d ! i)\<lparr>de_name := zero_padded 8 b\<rparr>])) (of_nat d) (sh_fs s)"
      "current_directory s' = of_nat d" "current_dir_table s' = tables (sh_fs s') d" "current_path s' = current_path s"
    using rename_file [OF R a b i e(1) first] F(2) by auto
  note N = rename_fs [OF inv(1) ren, folded s'(2)]
  have "mv io isfile [zero_padded 512 a, zero_padded 512 b] 2 s = Ret s'"
    using parse_path_word [OF b at] change_path_mv_missing [OF inv at t b new] same low A(1) rows_single [OF w(1)] s'(1)
    by (simp add: mv_def Let_def)
  moreover have "shell_ready D own ns d s'"
    using shell_ready_files [OF R N(1,3) s'(3-5)] F(2) by simp
  ultimately show ?thesis using N(4) F e by auto
qed

abbreviation new_word :: "u8 list" where "new_word \<equiv> map of_char ''sh''"

lemma root_entry_names: "j < 2 \<Longrightarrow> de_name (root_table ! j) = root_name"
  by (auto simp: root_table_def less_2_cases_iff init_directory_entry_def root_name_def)

lemma bin_names:
  "\<forall>j<2. de_name (tables bin_fs 2 ! j) \<noteq> zero_padded 8 file_word"
  "\<forall>j\<in>{2..<64}. de_name (tables bin_fs 2 ! j) \<noteq> zero_padded 8 new_word"
proof -
  have n: "root_name \<noteq> zero_padded 8 file_word" "zero_padded 8 new_word \<noteq> rq_name demo_rq" "zero_padded 8 new_word \<noteq> replicate 8 0"
    "zero_padded 8 new_word \<noteq> zero_padded 8 dir_word" by code_simp+
  show "\<forall>j<2. de_name (tables bin_fs 2 ! j) \<noteq> zero_padded 8 file_word"
    using bin_fs_made(4) text_fs_state(2) root_entry_names n(1) by auto
  show "\<forall>j\<in>{2..<64}. de_name (tables bin_fs 2 ! j) \<noteq> zero_padded 8 new_word"
  proof
    fix j :: nat assume j: "j \<in> {2..<64}"
    show "de_name (tables bin_fs 2 ! j) \<noteq> zero_padded 8 new_word"
      using bin_fs_made(3) bin_fs_made(4) [of j] text_table(2) [of j] n(2-4) j by (cases "j = 3") auto
  qed
qed

theorem mv_renames_file_witness:
  "\<exists>s'. mv null_ports False [zero_padded 512 file_word, zero_padded 512 new_word] 2 bin_shell = Ret s' \<and>
     abs_fs {5, 2} bin_own (sh_fs s') (2, 2) = Some (File_Node (zero_padded 8 new_word) (rq_ext demo_rq) 3000 demo_text)"
proof -
  have p: "plain_word file_word" "plain_word new_word" by code_simp+
  have t: "wf_table (temp_dir_table bin_shell)" by (simp add: bin_shell_def main_start_def wf_table_alt)
  show ?thesis
    using mv_renames_file [OF bin_ready(1) t p, unfolded bin_ready(2), of 2 "rq_ext demo_rq" 3000 demo_text null_ports False]
      bin_abs(1) demo_words(8) bin_names by fastforce
qed

end
