(* ===== verification/Shell_Into.thy ===== *)
theory Shell_Into
  imports Shell_Rename
begin

text \<open>
  \<^verbatim>\<open>mv a b\<close> where \<^verbatim>\<open>b\<close> is a folder of the current directory: the branch of \<^verbatim>\<open>mv\<close> (\<^verbatim>\<open>move\<close> of \<^verbatim>\<open>src/src/mv.c\<close>)
  that takes an entry from one table to another.
\<close>

subsection \<open>An entry in another directory\<close>

definition relocates :: "nat set \<Rightarrow> tables \<Rightarrow> slot \<Rightarrow> slot \<Rightarrow> bool" where
  "relocates D T p q \<longleftrightarrow> p \<in> slots D T \<and> \<not> is_dir (ent T p) \<and> fst q \<in> D \<and> fst q \<noteq> fst p \<and> 2 \<le> snd q \<and> snd q < 64 \<and>
     \<not> used (ent T q) \<and> (\<forall>i\<in>{2..<64}. \<not> same_key (T (fst q) ! i) (ent T p))"

definition relocated :: "tables \<Rightarrow> slot \<Rightarrow> slot \<Rightarrow> tables" where
  "relocated T p q = set_slot (set_slot T p empty_entry) q (ent T p)"

text \<open>Where the entry and the clusters of a slot come from.\<close>

definition came_from :: "slot \<Rightarrow> slot \<Rightarrow> slot \<Rightarrow> slot" where
  "came_from p q r = (if r = q then p else r)"

definition moved_own :: "(slot \<Rightarrow> nat list) \<Rightarrow> slot \<Rightarrow> slot \<Rightarrow> slot \<Rightarrow> nat list" where
  "moved_own own p q = own(p := [], q := own p)"

lemma not_used_empty [simp]: "\<not> used empty_entry"
  by (simp add: used_def empty_entry_def)

lemma relocated_slots:
  assumes inv: "tree_inv D own fat T" and r: "relocates D T p q"
  shows "slots D (relocated T p q) = insert q (slots D T - {p})"
    "ent (relocated T p q) r = (if r = q then ent T p else if r = p then empty_entry else ent T r)" "q \<notin> slots D T"
proof -
  have p: "fst p \<in> D" "2 \<le> snd p" "snd p < 64" "used (ent T p)" and q: "fst q \<in> D" "2 \<le> snd q" "snd q < 64" "\<not> used (ent T q)"
    using r by (auto simp: relocates_def slots_def)
  have l: "length (T d) = 64" if "d \<in> D" for d using table_okD(1) [OF tree_invD(5) [OF inv that]] by simp
  have l': "length (set_slot T p empty_entry (fst q)) = 64" using l [OF q(1)] by (auto simp: set_slot_def)
  have E: "ent (relocated T p q) r = (if r = q then ent T p else if r = p then empty_entry else ent T r)" for r
    unfolding relocated_def ent_set_slot [of "set_slot T p empty_entry" q, OF l' q(3)]
      ent_set_slot [of T p, OF l [OF p(1)] p(3)] by simp
  then show "ent (relocated T p q) r = (if r = q then ent T p else if r = p then empty_entry else ent T r)" .
  show "q \<notin> slots D T" using q(4) by (simp add: slots_def)
  show "slots D (relocated T p q) = insert q (slots D T - {p})"
    using E p q by (auto simp: slots_def split: if_splits)
qed

lemma relocated_tables:
  assumes inv: "tree_inv D own fat T" and r: "relocates D T p q"
  shows "relocated T p q = T(fst p := (T (fst p))[snd p := empty_entry], fst q := (T (fst q))[snd q := ent T p])"
    "d \<in> D \<Longrightarrow> table_ok d (relocated T p q d)"
proof -
  have p: "fst p \<in> D" "2 \<le> snd p" "snd p < 64" "used (ent T p)" and q: "2 \<le> snd q" "snd q < 64" "fst q \<noteq> fst p"
    and k: "\<And>i. 2 \<le> i \<Longrightarrow> i < 64 \<Longrightarrow> \<not> same_key (T (fst q) ! i) (ent T p)"
    using r by (auto simp: relocates_def slots_def)
  show e: "relocated T p q = T(fst p := (T (fst p))[snd p := empty_entry], fst q := (T (fst q))[snd q := ent T p])"
    using q(3) by (simp add: relocated_def set_slot_def)
  have "wf_entry (ent T p)" using wf_table_nth [OF table_okD(1) [OF tree_invD(5) [OF inv p(1)]] p(3)] .
  then show "table_ok d (relocated T p q d)" if "d \<in> D"
    using table_ok_add [OF tree_invD(5) [OF inv that] q(1,2), of "ent T p"] table_ok_remove [OF tree_invD(5) [OF inv that] p(2,3)]
      tree_invD(5) [OF inv that] p(4) q(3) k by (auto simp: e)
qed

lemma relocated_tree:
  assumes inv: "tree_inv D own fat T" and r: "relocates D T p q"
  shows "tree_inv D (moved_own own p q) fat (relocated T p q)"
proof -
  let ?T = "relocated T p q" and ?own = "moved_own own p q"
  note S = relocated_slots [OF inv r] and I = tree_invD [OF inv]
  have p: "p \<in> slots D T" "\<not> is_dir (ent T p)" "2 \<le> snd p" "2 \<le> snd q" "q \<noteq> p" using r by (auto simp: relocates_def slots_def)
  have org: "came_from p q r \<in> slots D T" "ent ?T r = ent T (came_from p q r)" "?own r = own (came_from p q r)" if "r \<in> slots D ?T" for r
    using that S p(1,5) by (auto simp: came_from_def moved_own_def)
  have inj: "came_from p q r \<noteq> came_from p q r'" if "r \<in> slots D ?T" "r' \<in> slots D ?T" "r \<noteq> r'" for r r'
    using that S(1) p(5) by (auto simp: came_from_def split: if_splits)
  have target: "\<exists>r'\<in>slots D ?T. came_from p q r' = r" if "r \<in> slots D T" for r
    using that S(1,3) by (intro bexI [of _ "if r = p then q else r"]) (auto simp: came_from_def)
  have one: "?T d ! 1 = T d ! 1" for d using p(3,4) by (simp add: relocated_def)
  show ?thesis
  proof (rule tree_invI [OF I(1,3,4) relocated_tables(2) [OF inv r]])
    show "entry_ok fat (ent ?T x) (?own x)" if "x \<in> slots D ?T" for x using I(6) org [OF that] by simp
    show "set (?own x) \<inter> set (?own y) = {}" if "x \<in> slots D ?T" "y \<in> slots D ?T" "x \<noteq> y" for x y
      using I(7) [OF org(1) [OF that(1)] org(1) [OF that(2)] inj [OF that]] org(3) that by simp
    show "hd (?own x) \<in> D \<and> entry_cluster (?T (hd (?own x)) ! 1) = of_nat (fst x)" if "x \<in> slots D ?T" "is_dir (ent ?T x)" for x
    proof -
      have "came_from p q x = x" using that(2) p(2) S(2) by (auto simp: came_from_def split: if_splits)
      then show ?thesis using I(8,9) [of x] org [OF that(1)] that(2) one by simp
    qed
    show "\<exists>x\<in>slots D ?T. is_dir (ent ?T x) \<and> ?own x = [d]" if "d \<in> D" "d \<noteq> 2" for d
      using I(10) [OF that] target org by metis
    show "\<exists>x\<in>slots D ?T. c \<in> set (?own x)" if "2 < c" "c < 512" "fat ! c \<noteq> 0" for c
      using I(11) [OF that] target org by metis
  qed
qed

subsection \<open>Two tables on the disk\<close>

lemma relocated_fs:
  assumes inv: "fs_inv D own f" and r: "relocates D (tables f) (d, i) (e, k)"
  defines "f1 \<equiv> write_cluster (enc_table ((tables f d)[i := empty_entry])) (of_nat d) f"
  defines "f' \<equiv> write_cluster (enc_table ((tables f e)[k := tables f d ! i])) (of_nat e) f1"
  shows "fs_inv D (moved_own own (d, i) (e, k)) f'" "x \<in> D \<Longrightarrow> tables f' x = relocated (tables f) (d, i) (e, k) x"
    "x < 512 \<Longrightarrow> x \<notin> D \<Longrightarrow> cluster (fs_disk f') x = cluster (fs_disk f) x"
proof -
  note T = fs_invD(5) [OF inv] and tab = relocated_tables [OF fs_invD(5) [OF inv] r, unfolded fst_conv snd_conv]
  have d: "d \<in> D" "e \<in> D" "e \<noteq> d" using r by (auto simp: relocates_def slots_def)
  then have b: "2 \<le> d" "d < 512" "2 \<le> e" "e < 512" using tree_invD(4) [OF T] by auto
  have wf: "wf_table ((tables f d)[i := empty_entry])" "wf_table ((tables f e)[k := tables f d ! i])"
    using table_okD(1) [OF tab(2) [OF d(1)]] table_okD(1) [OF tab(2) [OF d(2)]] d(3) by (simp_all add: tab(1))
  note w1 = write_table_disk [OF wf(1) b(2) meta_eq_to_obj_eq [OF f1_def]]
  note w2 = write_table_disk [OF wf(2) b(4) meta_eq_to_obj_eq [OF f'_def]]
  show tx: "tables f' x = relocated (tables f) (d, i) (e, k) x" if "x \<in> D" for x
    using w1(1) [of x] w2(1) [of x] that tree_invD(4) [OF T] by (auto simp: tab(1))
  show "cluster (fs_disk f') x = cluster (fs_disk f) x" if "x < 512" "x \<notin> D" for x
    using w1(3) [of x] w2(3) [of x] that d by (cases "x = d"; cases "x = e") simp_all
  have "tree_inv D (moved_own own (d, i) (e, k)) (fs_fat f') (tables f')"
    unfolding w1(2) w2(2) by (rule tree_inv_cong [OF relocated_tree [OF T r] tx])
  moreover have "cluster (fs_disk f') 1 = enc_fat (fs_fat f')" using fs_invD(3) [OF inv] w1(2) w1(3) [of 1] w2(2) w2(3) [of 1] b by simp
  ultimately show "fs_inv D (moved_own own (d, i) (e, k)) f'"
    using inv w1(4-6) w2(4-6) b unfolding fs_inv_def by simp
qed

lemma relocated_abs:
  assumes inv: "fs_inv D own f" and r: "relocates D (tables f) p q"
    and tab: "\<And>x. x \<in> D \<Longrightarrow> tables f' x = relocated (tables f) p q x"
    and keep: "\<And>x. x < 512 \<Longrightarrow> x \<notin> D \<Longrightarrow> cluster (fs_disk f') x = cluster (fs_disk f) x"
  shows "abs_fs D (moved_own own p q) f' = (abs_fs D own f)(p := None, q := abs_fs D own f p)"
    "same_dirs D (tables f) (tables f')"
proof -
  note S = relocated_slots [OF fs_invD(5) [OF inv] r]
  have p: "p \<in> slots D (tables f)" "\<not> is_dir (ent (tables f) p)" "2 \<le> snd p" "2 \<le> snd q" "q \<noteq> p" "fst q \<in> D"
    using r by (auto simp: relocates_def slots_def)
  have sl: "slots D (tables f') = insert q (slots D (tables f) - {p})"
    using S(1) slots_cong [of D "tables f'" "relocated (tables f) p q"] tab by simp
  have en: "ent (tables f') x = ent (tables f) (came_from p q x)" if "x \<in> slots D (tables f')" for x
  proof -
    have "x \<noteq> p" "fst x \<in> D" using that sl p(5) by (auto simp: slots_def)
    then show ?thesis using S(2) [of x] tab [of "fst x"] by (simp add: came_from_def)
  qed
  show "abs_fs D (moved_own own p q) f' = (abs_fs D own f)(p := None, q := abs_fs D own f p)"
  proof
    fix x
    show "abs_fs D (moved_own own p q) f' x = ((abs_fs D own f)(p := None, q := abs_fs D own f p)) x"
    proof (cases "x \<in> slots D (tables f')")
      case True
      have "came_from p q x \<in> slots D (tables f)" "moved_own own p q x = own (came_from p q x)"
        using True sl p(1,5) by (auto simp: came_from_def moved_own_def)
      then have "Some (node_of (fs_disk f') (ent (tables f') x) (moved_own own p q x)) = abs_fs D own f (came_from p q x)"
        using en [OF True] keep by (intro abs_fs_unchanged [OF inv]) simp_all
      then show ?thesis using True sl p(5) by (auto simp: abs_fs_def came_from_def)
    next
      case False
      then show ?thesis using sl by (auto simp: abs_fs_def)
    qed
  qed
  have same: "ent (tables f') x = ent (tables f) x" if "x \<in> slots D (tables f)" "x \<noteq> p" for x
    using en [of x] that sl S(3) by (auto simp: came_from_def)
  have nq: "\<not> is_dir (ent (tables f') q)" using en [of q] sl p(2) by (simp add: came_from_def)
  have "dir_slots D (tables f') = {x \<in> slots D (tables f) - {p}. is_dir (ent (tables f') x)}" using nq sl by (auto simp: dir_slots_def simp del: split_paired_All)
  also have "\<dots> = {x \<in> slots D (tables f) - {p}. is_dir (ent (tables f) x)}"
    by (rule Collect_cong) (use same in force)
  also have "\<dots> = dir_slots D (tables f)" using p(2) by (auto simp: dir_slots_def)
  finally have "dir_slots D (tables f) = dir_slots D (tables f')" by simp
  moreover have "\<forall>x\<in>dir_slots D (tables f). ent (tables f') x = ent (tables f) x"
    by (rule ballI, rule same) (use p(2) in \<open>auto simp: dir_slots_def\<close>)
  ultimately show "same_dirs D (tables f) (tables f')"
    using tab p(3,4) by (simp add: same_dirs_def relocated_def)
qed

subsection \<open>The command\<close>

lemma change_path_mv_folder:
  assumes inv: "fs_inv D own (sh_fs s)" "plain_names D (tables (sh_fs s))" "short_paths D (tables (sh_fs s))"
    and at: "shell_at D ns d s" and t: "wf_table (temp_dir_table s)" and b: "plain_word b"
    and l: "lookup_dir (tables (sh_fs s) d) b = Inr e"
  shows "\<exists>s'. change_path_mv (rows [b]) 1 s = Ret (0, s') \<and>
    cancel_change_path (current_directory s) (current_path s) s' = s\<lparr>temp_dir_table := tables (sh_fs s) e\<rparr>"
proof -
  have A: "current_directory s = of_nat d" "current_dir_table s = tables (sh_fs s) d"
    "current_path s = zero_padded 512 (path_string ns)" "dir_path D (tables (sh_fs s)) ns d"
    using at by (simp_all add: shell_at_def)
  have d: "d \<in> D" by (rule dir_path_in [OF inv(1) A(4)])
  have w: "length b < 512" "0 \<notin> set b" using b by (auto simp: plain_word_def)
  have short: "length (path_string (ns @ [dir_name (tables (sh_fs s) c)])) < 512" if "lookup_dir (tables (sh_fs s) d) b = Inr c" for c
    using lookup_dir_step [OF inv(1) d that] dir_path.step [OF A(4)] inv(3) unfolding short_paths_def by metis
  note c = change_directory_result [OF inv(1) d t w(1) A(3) dir_path_names [OF inv(1,2) A(4)] inv(2) short, simplified l sum.case]
  show ?thesis
    unfolding change_path_mv_def using rows_single [OF w(1)] c_string_zero_padded [OF w(2,1)] plain_word_dots [OF b, of 0]
      plain_word_dots [OF b, of 1] c A(1,2)
    by (subst change_path_mv_loop.simps, subst change_path_mv_loop.simps)
      (simp add: numeral_2_eq_2 cancel_change_path_def update_directory_table_def)
qed

text \<open>The folder that a name leads to, and the state of the shell taken back.\<close>

lemma move_target_folder:
  assumes R: "shell_ready D own ns d s" and b: "plain_word b" and l: "lookup_dir (tables (sh_fs s) d) b = Inr e"
  shows "\<exists>s'. move_target io (rows [b]) 1 s = Ret (0, tables (sh_fs s) e, of_nat e, s') \<and> shell_at D ns d s' \<and> sh_kernel s' = sh_kernel s"
proof -
  have inv: "fs_inv D own (sh_fs s)" "plain_names D (tables (sh_fs s))" "short_paths D (tables (sh_fs s))" and at: "shell_at D ns d s"
    using R by (simp_all add: shell_ready_def)
  have w: "length b < 512" "0 \<notin> set b" "b \<noteq> [46, 46]" "b \<noteq> [46]" using b by (auto simp: plain_word_def)
  have W: "walk_setting D own (sh_fs s) [b]" using inv w by (simp add: walk_setting_def plain_rows_def)
  have "walk (tables (sh_fs s)) [b] ns d = Arrived (ns @ [dir_name (tables (sh_fs s) e)]) e" using l w by simp
  then obtain s1 where s1: "change_path io (rows [b]) 1 s = Ret (0, s1)" "shell_at D (ns @ [dir_name (tables (sh_fs s) e)]) e s1"
      "sh_kernel s1 = sh_kernel s"
    using change_path_walk [OF W at, of io] by (auto simp: path_outcome_def)
  have "sh_fs s1 = sh_fs s" using s1(3) by simp
  then show ?thesis
    using s1 at by (simp add: move_target_def shell_at_def cancel_change_path_def update_directory_table_def Let_def)
qed

lemma move_slot_free: "de_attribute (t ! 2) = 0 \<Longrightarrow> move_slot t 2 = 2" "de_attribute (t ! 2) = 0 \<Longrightarrow> move_slot t 1 \<noteq> 64"
proof -
  assume a: "de_attribute (t ! 2) = 0"
  show "move_slot t 2 = 2" unfolding move_slot_def using a by (intro scan_while_eqI) auto
  show "move_slot t 1 \<noteq> 64" unfolding move_slot_def using a scan_while_skipped [of 1 2 "\<lambda>i. de_attribute (t ! i) = UATTR_NOT_EMPTY" 64] by auto
qed

lemma move_file:
  assumes R: "shell_ready D own ns d s" and a: "plain_word a" and b: "plain_word b" and l: "lookup_dir (tables (sh_fs s) d) b = Inr e"
    and i: "2 \<le> i" "i < 64" "de_name (tables (sh_fs s) d ! i) = zero_padded 8 a" "\<forall>j\<in>{2..<i}. de_name (tables (sh_fs s) d ! j) \<noteq> zero_padded 8 a"
    and nd: "\<not> is_dir (tables (sh_fs s) d ! i)" and free: "tables (sh_fs s) e ! 2 = empty_entry"
  defines "f' \<equiv> write_cluster (enc_table ((tables (sh_fs s) e)[2 := tables (sh_fs s) d ! i])) (of_nat e)
    (write_cluster (enc_table ((tables (sh_fs s) d)[i := empty_entry])) (of_nat d) (sh_fs s))"
  shows "\<exists>s'. move io isfile (zero_padded 512 a) (zero_padded 512 b) s = Ret s' \<and> sh_fs s' = f' \<and> current_directory s' = of_nat d \<and>
    current_dir_table s' = tables f' d \<and> current_path s' = current_path s"
proof -
  let ?T = "tables (sh_fs s)"
  have at: "shell_at D ns d s" and inv: "fs_inv D own (sh_fs s)" using R by (simp_all add: shell_ready_def)
  have A: "current_directory s = of_nat d" "current_dir_table s = ?T d" "current_path s = zero_padded 512 (path_string ns)" "dir_path D ?T ns d"
    using at by (simp_all add: shell_at_def)
  have ok: "wf_table (?T d)" using tree_invD(5) [OF fs_invD(5) [OF inv] dir_path_in [OF inv A(4)]] table_okD(1) by blast
  have w: "length a < 512" "length a \<le> 8" using a by (auto simp: plain_word_def)
  have cmp: "memcmp_bytes (de_name (?T d ! j)) (zero_padded 8 a) = 0 \<longleftrightarrow> de_name (?T d ! j) = zero_padded 8 a"
    if "j < 64" for j using wf_table_nth [OF ok that] w(2) by (simp add: wf_entry_def)
  have sc: "scan_while (\<lambda>i. memcmp_bytes (de_name (?T d ! i)) (zero_padded 8 a) \<noteq> 0) 2 64 = i"
    using i cmp by (intro scan_while_eqI) auto
  obtain s1 where s1: "move_target io (rows [b]) 1 s = Ret (0, ?T e, of_nat e, s1)" "shell_at D ns d s1" "sh_kernel s1 = sh_kernel s"
    using move_target_folder [OF R b l] by blast
  have f1: "sh_fs s1 = sh_fs s" "current_path s1 = current_path s" "current_directory s1 = of_nat d"
    using s1(2,3) A(3) by (simp_all add: shell_at_def)
  have sl: "move_slot (?T e) 2 = 2" "move_slot (?T e) 1 \<noteq> 64" using move_slot_free [of "?T e"] free by (simp_all add: empty_entry_def)
  have m: "move_entries True i (?T d) (of_nat d) src srcc (?T e) (of_nat e) s1 = Ret (set_sh_fs f' s1)" for src srcc
    using sl(1) i(2) f1(1) by (simp add: move_entries_def Let_def write_table_def f'_def set_sh_fs_def)
  have "move io isfile (zero_padded 512 a) (zero_padded 512 b) s =
      Ret ((set_sh_fs f' s1)\<lparr>current_dir_table := update_directory_table (of_nat d) (set_sh_fs f' s1)\<rparr>)"
    using parse_path_word [OF a at] parse_path_word [OF b at] A(1,2) sc i(2) nd s1(1) sl(2) m rows_single [OF w(1)]
      take_zero_padded [OF w(2), of 512] f1(3)
    by (simp add: move_def move_parent_def Let_def is_dir_def set_sh_fs_def)
  then show ?thesis using f1 by (simp add: update_directory_table_def set_sh_fs_def)
qed

text \<open>No folder contains itself: the way up from it would not end.\<close>

lemma folder_not_self:
  assumes inv: "fs_inv D own f" and l: "lookup_dir (tables f d) b = Inr e"
  shows "dir_path D (tables f) ns d \<Longrightarrow> e \<noteq> d"
proof (induction "length ns" arbitrary: ns)
  case 0
  then have "d = 2" using dir_path_NilE by auto
  then show ?case using lookup_dir_step [OF inv dir_path_in [OF inv 0(2)] l] by metis
next
  case (Suc n)
  show ?case
  proof
    assume ed: "e = d"
    obtain i where i: "(d, i) \<in> slots D (tables f)" "is_dir (tables f d ! i)" "entry_cluster (tables f d ! i) = of_nat e" "e \<in> D"
      using lookup_dir_step [OF inv dir_path_in [OF inv Suc.prems] l] by metis
    have "entry_cluster (tables f d ! 1) = of_nat d" using parent_step(1) [OF inv i] ed by simp
    then have "dir_path D (tables f) (butlast ns) d"
      using dir_path_up(1) [OF inv Suc.prems] Suc.hyps(2) unat_dir [OF inv, of d] i(4) ed by force
    moreover have "n = length (butlast ns)" using Suc.hyps(2) by simp
    ultimately show False using Suc.hyps(1) ed by blast
  qed
qed

text \<open>
  C18. \<^verbatim>\<open>mv a b\<close> on bare words moves: when the first entry with the name \<^verbatim>\<open>a\<close> of the current directory is a file, \<^verbatim>\<open>b\<close> leads to
  a folder whose first slot is free and which has no file of that name, the abstract file system
  is the old one with the file in that slot and no longer in its own; nothing is printed, the
  file system stays well-formed, and the shell stays where it is. When the first slot of the folder is
  taken, the code overwrites it.
\<close>

theorem mv_moves_file:
  assumes R: "shell_ready D own ns d s" and t: "wf_table (temp_dir_table s)" and a: "plain_word a" and b: "plain_word b"
    and f: "abs_fs D own (sh_fs s) (d, i) = Some (File_Node (zero_padded 8 a) ex sz bytes)"
    and first: "\<forall>j\<in>{2..<i}. de_name (tables (sh_fs s) d ! j) \<noteq> zero_padded 8 a"
    and l: "lookup_dir (tables (sh_fs s) d) b = Inr e" and free: "abs_fs D own (sh_fs s) (e, 2) = None"
    and new: "\<forall>j sz' bytes'. abs_fs D own (sh_fs s) (e, j) \<noteq> Some (File_Node (zero_padded 8 a) ex sz' bytes')"
  shows "\<exists>s' own'. mv io isfile [zero_padded 512 a, zero_padded 512 b] 2 s = Ret s' \<and> shell_ready D own' ns d s' \<and>
    abs_fs D own' (sh_fs s') = (abs_fs D own (sh_fs s))((d, i) := None, (e, 2) \<mapsto> File_Node (zero_padded 8 a) ex sz bytes)"
proof -
  let ?T = "tables (sh_fs s)"
  have at: "shell_at D ns d s" and inv: "fs_inv D own (sh_fs s)" "plain_names D ?T" "short_paths D ?T"
    using R by (simp_all add: shell_ready_def)
  have A: "current_directory s = of_nat d" "current_dir_table s = ?T d" "dir_path D ?T ns d" using at by (simp_all add: shell_at_def)
  have d: "d \<in> D" by (rule dir_path_in [OF inv(1) A(3)])
  have e: "e \<in> D" "e \<noteq> d" using lookup_dir_step [OF inv(1) d l] folder_not_self [OF inv(1) l A(3)] by metis+
  note F = abs_file [OF f]
  have n: "de_name (?T d ! i) = zero_padded 8 a" "de_ext (?T d ! i) = ex" using f F(1,2) by (auto simp: abs_fs_def node_of_def)
  have i: "2 \<le> i" "i < 64" using F(1) by (simp_all add: slots_def)
  have te: "table_ok e (?T e)" by (rule tree_invD(5) [OF fs_invD(5) [OF inv(1)] e(1)])
  have nu: "\<not> used (?T e ! 2)" using free e(1) by (simp add: abs_fs_def slots_def split: if_splits)
  have "\<not> same_key (?T e ! j) (?T d ! i)" if "2 \<le> j" "j < 64" for j
  proof (cases "used (?T e ! j)")
    case True
    then have "(e, j) \<in> slots D ?T" using that e(1) by (simp add: slots_def)
    then show ?thesis using new n F(2) by (auto simp: abs_fs_def node_of_def same_key_def is_dir_def split: if_splits)
  next
    case False
    then have "de_name (?T e ! j) = replicate 8 0" using table_okD(4) [OF te that] by (simp add: empty_entry_def)
    moreover have "zero_padded 8 a \<noteq> replicate 8 0"
      using a by (cases a) (auto simp: plain_word_def zero_padded_def numeral_eq_Suc)
    ultimately show ?thesis using n(1) by (simp add: same_key_def)
  qed
  then have r: "relocates D ?T (d, i) (e, 2)" using F(1,2) e nu by (simp add: relocates_def)
  define s1 where "s1 = s\<lparr>temp_dir_table := ?T e\<rparr>"
  have R1: "shell_ready D own ns d s1" "sh_fs s1 = sh_fs s" using R by (simp_all add: s1_def shell_ready_def shell_at_def)
  obtain s' where s': "move io isfile (zero_padded 512 a) (zero_padded 512 b) s1 = Ret s'"
      "sh_fs s' = write_cluster (enc_table ((?T e)[2 := ?T d ! i])) (of_nat e) (write_cluster (enc_table ((?T d)[i := empty_entry])) (of_nat d) (sh_fs s))"
      "current_directory s' = of_nat d" "current_dir_table s' = tables (sh_fs s') d" "current_path s' = current_path s1"
    using move_file [OF R1(1) a b, unfolded R1(2), OF l i n(1) first _ table_okD(4) [OF te _ _ nu]] F(2) by auto
  note N = relocated_fs [OF inv(1) r, folded s'(2)]
  note G = relocated_abs [OF inv(1) r N(2,3)]
  have "mv io isfile [zero_padded 512 a, zero_padded 512 b] 2 s = Ret s'"
    using parse_path_word [OF b at] change_path_mv_folder [OF inv at t b l] s'(1) by (auto simp: mv_def Let_def s1_def)
  moreover have "shell_ready D (moved_own own (d, i) (e, 2)) ns d s'"
    using shell_ready_files [OF R1(1) N(1)] G(2) s'(3-5) R1(2) by simp
  ultimately show ?thesis using G(1) f by metis
qed

theorem mv_moves_file_witness:
  "\<exists>s' own'. mv null_ports False [zero_padded 512 file_word, zero_padded 512 dir_word] 2 bin_shell = Ret s' \<and>
     abs_fs {5, 2} own' (sh_fs s') (2, 2) = None \<and>
     abs_fs {5, 2} own' (sh_fs s') (5, 2) = Some (File_Node (rq_name demo_rq) (rq_ext demo_rq) 3000 demo_text)"
proof -
  have p: "plain_word file_word" "plain_word dir_word" by code_simp+
  have t: "wf_table (temp_dir_table bin_shell)" by (simp add: bin_shell_def main_start_def wf_table_alt)
  have none: "abs_fs {5, 2} bin_own bin_fs (5, j) = None" for j
    using bin_abs(3) by (simp add: abs_fs_def slots_def folder_empty_def)
  have "\<forall>j\<in>{2..<2}. de_name (tables bin_fs 2 ! j) \<noteq> rq_name demo_rq"
    "\<forall>j sz' bytes'. abs_fs {5, 2} bin_own bin_fs (5, j) \<noteq> Some (File_Node (rq_name demo_rq) (rq_ext demo_rq) sz' bytes')"
    unfolding none by simp_all
  note M = mv_moves_file [OF bin_ready(1) t p, unfolded bin_ready(2) demo_words(8), OF bin_abs(1) this(1) bin_lookup none this(2), of null_ports False]
  have "(2 :: nat, 2) \<noteq> (5, 2 :: nat)" by simp
  then show ?thesis using M by (metis fun_upd_other fun_upd_same)
qed

end
