(* ===== verification/Shell_Find.thy ===== *)
theory Shell_Find
  imports Shell_Effects
begin

text \<open>
  What \<^verbatim>\<open>find\<close> (\<^verbatim>\<open>src/src/find.c\<close>) reports: the way back to the root that it prints for a match, the matches of
  one directory, and the whole command on a tree of two levels.
\<close>

subsection \<open>The way to the root\<close>

text \<open>The directories from \<open>d\<close> up to the root, \<open>n\<close> levels above.\<close>

primrec up_dirs :: "tables \<Rightarrow> nat \<Rightarrow> nat \<Rightarrow> nat list" where
  "up_dirs T 0 d = [d]"
| "up_dirs T (Suc n) d = d # up_dirs T n (unat (entry_cluster (T d ! 1)))"

lemma length_up_dirs [simp]: "length (up_dirs T n d) = Suc n"
  by (induction n arbitrary: d) simp_all

lemma low_cluster_dir: "entry_cluster e = of_nat c \<Longrightarrow> c < 512 \<Longrightarrow> low_cluster e = of_nat c"
  using high_half [of e c] by (simp add: low_cluster_def entry_cluster_def)

lemma dir_path_not_root:
  assumes inv: "fs_inv D own f" and p: "dir_path D (tables f) ns d" "ns \<noteq> []"
  shows "d \<noteq> 2"
  using p(1)
proof cases
  case (step ns' d' i)
  note ok = tree_invD(6) [OF fs_invD(5) [OF inv] step(3)]
  have "hd (own (d', i)) \<in> D" using tree_invD(8) [OF fs_invD(5) [OF inv] step(3)] step(4) by simp
  then have "hd (own (d', i)) = d" using entry_okD(7) [OF ok] step(5,6) unat_dir [OF inv] by (metis fst_conv snd_conv)
  then show ?thesis using entry_okD(2,3) [OF ok] hd_in_set by fastforce
qed (use p(2) in simp)

definition name_row :: "dir_table \<Rightarrow> u8 list" where
  "name_row t = zero_padded 512 (take 8 (de_name (t ! 0)))"

lemma track_loop_result:
  assumes inv: "fs_inv D own f"
  shows "dir_path D (tables f) ns d \<Longrightarrow> low_cluster (cur ! 0) \<noteq> 2 \<Longrightarrow> i + length ns < length lp \<Longrightarrow>
    track_loop f (of_nat d) cur i lp =
      Ret (i + Suc (length ns), take i lp @ map (\<lambda>d. name_row (tables f d)) (up_dirs (tables f) (length ns) d) @ drop (i + Suc (length ns)) lp)"
proof (induction "length ns" arbitrary: ns d cur i lp)
  case 0
  then have d: "d = 2" by (auto elim: dir_path_NilE)
  have "table_ok 2 (tables f 2)" using tree_invD(3,5) [OF fs_invD(5) [OF inv]] by blast
  then have "low_cluster (tables f 2 ! 0) = 2" using low_cluster_dir [OF table_okD(3)] by fastforce
  then show ?case
    using 0 d by (subst track_loop.simps, subst track_loop.simps) (simp add: Let_def name_row_def upd_conv_take_nth_drop)
next
  case (Suc n)
  let ?T = "tables f"
  have ne: "ns \<noteq> []" using Suc.hyps(2) by auto
  have dD: "d \<in> D" "d < 512" using dir_path_in [OF inv Suc.prems(1)] tree_invD(4) [OF fs_invD(5) [OF inv]] by auto
  have ok: "table_ok d (?T d)" by (rule tree_invD(5) [OF fs_invD(5) [OF inv] dD(1)])
  have "low_cluster (?T d ! 0) = of_nat d" by (rule low_cluster_dir [OF table_okD(3) [OF ok] dD(2)])
  then have low: "low_cluster (?T d ! 0) \<noteq> 2"
    using dir_path_not_root [OF inv Suc.prems(1) ne] of_nat_512 [OF dD(2), of 2] by auto
  define e where "e = unat (entry_cluster (?T d ! 1))"
  note U = dir_path_up [OF inv Suc.prems(1) ne, folded e_def]
  have "e < 512" using dir_path_in [OF inv U(1)] tree_invD(4) [OF fs_invD(5) [OF inv]] by auto
  then have par: "low_cluster (?T d ! 1) = of_nat e" using low_cluster_dir [of "?T d ! 1" e] U(2) by simp
  have n: "n = length (butlast ns)" "length ns = Suc n" using Suc.hyps(2) by simp_all
  have "track_loop f (of_nat d) cur i lp = track_loop f (of_nat e) (?T d) (i + 1) (lp[i := name_row (?T d)])"
    using Suc.prems(2,3) par by (subst track_loop.simps) (simp add: Let_def name_row_def)
  also have "\<dots> = Ret (i + 1 + Suc n, take (i + 1) (lp[i := name_row (?T d)]) @ map (\<lambda>d. name_row (?T d)) (up_dirs ?T n e) @
      drop (i + 1 + Suc n) (lp[i := name_row (?T d)]))"
    using Suc.hyps(1) [OF n(1) U(1) low, of "i + 1" "lp[i := name_row (?T d)]", folded n(1)] Suc.prems(3) n(2) by simp
  finally show ?case
    using Suc.prems(3) n(2) by (simp add: e_def take_Suc_conv_app_nth)
qed

subsection \<open>One match\<close>

definition put_steps :: "'d ports \<Rightarrow> u8 list list \<Rightarrow> 'd shell \<Rightarrow> 'd shell" where
  "put_steps io xs s = fold (\<lambda>x s. put io [47] WHITE (put io x WHITE s)) xs s"

abbreviation c_name :: "u8 list \<Rightarrow> u8 list" where
  "c_name r \<equiv> takeWhile (\<lambda>c. c \<noteq> 0) r"

lemma put_track_result:
  "n \<le> length rs \<Longrightarrow> \<forall>r\<in>set rs. 0 \<in> set r \<Longrightarrow> put_track io rs n s = Ret (put_steps io (rev (map c_name (take n rs))) s)"
proof (induction n arbitrary: s)
  case (Suc n)
  then have "c_string (rs ! n) = Ret (c_name (rs ! n))" by (simp add: c_string_def)
  then show ?case using Suc by (simp add: path_row_def put_array_def put_steps_def take_Suc_conv_app_nth)
qed (simp add: put_steps_def)

lemma sh_put [simp]: "sh_fs (put io x c s) = sh_fs s"
  by (simp add: put_def)

lemma sh_put_steps [simp]: "sh_fs (put_steps io xs s) = sh_fs s"
proof -
  have "sh_fs (fold (\<lambda>x s. put io [47] WHITE (put io x WHITE s)) xs s) = sh_fs s" by (induction xs arbitrary: s) simp_all
  then show ?thesis by (simp add: put_steps_def)
qed

text \<open>
  The line for a match in the directory \<open>d\<close>, \<open>n\<close> levels below the root: a slash, the names from the root
  down to \<open>d\<close>, each with a slash, and the name searched for.
\<close>

definition put_found :: "'d ports \<Rightarrow> tables \<Rightarrow> nat \<Rightarrow> nat \<Rightarrow> u8 list \<Rightarrow> 'd shell \<Rightarrow> 'd shell" where
  "put_found io T n d g s =
     put io [10] WHITE (put io g WHITE (put_steps io ([] # rev (map (\<lambda>d. c_name (de_name (T d ! 0))) (up_dirs T n d))) s))"

lemma sh_put_found [simp]: "sh_fs (put_found io T n d g s) = sh_fs s"
  by (simp add: put_found_def)

lemma c_name_row: "length (de_name (t ! 0)) = 8 \<Longrightarrow> c_name (name_row t) = c_name (de_name (t ! 0)) \<and> 0 \<in> set (name_row t)"
  by (auto simp: name_row_def zero_padded_def takeWhile_append numeral_eq_Suc takeWhile_eq_all_conv [THEN iffD2])

lemma trackToParent_result:
  assumes inv: "fs_inv D own (sh_fs s)" and p: "dir_path D (tables (sh_fs s)) ns d" "length ns < 511"
    and g: "c_string goal = Ret g"
  shows "trackToParent io (of_nat d) goal s = Ret (put_found io (tables (sh_fs s)) (length ns) d g s)"
proof -
  let ?T = "tables (sh_fs s)" and ?n = "length ns"
  let ?rs = "map (\<lambda>d. name_row (?T d)) (up_dirs ?T ?n d)"
  let ?lp = "?rs @ replicate (511 - ?n) (replicate 512 0)"
  have up: "dir_path D ?T ns d \<Longrightarrow> set (up_dirs ?T (length ns) d) \<subseteq> D" for ns d
  proof (induction "length ns" arbitrary: ns d)
    case 0
    then show ?case using dir_path_in [OF inv] by simp
  next
    case (Suc n)
    then have ne: "ns \<noteq> []" "n = length (butlast ns)" "length ns = Suc n" by auto
    show ?case using Suc.hyps(1) [OF ne(2) dir_path_up(1) [OF inv Suc.prems ne(1)], folded ne(2)] dir_path_in [OF inv Suc.prems] ne(3) by simp
  qed
  have nm: "c_name (name_row (?T e)) = c_name (de_name (?T e ! 0)) \<and> 0 \<in> set (name_row (?T e))" if "e \<in> D" for e
    using wf_table_nth [OF table_okD(1) [OF tree_invD(5) [OF fs_invD(5) [OF inv] that]], of 0] by (intro c_name_row) (simp add: wf_entry_def)
  have t: "track_loop (sh_fs s) (of_nat d) (replicate 64 empty_entry) 0 (replicate 512 (replicate 512 0)) = Ret (Suc ?n, ?lp)"
    using track_loop_result [OF inv p(1), of "replicate 64 empty_entry" 0 "replicate 512 (replicate 512 0)"] p(2)
    by (simp add: low_cluster_def empty_entry_def)
  have "take (Suc (Suc ?n)) ?lp = ?rs @ [replicate 512 0]" using p(2) by simp
  then have "put_track io ?lp (Suc (Suc ?n)) s = Ret (put_steps io ([] # rev (map (\<lambda>d. c_name (de_name (?T d ! 0))) (up_dirs ?T ?n d))) s)"
    using put_track_result [of "Suc (Suc ?n)" ?lp io s] nm up [OF p(1)] p(2) by (auto simp: subset_iff cong: map_cong)
  then show ?thesis using g by (simp add: trackToParent_def t put_array_def put_found_def del: put_track.simps)
qed

subsection \<open>One directory\<close>

definition match_count :: "u8 list \<Rightarrow> dir_table \<Rightarrow> nat \<Rightarrow> nat" where
  "match_count g t i = length (filter (\<lambda>j. c_name (de_name (t ! j)) = g) [i..<64])"

definition sub_dirs :: "dir_table \<Rightarrow> nat \<Rightarrow> u32 list" where
  "sub_dirs t i = map (\<lambda>j. low_cluster (t ! j)) (filter (\<lambda>j. used (t ! j) \<and> is_dir (t ! j)) [i..<64])"

definition short_names :: "dir_table \<Rightarrow> bool" where
  "short_names t \<longleftrightarrow> (\<forall>j\<in>{2..<64}. 0 \<in> set (de_name (t ! j)))"

lemma find_entries_result:
  fixes s :: "'d shell"
  assumes track: "\<And>s' :: 'd shell. sh_fs s' = f \<Longrightarrow> trackToParent io c goal s' = Ret (report s')" "\<And>s' :: 'd shell. sh_fs (report s') = sh_fs s'"
    and g: "c_string goal = Ret g" and t: "wf_table t" "short_names t"
  shows "2 \<le> i \<Longrightarrow> sh_fs s = f \<Longrightarrow> x + length (sub_dirs t i) \<le> length q \<Longrightarrow>
    find_entries io goal c t i x n q s =
      Ret (n + int (match_count g t i), take x q @ sub_dirs t i @ drop (x + length (sub_dirs t i)) q, (report ^^ match_count g t i) s)"
proof (induction "64 - i" arbitrary: i x n q s)
  case 0
  then show ?case by (subst find_entries.simps) (simp add: match_count_def sub_dirs_def)
next
  case (Suc k)
  let ?e = "t ! i"
  have i: "i < 64" "k = 64 - Suc i" using Suc.hyps(2) by simp_all
  have e: "c_string (take 8 (de_name ?e)) = Ret (c_name (de_name ?e))"
    using t i(1) Suc.prems(1) wf_table_nth [OF t(1) i(1)] by (simp add: short_names_def c_string_def wf_entry_def)
  have m: "length (c_name (de_name ?e)) = length g \<and> memcmp_bytes (c_name (de_name ?e)) g = 0 \<longleftrightarrow> c_name (de_name ?e) = g" by auto
  have mc: "match_count g t i = (if c_name (de_name ?e) = g then 1 else 0) + match_count g t (Suc i)"
    using i(1) by (simp add: match_count_def upt_conv_Cons)
  have sd: "sub_dirs t i = (if used ?e \<and> is_dir ?e then [low_cluster ?e] else []) @ sub_dirs t (Suc i)"
    using i(1) by (simp add: sub_dirs_def upt_conv_Cons)
  define s1 where "s1 = (if c_name (de_name ?e) = g then report s else s)"
  define n1 where "n1 = (if c_name (de_name ?e) = g then n + 1 else n)"
  have s1: "sh_fs s1 = f" using Suc.prems(2) track(2) by (simp add: s1_def)
  have step: "find_entries io goal c t i x n q s =
      (if used ?e \<and> is_dir ?e then find_entries io goal c t (Suc i) (x + 1) n1 (q[x := low_cluster ?e]) s1
       else find_entries io goal c t (Suc i) x n1 q s1)"
  proof -
    have "x < length q" if "used ?e \<and> is_dir ?e" using Suc.prems(3) sd that by simp
    then show ?thesis
      by (subst find_entries.simps) (simp add: i(1) e g m track(1) [OF Suc.prems(2)] s1_def n1_def used_def is_dir_def)
  qed
  show ?case
  proof (cases "used ?e \<and> is_dir ?e")
    case True
    have l: "x + 1 + length (sub_dirs t (Suc i)) \<le> length (q[x := low_cluster ?e])" using Suc.prems(3) sd True by simp
    have "take (x + 1) (q[x := low_cluster ?e]) = take x q @ [low_cluster ?e]" using l by (simp add: take_Suc_conv_app_nth)
    then show ?thesis
      using step True sd mc Suc.hyps(1) [OF i(2) _ s1 l, of n1] Suc.prems(1) by (simp add: s1_def n1_def funpow_swap1)
  next
    case False
    then have "sub_dirs t i = sub_dirs t (Suc i)" "find_entries io goal c t i x n q s = find_entries io goal c t (Suc i) x n1 q s1"
      using sd step by auto
    then show ?thesis
      using mc Suc.hyps(1) [OF i(2) _ s1, of x q n1] Suc.prems(1,3) by (simp add: s1_def n1_def funpow_swap1)
  qed
qed

subsection \<open>The command\<close>

definition report_dir :: "'d ports \<Rightarrow> tables \<Rightarrow> u8 list \<Rightarrow> nat \<Rightarrow> nat \<Rightarrow> 'd shell \<Rightarrow> 'd shell" where
  "report_dir io T g n d s = (put_found io T n d g ^^ match_count g (T d) 2) s"

lemma sh_report_dir [simp]: "sh_fs (report_dir io T g n d s) = sh_fs s"
proof -
  have "sh_fs ((put_found io T n d g ^^ k) s) = sh_fs s" for k by (induction k) simp_all
  then show ?thesis by (simp add: report_dir_def)
qed

lemma find_entries_dir:
  assumes inv: "fs_inv D own (sh_fs s)" and p: "dir_path D (tables (sh_fs s)) ns d" "length ns < 511"
    and g: "c_string goal = Ret g" and t: "short_names (tables (sh_fs s) d)"
    and q: "x + length (sub_dirs (tables (sh_fs s) d) 2) \<le> length q"
  shows "find_entries io goal (of_nat d) (tables (sh_fs s) d) 2 x n q s =
    Ret (n + int (match_count g (tables (sh_fs s) d) 2),
         take x q @ sub_dirs (tables (sh_fs s) d) 2 @ drop (x + length (sub_dirs (tables (sh_fs s) d) 2)) q,
         report_dir io (tables (sh_fs s)) g (length ns) d s)"
proof -
  have wf: "wf_table (tables (sh_fs s) d)"
    using table_okD(1) [OF tree_invD(5) [OF fs_invD(5) [OF inv] dir_path_in [OF inv p(1)]]] .
  have "trackToParent io (of_nat d) goal s' = Ret (put_found io (tables (sh_fs s)) (length ns) d g s')" if "sh_fs s' = sh_fs s" for s'
    using trackToParent_result [of D own s' ns d goal g io] inv p g that by simp
  then show ?thesis unfolding report_dir_def
    by (intro find_entries_result [where f = "sh_fs s", OF _ _ g wf t]) (use q in simp_all)
qed

lemma find_loop_leaves:
  assumes inv: "fs_inv D own f" and g: "c_string goal = Ret g"
  shows "sh_fs s = f \<Longrightarrow> i + length cs < length q \<Longrightarrow> q ! (i + length cs) = 0 \<Longrightarrow> (\<And>j. j < length cs \<Longrightarrow> q ! (i + j) = of_nat (cs ! j)) \<Longrightarrow>
    (\<And>d. d \<in> set cs \<Longrightarrow> (\<exists>nm. dir_path D (tables f) [nm] d) \<and> sub_dirs (tables f d) 2 = [] \<and> short_names (tables f d)) \<Longrightarrow>
    find_loop io goal i n q s =
      Ret (n + int (sum_list (map (\<lambda>d. match_count g (tables f d) 2) cs)), fold (report_dir io (tables f) g 1) cs s)"
proof (induction cs arbitrary: i n s)
  case Nil
  then show ?case by (subst find_loop.simps) simp
next
  case (Cons d cs)
  obtain nm where d: "dir_path D (tables f) [nm] d" "sub_dirs (tables f d) 2 = []" "short_names (tables f d)" using Cons.prems(5) by auto
  have D: "d < 512" "2 \<le> d" using dir_path_in [OF inv d(1)] tree_invD(4) [OF fs_invD(5) [OF inv]] by auto
  have q: "q ! i = of_nat d" "i < length q" using Cons.prems(2) Cons.prems(4) [of 0] by simp_all
  have "(of_nat d :: u32) \<noteq> 0" using of_nat_512 [OF D(1), of 0] D(2) by auto
  then have "find_loop io goal i n q s =
      find_loop io goal (i + 1) (n + int (match_count g (tables f d) 2)) q (report_dir io (tables f) g 1 d s)"
    using find_entries_dir [of D own s "[nm]" d goal g "i + 1" q io n] inv d g q Cons.prems(1) by (subst find_loop.simps) simp
  also have "\<dots> = Ret (n + int (match_count g (tables f d) 2) + int (sum_list (map (\<lambda>d. match_count g (tables f d) 2) cs)),
      fold (report_dir io (tables f) g 1) cs (report_dir io (tables f) g 1 d s))"
    by (rule Cons.IH) (use Cons.prems(1-3,5) Cons.prems(4) [of "Suc _"] in auto)
  finally show ?case by (simp add: add.assoc)
qed

lemma sub_dirs_path:
  assumes inv: "fs_inv D own f" and c: "c \<in> set (sub_dirs (tables f 2) 2)"
  shows "\<exists>nm. dir_path D (tables f) [nm] (unat c)" "of_nat (unat c) = c"
proof -
  obtain j where j: "2 \<le> j" "j < 64" "used (tables f 2 ! j)" "is_dir (tables f 2 ! j)" "c = low_cluster (tables f 2 ! j)"
    using c by (auto simp: sub_dirs_def)
  note T = fs_invD(5) [OF inv]
  have s: "(2, j) \<in> slots D (tables f)" using j tree_invD(3) [OF T] by (simp add: slots_def)
  define e where "e = hd (own (2, j))"
  have e: "e \<in> D" "entry_cluster (tables f 2 ! j) = of_nat e"
    using tree_invD(8) [OF T s] j(4) entry_okD(7) [OF tree_invD(6) [OF T s]] by (simp_all add: e_def)
  have "e < 512" using e(1) tree_invD(4) [OF T] by auto
  then have "c = of_nat e" using low_cluster_dir [OF e(2)] j(5) by simp
  moreover have "dir_path D (tables f) ([] @ [dir_name (tables f e)]) e"
    using dir_path.step [OF dir_path.root s] j(4) e by simp
  ultimately show "\<exists>nm. dir_path D (tables f) [nm] (unat c)" using unat_dir [OF inv e(1)] by auto
  show "of_nat (unat c) = c" by simp
qed

text \<open>
  C20. \<^verbatim>\<open>find\<close> under three conditions: no folder of the root has folders itself; no entry of these
  directories has a name of eight characters, whose copy has no terminator; and the uninitialised
  queue of the code happens to hold a zero in the cell behind the folders of the root. Then it
  prints the path of every match, in the root first and then folder by folder, each exactly once, or
  one error line when nothing has the name; it ends and changes nothing else. Without the last
  two conditions the code goes on with garbage.
\<close>

theorem find_two_levels:
  assumes inv: "fs_inv D own (sh_fs s)" and g: "0 \<notin> set g" "length g < 512"
    and T: "T = tables (sh_fs s)" and cs: "cs = map unat (sub_dirs (T 2) 2)"
    and short: "\<forall>d\<in>set (2 # cs). short_names (T d)" and leaf: "\<forall>d\<in>set cs. sub_dirs (T d) 2 = []"
    and q0: "queue (Suc (length cs)) = 0"
  shows "find io queue [zero_padded 512 g, b] 1 s =
    (let s' = fold (report_dir io T g 1) cs (report_dir io T g 0 2 s) in
     Ret (if \<forall>d\<in>set (2 # cs). match_count g (T d) 2 = 0
          then put_text io (quote @ newline) LIGHT_RED (put io g LIGHT_RED
                 (put_text io (''error: there are no folder or file with the name '' @ quote) LIGHT_RED s'))
          else s'))"
proof -
  let ?queue = "map queue [0..<QUEUE_SIZE]"
  let ?goal = "zero_padded 512 g" and ?q = "?queue[0 := 2]" and ?n = "length cs"
  have "length (sub_dirs (T 2) 2) \<le> 62"
    using length_filter_le [of _ "[2..<64]"] by (simp add: sub_dirs_def)
  then have q: "Suc ?n < length ?queue" "?queue ! Suc ?n = 0" using q0 by (simp_all add: cs QUEUE_SIZE_def)
  have gs: "c_string ?goal = Ret g" by (rule c_string_zero_padded [OF g])
  have inv': "fs_inv D own (sh_fs s)" "dir_path D (tables (sh_fs s)) [] 2" using inv dir_path.root by auto
  have l: "length (sub_dirs (T 2) 2) = ?n" by (simp add: cs)
  let ?q1 = "take 1 ?q @ sub_dirs (T 2) 2 @ drop (1 + ?n) ?q" and ?s1 = "report_dir io T g 0 2 s"
  have e: "find_entries io ?goal 2 (T 2) 2 1 0 ?q s = Ret (int (match_count g (T 2) 2), ?q1, ?s1)"
    using find_entries_dir [OF inv'(1,2) _ gs, of 1 ?q io 0] short q(1) l unfolding T by simp
  have q1: "?q1 ! (1 + j) = of_nat (cs ! j)" if "j < ?n" for j
  proof -
    have "cs ! j = unat (sub_dirs (T 2) 2 ! j)" using that unfolding cs by simp
    moreover have "?q1 ! (1 + j) = sub_dirs (T 2) 2 ! j" using that l q(1) by (simp add: nth_append)
    ultimately show ?thesis by simp
  qed
  have "find_loop io ?goal 1 (int (match_count g (T 2) 2)) ?q1 ?s1 =
      Ret (int (match_count g (T 2) 2) + int (sum_list (map (\<lambda>d. match_count g (T d) 2) cs)), fold (report_dir io T g 1) cs ?s1)"
    unfolding T
  proof (rule find_loop_leaves [OF inv gs])
    show "(\<exists>nm. dir_path D (tables (sh_fs s)) [nm] d) \<and> sub_dirs (tables (sh_fs s) d) 2 = [] \<and> short_names (tables (sh_fs s) d)"
      if "d \<in> set cs" for d
      using that sub_dirs_path(1) [OF inv] leaf short cs T by auto
  qed (use q1 q l in \<open>auto simp: T nth_append\<close>)
  moreover define k where "k = match_count g (T 2) 2 + sum_list (map (\<lambda>d. match_count g (T d) 2) cs)"
  ultimately have "find_loop io ?goal 0 0 ?q s = Ret (int k, fold (report_dir io T g 1) cs ?s1)"
    using e q(1) by (subst find_loop.simps) (cases ?queue; simp add: T k_def)
  then have "find io queue [?goal, b] 1 s =
      Ret (if k = 0 then put_text io (quote @ newline) LIGHT_RED (put io g LIGHT_RED
             (put_text io (''error: there are no folder or file with the name '' @ quote) LIGHT_RED (fold (report_dir io T g 1) cs ?s1)))
           else fold (report_dir io T g 1) cs ?s1)"
    using gs by (simp add: find_def put_array_def del: list.map)
  moreover have "k = 0 \<longleftrightarrow> (\<forall>d\<in>set (2 # cs). match_count g (T d) 2 = 0)" by (simp add: k_def)
  ultimately show ?thesis unfolding Let_def by presburger
qed

lemma bin_entries:
  assumes "2 \<le> j" "j < 64"
  shows "tables bin_fs 5 ! j = empty_entry" "j \<noteq> 2 \<Longrightarrow> j \<noteq> 3 \<Longrightarrow> tables bin_fs 2 ! j = empty_entry"
    "de_name (tables bin_fs 2 ! 2) = rq_name demo_rq" "\<not> is_dir (tables bin_fs 2 ! 2)"
    "used (tables bin_fs 2 ! 3)" "is_dir (tables bin_fs 2 ! 3)" "low_cluster (tables bin_fs 2 ! 3) = 5"
proof -
  have l: "length root_table = 64" using wf_table_length [OF table_okD(1) [OF root_table_ok]] .
  have t: "table_ok 5 (tables bin_fs 5)" using tree_invD(5) [OF fs_invD(5) [OF bin_fs_made(2)], of 5] by simp
  show "tables bin_fs 5 ! j = empty_entry" using table_okD(4) [OF t assms] bin_abs(3) assms by (simp add: folder_empty_def)
  show "tables bin_fs 2 ! j = empty_entry" if "j \<noteq> 2" "j \<noteq> 3"
    using that bin_fs_made(4) [of j] text_fs_state(2) root_table_empty [of j] assms by simp
  have e: "tables bin_fs 2 ! 2 = new_entry demo_rq root_table 2 0 3" using bin_fs_made(4) [of 2] text_fs_state(2) l by simp
  show "de_name (tables bin_fs 2 ! 2) = rq_name demo_rq" "\<not> is_dir (tables bin_fs 2 ! 2)"
    unfolding e using new_entry_key [OF demo_name(2)] by (simp_all add: is_dir_def)
  have m: "(2, 3) \<in> slots {5, 2} (tables bin_fs)" "is_dir (tables bin_fs 2 ! 3)" "entry_cluster (tables bin_fs 2 ! 3) = of_nat 5"
    using bin_fs_made(1) unfolding folder_made_def by auto
  then show "used (tables bin_fs 2 ! 3)" "is_dir (tables bin_fs 2 ! 3)" by (simp_all add: slots_def)
  show "low_cluster (tables bin_fs 2 ! 3) = 5" using low_cluster_dir [OF m(3)] by simp
qed

lemma bin_dirs: "sub_dirs (tables bin_fs 2) 2 = [5]" "sub_dirs (tables bin_fs 5) 2 = []"
proof -
  have "used (tables bin_fs 2 ! j) \<and> is_dir (tables bin_fs 2 ! j) \<longleftrightarrow> j = 3" if "j \<in> set [2..<64]" for j
    using bin_entries [of j] that by (cases "j = 2"; cases "j = 3") (auto simp: is_dir_def empty_entry_def)
  then have "filter (\<lambda>j. used (tables bin_fs 2 ! j) \<and> is_dir (tables bin_fs 2 ! j)) [2..<64] = filter (\<lambda>j. j = 3) [2..<64]"
    by (intro filter_cong) simp_all
  moreover have "filter (\<lambda>j. j = 3) [2..<64] = [3 :: nat]" by code_simp
  ultimately show "sub_dirs (tables bin_fs 2) 2 = [5]" using bin_entries(7) [of 2] by (simp add: sub_dirs_def)
  show "sub_dirs (tables bin_fs 5) 2 = []"
    using bin_entries(1) by (auto simp: sub_dirs_def filter_empty_conv is_dir_def empty_entry_def)
qed

lemma bin_matches:
  "match_count file_word (tables bin_fs 2) 2 = 1" "match_count file_word (tables bin_fs 5) 2 = 0"
  "short_names (tables bin_fs 2)" "short_names (tables bin_fs 5)"
proof -
  have w: "c_name (rq_name demo_rq) = file_word" "c_name (zero_padded 8 dir_word) \<noteq> file_word" "c_name (replicate 8 0) \<noteq> file_word"
    "0 \<in> set (rq_name demo_rq)" "0 \<in> set (zero_padded 8 dir_word)" by code_simp+
  have n: "de_name (tables bin_fs 2 ! j) = (if j = 2 then rq_name demo_rq else if j = 3 then zero_padded 8 dir_word else replicate 8 0)"
    if "j \<in> set [2..<64]" for j
    using bin_entries [of j] bin_fs_made(3) that by (simp add: empty_entry_def)
  have "filter (\<lambda>j. c_name (de_name (tables bin_fs 2 ! j)) = file_word) [2..<64] = filter (\<lambda>j. j = 2) [2..<64]"
    by (intro filter_cong) (use n w in \<open>simp_all del: list.map\<close>)
  moreover have "filter (\<lambda>j. j = 2) [2..<64] = [2 :: nat]" by code_simp
  ultimately show "match_count file_word (tables bin_fs 2) 2 = 1" by (simp add: match_count_def del: list.map)
  show "match_count file_word (tables bin_fs 5) 2 = 0"
    using bin_entries(1) w(3) by (simp add: match_count_def filter_empty_conv empty_entry_def del: list.map)
  show "short_names (tables bin_fs 2)" using n w(4,5) by (simp add: short_names_def)
  show "short_names (tables bin_fs 5)" using bin_entries(1) by (simp add: short_names_def empty_entry_def)
qed

theorem find_two_levels_witness:
  "find null_ports (\<lambda>_. 0) [zero_padded 512 file_word, []] 1 bin_shell =
     Ret (put_found null_ports (tables bin_fs) 0 2 file_word bin_shell)"
proof -
  have c: "[5] = map unat (sub_dirs (tables bin_fs 2) 2)" unfolding bin_dirs(1) by simp
  have g: "0 \<notin> set file_word" "length file_word < 512" by code_simp+
  have r: "report_dir null_ports (tables bin_fs) file_word 1 5 s = s" "report_dir null_ports (tables bin_fs) file_word 0 2 s = put_found null_ports (tables bin_fs) 0 2 file_word s"
    for s :: "unit shell" unfolding report_dir_def bin_matches(1,2) by simp_all
  show ?thesis
    using find_two_levels [of "{5, 2}" bin_own bin_shell file_word "tables bin_fs" "[5]" "\<lambda>_. 0" null_ports "[]", OF _ g _ c]
      bin_fs_made(2) bin_ready(2) bin_dirs(2) bin_matches r by (simp del: list.map)
qed

end
