(* ===== verification/Shell_Exec.thy ===== *)
theory Shell_Exec
  imports Shell_Effects Interrupt_Props
begin

text \<open>
  \<^verbatim>\<open>exec\<close> (\<^verbatim>\<open>src/src/exec.c\<close>) from the words of the command to the memory of the new process.
\<close>

definition exec_request :: "u32 \<Rightarrow> u8 list \<Rightarrow> nat \<Rightarrow> FAT32DriverRequest" where
  "exec_request buffer x d = (name_request x d 0x100000)\<lparr>rq_buf := buffer\<rparr>"

lemma found_exec: "found_slot f (exec_request buffer x d) = found_slot f (name_request x d 0)"
proof -
  have "entry_matches e (exec_request buffer x d) = entry_matches e (name_request x d 0)" for e
    by (rule entry_matches_request) (simp_all add: exec_request_def name_request_def)
  then have "find_entry t (exec_request buffer x d) = find_entry t (name_request x d 0)" for t by (simp add: find_entry_def)
  moreover have "rq_parent_cluster_number (exec_request buffer x d) = of_nat d" "rq_parent_cluster_number (name_request x d 0) = of_nat d"
    by (simp_all add: exec_request_def name_request_def)
  ultimately show ?thesis by simp
qed

lemma create_console: "process_create_user_process rq k = Ret (r, k') \<Longrightarrow> k_console k' = k_console k"
  by (auto simp: process_create_user_process_def Let_def elim!: run_bind_RetE split: if_splits option.splits prod.splits)

text \<open>The command up to the system call, for any result of the call without an error message.\<close>

lemma exec_calls:
  assumes R: "shell_ready D own ns d s" and a: "path_arg a" and t: "target (tables (sh_fs s)) a ns d = (Arrived ns1 d1, x)" and x: "plain_file x"
    and k: "process_create_user_process (exec_request buffer x d1) (sh_kernel s) = Ret (0, k')" "k_fs k' = sh_fs s"
  shows "\<exists>s'. exec io buffer [zero_padded 512 a, b] 1 s = Ret s' \<and> sh_kernel s' = k' \<and> shell_ready D own ns1 d1 s'"
proof -
  obtain cs ns0 d0 where sp: "start_place a ns d = (cs, ns0, d0)" by (metis prod_cases3)
  have w: "walk (tables (sh_fs s)) (butlast cs) ns0 d0 = Arrived ns1 d1" and l: "last cs = x"
    using t sp by (simp_all add: target_def)
  note C = start_place_components [OF a sp] and L = last_plain [OF start_place_components(1,2) [OF a sp], unfolded l]
  obtain s1 s2 where V: "parse_path (zero_padded 512 a) s = Ret (rows cs, of_nat (length cs), s1)"
      "change_path io (rows cs) (int (length cs - 1)) s1 = Ret (0, s2)" "shell_at D ns1 d1 s2" "sh_kernel s2 = sh_kernel s"
    by (rule visit [OF R a sp w])
  have len: "length (file_stem x) \<le> 8" "length (file_ext x) \<le> 3" using x by (auto simp: plain_file_def)
  have rq: "\<lparr>rq_buf = buffer, rq_name = take 8 (zero_padded 9 (file_stem x)), rq_ext = take 3 (zero_padded 4 (file_ext x)),
      rq_parent_cluster_number = current_directory s2, rq_buffer_size = 0x100000\<rparr> = exec_request buffer x d1"
    using len V(3) by (simp add: exec_request_def name_request_def take_zero_padded shell_at_def)
  have "exec io buffer [zero_padded 512 a, b] 1 s = Ret (s2\<lparr>sh_kernel := k'\<rparr>)"
    using V shell_parse_file_name_plain [OF x L(2,1), of io s2] k(1) row_last [OF C(1,2)] l
    by (simp add: exec_def execute_program_def count_word [OF C(2,3)] rq execute_error_def)
  moreover have "shell_ready D own ns1 d1 (s2\<lparr>sh_kernel := k'\<rparr>)"
    using R V(3,4) k(2) by (simp add: shell_ready_def shell_at_def)
  ultimately show ?thesis by simp
qed

lemma exec_loads:
  assumes R: "shell_ready D own ns d s" and a: "path_arg a" and t: "target (tables (sh_fs s)) a ns d = (Arrived ns1 d1, x)" and x: "plain_file x"
    and f: "abs_fs D own (sh_fs s) (found_slot (sh_fs s) (name_request x d1 0)) = Some (File_Node nm ex sz bytes)" "sz \<le> 0x100000"
    and K: "paging_inv (k_paging (sh_kernel s))" "procs_inv (k_procs (sh_kernel s))"
    and free: "active_process_count (k_procs (sh_kernel s)) < 16"
      "directories.free_slots (page_directory_used (k_paging (sh_kernel s))) \<noteq> {}" "2 \<le> card (free_frames (k_paging (sh_kernel s)))"
    and b: "buffer \<le> 0x400000"
  shows "\<exists>s' i p. exec io buffer [zero_padded 512 a, c] 1 s = Ret s' \<and> shell_ready D own ns1 d1 s' \<and>
    new_process (exec_request buffer x d1) (sh_kernel s) (sh_kernel s') i p \<and> others_untouched (sh_kernel s) (sh_kernel s') \<and>
    mem_read (user_view (page_directory_list (k_paging (sh_kernel s')) ! p) (k_mem (sh_kernel s'))) 0 (length bytes) = bytes \<and>
    k_console (sh_kernel s') = k_console (sh_kernel s) \<and> procs_inv (k_procs (sh_kernel s'))"
proof -
  let ?k = "sh_kernel s" and ?rq = "exec_request buffer x d1"
  have inv: "fs_inv D own (sh_fs s)" using R by (simp add: shell_ready_def)
  note F = abs_file [OF f(1), folded found_exec [where buffer = buffer]]
  have rq: "rq_buf ?rq \<le> 0x400000" "0 < rq_buffer_size ?rq" "rq_buffer_size ?rq \<le> 0x400000" "rq_buffer_size ?rq = 0x100000"
    using b by (simp_all add: exec_request_def name_request_def)
  have l: "length bytes = 2048 * length (own (found_slot (sh_fs s) ?rq))"
    using file_bytes_length [OF inv f(1)] tree_invD(6) [OF fs_invD(5) [OF inv] F(1)] F(2,3) by (simp add: entry_ok_def)
  obtain k' i p where k': "process_create_user_process ?rq ?k = Ret (0, k')" "new_process ?rq ?k k' i p"
      "mem_read (user_view (page_directory_list (k_paging k') ! p) (k_mem k')) 0 (2048 * length (own (found_slot (sh_fs s) ?rq))) =
        concat (map (cluster (fs_disk (sh_fs s))) (own (found_slot (sh_fs s) ?rq)))"
    using create_loads [OF K free inv F(1,2) _ rq(1-3)] F(3) f(2) rq(4) by auto
  have o: "others_untouched ?k k'" by (rule create_effect(3) [OF K k'(1)])
  then have fk: "k_fs k' = sh_fs s" by (simp add: others_untouched_def)
  note create_console [OF k'(1)]
  moreover obtain s' where "exec io buffer [zero_padded 512 a, c] 1 s = Ret s'" "sh_kernel s' = k'" "shell_ready D own ns1 d1 s'"
    using exec_calls [OF R a t x k'(1) fk, of io c] by blast
  ultimately show ?thesis using k'(2,3) o l F(4) create_effect(1) [OF K k'(1)] by metis
qed

text \<open>
  C19. \<^verbatim>\<open>exec\<close> of a file of at most 1 MiB, on a path of fewer than 256 components: when a process slot, a page directory and two page
  frames are free and the buffer of the shell lies in its first 4 MiB, the command starts one new
  process with the name of the file, ready at address 0, where the process finds the bytes of the
  file; the other processes, the file system and the screen are as before. The shell is then in
  the directory of the file.
\<close>

theorem exec_starts_program:
  assumes R: "shell_ready D own ns d s" and a: "path_arg a" and t: "target (tables (sh_fs s)) a ns d = (Arrived ns1 d1, x)" and x: "plain_file x"
    and f: "abs_fs D own (sh_fs s) (found_slot (sh_fs s) (name_request x d1 0)) = Some (File_Node nm ex sz bytes)" "sz \<le> 0x100000"
    and K: "paging_inv (k_paging (sh_kernel s))" "procs_inv (k_procs (sh_kernel s))"
    and free: "active_process_count (k_procs (sh_kernel s)) < 16"
      "directories.free_slots (page_directory_used (k_paging (sh_kernel s))) \<noteq> {}" "2 \<le> card (free_frames (k_paging (sh_kernel s)))"
    and b: "buffer \<le> 0x400000"
  shows "\<exists>s' i p. exec io buffer [zero_padded 512 a, c] 1 s = Ret s' \<and> shell_ready D own ns1 d1 s' \<and>
    new_process (exec_request buffer x d1) (sh_kernel s) (sh_kernel s') i p \<and> others_untouched (sh_kernel s) (sh_kernel s') \<and>
    mem_read (user_view (page_directory_list (k_paging (sh_kernel s')) ! p) (k_mem (sh_kernel s'))) 0 (length bytes) = bytes \<and>
    k_console (sh_kernel s') = k_console (sh_kernel s)"
  using exec_loads [OF assms, of io c] by blast

theorem exec_starts_program_witness:
  "\<exists>s' i p. exec null_ports 0x3EFF00 [zero_padded 512 file_word, []] 1 bin_shell = Ret s' \<and>
     new_process (exec_request 0x3EFF00 file_word 2) (boot_kernel bin_fs) (sh_kernel s') i p \<and>
     mem_read (user_view (page_directory_list (k_paging (sh_kernel s')) ! p) (k_mem (sh_kernel s'))) 0 4096 = demo_text"
proof -
  have k: "sh_kernel bin_shell = boot_kernel bin_fs" "k_fs (boot_kernel bin_fs) = bin_fs"
    by (simp_all add: bin_shell_def main_start_def boot_kernel_def)
  have l: "length demo_text = 4096" by (simp add: demo_text_def)
  show ?thesis
    using exec_starts_program [OF bin_ready(1) demo_path_arg(1), unfolded bin_ready(2) k, OF bin_target(1) demo_words(2),
        unfolded bin_found, OF bin_abs(1) _ boot_kernel_inv boot_room(2-4), of "0x3EFF00" null_ports "[]"]
    unfolding l by auto
qed

subsection \<open>The program runs\<close>

text \<open>
  C8. A program that the shell starts, on a path of fewer than 256 components and with a process slot, a page
  directory and two page frames free, runs: after \<^verbatim>\<open>exec\<close> at most 15 timer interrupts later the scheduler
  resumes the new process at address 0 in its own page directory, which shows the bytes of the
  file there.
\<close>

theorem exec_program_runs:
  assumes R: "shell_ready D own ns d s" and a: "path_arg a" and t: "target (tables (sh_fs s)) a ns d = (Arrived ns1 d1, x)" and x: "plain_file x"
    and f: "abs_fs D own (sh_fs s) (found_slot (sh_fs s) (name_request x d1 0)) = Some (File_Node nm ex sz bytes)" "sz \<le> 0x100000"
    and K: "paging_inv (k_paging (sh_kernel s))" "procs_inv (k_procs (sh_kernel s))"
    and free: "active_process_count (k_procs (sh_kernel s)) < 16"
      "directories.free_slots (page_directory_used (k_paging (sh_kernel s))) \<noteq> {}" "2 \<le> card (free_frames (k_paging (sh_kernel s)))"
    and b: "buffer \<le> 0x400000" and run: "running_process_idx (k_procs (sh_kernel s)) \<noteq> -1"
    and frs: "\<forall>f\<in>set frs. int_number f = 0x20" "15 \<le> length frs"
  shows "\<exists>s' i p n k'. exec io buffer [zero_padded 512 a, c] 1 s = Ret s' \<and> n \<le> 15 \<and>
    run_interrupts io after (sh_kernel s') (take n frs) = Ret k' \<and> running_process_idx (k_procs k') = int i \<and>
    state_at (k_procs (sh_kernel s)) i = NEW \<and> hd (resumed k') = new_context (directory_addr (k_paging (sh_kernel s)) p) \<and>
    mem_read (user_view (page_directory_list (k_paging k') ! p) (k_mem k')) 0 (length bytes) = bytes"
proof -
  obtain s' i p where E: "exec io buffer [zero_padded 512 a, c] 1 s = Ret s'"
      "new_process (exec_request buffer x d1) (sh_kernel s) (sh_kernel s') i p"
      "mem_read (user_view (page_directory_list (k_paging (sh_kernel s')) ! p) (k_mem (sh_kernel s'))) 0 (length bytes) = bytes"
      "procs_inv (k_procs (sh_kernel s'))"
    using exec_loads [OF assms(1-12)] by blast
  obtain r where r: "r < 16" "running_process_idx (k_procs (sh_kernel s)) = int r" "state_at (k_procs (sh_kernel s)) r \<noteq> NEW"
    using K(2) run by (auto simp: procs_inv_def)
  have N: "i < 16" "state_at (k_procs (sh_kernel s)) i = NEW" "state_at (k_procs (sh_kernel s')) i = READY"
    "running_process_idx (k_procs (sh_kernel s')) = int r"
    "pcb_context (process_list (k_procs (sh_kernel s')) ! i) = new_context (directory_addr (k_paging (sh_kernel s)) p)"
    using E(2) r(2) by (simp_all add: new_process_def)
  have "i \<noteq> r" using N(2) r(3) by auto
  from timers_reach [OF N(4) r(1) procs_invD(1) [OF E(4)] N(1) this N(3) frs, of io after] N(5) E(1,3) N(2)
  show ?thesis by metis
qed

text \<open>The shell of the witnesses as the running process of slot 0.\<close>

definition live_procs :: ProcessManagerState where
  "live_procs = (set_pcb 0 (zero_pcb\<lparr>pid := 1, proc_state := RUNNING\<rparr>) initial_process_manager_state)
     \<lparr>running_process_idx := 0, active_process_count := 1\<rparr>"

definition live_shell :: "unit shell" where
  "live_shell = bin_shell\<lparr>sh_kernel := (boot_kernel bin_fs)\<lparr>k_procs := live_procs\<rparr>\<rparr>"

lemma live_procs_inv: "procs_inv live_procs"
  by (rule procs_inv_set [OF initial_procs_inv, where i = 0 and p = "zero_pcb\<lparr>pid := 1, proc_state := RUNNING\<rparr>"])
    (auto simp: live_procs_def initial_process_manager_state_def zero_pcb_def used_pids_def)

lemma live_shell_ready: "shell_ready {5, 2} bin_own [] 2 live_shell" "sh_fs live_shell = bin_fs"
  using bin_ready by (simp_all add: live_shell_def shell_ready_def shell_at_def boot_kernel_def)

lemma live_kernel:
  "paging_inv (k_paging (sh_kernel live_shell))" "procs_inv (k_procs (sh_kernel live_shell))"
  "active_process_count (k_procs (sh_kernel live_shell)) < 16"
  "directories.free_slots (page_directory_used (k_paging (sh_kernel live_shell))) \<noteq> {}"
  "2 \<le> card (free_frames (k_paging (sh_kernel live_shell)))" "running_process_idx (k_procs (sh_kernel live_shell)) \<noteq> -1"
  using boot_kernel_inv(1) [of bin_fs] boot_room(3,4) [of bin_fs] live_procs_inv by (simp_all add: live_shell_def) (simp_all add: live_procs_def)

theorem exec_program_runs_witness:
  "\<exists>s' i p n k'. exec null_ports 0x3EFF00 [zero_padded 512 file_word, []] 1 live_shell = Ret s' \<and> n \<le> 15 \<and>
     run_interrupts null_ports 0 (sh_kernel s') (replicate n timer_frame) = Ret k' \<and> running_process_idx (k_procs k') = int i \<and>
     mem_read (user_view (page_directory_list (k_paging k') ! p) (k_mem k')) 0 4096 = demo_text"
proof -
  have l: "length demo_text = 4096" by (simp add: demo_text_def)
  have t: "\<forall>f\<in>set (replicate 15 timer_frame). int_number f = 0x20" "15 \<le> length (replicate 15 timer_frame)" by (simp_all add: timer_frame_def)
  have "(3000 :: u32) \<le> 0x100000" "(0x3EFF00 :: u32) \<le> 0x400000" by simp_all
  from exec_program_runs [OF live_shell_ready(1) demo_path_arg(1), unfolded live_shell_ready(2), OF bin_target(1) demo_words(2),
      unfolded bin_found, OF bin_abs(1) this(1) live_kernel(1-5) this(2) live_kernel(6) t, of null_ports "[]" 0]
  obtain s' i p n k' where "exec null_ports 0x3EFF00 [zero_padded 512 file_word, []] 1 live_shell = Ret s'" "n \<le> 15"
    "run_interrupts null_ports 0 (sh_kernel s') (take n (replicate 15 timer_frame)) = Ret k'" "running_process_idx (k_procs k') = int i"
    "mem_read (user_view (page_directory_list (k_paging k') ! p) (k_mem k')) 0 4096 = demo_text"
    unfolding l by blast
  moreover have "take n (replicate 15 timer_frame) = replicate n timer_frame" using \<open>n \<le> 15\<close> by (simp add: min_def)
  ultimately show ?thesis by metis
qed

end
