(* ===== verification/Kernel_Memory.thy ===== *)
theory Kernel_Memory
  imports Interrupt_Props
begin

text \<open>
  Where system calls store. The kernel's tables (process control blocks, page directories, the
  cluster map) lie in physical frame 0, which every address space maps at
  \<^verbatim>\<open>0xC0000000\<close>, and \<^verbatim>\<open>interrupt\<close> checks no pointer. In the model the tables are records beside
  the memory, so frame 0 is followed explicitly: a call whose pointers lie in the user half leaves
  every byte of frame 0, and then the records of the model are the tables of the machine; a pointer
  into the kernel half does change frame 0 (\<open>getchar_writes_kernel_frame\<close>).
\<close>

unbundle bit_operations_syntax

subsection \<open>User pointers\<close>

definition user_range :: "u32 \<Rightarrow> nat \<Rightarrow> bool" where
  "user_range a n \<longleftrightarrow> unat a + n \<le> 0xC0000000"

definition frame_0_kept :: "mem \<Rightarrow> mem \<Rightarrow> bool" where
  "frame_0_kept pm pm' \<longleftrightarrow> (\<forall>pa. unat pa < 0x400000 \<longrightarrow> pm' pa = pm pa)"

lemma frame_0_kept_refl [simp]: "frame_0_kept pm pm"
  by (simp add: frame_0_kept_def)

lemma frame_0_kept_trans: "frame_0_kept pm pm1 \<Longrightarrow> frame_0_kept pm1 pm2 \<Longrightarrow> frame_0_kept pm pm2"
  by (simp add: frame_0_kept_def)

text \<open>Frame 0 is mapped by the entry of the kernel half only.\<close>

lemma kernel_half_address:
  fixes pa :: u32
  assumes pa: "unat pa < 0x400000"
  shows "unat (0xC0000000 + pa) = 0xC0000000 + unat pa" "page_index (0xC0000000 + pa) = 0x300" "(0xC0000000 + pa) AND 0x3FFFFF = pa"
proof -
  show u: "unat (0xC0000000 + pa) = 0xC0000000 + unat pa" using pa by (simp add: unat_word_ariths)
  then show "page_index (0xC0000000 + pa) = 0x300" using pa by (simp add: page_index_shift drop_bit_eq_div unat_div)
  have "(0xC0000000 + unat pa) mod 0x400000 = (unat pa + 0x300 * 0x400000) mod 0x400000" by (simp add: add.commute)
  also have "\<dots> = unat pa" using pa by (simp only: mod_mult_self1 mod_less)
  finally have "unat (take_bit 22 (0xC0000000 + pa)) = unat pa" unfolding take_bit_eq_mod unat_mod u by simp
  then have "take_bit 22 (0xC0000000 + pa) = pa" by (rule unsigned_word_eqI)
  then show "(0xC0000000 + pa) AND 0x3FFFFF = pa" by (simp add: mask22 flip: take_bit_eq_mask)
qed

lemma store_view_frame_0:
  assumes inv: "paging_inv pg" and d: "d < 32" "page_directory_used pg ! d" and dir: "dir = page_directory_list pg ! d"
    and same: "\<And>va. 0xC0000000 \<le> unat va \<Longrightarrow> m va = user_view dir pm va"
  shows "frame_0_kept pm (store_view dir m pm)"
  unfolding frame_0_kept_def
proof (intro allI impI)
  fix pa :: u32 assume pa: "unat pa < 0x400000"
  note A = kernel_half_address [OF pa]
  have "dir ! 0x300 = kernel_higher_half" unfolding dir by (rule directories_okD(4) [OF paging_invD(2) [OF inv] d])
  then have t: "translate dir (0xC0000000 + pa) = Some pa" using A by (simp add: translate_def Let_def kernel_higher_half_def zero_flag_def)
  have "user_view dir (store_view dir m pm) (0xC0000000 + pa) = m (0xC0000000 + pa)"
    using user_view_store_view [OF _ t] directory_frames_inj [OF inv d] unfolding dir by blast
  then show "store_view dir m pm pa = pm pa" using t same [of "0xC0000000 + pa"] A(1) by (simp add: user_view_def)
qed

lemma mem_write_user_range:
  assumes "user_range a (length bs)" "0xC0000000 \<le> unat va"
  shows "mem_write m a bs va = m va"
proof -
  have "unat (va - a) = unat va - unat a" using assms by (simp add: user_range_def unat_sub word_le_nat_alt)
  then have "\<not> unat (va - a) < length bs" using assms by (simp add: user_range_def)
  then show ?thesis by (simp add: mem_write_def)
qed

text \<open>What reading a chain of \<open>n\<close> clusters writes: nothing outside \<open>2048 * n\<close> bytes.\<close>

lemma read_chain_range:
  assumes w: "wf_disk (fs_disk s)"
  shows "read_chain s c ptr m = Ret m' \<Longrightarrow> chain_clusters s c i = Ret n \<Longrightarrow>
    i \<le> n \<and> (\<forall>va. 2048 * (n - i) \<le> unat (va - ptr) \<longrightarrow> 2048 * (n - i) \<le> 2 ^ 32 \<longrightarrow> m' va = m va)"
proof -
  let ?P = "\<lambda>s c ptr m y. wf_disk (fs_disk s) \<longrightarrow> (\<forall>m' i n. y = Inr m' \<longrightarrow> chain_clusters s c i = Ret n \<longrightarrow>
    i \<le> n \<and> (\<forall>va. 2048 * (n - i) \<le> unat (va - ptr) \<longrightarrow> 2048 * (n - i) \<le> 2 ^ 32 \<longrightarrow> m' va = m va))"
  have "read_chain s c ptr m = Some y \<Longrightarrow> ?P s c ptr m y" for y
  proof (erule read_chain.raw_induct [where P = ?P, rotated], goal_cases)
    case (1 read_chain s c ptr m y)
    show ?case
    proof (intro impI allI)
      fix m' i n assume a: "wf_disk (fs_disk s)" "y = Inr m'" "chain_clusters s c i = Ret n"
      show "i \<le> n \<and> (\<forall>va. 2048 * (n - i) \<le> unat (va - ptr) \<longrightarrow> 2048 * (n - i) \<le> 2 ^ 32 \<longrightarrow> m' va = m va)"
      proof (cases "c = FAT32_FAT_END_OF_FILE")
        case True
        then show ?thesis using 1(2) a by (simp add: chain_clusters.simps)
      next
        case False
        then obtain "next" where x: "cluster_map_get (fs_driver s) c = Some next" using 1(2) a by (cases "cluster_map_get (fs_driver s) c") auto
        let ?m = "mem_write m ptr (read_clusters c 1 (fs_disk s))"
        have r: "read_chain s next (ptr + 2048) ?m = Some y" using 1(2) False x by simp
        have "chain_clusters s next (Suc i) = Ret n" using a(3) False x by (simp add: chain_clusters.simps [of s c])
        with 1(1) [OF r] a(1,2) have I: "Suc i \<le> n"
          "\<And>va. 2048 * (n - Suc i) \<le> unat (va - (ptr + 2048)) \<Longrightarrow> 2048 * (n - Suc i) \<le> 2 ^ 32 \<Longrightarrow> m' va = ?m va" by auto
        have "m' va = m va" if v: "2048 * (n - i) \<le> unat (va - ptr)" "2048 * (n - i) \<le> 2 ^ 32" for va
        proof -
          have ge: "2048 \<le> unat (va - ptr)" "2048 * (n - Suc i) + 2048 = 2048 * (n - i)" using v(1) I(1) by (simp_all add: Suc_diff_Suc algebra_simps)
          have "va - (ptr + 2048) = (va - ptr) - 2048" by (rule diff_diff_eq [symmetric])
          moreover have "unat ((va - ptr) - 2048) = unat (va - ptr) - 2048"
            using unat_sub [of 2048 "va - ptr"] ge(1) by (simp add: word_le_nat_alt)
          ultimately have "unat (va - (ptr + 2048)) = unat (va - ptr) - 2048" by (simp only:)
          then have "m' va = ?m va" using I(2) v ge by simp
          also have "\<dots> = m va" using ge(1) length_read_cluster [OF a(1), of c] by (simp add: mem_write_def)
          finally show ?thesis .
        qed
        then show ?thesis using I(1) by simp
      qed
    qed
  qed
  then show "read_chain s c ptr m = Ret m' \<Longrightarrow> chain_clusters s c i = Ret n \<Longrightarrow> ?thesis" using w by blast
qed
text \<open>
  With the page below the kernel half unmapped, an access that starts in the user half and does
  not fault stays in it.
\<close>

definition guarded :: "PageDirectory \<Rightarrow> bool" where
  "guarded dir \<longleftrightarrow> \<not> present_bit (pde_flag (dir ! 0x2FF))"

lemma mapped_user_range:
  assumes "guarded dir" "range_mapped dir a n" "a < 0xC0000000"
  shows "user_range a n"
proof (rule ccontr)
  have a: "unat a < 0xC0000000" using assms(3) by (simp add: word_less_nat_alt)
  assume "\<not> user_range a n"
  then have n: "0xC0000000 < unat a + n" "n \<noteq> 0" using a by (auto simp: user_range_def)
  have "unat a div 0x400000 \<le> 0x2FF" "0x2FF \<le> (unat a + n - 1) div 0x400000" using a n(1) by simp_all
  then have "0x2FF \<in> set [unat a div 0x400000..<Suc ((unat a + n - 1) div 0x400000)]" unfolding set_upt by auto
  then have "present_bit (pde_flag (dir ! (0x2FF mod 1024)))" using assms(2) n(2) unfolding range_mapped_def by blast
  then show False using assms(1) by (simp add: guarded_def)
qed

definition pool_directory :: "paging_state \<Rightarrow> PageDirectory \<Rightarrow> bool" where
  "pool_directory pg dir \<longleftrightarrow> paging_inv pg \<and> (\<exists>d<32. page_directory_used pg ! d \<and> dir = page_directory_list pg ! d)"

lemma store_user_range_frame_0:
  assumes "pool_directory pg dir" "guarded dir"
    and "range_mapped dir a n" "a < 0xC0000000" "\<And>va. n \<le> unat (va - a) \<Longrightarrow> m va = user_view dir pm va"
  shows "frame_0_kept pm (store_view dir m pm)"
proof -
  have u: "user_range a n" using assms mapped_user_range by blast
  have "m va = user_view dir pm va" if va: "0xC0000000 \<le> unat va" for va
  proof -
    have "unat (va - a) = unat va - unat a" using va u by (simp add: user_range_def unat_sub word_le_nat_alt)
    then show ?thesis using va u by (intro assms(5)) (simp add: user_range_def)
  qed
  then show ?thesis using assms(1) store_view_frame_0 [of pg _ dir m pm] by (auto simp: pool_directory_def)
qed

lemma store_bytes_frame_0:
  assumes "pool_directory pg dir" "guarded dir" "a < 0xC0000000" "store_bytes dir a bs pm = Ret pm'"
  shows "frame_0_kept pm pm'"
proof -
  have m: "range_mapped dir a (length bs)" "pm' = store_view dir (mem_write (user_view dir pm) a bs) pm"
    using assms(4) by (simp_all add: store_bytes_def split: if_splits)
  show ?thesis unfolding m(2) by (rule store_user_range_frame_0 [OF assms(1,2) m(1) assms(3)]) (simp add: mem_write_def)
qed

lemma read_into_space_frame_0:
  assumes "pool_directory pg dir" "guarded dir" "rq_buf rq < 0xC0000000" "wf_disk (fs_disk s)"
    and r: "read_into_space dir rq s pm = Ret (rv, pm')"
  shows "frame_0_kept pm pm'"
proof (cases "rv = 0")
  case False
  then show ?thesis using r by (auto simp: read_into_space_def Let_def elim!: run_bind_RetE split: if_splits)
next
  case True
  let ?c = "entry_cluster (read_table s (rq_parent_cluster_number rq) ! find_entry (read_table s (rq_parent_cluster_number rq)) rq)"
  obtain m n where x: "read_chain s ?c (rq_buf rq) (user_view dir pm) = Ret m" "chain_clusters s ?c 0 = Ret n"
      "range_mapped dir (rq_buf rq) (2048 * n)" "pm' = store_view dir m pm"
    using r True by (auto simp: read_into_space_def fat_read_def Let_def elim!: run_bind_RetE split: if_splits)
  have u: "2048 * n \<le> 2 ^ 32" using mapped_user_range [OF assms(2) x(3) assms(3)] by (simp add: user_range_def)
  have "m va = user_view dir pm va" if "2048 * n \<le> unat (va - rq_buf rq)" for va
    using read_chain_range [OF assms(4) x(1,2)] u that by simp
  then show ?thesis unfolding x(4) by (rule store_user_range_frame_0 [OF assms(1,2) x(3) assms(3)])
qed

lemma place_image_frame_0:
  assumes "pool_directory pg dir" "guarded dir" "buf < 0xC0000000" "us ! 0 = 0" "us ! 1 < 0xC0000000"
    and p: "place_image dir buf us pm = Ret pm'"
  shows "frame_0_kept pm pm'"
proof -
  have r: "range_mapped dir 0 0x400000" "range_mapped dir (us ! 1) 0x400000" 
    and pm': "pm' = store_view dir (mem_write (mem_write (user_view dir pm) 0 (mem_read (user_view dir pm) buf 0x400000)) (us ! 1) (replicate 0x400000 0)) pm"
    using p memcpy_to_0 [of buf "0x400000" "user_view dir pm"] assms(3,4)
    by (simp_all add: place_image_def Let_def memset_spec word_less_nat_alt split: if_splits)
  have u: "user_range 0 0x400000" "user_range (us ! 1) 0x400000" using mapped_user_range [OF assms(2)] r assms(5) by auto
  show ?thesis
    unfolding pm' using assms(1) mem_write_user_range u
    by (auto simp: pool_directory_def intro!: store_view_frame_0)
qed


text \<open>Creating a process writes its own frames only.\<close>

definition user_records :: "'d kernel \<Rightarrow> bool" where
  "user_records k \<longleftrightarrow> (\<forall>i<16. virtual_addr_used (process_list (k_procs k) ! i) ! 1 < 0xC0000000)"

lemma guard_accepts: "create_guard rq k = 0 \<Longrightarrow> rq_buf rq < 0xC0000000 \<and> unat (frames_needed rq) \<le> 8"
  by (auto simp: create_guard_def not_le not_less word_le_nat_alt split: if_splits)

lemma create_frame_0:
  assumes inv: "kernel_inv k" and w: "wf_disk (fs_disk (k_fs k))" and u: "user_records k"
    and c: "process_create_user_process rq k = Ret (v, k')"
  shows "frame_0_kept (k_mem k) (k_mem k')"
proof (cases "create_guard rq k = 0")
  case False
  then show ?thesis using create_refused [of k rq] inv c by (simp add: kernel_inv_def)
next
  case True
  have I: "procs_inv (k_procs k)" "paging_inv (k_paging k)" using inv by (simp_all add: kernel_inv_def)
  note g = guard_accepts [OF True]
  obtain i d dir pg q where A: "i < 16" "address_space rq k d dir pg" "finish_create rq k i d dir pg q = Ret (v, k')"
    using create_accepted [OF I(2,1) True] c by metis
  let ?us = "virtual_addr_used (started_pcb rq (process_list (k_procs k) ! i))"
  have D: "d < 32" "page_directory_used pg = (page_directory_used (k_paging k))[d := True]" "paging_inv pg"
    "page_directory_list pg = (page_directory_list (k_paging k))[d := dir]" using A(2) by (simp_all add: address_space_def)
  then have P: "pool_directory pg dir"
    using directories_okD(1,2) [OF paging_invD(2) [OF I(2)]] by (auto simp: pool_directory_def intro!: exI [of _ d])
  have G: "guarded dir" using A(2) g by (simp add: address_space_def guarded_def)
  from A(3) show ?thesis
  proof (cases rule: finish_createE)
    case (failed rv pm)
    then show ?thesis using read_into_space_frame_0 [OF P G _ w failed(1)] g by simp
  next
    case (created pm pm')
    have r: "range_mapped dir (rq_buf rq) 0x400000" using created(3) by (simp add: place_image_def split: if_splits)
    have "frames_needed rq \<noteq> 0"
    proof
      assume z: "frames_needed rq = 0"
      have "unat (rq_buf rq) div 0x400000 < 0x300" using g by (simp add: word_less_nat_alt less_mult_imp_div_less)
      then have "\<not> present_bit (pde_flag (dir ! (unat (rq_buf rq) div 0x400000 mod 1024)))"
        using A(2) z by (simp add: address_space_def)
      moreover have "unat (rq_buf rq) div 0x400000 \<in> set [unat (rq_buf rq) div 0x400000..<Suc ((unat (rq_buf rq) + 0x400000 - 1) div 0x400000)]"
        unfolding set_upt using div_le_mono [of "unat (rq_buf rq)" "unat (rq_buf rq) + 0x400000 - 1" "0x400000"] by auto
      ultimately show False using r unfolding range_mapped_def by auto
    qed
    then have "0 < unat (frames_needed rq)" by (simp add: unat_gt_0)
    then have us: "?us ! 0 = 0" "?us ! 1 < 0xC0000000"
      using u A(1) procs_invD(2) [OF I(1)] by (simp_all add: started_pcb_def nth_record_frames user_records_def)
    show ?thesis
      using read_into_space_frame_0 [OF P G _ w created(1)] place_image_frame_0 [OF P G _ us created(3)] g created(4)
      by (auto intro: frame_0_kept_trans)
  qed
qed


subsection \<open>Every call with pointers of the user half\<close>

text \<open>The pointers a call stores through: where it puts its result, and the buffer of a request that reads.\<close>

definition user_pointers :: "CPURegister \<Rightarrow> 'd kernel \<Rightarrow> bool" where
  "user_pointers cpu k \<longleftrightarrow>
     (eax cpu \<in> {0, 1, 2, 3, 12, 14} \<longrightarrow> ecx cpu < 0xC0000000) \<and> (eax cpu \<in> {4, 9} \<longrightarrow> ebx cpu < 0xC0000000) \<and>
     (eax cpu \<in> {0, 1} \<longrightarrow> (\<forall>rq. load_request (active_directory (k_paging k)) (ebx cpu) (k_mem k) = Ret rq \<longrightarrow> rq_buf rq < 0xC0000000))"

definition guarded_caller :: "'d kernel \<Rightarrow> nat \<Rightarrow> bool" where
  "guarded_caller k d \<longleftrightarrow> kernel_inv k \<and> runs_in k d \<and> guarded (page_directory_list (k_paging k) ! d)"

lemma caller_directory: "guarded_caller k d \<Longrightarrow> pool_directory (k_paging k) (active_directory (k_paging k)) \<and> guarded (active_directory (k_paging k))"
  by (auto simp: guarded_caller_def active_directory_runs pool_directory_def kernel_inv_def runs_in_def)

lemma store_result_frame_0:
  assumes "guarded_caller k d" "a < 0xC0000000" "store_result a v k = Ret k'"
  shows "frame_0_kept (k_mem k) (k_mem k')"
  using assms store_bytes_frame_0 caller_directory [OF assms(1)] by (fastforce simp: store_result_def elim!: run_bind_RetE)

lemma then_result_frame_0:
  assumes "store_result a v k1 = Ret k'" "frame_0_kept (k_mem k) (k_mem k1)" "a < 0xC0000000" "guarded_caller k1 d"
  shows "frame_0_kept (k_mem k) (k_mem k')"
  using assms store_result_frame_0 frame_0_kept_trans by blast

lemma guarded_caller_frame:
  "guarded_caller k d \<Longrightarrow> k_paging k' = k_paging k \<Longrightarrow> k_procs k' = k_procs k \<Longrightarrow> guarded_caller k' d"
  by (simp add: guarded_caller_def kernel_inv_def runs_in_def)

lemma file_calls_frame_0:
  assumes g: "guarded_caller k d" and w: "wf_disk (fs_disk (k_fs k))"
  shows "sys_read p ret k = Ret k' \<Longrightarrow> ret < 0xC0000000 \<Longrightarrow>
      (\<And>rq. load_request (active_directory (k_paging k)) p (k_mem k) = Ret rq \<Longrightarrow> rq_buf rq < 0xC0000000) \<Longrightarrow> frame_0_kept (k_mem k) (k_mem k')"
    "sys_read_directory p ret k = Ret k' \<Longrightarrow> ret < 0xC0000000 \<Longrightarrow>
      (\<And>rq. load_request (active_directory (k_paging k)) p (k_mem k) = Ret rq \<Longrightarrow> rq_buf rq < 0xC0000000) \<Longrightarrow> frame_0_kept (k_mem k) (k_mem k')"
    "sys_write p ret k = Ret k' \<Longrightarrow> ret < 0xC0000000 \<Longrightarrow> frame_0_kept (k_mem k) (k_mem k')"
    "sys_delete p ret k = Ret k' \<Longrightarrow> ret < 0xC0000000 \<Longrightarrow> frame_0_kept (k_mem k) (k_mem k')"
    "sys_getchar p k = Ret k' \<Longrightarrow> p < 0xC0000000 \<Longrightarrow> frame_0_kept (k_mem k) (k_mem k')"
    "sys_read_cluster p c k = Ret k' \<Longrightarrow> p < 0xC0000000 \<Longrightarrow> frame_0_kept (k_mem k) (k_mem k')"
proof -
  note C = conjunct1 [OF caller_directory [OF g]] conjunct2 [OF caller_directory [OF g]]
  note F = guarded_caller_frame [OF g]
  show "frame_0_kept (k_mem k) (k_mem k')" if "sys_read p ret k = Ret k'" "ret < 0xC0000000"
    "\<And>rq. load_request (active_directory (k_paging k)) p (k_mem k) = Ret rq \<Longrightarrow> rq_buf rq < 0xC0000000"
  proof -
    note call = that(1)
    obtain rq r pm where x: "load_request (active_directory (k_paging k)) p (k_mem k) = Ret rq"
      "read_into_space (active_directory (k_paging k)) rq (k_fs k) (k_mem k) = Ret (r, pm)" "store_result ret r (k\<lparr>k_mem := pm\<rparr>) = Ret k'"
      using call by (auto simp: sys_read_def Let_def elim!: run_bind_RetE)
    show ?thesis
      using then_result_frame_0 [OF x(3) _ that(2) F] read_into_space_frame_0 [OF C that(3) [OF x(1)] w x(2)] by simp
  qed
  have rd: "frame_0_kept (k_mem k) (store_view (active_directory (k_paging k)) m (k_mem k))"
    if "read_directory rq (k_fs k) (user_view (active_directory (k_paging k)) (k_mem k)) = (0, m)" 
      "range_mapped (active_directory (k_paging k)) (rq_buf rq) 2048" "rq_buf rq < 0xC0000000" for rq m
  proof (rule store_user_range_frame_0 [OF C that(2,3)])
    fix va assume "2048 \<le> unat (va - rq_buf rq)"
    then show "m va = user_view (active_directory (k_paging k)) (k_mem k) va"
      using that(1) length_read_cluster [OF w] by (auto simp: read_directory_def Let_def mem_write_def split: if_splits)
  qed
  show "frame_0_kept (k_mem k) (k_mem k')" if "sys_read_directory p ret k = Ret k'" "ret < 0xC0000000"
    "\<And>rq. load_request (active_directory (k_paging k)) p (k_mem k) = Ret rq \<Longrightarrow> rq_buf rq < 0xC0000000"
  proof -
    note call = that(1)
    obtain rq r m where x: "load_request (active_directory (k_paging k)) p (k_mem k) = Ret rq"
      "read_directory rq (k_fs k) (user_view (active_directory (k_paging k)) (k_mem k)) = (r, m)"
      "store_result ret r k = Ret k' \<or> (r = 0 \<and> range_mapped (active_directory (k_paging k)) (rq_buf rq) 2048 \<and>
         store_result ret r (k\<lparr>k_mem := store_view (active_directory (k_paging k)) m (k_mem k)\<rparr>) = Ret k')"
      using call by (auto simp: sys_read_directory_def Let_def elim!: run_bind_RetE split: prod.splits if_splits)
    from x(3) show ?thesis
      using then_result_frame_0 [OF _ _ that(2) F] store_result_frame_0 [OF g that(2)] rd [OF _ _ that(3) [OF x(1)]] x(2) by fastforce
  qed
  have fs: "frame_0_kept (k_mem k) (k_mem k')" if "store_result ret r (k\<lparr>k_fs := s\<rparr>) = Ret k'" "ret < 0xC0000000" for r s
    using store_result_frame_0 [OF F that(2,1)] by simp
  show "frame_0_kept (k_mem k) (k_mem k')" if "sys_write p ret k = Ret k'" "ret < 0xC0000000"
    using that by (auto simp: sys_write_def Let_def elim!: run_bind_RetE split: if_splits intro: fs)
  show "frame_0_kept (k_mem k) (k_mem k')" if "sys_delete p ret k = Ret k'" "ret < 0xC0000000"
    using that by (auto simp: sys_delete_def elim!: run_bind_RetE intro: fs)
  show "frame_0_kept (k_mem k) (k_mem k')" if "sys_getchar p k = Ret k'" "p < 0xC0000000"
    using that by (auto simp: sys_getchar_def get_keyboard_buffer_def elim!: run_bind_RetE intro: store_bytes_frame_0 [OF C])
  show "frame_0_kept (k_mem k) (k_mem k')" if "sys_read_cluster p c k = Ret k'" "p < 0xC0000000"
    using that by (auto simp: sys_read_cluster_def elim!: run_bind_RetE intro: store_bytes_frame_0 [OF C])
qed

lemma create_directories:
  assumes pinv: "paging_inv (k_paging k)" and inv: "procs_inv (k_procs k)" and c: "process_create_user_process rq k = Ret (v, k')"
    and d: "d < 32" "page_directory_used (k_paging k) ! d"
  shows "page_directory_list (k_paging k') ! d = page_directory_list (k_paging k) ! d"
proof (cases "create_guard rq k = 0")
  case False
  then show ?thesis using create_refused [OF pinv inv] c by simp
next
  case True
  obtain i e dir pg q where A: "address_space rq k e dir pg" "finish_create rq k i e dir pg q = Ret (v, k')"
    using create_accepted [OF pinv inv True] c by metis
  have "k_paging k' = restored e pg" using A(2) by (cases rule: finish_createE) simp_all
  then show ?thesis using A(1) d by (cases "e = d") (simp_all add: address_space_def)
qed

lemma exec_frame_0:
  assumes g: "guarded_caller k d" and w: "wf_disk (fs_disk (k_fs k))" and u: "user_records k"
    and s: "sys_exec p ret k = Ret k'" "ret < 0xC0000000"
  shows "frame_0_kept (k_mem k) (k_mem k')"
proof -
  obtain rq v k1 where c: "process_create_user_process rq k = Ret (v, k1)" "store_result ret v k1 = Ret k'"
    using s(1) by (auto simp: sys_exec_def elim!: run_bind_RetE)
  have K: "kernel_inv k" "runs_in k d" "guarded (page_directory_list (k_paging k) ! d)" using g by (simp_all add: guarded_caller_def)
  have I: "procs_inv (k_procs k)" "paging_inv (k_paging k)" using K(1) by (simp_all add: kernel_inv_def)
  have "runs_in k1 d" using create_keeps_active [OF I(2,1) c(1)] K(2) by (simp add: runs_in_def directory_addr_def)
  moreover have "kernel_inv k1" using create_effect(1,2) [OF I(2,1) c(1)] by (simp add: kernel_inv_def)
  moreover have "page_directory_list (k_paging k1) ! d = page_directory_list (k_paging k) ! d"
    using create_directories [OF I(2,1) c(1)] K(2) by (simp add: runs_in_def)
  ultimately have "guarded_caller k1 d" using K(3) by (simp add: guarded_caller_def)
  then show ?thesis using then_result_frame_0 [OF c(2) create_frame_0 [OF K(1) w u c(1)] s(2)] by simp
qed

lemma exit_memory:
  assumes inv: "kernel_inv k" and s: "terminate_current_process k = Ret k'"
  shows "k_mem k' = k_mem k"
proof -
  obtain r where r: "running_process_idx (k_procs k) = int r" "r < 16"
    using s inv procs_invD(5) [of "k_procs k"]
    by (auto simp: kernel_inv_def terminate_current_process_def process_get_current_running_pcb_pointer_def split: if_splits)
  have "slot_cleared r k k'" using terminate_clears [of k r] r s inv by (auto simp: kernel_inv_def)
  then show ?thesis by (simp add: slot_cleared_def)
qed

lemma kill_frame_0:
  assumes g: "guarded_caller k d" and s: "sys_kill p ret k = Ret k'" "ret < 0xC0000000"
  shows "frame_0_kept (k_mem k) (k_mem k')"
proof -
  have K: "kernel_inv k" "runs_in k d" "guarded (page_directory_list (k_paging k) ! d)" using g by (simp_all add: guarded_caller_def)
  obtain v k1 where c: "kill_process p k = Ret (v, k1)" "k1 = k' \<or> (length (resumed k1) = length (resumed k) \<and> store_result ret v k1 = Ret k')"
    using s(1) by (auto simp: sys_kill_def elim!: run_bind_RetE split: if_splits)
  have m: "k_mem k1 = k_mem k"
    using c(1) exit_memory [OF K(1)] by (auto simp: kill_process_def Let_def split: if_splits elim!: run_bind_RetE)
  have "guarded_caller k1 d" if "length (resumed k1) = length (resumed k)"
    using kill_unswitched [OF K(1) c(1) that] kill_keeps(1) [OF K(1) c(1)] K(2,3) by (simp add: guarded_caller_def runs_in_def)
  then show ?thesis using c(2) m store_result_frame_0 [OF _ s(2)] by fastforce
qed

lemma call_frame_0:
  assumes g: "guarded_caller k d" and w: "wf_disk (fs_disk (k_fs k))" "user_records k" and p: "user_pointers cpu k"
    and s: "interrupt io after cpu k = Ret k'"
  shows "frame_0_kept (k_mem k) (k_mem k')"
proof -
  note F = file_calls_frame_0 [OF g w(1)]
  have K: "kernel_inv k" using g by (simp add: guarded_caller_def)
  let ?G = "\<lambda>x. \<forall>k'. x = Ret k' \<longrightarrow> frame_0_kept (k_mem k) (k_mem k')"
  have branch: "?G (if b then x else y)" if "b \<Longrightarrow> ?G x" "?G y" for b x y using that by simp
  have "k_mem k' = k_mem k" if "print_active_processes io k = Ret k'" for k'
    using print_processes_frame [OF that [unfolded print_active_processes_def]] by simp
  moreover have "\<And>k' q n c. sys_puts io q n c k = Ret k' \<Longrightarrow> k_mem k' = k_mem k"
    "\<And>k' q c. sys_write_cluster q c k = Ret k' \<Longrightarrow> k_mem k' = k_mem k" "\<And>k'. sys_clock io after k = Ret k' \<Longrightarrow> k_mem k' = k_mem k"
    by (auto simp: sys_puts_def sys_write_cluster_def sys_clock_def elim!: run_bind_RetE)
  ultimately have "?G (interrupt io after cpu k)"
    unfolding interrupt_def using p
    by (intro branch) (auto simp: user_pointers_def exit_memory [OF K] intro: F exec_frame_0 [OF g w] kill_frame_0 [OF g])
  then show ?thesis using s by simp
qed



subsection \<open>Kernel memory\<close>

text \<open>
  Pointers of system calls are not checked: a process that passes an address of the
  kernel's half to the call that reads a key makes the kernel write the key into physical
  frame 0, the frame of the kernel itself.
\<close>

theorem getchar_writes_kernel_frame:
  assumes inv: "kernel_inv k" and r: "runs_in k d" and p: "page_index p = 0x300"
  shows "\<exists>k'. sys_getchar p k = Ret k' \<and> k_mem k' (p AND 0x3FFFFF) = keyboard_input (keyboard_driver_state (k_console k))"
proof -
  let ?dir = "page_directory_list (k_paging k) ! d" and ?ch = "keyboard_input (keyboard_driver_state (k_console k))"
  have d: "d < 32" "page_directory_used (k_paging k) ! d" "paging_inv (k_paging k)"
    using inv r by (simp_all add: kernel_inv_def runs_in_def)
  have e: "?dir ! 0x300 = kernel_higher_half" by (rule directories_okD(4) [OF paging_invD(2) [OF d(3)] d(1,2)])
  have t: "translate ?dir p = Some (p AND 0x3FFFFF)"
    by (simp add: translate_def p e kernel_higher_half_def zero_flag_def)
  have q: "unat p div 0x400000 = 0x300" using p by (simp add: page_index_shift drop_bit_eq_div unat_div)
  have m: "range_mapped ?dir p 1"
    using q e unfolding range_mapped_def by (auto simp: kernel_higher_half_def zero_flag_def dest!: le_neq_implies_less)
  let ?pm = "store_view ?dir (mem_write (user_view ?dir (k_mem k)) p [?ch]) (k_mem k)"
  have "user_view ?dir (store_view ?dir m (k_mem k)) p = m p" for m
    using user_view_store_view [OF _ t] directory_frames_inj [OF d(3,1,2)] by blast
  then have "user_view ?dir ?pm p = ?ch" by (simp add: mem_write_def)
  then have "?pm (p AND 0x3FFFFF) = ?ch" using t by (simp add: user_view_def)
  then show ?thesis
    using m by (simp add: sys_getchar_def get_keyboard_buffer_def active_directory_runs [OF r] store_bytes_def)
qed

theorem getchar_writes_kernel_frame_witness: "\<exists>k'. sys_getchar 0xC0000010 call_kernel = Ret k' \<and> k_mem k' 0x10 = 0"
proof -
  have "page_index 0xC0000010 = 0x300" by code_simp
  then show ?thesis
    using getchar_writes_kernel_frame [OF call_kernel_ok, of "0xC0000010"]
    by (simp add: call_kernel_def demo_kernel_def blank_console_def)
qed

end
