(* ===== verification/User_Calls.thy ===== *)
theory User_Calls
  imports Interrupt_Props FAT32_Folders
begin

text \<open>
  System calls as user programs issue them: the wrapper \<^verbatim>\<open>syscall\<close> of \<^verbatim>\<open>src/src/user-shell.c\<close> and
  \<^verbatim>\<open>src/src/clock.c\<close>, requests as bytes in the memory of the caller, the exchange of a file
  between two processes, and the clock program.
\<close>

subsection \<open>The wrapper\<close>

text \<open>\<open>frame\<close> is the state of the caller when it executes \<^verbatim>\<open>int $0x30\<close>, but for the four registers.\<close>

definition syscall ::
  "'d ports \<Rightarrow> u8 \<Rightarrow> InterruptFrame \<Rightarrow> u32 \<Rightarrow> u32 \<Rightarrow> u32 \<Rightarrow> u32 \<Rightarrow> 'd kernel \<Rightarrow> 'd kernel run" where
  "syscall io after frame a b c d k =
     main_interrupt_handler io after
       (frame\<lparr>int_number := 0x30, frame_cpu := (frame_cpu frame)\<lparr>ebx := b, ecx := c, edx := d, eax := a\<rparr>\<rparr>) k"

lemma syscall_interrupt:
  "syscall io after frame a b c d k = interrupt io after ((frame_cpu frame)\<lparr>ebx := b, ecx := c, edx := d, eax := a\<rparr>) k"
  by (simp add: syscall_def main_interrupt_handler_def)

subsection \<open>Requests in memory\<close>

definition enc_request :: "FAT32DriverRequest \<Rightarrow> u8 list" where
  "enc_request rq = enc_u32 (rq_buf rq) @ rq_name rq @ rq_ext rq @ enc_u32 (rq_parent_cluster_number rq) @ enc_u32 (rq_buffer_size rq)"

lemma enc_dec_request:
  assumes "length bs = 23"
  shows "enc_request (dec_request bs) = bs"
proof -
  have e: "enc_u32 (dec_u32 (take 4 xs)) = take 4 xs" if "4 \<le> length xs" for xs
    using u32_codec.enc_dec [of "take 4 xs"] that by simp
  have "take 4 bs @ take 8 (drop 4 bs) @ take 3 (drop 12 bs) @ take 4 (drop 15 bs) @ take 4 (drop 19 bs) = bs"
    using assms by (intro nth_equalityI) (auto simp: nth_append)
  then show ?thesis using e [of bs] e [of "drop 15 bs"] e [of "drop 19 bs"] assms by (simp add: enc_request_def dec_request_def)
qed

interpretation request_codec: byte_codec enc_request dec_request wf_request 23
proof
  show "dec_request (enc_request rq) = rq" if "wf_request rq" for rq
    using that u32_codec.dec_enc [of "rq_buf rq"] u32_codec.length_enc [of "rq_buf rq"]
      u32_codec.dec_enc [of "rq_parent_cluster_number rq"] u32_codec.length_enc [of "rq_parent_cluster_number rq"]
      u32_codec.dec_enc [of "rq_buffer_size rq"] u32_codec.length_enc [of "rq_buffer_size rq"]
    by (simp add: enc_request_def dec_request_def wf_request_def)
qed (simp_all add: enc_dec_request, simp_all add: enc_request_def dec_request_def wf_request_def)

subsection \<open>Memory of the caller\<close>

lemma range_mapped_translate:
  assumes "range_mapped dir a n" "i < n"
  obtains pa where "translate dir (a + of_nat i) = Some pa"
proof -
  let ?q = "(unat a + i) div 0x400000"
  have "page_index (a + of_nat i) = ?q mod 1024"
  proof -
    have "unat (a + of_nat i) = (unat a + i) mod 2 ^ 32" by (simp add: unat_word_ariths unat_of_nat mod_add_right_eq)
    then have "page_index (a + of_nat i) = ((unat a + i) mod 2 ^ 32) div 0x400000"
      by (simp add: page_index_shift drop_bit_eq_div unat_div)
    also have "\<dots> = ?q mod 1024"
      using div_exp_mod_exp_eq [of "unat a + i" 22 10] by simp
    finally show ?thesis .
  qed
  moreover have "present_bit (pde_flag (dir ! (?q mod 1024)))"
  proof -
    have "unat a div 0x400000 \<le> ?q" "?q \<le> (unat a + n - 1) div 0x400000" using assms(2) by (auto intro: div_le_mono)
    then show ?thesis using assms by (auto simp: range_mapped_def)
  qed
  ultimately show thesis using that by (simp add: translate_def)
qed

text \<open>The byte \<open>a + i\<close> belongs to the mapped range \<open>n\<close> bytes from \<open>a\<close> on.\<close>

lemma user_view_stored:
  assumes inv: "paging_inv (k_paging k)" "runs_in k d"
    and m: "range_mapped (page_directory_list (k_paging k) ! d) a n" "i < n"
  shows "user_view (page_directory_list (k_paging k) ! d) (store_view (page_directory_list (k_paging k) ! d) m pm) (a + of_nat i) = m (a + of_nat i)"
proof -
  obtain pa where t: "translate (page_directory_list (k_paging k) ! d) (a + of_nat i) = Some pa" by (rule range_mapped_translate [OF m])
  have d: "d < 32" "page_directory_used (k_paging k) ! d" using inv(2) by (simp_all add: runs_in_def)
  show ?thesis by (rule user_view_store_view [OF directory_frames_inj [OF inv(1) d] t])
qed

lemma mem_read_stored:
  assumes "paging_inv (k_paging k)" "runs_in k d" "range_mapped (page_directory_list (k_paging k) ! d) a n"
  shows "mem_read (user_view (page_directory_list (k_paging k) ! d) (store_view (page_directory_list (k_paging k) ! d) m pm)) a n = mem_read m a n"
  using user_view_stored [OF assms] by (intro nth_equalityI) simp_all

definition caller_view :: "'d kernel \<Rightarrow> nat \<Rightarrow> mem" where
  "caller_view k d = user_view (page_directory_list (k_paging k) ! d) (k_mem k)"

abbreviation caller_mapped :: "'d kernel \<Rightarrow> nat \<Rightarrow> u32 \<Rightarrow> nat \<Rightarrow> bool" where
  "caller_mapped k d \<equiv> range_mapped (page_directory_list (k_paging k) ! d)"

text \<open>
  The process in directory \<open>d\<close> has the request \<open>rq\<close> at \<open>p\<close>, \<open>n\<close> bytes of buffer and a byte for
  the result at \<open>r\<close>.
\<close>

definition call_ready :: "'d kernel \<Rightarrow> nat \<Rightarrow> FAT32DriverRequest \<Rightarrow> u32 \<Rightarrow> u32 \<Rightarrow> nat \<Rightarrow> bool" where
  "call_ready k d rq p r n \<longleftrightarrow> paging_inv (k_paging k) \<and> runs_in k d \<and> wf_request rq \<and>
     caller_mapped k d p 23 \<and> mem_read (caller_view k d) p 23 = enc_request rq \<and>
     caller_mapped k d (rq_buf rq) n \<and> caller_mapped k d r 1"

lemma load_ready:
  assumes "call_ready k d rq p r n"
  shows "load_request (active_directory (k_paging k)) p (k_mem k) = Ret rq" "active_directory (k_paging k) = page_directory_list (k_paging k) ! d"
proof -
  have c: "runs_in k d" "wf_request rq" "caller_mapped k d p 23" "mem_read (caller_view k d) p 23 = enc_request rq"
    using assms by (simp_all add: call_ready_def)
  show a: "active_directory (k_paging k) = page_directory_list (k_paging k) ! d" using active_directory_runs [OF c(1)] .
  show "load_request (active_directory (k_paging k)) p (k_mem k) = Ret rq"
    using c request_codec.dec_enc [OF c(2)] unfolding a by (simp add: load_request_def load_bytes_def caller_view_def)
qed

lemma store_result_view:
  assumes "paging_inv (k_paging k)" "runs_in k d" "caller_mapped k d r 1"
  shows "\<exists>k'. store_result r v k = Ret k' \<and> k' = k\<lparr>k_mem := k_mem k'\<rparr> \<and> caller_view k' d r = of_int v \<and>
    (\<forall>a n i. caller_mapped k d a n \<longrightarrow> i < n \<longrightarrow> a + of_nat i \<noteq> r \<longrightarrow> caller_view k' d (a + of_nat i) = caller_view k d (a + of_nat i))"
proof -
  let ?dir = "page_directory_list (k_paging k) ! d"
  let ?m = "mem_write (user_view ?dir (k_mem k)) r [of_int v]" and ?k = "k\<lparr>k_mem := store_view ?dir (mem_write (user_view ?dir (k_mem k)) r [of_int v]) (k_mem k)\<rparr>"
  have "store_result r v k = Ret ?k"
    using assms by (simp add: store_result_def store_bytes_def active_directory_runs [OF assms(2)])
  moreover have "caller_view ?k d r = of_int v"
    using user_view_stored [OF assms, of 0 ?m "k_mem k"] by (simp add: caller_view_def mem_write_def)
  moreover have "caller_view ?k d (a + of_nat i) = caller_view k d (a + of_nat i)"
    if "caller_mapped k d a n" "i < n" "a + of_nat i \<noteq> r" for a n i
    using user_view_stored [OF assms(1,2) that(1,2), of ?m "k_mem k"] that(3)
    by (simp add: caller_view_def mem_write_def unat_eq_0)
  ultimately show ?thesis by auto
qed

subsection \<open>Writing and reading a file by system calls\<close>

lemma syscall_write_file:
  assumes c: "call_ready k d rq p r (2048 * unat (number_of_partition (rq_buffer_size rq)))"
    and f: "fs_inv D own (k_fs k)" "can_add D (k_fs k) rq 0" "rq_buffer_size rq \<noteq> 0"
      "unat (number_of_partition (rq_buffer_size rq)) \<le> length (free_from (fs_fat (k_fs k)) 3)"
  shows "\<exists>k'. syscall io after frame 2 p r x k = Ret k' \<and> caller_view k' d r = 0 \<and>
    fat_write rq (caller_view k d) (k_fs k) = Ret (0, k_fs k') \<and> k_paging k' = k_paging k \<and> k_procs k' = k_procs k"
proof -
  let ?dir = "page_directory_list (k_paging k) ! d"
  obtain s' where w: "fat_write rq (user_view ?dir (k_mem k)) (k_fs k) = Ret (0, s')"
    using fat_write_file_refines [OF f] by blast
  have i: "paging_inv (k_paging k)" "runs_in k d" "caller_mapped k d r 1"
      "caller_mapped k d (rq_buf rq) (2048 * unat (number_of_partition (rq_buffer_size rq)))"
    using c by (simp_all add: call_ready_def)
  have "\<exists>k'. store_result r 0 (k\<lparr>k_fs := s'\<rparr>) = Ret k' \<and> k' = k\<lparr>k_fs := s'\<rparr>\<lparr>k_mem := k_mem k'\<rparr> \<and> caller_view k' d r = 0"
    using store_result_view [of "k\<lparr>k_fs := s'\<rparr>" d r 0] i by (auto simp: runs_in_def)
  then obtain k' where k': "store_result r 0 (k\<lparr>k_fs := s'\<rparr>) = Ret k'" "k' = k\<lparr>k_fs := s'\<rparr>\<lparr>k_mem := k_mem k'\<rparr>" "caller_view k' d r = 0"
    by blast
  have "syscall io after frame 2 p r x k = Ret k'"
    using load_ready [OF c] w i(4) k'(1) by (simp add: syscall_interrupt interrupt_def sys_write_def)
  moreover have "k_fs k' = s'" "k_paging k' = k_paging k" "k_procs k' = k_procs k" by (subst k'(2), simp)+
  ultimately show ?thesis using w k'(3) by (simp add: caller_view_def)
qed

lemma syscall_read_file:
  assumes f: "fs_inv D own (k_fs k)" "found_slot (k_fs k) rq \<in> slots D (tables (k_fs k))"
      "\<not> is_dir (ent (tables (k_fs k)) (found_slot (k_fs k) rq))" "de_filesize (ent (tables (k_fs k)) (found_slot (k_fs k) rq)) \<le> rq_buffer_size rq"
  defines "bytes \<equiv> concat (map (cluster (fs_disk (k_fs k))) (own (found_slot (k_fs k) rq)))"
  assumes c: "call_ready k d rq p r (length bytes)" and r: "length bytes \<le> unat (r - rq_buf rq)"
  shows "\<exists>k'. syscall io after frame 0 p r x k = Ret k' \<and> caller_view k' d r = 0 \<and>
    mem_read (caller_view k' d) (rq_buf rq) (length bytes) = bytes \<and> k_fs k' = k_fs k"
proof -
  let ?dir = "page_directory_list (k_paging k) ! d" and ?cs = "own (found_slot (k_fs k) rq)"
  note F = found_slotD [OF f(1,2)]
  have cl: "length (concat (map (cluster (fs_disk (k_fs k))) cs)) = 2048 * length cs" for cs
    using length_read_cluster [OF fs_invD(1) [OF f(1)]] by (induction cs) simp_all
  have len: "length bytes = 2048 * length ?cs" unfolding bytes_def by (rule cl)
  have i: "paging_inv (k_paging k)" "runs_in k d" "caller_mapped k d r 1" "caller_mapped k d (rq_buf rq) (length bytes)"
    using c by (simp_all add: call_ready_def)
  let ?k = "k\<lparr>k_mem := store_view ?dir (mem_write (user_view ?dir (k_mem k)) (rq_buf rq) bytes) (k_mem k)\<rparr>"
  have "length ?cs \<le> 510" by (rule chain_length [OF F(6)])
  then have l32: "length bytes \<le> 2 ^ 32" using len by simp
  have rd: "read_into_space ?dir rq (k_fs k) (k_mem k) = Ret (0, k_mem ?k)"
    using fat_read_file [OF f, of "user_view ?dir (k_mem k)"] chain_clusters_chain [OF F(6), of 0] i(4) len
    by (simp add: read_into_space_def Let_def bytes_def)
  have "\<exists>k'. store_result r 0 ?k = Ret k' \<and> k' = ?k\<lparr>k_mem := k_mem k'\<rparr> \<and> caller_view k' d r = 0 \<and>
    (\<forall>a n i. caller_mapped k d a n \<longrightarrow> i < n \<longrightarrow> a + of_nat i \<noteq> r \<longrightarrow> caller_view k' d (a + of_nat i) = caller_view ?k d (a + of_nat i))"
    using store_result_view [of ?k d r 0] i by (auto simp: runs_in_def)
  then obtain k' where k': "store_result r 0 ?k = Ret k'" "k' = ?k\<lparr>k_mem := k_mem k'\<rparr>" "caller_view k' d r = 0"
      "\<And>i. i < length bytes \<Longrightarrow> rq_buf rq + of_nat i \<noteq> r \<Longrightarrow> caller_view k' d (rq_buf rq + of_nat i) = caller_view ?k d (rq_buf rq + of_nat i)"
    using i(4) by blast
  have s: "syscall io after frame 0 p r x k = Ret k'"
    using load_ready [OF c] rd k'(1) by (simp add: syscall_interrupt interrupt_def sys_read_def)
  have "rq_buf rq + of_nat i \<noteq> r" if "i < length bytes" for i using r that l32 by (auto simp: unat_of_nat_u32)
  then have "mem_read (caller_view k' d) (rq_buf rq) (length bytes) = mem_read (caller_view ?k d) (rq_buf rq) (length bytes)"
    using k'(4) by (intro nth_equalityI) simp_all
  also have "\<dots> = bytes"
    using mem_read_stored [OF i(1,2,4), of "mem_write (user_view ?dir (k_mem k)) (rq_buf rq) bytes" "k_mem k"] mem_read_write_same [OF l32]
    by (simp add: caller_view_def)
  finally show ?thesis using s k'(3) k'(2) by (metis kernel.select_convs(1) kernel.surjective kernel.update_convs(4))
qed

definition reads_back :: "FAT32DriverRequest \<Rightarrow> FAT32DriverRequest \<Rightarrow> bool" where
  "reads_back rq rq' \<longleftrightarrow> rq_name rq' = rq_name rq \<and> rq_ext rq' = rq_ext rq \<and>
     rq_parent_cluster_number rq' = rq_parent_cluster_number rq \<and> rq_buffer_size rq \<le> rq_buffer_size rq'"

lemma read_after_write:
  assumes f: "fs_inv D own s" "can_add D s rq 0" "rq_buffer_size rq \<noteq> 0"
      "unat (number_of_partition (rq_buffer_size rq)) \<le> length (free_from (fs_fat s) 3)"
      "\<forall>i<64. \<not> entry_matches (rq_table s rq ! i) rq"
    and w: "fat_write rq m s = Ret (0, s')" and rq': "reads_back rq rq'"
  obtains own' where "fs_inv D own' s'" "found_slot s' rq' \<in> slots D (tables s')" "\<not> is_dir (ent (tables s') (found_slot s' rq'))"
    "de_filesize (ent (tables s') (found_slot s' rq')) \<le> rq_buffer_size rq'"
    "concat (map (cluster (fs_disk s')) (own' (found_slot s' rq'))) = stored_bytes rq m"
proof -
  let ?own = "own(new_slot s rq := file_clusters rq s)"
  have q: "rq_name rq' = rq_name rq" "rq_ext rq' = rq_ext rq" "rq_parent_cluster_number rq' = rq_parent_cluster_number rq"
      "rq_buffer_size rq \<le> rq_buffer_size rq'" using rq' by (simp_all add: reads_back_def)
  have s': "s' = file_written rq (rq_table s rq) (snd (new_slot s rq)) (file_clusters rq s) m s"
    using fat_write_file_result [OF f(1-4), of m] w by simp
  note W = written_found [OF f q(1-3) s']
  have "fs_inv D ?own s'" unfolding s' by (rule file_written_effect(1) [OF f(1-4)])
  moreover have "concat (map (cluster (fs_disk s')) (file_clusters rq s)) = stored_bytes rq m"
    unfolding s' file_written_effect(3) [OF f(1-4)] by (simp add: file_data_def concat_buffers stored_bytes_def)
  ultimately show thesis using that [of ?own] W q(4) by simp
qed

lemma file_exchange:
  assumes c: "call_ready k d rq p r (2048 * unat (number_of_partition (rq_buffer_size rq)))"
    and f: "fs_inv D own (k_fs k)" "can_add D (k_fs k) rq 0" "rq_buffer_size rq \<noteq> 0"
      "unat (number_of_partition (rq_buffer_size rq)) \<le> length (free_from (fs_fat (k_fs k)) 3)"
      "\<forall>i<64. \<not> entry_matches (rq_table (k_fs k) rq ! i) rq"
  shows "\<exists>k1. syscall io after frame 2 p r x k = Ret k1 \<and> caller_view k1 d r = 0 \<and>
    (\<forall>k2 e rq' p' r'. k_fs k2 = k_fs k1 \<longrightarrow> reads_back rq rq' \<longrightarrow>
       call_ready k2 e rq' p' r' (2048 * unat (number_of_partition (rq_buffer_size rq))) \<longrightarrow>
       2048 * unat (number_of_partition (rq_buffer_size rq)) \<le> unat (r' - rq_buf rq') \<longrightarrow>
       (\<exists>k3. syscall io after frame' 0 p' r' y k2 = Ret k3 \<and> caller_view k3 e r' = 0 \<and>
         mem_read (caller_view k3 e) (rq_buf rq') (unat (rq_buffer_size rq)) = mem_read (caller_view k d) (rq_buf rq) (unat (rq_buffer_size rq))))"
proof -
  let ?n = "unat (rq_buffer_size rq)" and ?l = "2048 * unat (number_of_partition (rq_buffer_size rq))"
  obtain k1 where k1: "syscall io after frame 2 p r x k = Ret k1" "caller_view k1 d r = 0"
      "fat_write rq (caller_view k d) (k_fs k) = Ret (0, k_fs k1)"
    using syscall_write_file [OF c f(1-4)] by blast
  have l: "length (stored_bytes rq m) = ?l" "?n \<le> ?l" for m by (simp_all add: stored_bytes_def number_of_partition_ceil)
  have tk: "take ?n (mem_read m a ?l) = mem_read m a ?n" for m a
    using l(2) by (intro nth_equalityI) simp_all
  have "\<exists>k3. syscall io after frame' 0 p' r' y k2 = Ret k3 \<and> caller_view k3 e r' = 0 \<and>
      mem_read (caller_view k3 e) (rq_buf rq') ?n = mem_read (caller_view k d) (rq_buf rq) ?n"
    if k2: "k_fs k2 = k_fs k1" "reads_back rq rq'" "call_ready k2 e rq' p' r' ?l" "?l \<le> unat (r' - rq_buf rq')" for k2 e rq' p' r'
  proof -
    obtain own' where R: "fs_inv D own' (k_fs k2)" "found_slot (k_fs k2) rq' \<in> slots D (tables (k_fs k2))"
        "\<not> is_dir (ent (tables (k_fs k2)) (found_slot (k_fs k2) rq'))" "de_filesize (ent (tables (k_fs k2)) (found_slot (k_fs k2) rq')) \<le> rq_buffer_size rq'"
        "concat (map (cluster (fs_disk (k_fs k2))) (own' (found_slot (k_fs k2) rq'))) = stored_bytes rq (caller_view k d)"
      using read_after_write [OF f k1(3) k2(2)] unfolding k2(1) by blast
    obtain k3 where k3: "syscall io after frame' 0 p' r' y k2 = Ret k3" "caller_view k3 e r' = 0"
        "mem_read (caller_view k3 e) (rq_buf rq') ?l = stored_bytes rq (caller_view k d)"
      using syscall_read_file [OF R(1-4), unfolded R(5) l(1), OF k2(3,4)] by blast
    from k3(3) have "take ?n (mem_read (caller_view k3 e) (rq_buf rq') ?l) = take ?n (mem_read (caller_view k d) (rq_buf rq) ?l)"
      by (simp add: stored_bytes_def)
    then show ?thesis using k3(1,2) unfolding tk by blast
  qed
  then show ?thesis using k1(1,2) by blast
qed

text \<open>
  C7. A file passes from one process to another: a process writes a new file from its memory
  with system call 2; whatever happens then without changing the file system, any process that
  reads the file with system call 0 gets the same bytes in its own memory. Both calls return
  with the result byte 0; request, buffer and result byte are anywhere in mapped memory of the
  caller, the result byte of the reader outside its buffer.
\<close>

theorem file_between_processes:
  assumes "call_ready k d rq p r (2048 * unat (number_of_partition (rq_buffer_size rq)))"
    and "fs_inv D own (k_fs k)" "can_add D (k_fs k) rq 0" "rq_buffer_size rq \<noteq> 0"
      "unat (number_of_partition (rq_buffer_size rq)) \<le> length (free_from (fs_fat (k_fs k)) 3)"
      "\<forall>i<64. \<not> entry_matches (rq_table (k_fs k) rq ! i) rq"
  shows "\<exists>k1. syscall io after frame 2 p r x k = Ret k1 \<and> caller_view k1 d r = 0 \<and>
    (\<forall>k2 e rq' p' r'. k_fs k2 = k_fs k1 \<longrightarrow> reads_back rq rq' \<longrightarrow>
       call_ready k2 e rq' p' r' (2048 * unat (number_of_partition (rq_buffer_size rq))) \<longrightarrow>
       2048 * unat (number_of_partition (rq_buffer_size rq)) \<le> unat (r' - rq_buf rq') \<longrightarrow>
       (\<exists>k3. syscall io after frame' 0 p' r' y k2 = Ret k3 \<and> caller_view k3 e r' = 0 \<and>
         mem_read (caller_view k3 e) (rq_buf rq') (unat (rq_buffer_size rq)) = mem_read (caller_view k d) (rq_buf rq) (unat (rq_buffer_size rq))))"
  using assms by (rule file_exchange)

text \<open>The process of \<open>call_kernel\<close> with a request at \<^verbatim>\<open>0x400000\<close> and a text around it.\<close>

definition request_mem :: "FAT32DriverRequest \<Rightarrow> mem" where
  "request_mem rq = mem_write (\<lambda>_. 65) 0x400000 (enc_request rq)"

definition request_kernel :: "FAT32DriverRequest \<Rightarrow> unit kernel" where
  "request_kernel rq = call_kernel\<lparr>k_fs := fresh_fs,
     k_mem := store_view (page_directory_list (k_paging call_kernel) ! 0) (request_mem rq) (\<lambda>_. 0)\<rparr>"

lemma request_kernel_ready:
  assumes rq: "wf_request rq" "rq_buf rq = 0x401000"
  shows "call_ready (request_kernel rq) 0 rq 0x400000 0x400100 4096"
proof -
  let ?k = "request_kernel rq" and ?dir = "page_directory_list (k_paging call_kernel) ! 0"
  have pr: "present_bit (pde_flag (?dir ! 1))"
    using demo_entry by (simp add: call_kernel_def user_pde_def user_flag_def)
  have m: "range_mapped ?dir 0x400000 23" "range_mapped ?dir 0x401000 4096" "range_mapped ?dir 0x400100 1"
    using pr by (simp_all add: range_mapped_def)
  have k: "k_paging ?k = k_paging call_kernel" "k_mem ?k = store_view ?dir (request_mem rq) (\<lambda>_. 0)" by (simp_all add: request_kernel_def)
  have "mem_read (caller_view ?k 0) 0x400000 23 = mem_read (request_mem rq) 0x400000 23"
    unfolding caller_view_def k using mem_read_stored [OF _ call_kernel_ok(2) m(1)] call_kernel_ok(1) by (simp add: kernel_inv_def)
  also have "\<dots> = enc_request rq"
    unfolding request_mem_def using mem_read_write_same [of "enc_request rq" "\<lambda>_. 65" "0x400000"] request_codec.length_enc [OF rq(1)] by simp
  finally show ?thesis
    using call_kernel_ok m rq by (simp add: call_ready_def k kernel_inv_def) (simp add: runs_in_def k)
qed

theorem file_between_processes_witness:
  "\<exists>rq rq' k1 k3. syscall null_ports 0 \<lparr>frame_cpu = zero_registers, int_number = 0, int_stack = \<lparr>error_code = 0, int_eip = 0, int_cs = 0, int_eflags = 0\<rparr>\<rparr>
       2 0x400000 0x400100 0 (request_kernel rq) = Ret k1 \<and>
     syscall null_ports 0 \<lparr>frame_cpu = zero_registers, int_number = 0, int_stack = \<lparr>error_code = 0, int_eip = 0, int_cs = 0, int_eflags = 0\<rparr>\<rparr>
       0 0x400000 0x400100 0 ((request_kernel rq')\<lparr>k_fs := k_fs k1\<rparr>) = Ret k3 \<and>
     mem_read (caller_view k3 0) 0x401000 3000 = mem_read (caller_view (request_kernel rq) 0) 0x401000 3000"
proof -
  let ?fr = "\<lparr>frame_cpu = zero_registers, int_number = 0, int_stack = \<lparr>error_code = 0, int_eip = 0, int_cs = 0, int_eflags = 0\<rparr>\<rparr>"
  let ?rq = "demo_rq\<lparr>rq_buf := 0x401000\<rparr>" and ?rq' = "demo_rq\<lparr>rq_buf := 0x401000, rq_buffer_size := 4096\<rparr>"
  let ?k2 = "\<lambda>k1. (request_kernel ?rq')\<lparr>k_fs := k_fs k1\<rparr>"
  have q: "wf_request ?rq" "wf_request ?rq'" using demo_name(2) by (simp_all add: wf_request_def)
  have z: "unat (rq_buffer_size demo_rq) = 3000" "rq_parent_cluster_number demo_rq = 2" by (simp_all add: demo_rq_def)
  have n: "2048 * unat (number_of_partition (rq_buffer_size ?rq)) = 4096" using z by (simp add: number_of_partition_ceil)
  have fs: "k_fs (request_kernel ?rq) = fresh_fs" by (simp add: request_kernel_def)
  have add: "can_add {2} fresh_fs ?rq 0" using demo_can_add(1) by (simp add: can_add_def has_key_def wf_request_def)
  have new: "\<forall>i<64. \<not> entry_matches (rq_table fresh_fs ?rq ! i) ?rq"
    using demo_no_match fresh_table z(2) by (simp add: entry_matches_def)
  have rb: "reads_back ?rq ?rq'" using z by (simp add: reads_back_def word_le_nat_alt)
  note c1 = request_kernel_ready [OF q(1)] and c2 = request_kernel_ready [OF q(2)]
  have c2': "call_ready (?k2 k1) 0 ?rq' 0x400000 0x400100 4096" for k1
    using c2 by (simp add: call_ready_def caller_view_def runs_in_def)
  note X = file_between_processes [of "request_kernel ?rq" 0 ?rq "0x400000" "0x400100" "{2}" "\<lambda>_. []", unfolded n fs, OF _ fresh_inv add _ _ new]
  obtain k1 where k1: "syscall null_ports 0 ?fr 2 0x400000 0x400100 0 (request_kernel ?rq) = Ret k1"
    "\<forall>k2 e rq' p' r'. k_fs k2 = k_fs k1 \<longrightarrow> reads_back ?rq rq' \<longrightarrow> call_ready k2 e rq' p' r' 4096 \<longrightarrow>
       4096 \<le> unat (r' - rq_buf rq') \<longrightarrow>
       (\<exists>k3. syscall null_ports 0 ?fr 0 p' r' 0 k2 = Ret k3 \<and> caller_view k3 e r' = 0 \<and>
         mem_read (caller_view k3 e) (rq_buf rq') (unat (rq_buffer_size ?rq)) = mem_read (caller_view (request_kernel ?rq) 0) (rq_buf ?rq) (unat (rq_buffer_size ?rq)))"
    using X [of null_ports 0 ?fr 0 ?fr 0] c1 demo_room by auto
  have "\<exists>k3. syscall null_ports 0 ?fr 0 0x400000 0x400100 0 (?k2 k1) = Ret k3 \<and>
      mem_read (caller_view k3 0) 0x401000 3000 = mem_read (caller_view (request_kernel ?rq) 0) 0x401000 3000"
    using k1(2) [rule_format, OF _ rb c2' [of k1]] z by auto
  then show ?thesis using k1(1) by blast
qed

end
