(* ===== verification/Clock_Program.thy ===== *)
theory Clock_Program
  imports User_Calls
begin

text \<open>
  The clock program, \<^verbatim>\<open>src/src/clock.c\<close>: it prints a line and then calls the clock of the kernel
  for ever. \<open>str\<close> is the address of the string literal; \<open>world n\<close> is what the rest of the machine
  does before round \<open>n\<close>: time passes, other processes run, interrupts come.
\<close>

subsection \<open>The program\<close>

definition clock_message :: "u8 list" where
  "clock_message = map of_char ''Clock is running...'' @ [10]"

definition clock_start :: "'d ports \<Rightarrow> u8 \<Rightarrow> InterruptFrame \<Rightarrow> u32 \<Rightarrow> 'd kernel \<Rightarrow> 'd kernel run" where
  "clock_start io after frame str k =
     (let dir = active_directory (k_paging k) in
      case strlen str (user_view dir (k_mem k)) of
        None \<Rightarrow> None
      | Some n \<Rightarrow> if range_mapped dir str (Suc (unat n)) then syscall io after frame 6 str n 0xF k else Fault Page_Fault)"

primrec clock_rounds ::
  "'d ports \<Rightarrow> u8 \<Rightarrow> InterruptFrame \<Rightarrow> (nat \<Rightarrow> 'd kernel \<Rightarrow> 'd kernel) \<Rightarrow> nat \<Rightarrow> 'd kernel \<Rightarrow> 'd kernel run" where
  "clock_rounds io after frame world 0 k = Ret k"
| "clock_rounds io after frame world (Suc n) k =
     run_bind (clock_rounds io after frame world n k) (\<lambda>k. syscall io after frame 15 0 0 0 (world n k))"

definition clock_main ::
  "'d ports \<Rightarrow> u8 \<Rightarrow> InterruptFrame \<Rightarrow> (nat \<Rightarrow> 'd kernel \<Rightarrow> 'd kernel) \<Rightarrow> u32 \<Rightarrow> nat \<Rightarrow> 'd kernel \<Rightarrow> 'd kernel run" where
  "clock_main io after frame world str n k =
     run_bind (clock_start io after frame str k) (clock_rounds io after frame world n)"

subsection \<open>What it shows\<close>

definition has_literal :: "'d kernel \<Rightarrow> nat \<Rightarrow> u32 \<Rightarrow> u8 list \<Rightarrow> bool" where
  "has_literal k d str str_text \<longleftrightarrow> runs_in k d \<and> caller_mapped k d str (Suc (length str_text)) \<and>
     mem_read (caller_view k d) str (Suc (length str_text)) = str_text @ [0]"

lemma strlen_literal:
  assumes "mem_read m str (Suc (length str_text)) = str_text @ [0]" "0 \<notin> set str_text" "length str_text < 2 ^ 32"
  shows "strlen str m = Some (of_nat (length str_text))"
proof -
  have n: "m (str + of_nat i) = (str_text @ [0]) ! i" if "i \<le> length str_text" for i
    using nth_mem_read [of i "Suc (length str_text)" m str] assms(1) that by simp
  have "m (str + j) \<noteq> 0" if "j < of_nat (length str_text)" for j :: u32
  proof -
    have "unat j < length str_text" using that assms(3) by (simp add: word_less_nat_alt unat_of_nat_u32)
    moreover from this have "str_text ! unat j \<noteq> 0" using nth_mem [of "unat j" str_text] assms(2) by metis
    ultimately show ?thesis using n [of "unat j"] by (simp add: nth_append)
  qed
  then show ?thesis unfolding strlen_spec using n [of "length str_text"] by simp
qed

lemma clock_start_prints:
  assumes "has_literal k d str clock_message"
  shows "clock_start io after frame str k = Ret (k\<lparr>k_console := puts io clock_message 15 (k_console k)\<rparr>)"
proof -
  let ?dir = "page_directory_list (k_paging k) ! d"
  have l: "runs_in k d" "range_mapped ?dir str (Suc (length clock_message))"
      "mem_read (user_view ?dir (k_mem k)) str (Suc (length clock_message)) = clock_message @ [0]"
    using assms by (simp_all add: has_literal_def caller_view_def)
  have z: "0 \<notin> set clock_message" "length clock_message = 20" by code_simp+
  have u: "unat (of_nat (length clock_message) :: u32) = length clock_message" using z(2) by simp
  have s: "strlen str (user_view ?dir (k_mem k)) = Some (of_nat (length clock_message))"
    using strlen_literal [OF l(3) z(1)] z(2) by simp
  have "mem_read (user_view ?dir (k_mem k)) str (length clock_message) = clock_message"
    using arg_cong [OF l(3), of "take (length clock_message)"] by (simp add: mem_read_def take_map)
  moreover have "range_mapped ?dir str (length clock_message)"
    using l(2) z(2) by (auto simp: range_mapped_def intro: order_trans [OF _ div_le_mono])
  ultimately show ?thesis
    using l s u active_directory_runs [OF l(1)]
    by (simp add: clock_start_def Let_def syscall_interrupt interrupt_def sys_puts_def load_bytes_def)
qed

text \<open>The digits buffer of \<open>itoa\<close> ends in a NUL.\<close>

definition digits_ok :: "'d kernel \<Rightarrow> bool" where
  "digits_ok k \<longleftrightarrow> length (itoa_buf k) = 32 \<and> itoa_buf k ! 31 = 0"

text \<open>
  The clock chip keeps its contract and shows times of day; what the rest of the machine does before
  a round leaves the chip in its range and the digits buffer in order.
\<close>

definition clock_world :: "'d ports \<Rightarrow> 'd chip \<Rightarrow> (nat \<Rightarrow> 'd kernel \<Rightarrow> 'd kernel) \<Rightarrow> bool" where
  "clock_world io C world \<longleftrightarrow> rtc_chip io C \<and> times_of_day C \<and>
     (\<forall>n k. digits_ok k \<longrightarrow> digits_ok (world n k) \<and> in_range C (device (k_console (world n k))))"

text \<open>A call that shows the time which the clock has at one moment of the call, and changes the screen nowhere else.\<close>

definition shows_time :: "'d ports \<Rightarrow> 'd chip \<Rightarrow> u8 \<Rightarrow> 'd console \<Rightarrow> 'd console \<Rightarrow> bool" where
  "shows_time io C after s s' \<longleftrightarrow> (\<exists>e. moment io C (device s) e (device s') \<and> clock_cells after (time_of C e) (vram s) (vram s'))"

lemma clock_round:
  assumes w: "clock_world io C world" and k: "digits_ok k"
  shows "\<exists>k'. syscall io after frame 15 0 0 0 (world n k) = Ret k' \<and> digits_ok k' \<and>
    shows_time io C after (k_console (world n k)) (k_console k')"
proof -
  let ?k = "world n k"
  have c: "rtc_chip io C" "in_range C (device (k_console ?k))" "times_of_day C" "digits_ok ?k"
    using w k by (simp_all add: clock_world_def)
  obtain e d' buf' s' where p: "moment io C (device (k_console ?k)) e d'" "device s' = d'"
    "print_current_time io after (itoa_buf ?k) (k_console ?k) = Ret (time_of C e, buf', s')"
    "clock_cells after (time_of C e) (vram (k_console ?k)) (vram s')" "length buf' = 32" "buf' ! 31 = 0"
    using print_current_time_result [OF c(1-3), of "itoa_buf ?k" after] c(4) by (auto simp: digits_ok_def)
  then show ?thesis
    by (auto simp: syscall_interrupt interrupt_def sys_clock_def digits_ok_def shows_time_def)
qed

lemma clock_rounds_run:
  assumes "clock_world io C world" "digits_ok k"
  shows "\<exists>k'. clock_rounds io after frame world n k = Ret k' \<and> digits_ok k'"
proof (induction n)
  case (Suc n)
  then obtain k1 where "clock_rounds io after frame world n k = Ret k1" "digits_ok k1" by blast
  with clock_round [OF assms(1), of k1 after frame n] show ?case by auto
qed (use assms in simp)


text \<open>
  A clock process in the first directory, with the message at \<^verbatim>\<open>0x400000\<close>, and the ticking
  clock chip.
\<close>

definition literal_kernel :: "(u8 \<times> nat) kernel" where
  "literal_kernel = \<lparr>k_fs = k_fs call_kernel, k_paging = k_paging call_kernel, k_procs = k_procs call_kernel,
     k_mem = store_view (page_directory_list (k_paging call_kernel) ! 0) (mem_write (\<lambda>_. 0) 0x400000 clock_message) (\<lambda>_. 0),
     k_console = clock_console, itoa_buf = replicate 32 0, resumed = []\<rparr>"

lemma literal_kernel_ok: "has_literal literal_kernel 0 0x400000 clock_message"
proof -
  let ?dir = "page_directory_list (k_paging call_kernel) ! 0" and ?m = "mem_write (\<lambda>_. 0) 0x400000 clock_message :: mem"
  have l: "length clock_message = 20" by code_simp
  have pr: "present_bit (pde_flag (?dir ! 1))"
    using demo_entry by (simp add: call_kernel_def user_pde_def user_flag_def)
  have m: "range_mapped ?dir 0x400000 21" using pr by (simp add: range_mapped_def)
  have k: "k_paging literal_kernel = k_paging call_kernel" "k_mem literal_kernel = store_view ?dir ?m (\<lambda>_. 0)"
    by (simp_all add: literal_kernel_def)
  have "mem_read (caller_view literal_kernel 0) 0x400000 21 = mem_read ?m 0x400000 21"
    unfolding caller_view_def k using mem_read_stored [OF _ call_kernel_ok(2) m] call_kernel_ok(1) by (simp add: kernel_inv_def)
  also have "\<dots> = clock_message @ [0]"
    using mem_read_add [of ?m "0x400000" 20 1] mem_read_write_same [of clock_message "\<lambda>_. 0" "0x400000"] l
    by (simp add: mem_read_def mem_write_def)
  finally show ?thesis using call_kernel_ok(2) m l k by (simp add: has_literal_def) (simp add: runs_in_def)
qed


end
