(* ===== verification/Spec2Isabelle.thy ===== *)
theory Spec2Isabelle
  imports FAT32_Hazards Paging_Props Disk Inserter Shell_Into Shell_Find Shell_Exec Kernel_Memory Clock_Program
begin

text \<open>
  A verification development for os-2024-semogakelar, a 32-bit x86 teaching operating system
  in C: a kernel with a FAT32-like file system, paging, processes under a preemptive
  scheduler, and system calls; a user shell; and a host tool that builds disk images. All file
  names below are under \<^verbatim>\<open>src/src/\<close>.

  \<^bold>\<open>Parts and how they interact.\<close> The host tool (\<^verbatim>\<open>external-inserter.c\<close>) writes programs into a disk
  image with the same file system driver (\<^verbatim>\<open>fat32.c\<close>) that the kernel uses over the ATA driver
  (\<^verbatim>\<open>disk.c\<close>). At power-on \<^verbatim>\<open>kernel_setup\<close> (\<^verbatim>\<open>kernel.c\<close>) installs the descriptor tables (\<^verbatim>\<open>gdt.c\<close>,
  \<^verbatim>\<open>idt.c\<close>), the interrupt controller and the task state segment (\<^verbatim>\<open>interrupt.c\<close>), clears the screen
  (\<^verbatim>\<open>framebuffer.c\<close>), mounts the file system, loads the shell as the first process (\<^verbatim>\<open>process.c\<close>,
  \<^verbatim>\<open>paging.c\<close>) and switches to it (\<^verbatim>\<open>scheduler.c\<close>). From then on the kernel runs in interrupts: the
  timer switches processes, the keyboard (\<^verbatim>\<open>keyboard.c\<close>) fills a one-character buffer, and interrupt
  0x30 is a system call. The shell (\<^verbatim>\<open>user-shell.c\<close> and one file per command) reads a line, splits
  it and works through system calls.

  \<^bold>\<open>Theories, in the order of their dependencies.\<close>
  \<^item> \<open>OS_Prelude\<close>: machine integers as words, byte-addressed memory, the result type \<open>'a run\<close>
    (\<open>None\<close>: never returns; \<open>Inl\<close>: an access without meaning, such as an index out of bounds;
    \<open>Inr\<close>: returns), the search loop \<open>scan_while\<close> that the sources repeat, byte codecs, and the
    locales \<open>byte_codec\<close>, \<open>slot_allocator\<close> and \<open>invariant_system\<close>. \<open>C_Text\<close>: arrays and C strings.
  \<^item> \<open>String_Lib\<close> (\<^verbatim>\<open>string.c\<close>): memory and string routines against list functions; \<open>itoa\<close>.
  \<^item> \<open>Block_Device\<close>: the block store and the locale \<open>block_device\<close>, interpreted on the store here and on the
    image of the host tool in \<open>Inserter\<close>. \<open>Disk\<close> (\<^verbatim>\<open>disk.c\<close>): the ATA driver over ports. The drive is a
    parameter; \<open>ata_contract\<close> states the protocol it has to keep, and a simulated drive keeps it.
    Both routines are then reads and writes of the block store, and their waiting loops end.
  \<^item> \<open>FAT32_Layout\<close>, \<open>FAT32_Ops\<close> (\<^verbatim>\<open>fat32.c\<close>, \<^verbatim>\<open>header/filesystem/fat32.h\<close>): directory entries, tables and the
    allocation map with their byte layout, and every function of the driver on \<open>fs_state\<close> (the
    disk and the driver's buffers). \<open>FAT32_Chain\<close>, \<open>FAT32_Tree\<close>, \<open>FAT32_Inv\<close>: chains, the invariant
    \<open>fs_inv\<close> (proper chains, no cluster with two owners or none, a tree of directories, map and
    disk in agreement). \<open>FAT32_Write\<close>, \<open>FAT32_Access\<close>, \<open>FAT32_Session\<close>: results of write, read,
    delete and mount, and the invariant over all sequences of operations. \<open>FAT32_Spec\<close>: the
    abstract file system (a map from slots to named files and folders) and the refinement of
    every operation. \<open>FAT32_Props\<close>, \<open>FAT32_Folders\<close>, \<open>FAT32_Hazards\<close>: the properties, and what the
    driver does outside the conditions they need.
  \<^item> \<open>Paging\<close>, \<open>Paging_Props\<close> (\<^verbatim>\<open>paging.c\<close>): page directories, frames, the address translation of a
    process and the separation of the frames of different directories.
  \<^item> \<open>Console\<close> (\<^verbatim>\<open>portio.c\<close>, \<^verbatim>\<open>framebuffer.c\<close>, \<^verbatim>\<open>keyboard.c\<close>), \<open>CMOS\<close> (\<^verbatim>\<open>cmos.c\<close>), \<open>Descriptors\<close> (\<^verbatim>\<open>gdt.c\<close>, \<^verbatim>\<open>idt.c\<close>):
    the devices over the ports, video memory, what every key does, the clock, and the tables as the
    processor reads them. The clock chip is a parameter; \<open>rtc_chip\<close> states what the code relies on of
    it (it may update its registers between any two accesses), and a ticking chip keeps it.
  \<^item> \<open>Process\<close> (\<^verbatim>\<open>process.c\<close>, \<^verbatim>\<open>scheduler.c\<close>): the kernel state and all operations on processes;
    \<open>Scheduler\<close>: round robin and fairness; \<open>Process_Table\<close>, \<open>Process_Create\<close>, \<open>Process_Props\<close>: the
    table invariant, the address space of a new process, isolation, and the invariant of the
    kernel over all sequences of steps.
  \<^item> \<open>Interrupt\<close>, \<open>Interrupt_Props\<close> (\<^verbatim>\<open>interrupt.c\<close>, \<^verbatim>\<open>kernel.c\<close>): all 18 system calls on the memory of the
    caller, the interrupt dispatcher, the start of the kernel; fairness of timer
    interrupts, the start of the shell. \<open>Kernel_Memory\<close>: where system calls store; a call with pointers
    of the user half leaves the kernel's frame and every other process alone. \<open>User_Calls\<close>: the wrapper \<^verbatim>\<open>syscall\<close> of the
    user programs, requests as bytes in the memory of the caller, and a file that passes from one
    process to another. \<open>Clock_Program\<close> (\<^verbatim>\<open>clock.c\<close>): its message and its endless loop, which keeps
    showing the time.
  \<^item> \<open>File_Names\<close>, \<open>Inserter\<close> (\<^verbatim>\<open>external-inserter.c\<close>): the host tool, and the composition of the tool
    with the start of the kernel.
  \<^item> \<open>Shell_Text\<close>, \<open>Shell_Path\<close> (\<^verbatim>\<open>user-shell.c\<close>): the line editor on the polls of the keyboard with their
    echo, words, path components, the text of the current path. \<open>Shell\<close> (\<^verbatim>\<open>cd.c\<close>), \<open>Shell_Files\<close> (\<^verbatim>\<open>mkdir.c\<close>, \<^verbatim>\<open>rm.c\<close>, \<^verbatim>\<open>cp.c\<close>, \<^verbatim>\<open>cat.c\<close>, \<^verbatim>\<open>ls.c\<close>, \<^verbatim>\<open>exec.c\<close>),
    \<open>Shell_Move\<close> (\<^verbatim>\<open>find.c\<close>, \<^verbatim>\<open>mv.c\<close>), \<open>Shell_Main\<close>: the commands and the command loop. \<open>Shell_Walk\<close>: \<^verbatim>\<open>cd\<close> is
    a walk through the directory tables, on every outcome. \<open>Shell_Props\<close>: a folder made by \<^verbatim>\<open>mkdir\<close> is
    entered by \<^verbatim>\<open>cd\<close>; the entry that \<^verbatim>\<open>mv\<close> replaces and the process that \<^verbatim>\<open>kill\<close> ends. \<open>Shell_Commands\<close>,
    \<open>Shell_Effects\<close>: \<^verbatim>\<open>rm\<close>, \<^verbatim>\<open>cp\<close> and \<^verbatim>\<open>cat\<close> on paths, down to the abstract file system; \<open>Shell_Demo\<close>: the
    file system of their witnesses. \<open>Shell_Rename\<close>, \<open>Shell_Into\<close>: \<^verbatim>\<open>mv\<close> to a name that does not exist
    and into a folder. \<open>Shell_Find\<close>: what \<^verbatim>\<open>find\<close> prints on a tree of two levels. \<open>Shell_Exec\<close>:
    \<^verbatim>\<open>exec\<close>, down to the memory of the new process and its first run. \<open>Shell_Line\<close>,
    \<open>Shell_Session\<close>: from the keys of a line, through keyboard interrupts and the editor, to the command, and
    two lines of a session with all that is on the screen.

  \<^bold>\<open>Parameters.\<close> Hardware behind the ports is a record of the four port instructions on an
  unspecified device state. Addresses that assembly or the linker fixes (interrupt stubs, the
  task state segment, stacks), bytes that lie behind an array, and variables that are read
  before they are set (the buffer of \<^verbatim>\<open>cp\<close> and \<^verbatim>\<open>cat\<close>, the queue of \<^verbatim>\<open>find\<close>, a flag of \<^verbatim>\<open>mv\<close>, anew in each round of
  the shell) are arguments of the definitions; so is the number of keyboard interrupts between two
  polls of the shell. Contexts that the scheduler resumes
  are recorded in a list, because the switch itself is assembly.

  \<^bold>\<open>Loops and bounds.\<close> Loops with a bound are total functions with a measure; loops without one
  (cluster chains, free-cluster search, device waiting, pid generation, path changes) are partial
  functions whose value \<open>None\<close> means that the loop does not end, and the properties prove that
  they return. No fuel is used. Pointer and size arithmetic wraps at 32 bits.

  \<^bold>\<open>Simplifications.\<close> The kernel's data structures are records of their own, apart from the bytes of
  physical memory in \<open>k_mem\<close>: a write through a pointer into the kernel half changes bytes of
  frame 0, not these records. The theorem on system calls therefore assumes that no pointer
  reaches the kernel half, and proves that frame 0 is not written. The shell is modelled on the values of
  its variables, not on
  their bytes in user memory: a system call of the shell is the kernel operation it names, and
  no other process acts between two calls of a command. Keyboard interrupts come between the polls
  of the line editor; those that come while a command runs find input off and are dropped by the
  driver, and are not represented. The copies of 512 * 512 bytes from
  and to the 512-byte current path (\<^verbatim>\<open>cd.c\<close>) are copies of that path: the variables behind it are not
  restored on an error. The copy of 8 bytes through the literal \<^verbatim>\<open>""\<close> in \<^verbatim>\<open>init_directory_table\<close>, which C leaves
  undefined, yields a name that no property depends on.

  \<^bold>\<open>Not modelled.\<close> The assembly files and linker scripts (\<^verbatim>\<open>kernel-entrypoint.s\<close>, \<^verbatim>\<open>intsetup.s\<close>, \<^verbatim>\<open>crt0.s\<close>,
  \<^verbatim>\<open>linker.ld\<close>); the file access of the host tool.

  \<^bold>\<open>Next.\<close> \<^verbatim>\<open>mv\<close> of folders and \<^verbatim>\<open>find\<close> on deeper trees; the shell
  over the system call interface with its variables in user memory.
\<close>

end
